(* ===== verification/Go_Prelude.thy ===== *)
theory Go_Prelude
  imports Main "HOL-Library.AList" "HOL-Library.Multiset"
    "HOL-Library.List_Lexorder" "HOL-Library.Char_ord"
begin

text \<open>
  Shared vocabulary of the development.

  A Go function that reads and writes shared state and returns \<open>(value, error)\<close> is a
  function of type \<open>('s, 'e, 'a) go\<close>: it takes the state and gives back either the error
  (\<open>Inl\<close>) or the value (\<open>Inr\<close>), together with the state it leaves behind. The idiom
  \<^verbatim>\<open>x, err := f(); if err != nil { return err }\<close> is \<open>andThen f (\<lambda>x. ...)\<close>;
  \<open>attempt\<close> hands the error to the caller as a value, for the places where the code inspects
  or drops it.

  The collections: \<open>go_iff\<close> turns "this run ended in this result" into facts about its parts,
  \<open>stored\<close> holds the laws of the stores.
\<close>

named_theorems go_iff "inversion of runs of Go code"
named_theorems stored "how the operations act on the stored tables"

subsection \<open>Fallible, state-passing code\<close>

type_synonym ('s, 'e, 'a) go = "'s \<Rightarrow> ('e + 'a) \<times> 's"

definition ret :: "'a \<Rightarrow> ('s, 'e, 'a) go" where
  "ret a = (\<lambda>s. (Inr a, s))"

definition fail :: "'e \<Rightarrow> ('s, 'e, 'a) go" where
  "fail e = (\<lambda>s. (Inl e, s))"

definition andThen :: "('s, 'e, 'a) go \<Rightarrow> ('a \<Rightarrow> ('s, 'e, 'b) go) \<Rightarrow> ('s, 'e, 'b) go" where
  "andThen m f = (\<lambda>s. case m s of (Inl e, s') \<Rightarrow> (Inl e, s') | (Inr a, s') \<Rightarrow> f a s')"

definition attempt :: "('s, 'e, 'a) go \<Rightarrow> ('s, 'e, 'e + 'a) go" where
  "attempt m = (\<lambda>s. case m s of (r, s') \<Rightarrow> (Inr r, s'))"

definition asking :: "('s \<Rightarrow> 'a) \<Rightarrow> ('s, 'e, 'a) go" where
  "asking f = (\<lambda>s. (Inr (f s), s))"

definition updating :: "('s \<Rightarrow> 's) \<Rightarrow> ('s, 'e, unit) go" where
  "updating f = (\<lambda>s. (Inr (), f s))"

text \<open>An infallible call that also returns a value, such as reading the clock.\<close>

definition calling :: "('s \<Rightarrow> 'a \<times> 's) \<Rightarrow> ('s, 'e, 'a) go" where
  "calling f = (\<lambda>s. case f s of (a, s') \<Rightarrow> (Inr a, s'))"

text \<open>\<^verbatim>\<open>for _, x := range xs { if err := f(x); err != nil { return err } }\<close>\<close>

fun forEach :: "('x \<Rightarrow> ('s, 'e, unit) go) \<Rightarrow> 'x list \<Rightarrow> ('s, 'e, unit) go" where
  "forEach f [] = ret ()"
| "forEach f (x # xs) = andThen (f x) (\<lambda>_. forEach f xs)"

text \<open>\<^verbatim>\<open>return x, fmt.Errorf("...: %w", err)\<close>: the error is rewrapped, nothing else.\<close>

definition mapErr :: "('e \<Rightarrow> 'f) \<Rightarrow> ('s, 'e, 'a) go \<Rightarrow> ('s, 'f, 'a) go" where
  "mapErr g m = (\<lambda>s. case m s of (Inl e, s') \<Rightarrow> (Inl (g e), s') | (Inr a, s') \<Rightarrow> (Inr a, s'))"

lemma ret_iff [go_iff, simp]: "ret a s = (r, s') \<longleftrightarrow> r = Inr a \<and> s' = s"
  by (auto simp: ret_def)

lemma fail_iff [go_iff, simp]: "fail e s = (r, s') \<longleftrightarrow> r = Inl e \<and> s' = s"
  by (auto simp: fail_def)

lemma asking_iff [go_iff, simp]: "asking f s = (r, s') \<longleftrightarrow> r = Inr (f s) \<and> s' = s"
  by (auto simp: asking_def)

lemma updating_iff [go_iff, simp]: "updating f s = (r, s') \<longleftrightarrow> r = Inr () \<and> s' = f s"
  by (auto simp: updating_def)

lemma calling_iff [go_iff]: "calling f s = (r, s') \<longleftrightarrow> (\<exists>a. f s = (a, s') \<and> r = Inr a)"
  by (auto simp: calling_def split: prod.splits)

lemma andThen_Inr_iff [go_iff]:
  "andThen m f s = (Inr b, s') \<longleftrightarrow> (\<exists>a s1. m s = (Inr a, s1) \<and> f a s1 = (Inr b, s'))"
  by (auto simp: andThen_def split: prod.splits sum.splits)

lemma andThen_Inl_iff [go_iff]:
  "andThen m f s = (Inl e, s') \<longleftrightarrow>
     m s = (Inl e, s') \<or> (\<exists>a s1. m s = (Inr a, s1) \<and> f a s1 = (Inl e, s'))"
  by (auto simp: andThen_def split: prod.splits sum.splits)

lemma andThen_split:
  assumes "andThen m f s = (r, s')"
  obtains (failed) e where "m s = (Inl e, s')" and "r = Inl e"
        | (went_on) a s1 where "m s = (Inr a, s1)" and "f a s1 = (r, s')"
  using assms by (auto simp: andThen_def split: prod.splits sum.splits)

lemma attempt_iff [go_iff]: "attempt m s = (r, s') \<longleftrightarrow> (\<exists>q. m s = (q, s') \<and> r = Inr q)"
  by (auto simp: attempt_def split: prod.splits)

lemma mapErr_Inr_iff [go_iff]: "mapErr g m s = (Inr a, s') \<longleftrightarrow> m s = (Inr a, s')"
  by (auto simp: mapErr_def split: prod.splits sum.splits)

lemma mapErr_Inl_iff [go_iff]: "mapErr g m s = (Inl e, s') \<longleftrightarrow> (\<exists>d. m s = (Inl d, s') \<and> e = g d)"
  by (auto simp: mapErr_def split: prod.splits sum.splits)

text \<open>Forward evaluation: what is needed to run the code on a concrete state.\<close>

lemma andThen_run [simp]:
  "m s = (Inr a, s1) \<Longrightarrow> andThen m f s = f a s1"
  "m s = (Inl e, s1) \<Longrightarrow> andThen m f s = (Inl e, s1)"
  by (simp_all add: andThen_def)

lemma andThen_ret [simp]: "andThen (ret a) f = f a"
  by (rule ext) (simp add: andThen_def ret_def)

lemma andThen_fail [simp]: "andThen (fail e) f = fail e"
  by (rule ext) (simp add: andThen_def fail_def)

lemma andThen_assoc: "andThen (andThen m f) g = andThen m (\<lambda>a. andThen (f a) g)"
  by (rule ext) (auto simp: andThen_def split: prod.splits sum.splits)

lemma forEach_append:
  "forEach f (xs @ ys) = andThen (forEach f xs) (\<lambda>_. forEach f ys)"
  by (induction xs) (simp_all add: andThen_assoc)

text \<open>A loop keeps whatever every round keeps, whether it runs to its end or stops at an error.\<close>

lemma forEach_invariant:
  assumes "forEach f xs s = (r, s')" and "I s"
    and "\<And>x s r s'. x \<in> set xs \<Longrightarrow> I s \<Longrightarrow> f x s = (r, s') \<Longrightarrow> I s'"
  shows "I s'"
  using assms
proof (induction xs arbitrary: s)
  case Nil
  then show ?case by simp
next
  case (Cons x xs)
  from Cons.prems(1) have "andThen (f x) (\<lambda>_. forEach f xs) s = (r, s')" by simp
  then show ?case
  proof (cases rule: andThen_split)
    case (failed e)
    show ?thesis by (rule Cons.prems(3) [OF _ Cons.prems(2) failed(1)]) simp
  next
    case (went_on a s1)
    have "I s1" by (rule Cons.prems(3) [OF _ Cons.prems(2) went_on(1)]) simp
    show ?thesis
    proof (rule Cons.IH [OF went_on(2) \<open>I s1\<close>])
      fix y t q t'
      assume "y \<in> set xs" and "I t" and "f y t = (q, t')"
      then show "I t'" by (intro Cons.prems(3) [of y t q t']) simp_all
    qed
  qed
qed

subsection \<open>Machine integers\<close>

text \<open>
  Go's \<^verbatim>\<open>int64\<close> is kept as the integer it denotes; \<open>i64\<close> is the
  two's-complement wrap-around that every arithmetic operation ends with.
\<close>

definition i64 :: "int \<Rightarrow> int" where
  "i64 x = (x + 2 ^ 63) mod 2 ^ 64 - 2 ^ 63"

definition in_i64 :: "int \<Rightarrow> bool" where
  "in_i64 x \<longleftrightarrow> - (2 ^ 63) \<le> x \<and> x < 2 ^ 63"

lemma i64_range: "in_i64 (i64 x)"
proof -
  have "0 \<le> (x + 2 ^ 63) mod 2 ^ 64" and "(x + 2 ^ 63) mod 2 ^ 64 < (2 ^ 64 :: int)" by simp_all
  then show ?thesis by (simp add: i64_def in_i64_def)
qed

lemma i64_id [simp]: "in_i64 x \<Longrightarrow> i64 x = x"
  by (simp add: i64_def in_i64_def)

subsection \<open>Lists as tables\<close>

definition mapWhere :: "('a \<Rightarrow> bool) \<Rightarrow> ('a \<Rightarrow> 'a) \<Rightarrow> 'a list \<Rightarrow> 'a list" where
  "mapWhere p f xs = map (\<lambda>x. if p x then f x else x) xs"

lemma mapWhere_simps [simp]:
  "mapWhere p f [] = []"
  "mapWhere p f (x # xs) = (if p x then f x else x) # mapWhere p f xs"
  by (simp_all add: mapWhere_def)

lemma mapWhere_append [simp]: "mapWhere p f (xs @ ys) = mapWhere p f xs @ mapWhere p f ys"
  by (simp add: mapWhere_def)

lemma set_mapWhere: "set (mapWhere p f xs) = {x \<in> set xs. \<not> p x} \<union> f ` {x \<in> set xs. p x}"
  by (auto simp: mapWhere_def)

lemma mapWhere_none: "(\<And>x. x \<in> set xs \<Longrightarrow> \<not> p x) \<Longrightarrow> mapWhere p f xs = xs"
  by (induction xs) auto

lemma mapWhere_cong:
  "(\<And>x. x \<in> set xs \<Longrightarrow> p x = q x) \<Longrightarrow> mapWhere p f xs = mapWhere q f xs"
  by (induction xs) auto

lemma map_mapWhere_same:
  "(\<And>x. x \<in> set xs \<Longrightarrow> p x \<Longrightarrow> g (f x) = g x) \<Longrightarrow> map g (mapWhere p f xs) = map g xs"
  by (induction xs) auto

lemma find_map_key:
  "find (\<lambda>x. k x = i) (map f xs) = map_option f (find (\<lambda>x. k (f x) = i) xs)"
  by (induction xs) auto

lemma find_SomeD: "find p xs = Some x \<Longrightarrow> x \<in> set xs \<and> p x"
  by (auto simp: find_Some_iff)

lemma find_Some_iff_distinct:
  assumes "distinct (map k xs)"
  shows "find (\<lambda>x. k x = i) xs = Some x \<longleftrightarrow> x \<in> set xs \<and> k x = i"
  using assms
proof (induction xs)
  case Nil
  then show ?case by simp
next
  case (Cons y ys)
  then show ?case by (auto simp: image_iff)
qed

lemma find_None_iff_key: "find (\<lambda>x. k x = i) xs = None \<longleftrightarrow> i \<notin> k ` set xs"
  by (auto simp: find_None_iff)

lemma distinct_key_inj:
  "distinct (map k xs) \<Longrightarrow> x \<in> set xs \<Longrightarrow> y \<in> set xs \<Longrightarrow> k x = k y \<Longrightarrow> x = y"
  by (meson distinct_map inj_onD)

lemma sum_list_map_zero: "(\<And>x. x \<in> set xs \<Longrightarrow> f x = 0) \<Longrightarrow> sum_list (map f xs) = (0::int)"
  by (induction xs) auto

lemma sum_list_map_nonneg: "(\<And>x. x \<in> set xs \<Longrightarrow> 0 \<le> f x) \<Longrightarrow> 0 \<le> sum_list (map f xs :: int list)"
  by (induction xs) auto

lemma sum_list_map_ge_member:
  fixes f :: "'a \<Rightarrow> int"
  shows "x \<in> set xs \<Longrightarrow> (\<And>y. y \<in> set xs \<Longrightarrow> 0 \<le> f y) \<Longrightarrow> f x \<le> sum_list (map f xs)"
proof (induction xs)
  case Nil
  then show ?case by simp
next
  case (Cons y ys)
  have nn: "0 \<le> sum_list (map f ys)" by (rule sum_list_map_nonneg) (simp add: Cons.prems(2))
  show ?case
  proof (cases "x = y")
    case True
    with nn show ?thesis by simp
  next
    case False
    with Cons have "f x \<le> sum_list (map f ys)" by simp
    moreover have "0 \<le> f y" by (simp add: Cons.prems(2))
    ultimately show ?thesis by simp
  qed
qed

lemma sum_list_map_mapWhere:
  fixes g :: "'a \<Rightarrow> int"
  shows "sum_list (map g (mapWhere p f xs)) =
     sum_list (map g xs) + sum_list (map (\<lambda>x. if p x then g (f x) - g x else 0) xs)"
  by (induction xs) auto

lemma sum_list_map_distinct_key:
  fixes v :: int
  assumes "distinct (map k xs)" and "x \<in> set xs"
  shows "sum_list (map (\<lambda>y. if k y = k x then g y else 0) xs) = (g x :: int)"
  using assms
proof (induction xs)
  case Nil
  then show ?case by simp
next
  case (Cons y ys)
  show ?case
  proof (cases "x = y")
    case True
    with Cons.prems have "\<And>z. z \<in> set ys \<Longrightarrow> k z \<noteq> k x" by (metis distinct.simps(2) image_eqI list.set_map list.simps(9))
    then have "sum_list (map (\<lambda>z. if k z = k x then g z else 0) ys) = 0"
      by (intro sum_list_map_zero) auto
    with True show ?thesis by simp
  next
    case False
    with Cons.prems have "x \<in> set ys" "k y \<noteq> k x" by auto
    with Cons show ?thesis by simp
  qed
qed

end
