(* ===== verification/Float64.thy ===== *)
theory Float64
  imports Go_Prelude
begin

text \<open>
  The float64 arithmetic of the capacity computation: \<^verbatim>\<open>float64(total) * factor\<close>, its
  floor, and the double-precision subtraction and comparison of the conditional UPDATE.

  A finite double is a mantissa and a binary exponent; every operation computes exactly and then
  rounds to 53 significant bits, ties to even, as IEEE 754 binary64 does. The exponent is not
  bounded: overflow to infinity, subnormal results and NaN are outside the model. The lemmas say
  where the arithmetic is exact: integers up to \<open>2 ^ 53\<close> are, which is the bound the code puts
  on amounts (\<open>maxAmount\<close>).
\<close>

datatype f64 = F64 (f64_mant: int) (f64_exp: int)

text \<open>The number of binary digits of a positive integer.\<close>

function bit_length :: "int \<Rightarrow> nat" where
  "bit_length m = (if m \<le> 0 then 0 else Suc (bit_length (m div 2)))"
  by pat_completeness auto
termination
  by (relation "measure nat") auto

declare bit_length.simps [simp del]

text \<open>Nearest integer to \<open>m / 2 ^ k\<close>, ties to even.\<close>

definition round_half_even :: "int \<Rightarrow> nat \<Rightarrow> int" where
  "round_half_even m k =
     (let q = m div 2 ^ k; r = m mod 2 ^ k
      in if 2 * r < 2 ^ k then q else if 2 ^ k < 2 * r then q + 1
         else if even q then q else q + 1)"

definition f64_round :: "int \<Rightarrow> int \<Rightarrow> f64" where
  "f64_round m e =
     (let b = bit_length \<bar>m\<bar>
      in if b \<le> 53 then F64 m e else F64 (round_half_even m (b - 53)) (e + int (b - 53)))"

definition f64_of_int :: "int \<Rightarrow> f64" where
  "f64_of_int n = f64_round n 0"

fun f64_mul :: "f64 \<Rightarrow> f64 \<Rightarrow> f64" where
  "f64_mul (F64 a e) (F64 b f) = f64_round (a * b) (e + f)"

fun f64_sub :: "f64 \<Rightarrow> f64 \<Rightarrow> f64" where
  "f64_sub (F64 a e) (F64 b f) =
     (let g = min e f in f64_round (a * 2 ^ nat (e - g) - b * 2 ^ nat (f - g)) g)"

fun f64_le :: "f64 \<Rightarrow> f64 \<Rightarrow> bool" where
  "f64_le (F64 a e) (F64 b f) =
     (let g = min e f in a * 2 ^ nat (e - g) \<le> b * 2 ^ nat (f - g))"

text \<open>The integer below a double, and \<^verbatim>\<open>int64(x)\<close>, which drops the fraction.\<close>

fun f64_floor :: "f64 \<Rightarrow> int" where
  "f64_floor (F64 a e) = (if 0 \<le> e then a * 2 ^ nat e else a div 2 ^ nat (- e))"

fun f64_trunc :: "f64 \<Rightarrow> int" where
  "f64_trunc (F64 a e) =
     (if 0 \<le> e then a * 2 ^ nat e else sgn a * (\<bar>a\<bar> div 2 ^ nat (- e)))"

text \<open>
  Conversion to \<^verbatim>\<open>int64\<close>: out of range the Go specification leaves the value to the
  implementation; this is what amd64 gives.
\<close>

definition f64_to_int64 :: "f64 \<Rightarrow> int" where
  "f64_to_int64 x = (if in_i64 (f64_trunc x) then f64_trunc x else - (2 ^ 63))"

text \<open>
  Division: enough binary digits of the quotient and one sticky digit for the remainder, then the
  ordinary rounding. Division by zero is guarded by the callers.
\<close>

fun f64_div :: "f64 \<Rightarrow> f64 \<Rightarrow> f64" where
  "f64_div (F64 a e) (F64 b f) =
     (let k = 55 + bit_length \<bar>b\<bar>;
          n = \<bar>a\<bar> * 2 ^ k;
          q = n div \<bar>b\<bar>;
          sticky = (if n mod \<bar>b\<bar> = 0 then 0 else 1)
      in f64_round (sgn a * sgn b * (2 * q + sticky)) (e - f - int k - 1))"

text \<open>\<open>math.Floor\<close> and SQL's \<open>FLOOR\<close>: the floor of a double is again a double.\<close>

definition f64_floor_f :: "f64 \<Rightarrow> f64" where
  "f64_floor_f x = f64_of_int (f64_floor x)"

subsection \<open>Where the arithmetic is exact\<close>

lemma bit_length_le: "m < 2 ^ k \<Longrightarrow> bit_length m \<le> k"
proof (induction k arbitrary: m)
  case 0
  then show ?case by (simp add: bit_length.simps [of m])
next
  case (Suc k)
  from Suc.prems have "m div 2 < 2 ^ k" by simp
  from Suc.IH [OF this] show ?case by (simp add: bit_length.simps [of m])
qed

lemma f64_round_exact: "\<bar>m\<bar> < 2 ^ 53 \<Longrightarrow> f64_round m e = F64 m e"
  using bit_length_le [of "\<bar>m\<bar>" 53] by (simp add: f64_round_def)

lemma f64_of_int_exact: "\<bar>n\<bar> < 2 ^ 53 \<Longrightarrow> f64_of_int n = F64 n 0"
  by (simp add: f64_of_int_def f64_round_exact)

lemma f64_mul_one: "\<bar>n\<bar> < 2 ^ 53 \<Longrightarrow> f64_mul (F64 n 0) (F64 1 0) = F64 n 0"
  by (simp add: f64_round_exact)

lemma f64_sub_exact: "\<bar>a - b\<bar> < 2 ^ 53 \<Longrightarrow> f64_sub (F64 a 0) (F64 b 0) = F64 (a - b) 0"
  by (simp add: f64_round_exact)

lemma f64_le_int [simp]: "f64_le (F64 a 0) (F64 b 0) \<longleftrightarrow> a \<le> b"
  by simp

lemma f64_trunc_floor: "0 \<le> f64_mant x \<Longrightarrow> f64_trunc x = f64_floor x"
  by (cases x) (simp add: sgn_if)

lemma f64_floor_nonneg: "0 \<le> f64_mant x \<Longrightarrow> 0 \<le> f64_floor x"
  by (cases x) (simp add: pos_imp_zdiv_nonneg_iff)

lemma round_half_even_nonneg: "0 \<le> m \<Longrightarrow> 0 \<le> round_half_even m k"
  by (auto simp: round_half_even_def Let_def pos_imp_zdiv_nonneg_iff)

lemma f64_round_mant_nonneg: "0 \<le> m \<Longrightarrow> 0 \<le> f64_mant (f64_round m e)"
  by (simp add: f64_round_def Let_def round_half_even_nonneg)

lemma f64_of_int_mant_nonneg: "0 \<le> n \<Longrightarrow> 0 \<le> f64_mant (f64_of_int n)"
  by (simp add: f64_of_int_def f64_round_mant_nonneg)

lemma f64_mul_mant_nonneg: "0 \<le> f64_mant x \<Longrightarrow> 0 \<le> f64_mant y \<Longrightarrow> 0 \<le> f64_mant (f64_mul x y)"
  by (cases x; cases y) (simp add: f64_round_mant_nonneg)

text \<open>
  The guard of the conditional UPDATE, evaluated in doubles, is the integer comparison as long as
  the numbers stay below \<open>2 ^ 53\<close>.
\<close>

lemma f64_guard_exact:
  assumes "0 \<le> d" and "0 \<le> r" and "d + r \<le> e" and "e < 2 ^ 53" and "\<bar>n\<bar> < 2 ^ 53"
  shows "f64_le (f64_of_int n) (f64_sub (f64_sub (f64_of_int e) (f64_of_int d)) (f64_of_int r))
     \<longleftrightarrow> n \<le> e - d - r"
proof -
  have "f64_of_int e = F64 e 0" "f64_of_int d = F64 d 0" "f64_of_int r = F64 r 0" "f64_of_int n = F64 n 0"
    using assms by (simp_all add: f64_of_int_exact)
  moreover have "f64_sub (F64 e 0) (F64 d 0) = F64 (e - d) 0"
    using assms by (intro f64_sub_exact) simp
  moreover have "f64_sub (F64 (e - d) 0) (F64 r 0) = F64 (e - d - r) 0"
    using assms by (intro f64_sub_exact) simp
  ultimately show ?thesis by simp
qed

text \<open>Above it rounding is visible: \<open>2 ^ 53 + 1\<close> is not a double.\<close>

lemma f64_of_int_rounds: "f64_of_int (2 ^ 53 + 1) = F64 (2 ^ 52) 1"
  by code_simp

end
