(* ===== verification/Domain_Model.thy ===== *)
theory Domain_Model
  imports Float64
begin

text \<open>
  The domain package (\<^verbatim>\<open>internal/domain\<close>): the persistent entities of
  \<^verbatim>\<open>types.go\<close> as records with the fields of the structs, the string enums as datatypes with
  the string each constant stands for, the errors of \<^verbatim>\<open>errors.go\<close>, and the helper
  functions. Timestamps and durations are integers in microseconds, the resolution of the
  database; a UUID is an opaque identifier ordered as its canonical text is.
\<close>

subsection \<open>Identifiers and time\<close>

datatype uuid = UUID nat

fun uuid_num :: "uuid \<Rightarrow> nat" where
  "uuid_num (UUID n) = n"

lemma uuid_num_inject [simp]: "uuid_num u = uuid_num v \<longleftrightarrow> u = v"
  by (cases u; cases v) simp

instantiation uuid :: linorder
begin

definition less_eq_uuid :: "uuid \<Rightarrow> uuid \<Rightarrow> bool" where
  "less_eq_uuid u v \<longleftrightarrow> uuid_num u \<le> uuid_num v"

definition less_uuid :: "uuid \<Rightarrow> uuid \<Rightarrow> bool" where
  "less_uuid u v \<longleftrightarrow> uuid_num u < uuid_num v"

instance
  by standard (auto simp: less_eq_uuid_def less_uuid_def)

end

type_synonym time = int
type_synonym duration = int

subsection \<open>Enumerations\<close>

datatype request_status =
  StatusReserved | StatusRejected | StatusCompleted | StatusCancelled | StatusExpired

fun status_string :: "request_status \<Rightarrow> string" where
  "status_string StatusReserved = ''RESERVED''"
| "status_string StatusRejected = ''REJECTED''"
| "status_string StatusCompleted = ''COMPLETED''"
| "status_string StatusCancelled = ''CANCELLED''"
| "status_string StatusExpired = ''EXPIRED''"

lemma status_string_inject [simp]: "status_string a = status_string b \<longleftrightarrow> a = b"
  by (cases a; cases b) simp_all

datatype hold_status = HoldActive | HoldReleased | HoldDedicated | HoldExpired

datatype event_type =
  EventCreated | EventReserved | EventRejected | EventConfirmed | EventCancelled
  | EventExpired | EventExtended

datatype reason =
  ReasonInsufficientCapacity | ReasonQuotaExceeded | ReasonInvalidResourceKind
  | ReasonProductNotFound | ReasonMissingIdempotency | ReasonExpired | ReasonExtensionLimit
  | ReasonNotFound | ReasonConflict | ReasonUnavailable | ReasonNotImplemented
  | ReasonIdempotencyKeyReused | ReasonTooManyActiveHolds | ReasonInvalidInput

fun reason_string :: "reason \<Rightarrow> string" where
  "reason_string ReasonInsufficientCapacity = ''INSUFFICIENT_CAPACITY''"
| "reason_string ReasonQuotaExceeded = ''QUOTA_EXCEEDED''"
| "reason_string ReasonInvalidResourceKind = ''INVALID_RESOURCE_KIND''"
| "reason_string ReasonProductNotFound = ''PRODUCT_NOT_FOUND''"
| "reason_string ReasonMissingIdempotency = ''MISSING_IDEMPOTENCY_KEY''"
| "reason_string ReasonExpired = ''EXPIRED''"
| "reason_string ReasonExtensionLimit = ''EXTENSION_LIMIT''"
| "reason_string ReasonNotFound = ''NOT_FOUND''"
| "reason_string ReasonConflict = ''CONFLICT''"
| "reason_string ReasonUnavailable = ''UNAVAILABLE''"
| "reason_string ReasonNotImplemented = ''NOT_IMPLEMENTED''"
| "reason_string ReasonIdempotencyKeyReused = ''IDEMPOTENCY_KEY_REUSED''"
| "reason_string ReasonTooManyActiveHolds = ''TOO_MANY_ACTIVE_HOLDS''"
| "reason_string ReasonInvalidInput = ''INVALID_INPUT''"

subsection \<open>Entities\<close>

record pool_policy =
  pp_Splittable :: bool
  pp_MinGrain :: int
  pp_MaxGrain :: int

record resource_pool =
  rp_ID :: uuid
  rp_Kind :: string
  rp_Unit :: string
  rp_Total :: int
  rp_OversubscribeFactor :: f64
  rp_DedicatedAmount :: int
  rp_ReservedAmount :: int
  rp_Policy :: pool_policy
  rp_CreatedAt :: time
  rp_UpdatedAt :: time

text \<open>A Go map is the list of its entries, in the order a \<^verbatim>\<open>range\<close> loop meets them.\<close>

record product =
  pd_ID :: uuid
  pd_Code :: string
  pd_Name :: string
  pd_ResourceTemplate :: "(string \<times> int) list"
  pd_CreatedAt :: time

record customer_quota =
  cq_ID :: uuid
  cq_CustomerID :: string
  cq_ResourceKind :: string
  cq_Limit :: int
  cq_UsedAmount :: int
  cq_CreatedAt :: time
  cq_UpdatedAt :: time

record capacity_request =
  cr_ID :: uuid
  cr_CustomerID :: string
  cr_IdempotencyKey :: string
  cr_BodyHash :: string
  cr_ProductID :: "uuid option"
  cr_Quantity :: int
  cr_Status :: request_status
  cr_RejectReason :: "reason option"
  cr_ExpiresAt :: "time option"
  cr_ExtensionCount :: int
  cr_CorrelationID :: string
  cr_CreatedAt :: time
  cr_UpdatedAt :: time

record request_line =
  ln_ID :: uuid
  ln_RequestID :: uuid
  ln_PoolID :: uuid
  ln_Kind :: string
  ln_Amount :: int

record hold =
  hd_ID :: uuid
  hd_RequestID :: uuid
  hd_PoolID :: uuid
  hd_Amount :: int
  hd_Status :: hold_status
  hd_CreatedAt :: time
  hd_UpdatedAt :: time

record dedication =
  dd_ID :: uuid
  dd_RequestID :: uuid
  dd_PoolID :: uuid
  dd_HoldID :: uuid
  dd_Amount :: int
  dd_CreatedAt :: time

record request_event =
  ev_ID :: uuid
  ev_RequestID :: uuid
  ev_EventType :: event_type
  ev_Reason :: string
  ev_At :: time

subsection \<open>Capacity arithmetic\<close>

text \<open>
  \<open>Available\<close> is the display helper of the pool, \<open>effective\<close> the capacity it and the reserve
  path start from.
\<close>

definition effective :: "resource_pool \<Rightarrow> int" where
  "effective p = f64_floor (f64_mul (f64_of_int (rp_Total p)) (rp_OversubscribeFactor p))"

definition Available :: "resource_pool \<Rightarrow> int" where
  "Available p =
     (let effective = f64_to_int64 (f64_mul (f64_of_int (rp_Total p)) (rp_OversubscribeFactor p));
          avail = i64 (i64 (effective - rp_DedicatedAmount p) - rp_ReservedAmount p)
      in if avail < 0 then 0 else avail)"

definition Remaining :: "customer_quota \<Rightarrow> int" where
  "Remaining q = (let r = i64 (cq_Limit q - cq_UsedAmount q) in if r < 0 then 0 else r)"

definition AvailableRatio :: "int \<Rightarrow> int \<Rightarrow> int \<Rightarrow> f64 \<Rightarrow> f64" where
  "AvailableRatio ttl dedicated reserved oversubscribe =
     (if ttl \<le> 0 then F64 0 0
      else
        let eff = f64_mul (f64_of_int ttl) oversubscribe;
            avail = f64_sub (f64_sub eff (f64_of_int dedicated)) (f64_of_int reserved);
            avail = (if f64_mant avail < 0 then F64 0 0 else avail)
        in f64_div avail (f64_of_int ttl))"

subsection \<open>Errors\<close>

text \<open>
  The errors the code returns. \<open>AppError\<close> is the struct of \<^verbatim>\<open>errors.go\<close> (its details
  are a map from names to strings or numbers, \<open>None\<close> for nil); \<open>Wrap\<close> is the result of
  \<^verbatim>\<open>fmt.Errorf\<close> with a \<^verbatim>\<open>%w\<close> verb: its text and the wrapped error; \<open>PgError\<close> is an error of the database with its SQLSTATE.
  \<open>ErrRejected\<close> is the sentinel \<^verbatim>\<open>errRejected\<close> of the service, together with the rejection
  the closure leaves in the captured variable \<^verbatim>\<open>rej\<close> whenever it returns that sentinel.
\<close>

datatype detail = DStr string | DInt int

type_synonym details = "(string \<times> detail) list option"

record rejection =
  rej_reason :: reason
  rej_message :: string
  rej_details :: details

datatype go_error =
    AppError reason string details "go_error option"
  | Wrap string go_error
  | PgError string string
  | Plain string
  | ErrInvalidTransition
  | ErrNotImplemented
  | ErrDuplicateRequest
  | ErrRejected rejection

type_synonym ('s, 'a) gor = "('s, go_error, 'a) go"

definition NewAppError :: "reason \<Rightarrow> string \<Rightarrow> details \<Rightarrow> go_error" where
  "NewAppError reason message details = AppError reason message details None"

fun error_string :: "go_error \<Rightarrow> string" where
  "error_string (AppError r m d (Some e)) = m @ '': '' @ error_string e"
| "error_string (AppError r m d None) = m"
| "error_string (Wrap m e) = m"
| "error_string (PgError code m) = m"
| "error_string (Plain m) = m"
| "error_string ErrInvalidTransition = ''invalid status transition''"
| "error_string ErrNotImplemented = ''not implemented''"
| "error_string ErrDuplicateRequest = ''duplicate request''"
| "error_string (ErrRejected r) = ''capacity rejected''"

text \<open>\<^verbatim>\<open>fmt.Errorf("msg: %w", err)\<close>\<close>

definition Errorf :: "string \<Rightarrow> go_error \<Rightarrow> go_error" where
  "Errorf m e = Wrap (m @ '': '' @ error_string e) e"

fun Unwrap :: "go_error \<Rightarrow> go_error option" where
  "Unwrap (AppError r m d e) = e"
| "Unwrap (Wrap m e) = Some e"
| "Unwrap _ = None"

text \<open>
  The chain that \<^verbatim>\<open>errors.Is\<close> and \<^verbatim>\<open>errors.As\<close> walk: the error itself, then
  what it unwraps to.
\<close>

fun chain :: "go_error \<Rightarrow> go_error list" where
  "chain (AppError r m d (Some e)) = AppError r m d (Some e) # chain e"
| "chain (Wrap m e) = Wrap m e # chain e"
| "chain e = [e]"

definition is_duplicate :: "go_error \<Rightarrow> bool" where
  "is_duplicate e \<longleftrightarrow> ErrDuplicateRequest \<in> set (chain e)"

definition AsAppError :: "go_error \<Rightarrow> (reason \<times> string \<times> details) option" where
  "AsAppError e =
     (case find (\<lambda>x. case x of AppError _ _ _ _ \<Rightarrow> True | _ \<Rightarrow> False) (chain e) of
        Some (AppError r m d _) \<Rightarrow> Some (r, m, d)
      | _ \<Rightarrow> None)"

definition as_rejected :: "go_error \<Rightarrow> rejection option" where
  "as_rejected e =
     (case find (\<lambda>x. case x of ErrRejected _ \<Rightarrow> True | _ \<Rightarrow> False) (chain e) of
        Some (ErrRejected r) \<Rightarrow> Some r
      | _ \<Rightarrow> None)"

lemma is_duplicate_simps [simp]:
  "is_duplicate ErrDuplicateRequest"
  "is_duplicate (Wrap m e) = is_duplicate e"
  "is_duplicate (Errorf m e) = is_duplicate e"
  "\<not> is_duplicate (AppError r m d None)"
  "\<not> is_duplicate (PgError c m)"
  "\<not> is_duplicate (Plain m)"
  "\<not> is_duplicate (ErrRejected j)"
  by (simp_all add: is_duplicate_def Errorf_def)

lemma as_rejected_simps [simp]:
  "as_rejected (ErrRejected j) = Some j"
  "as_rejected (Wrap m e) = as_rejected e"
  "as_rejected (Errorf m e) = as_rejected e"
  "as_rejected (AppError r m d None) = None"
  "as_rejected (PgError c m) = None"
  "as_rejected (Plain m) = None"
  "as_rejected ErrDuplicateRequest = None"
  by (simp_all add: as_rejected_def Errorf_def)

lemma AsAppError_simps [simp]:
  "AsAppError (AppError r m d x) = Some (r, m, d)"
  "AsAppError (Wrap m e) = AsAppError e"
  "AsAppError (Errorf m e) = AsAppError e"
  "AsAppError (PgError c m) = None"
  "AsAppError (Plain m) = None"
  "AsAppError ErrDuplicateRequest = None"
  "AsAppError (ErrRejected j) = None"
  by (cases x; simp add: AsAppError_def) (simp_all add: AsAppError_def Errorf_def)

subsection \<open>The request life cycle\<close>

definition ValidateTransition :: "request_status \<Rightarrow> request_status \<Rightarrow> go_error + unit" where
  "ValidateTransition src dst =
     (if src = StatusReserved \<and> dst \<in> {StatusCompleted, StatusCancelled, StatusExpired, StatusReserved}
      then Inr ()
      else Inl (Wrap (error_string ErrInvalidTransition @ '': '' @ status_string src @ '' -> ''
                  @ status_string dst) ErrInvalidTransition))"

definition transition_ok :: "request_status \<Rightarrow> request_status \<Rightarrow> bool" where
  "transition_ok src dst \<longleftrightarrow> ValidateTransition src dst = Inr ()"

lemma transition_ok_iff: "transition_ok src dst \<longleftrightarrow> src = StatusReserved \<and> dst \<noteq> StatusRejected"
  by (cases src; cases dst) (simp_all add: transition_ok_def ValidateTransition_def)

text \<open>
  The status every hold of a request has, given the status of the request; a rejected request
  has no holds.
\<close>

fun hold_status_of :: "request_status \<Rightarrow> hold_status option" where
  "hold_status_of StatusReserved = Some HoldActive"
| "hold_status_of StatusCompleted = Some HoldDedicated"
| "hold_status_of StatusCancelled = Some HoldReleased"
| "hold_status_of StatusExpired = Some HoldExpired"
| "hold_status_of StatusRejected = None"

end
