(* ===== verification/Store_Spec.thy ===== *)
theory Store_Spec
  imports App_Config
begin

text \<open>
  The abstract store: what the repositories promise, independently of how Postgres or the
  in-memory fakes keep it. The tables are those of \<^verbatim>\<open>migrations/000001_init.up.sql\<close>, as lists
  of rows; the operations say how each repository method changes them; the ledger invariant says how
  the counters of the pools and quotas agree with the holds.

  The columns that only a store's own clock or id generator writes (\<^verbatim>\<open>updated_at\<close>, and
  the id and creation time of a quota row) are erased by \<open>unstamp\<close>, so that the same specification
  fits every implementation.
\<close>

record tables =
  t_pools :: "resource_pool list"
  t_products :: "product list"
  t_quotas :: "customer_quota list"
  t_requests :: "capacity_request list"
  t_lines :: "request_line list"
  t_holds :: "hold list"
  t_dedications :: "dedication list"
  t_events :: "request_event list"

definition unstamp_pool :: "resource_pool \<Rightarrow> resource_pool" where
  "unstamp_pool p = p\<lparr>rp_UpdatedAt := 0\<rparr>"

definition unstamp_quota :: "customer_quota \<Rightarrow> customer_quota" where
  "unstamp_quota q = q\<lparr>cq_ID := UUID 0, cq_CreatedAt := 0, cq_UpdatedAt := 0\<rparr>"

definition unstamp_request :: "capacity_request \<Rightarrow> capacity_request" where
  "unstamp_request r = r\<lparr>cr_UpdatedAt := 0\<rparr>"

definition unstamp_hold :: "hold \<Rightarrow> hold" where
  "unstamp_hold h = h\<lparr>hd_UpdatedAt := 0\<rparr>"

definition unstamp :: "tables \<Rightarrow> tables" where
  "unstamp t = t\<lparr>t_pools := map unstamp_pool (t_pools t),
                 t_quotas := map unstamp_quota (t_quotas t),
                 t_requests := map unstamp_request (t_requests t),
                 t_holds := map unstamp_hold (t_holds t)\<rparr>"

lemma unstamp_sel [simp]:
  "t_pools (unstamp t) = map unstamp_pool (t_pools t)"
  "t_products (unstamp t) = t_products t"
  "t_quotas (unstamp t) = map unstamp_quota (t_quotas t)"
  "t_requests (unstamp t) = map unstamp_request (t_requests t)"
  "t_lines (unstamp t) = t_lines t"
  "t_holds (unstamp t) = map unstamp_hold (t_holds t)"
  "t_dedications (unstamp t) = t_dedications t"
  "t_events (unstamp t) = t_events t"
  by (simp_all add: unstamp_def)

lemma unstamp_upd [simp]:
  "unstamp (t\<lparr>t_pools := ps\<rparr>) = (unstamp t)\<lparr>t_pools := map unstamp_pool ps\<rparr>"
  "unstamp (t\<lparr>t_quotas := qs\<rparr>) = (unstamp t)\<lparr>t_quotas := map unstamp_quota qs\<rparr>"
  "unstamp (t\<lparr>t_requests := rs\<rparr>) = (unstamp t)\<lparr>t_requests := map unstamp_request rs\<rparr>"
  "unstamp (t\<lparr>t_lines := ls\<rparr>) = (unstamp t)\<lparr>t_lines := ls\<rparr>"
  "unstamp (t\<lparr>t_holds := hs\<rparr>) = (unstamp t)\<lparr>t_holds := map unstamp_hold hs\<rparr>"
  "unstamp (t\<lparr>t_dedications := ds\<rparr>) = (unstamp t)\<lparr>t_dedications := ds\<rparr>"
  "unstamp (t\<lparr>t_events := es\<rparr>) = (unstamp t)\<lparr>t_events := es\<rparr>"
  by (simp_all add: unstamp_def)

lemma unstamp_pool_sel [simp]:
  "rp_ID (unstamp_pool p) = rp_ID p" "rp_Kind (unstamp_pool p) = rp_Kind p"
  "rp_Total (unstamp_pool p) = rp_Total p"
  "rp_OversubscribeFactor (unstamp_pool p) = rp_OversubscribeFactor p"
  "rp_DedicatedAmount (unstamp_pool p) = rp_DedicatedAmount p"
  "rp_ReservedAmount (unstamp_pool p) = rp_ReservedAmount p"
  "rp_Policy (unstamp_pool p) = rp_Policy p"
  by (simp_all add: unstamp_pool_def)

lemma unstamp_quota_sel [simp]:
  "cq_CustomerID (unstamp_quota q) = cq_CustomerID q"
  "cq_ResourceKind (unstamp_quota q) = cq_ResourceKind q"
  "cq_Limit (unstamp_quota q) = cq_Limit q" "cq_UsedAmount (unstamp_quota q) = cq_UsedAmount q"
  by (simp_all add: unstamp_quota_def)

lemma unstamp_request_sel [simp]:
  "cr_ID (unstamp_request r) = cr_ID r" "cr_CustomerID (unstamp_request r) = cr_CustomerID r"
  "cr_IdempotencyKey (unstamp_request r) = cr_IdempotencyKey r"
  "cr_BodyHash (unstamp_request r) = cr_BodyHash r"
  "cr_ProductID (unstamp_request r) = cr_ProductID r"
  "cr_Quantity (unstamp_request r) = cr_Quantity r"
  "cr_Status (unstamp_request r) = cr_Status r"
  "cr_RejectReason (unstamp_request r) = cr_RejectReason r"
  "cr_ExpiresAt (unstamp_request r) = cr_ExpiresAt r"
  "cr_ExtensionCount (unstamp_request r) = cr_ExtensionCount r"
  "cr_CorrelationID (unstamp_request r) = cr_CorrelationID r"
  "cr_CreatedAt (unstamp_request r) = cr_CreatedAt r"
  by (simp_all add: unstamp_request_def)

lemma unstamp_hold_sel [simp]:
  "hd_ID (unstamp_hold h) = hd_ID h" "hd_RequestID (unstamp_hold h) = hd_RequestID h"
  "hd_PoolID (unstamp_hold h) = hd_PoolID h" "hd_Amount (unstamp_hold h) = hd_Amount h"
  "hd_Status (unstamp_hold h) = hd_Status h"
  by (simp_all add: unstamp_hold_def)

lemma effective_unstamp [simp]: "effective (unstamp_pool p) = effective p"
  by (simp add: effective_def)

subsection \<open>Pools\<close>

text \<open>Every pool operation shifts the reserved and dedicated counters of some pools.\<close>

definition shift_pools :: "(uuid \<Rightarrow> int) \<Rightarrow> (uuid \<Rightarrow> int) \<Rightarrow> resource_pool list \<Rightarrow> resource_pool list" where
  "shift_pools f g ps = map (\<lambda>p. p\<lparr>rp_ReservedAmount := rp_ReservedAmount p + f (rp_ID p),
                                  rp_DedicatedAmount := rp_DedicatedAmount p + g (rp_ID p)\<rparr>) ps"

definition at :: "'k \<Rightarrow> int \<Rightarrow> 'k \<Rightarrow> int" where
  "at i n = (\<lambda>j. if j = i then n else 0)"

lemma at_same [simp]: "at i n i = n" and at_other [simp]: "j \<noteq> i \<Longrightarrow> at i n j = 0"
  by (simp_all add: at_def)

lemma at_zero [simp]: "at i 0 = (\<lambda>_. 0)"
  by (simp add: at_def fun_eq_iff)

lemma shift_pools_zero [simp]: "shift_pools (\<lambda>_. 0) (\<lambda>_. 0) ps = ps"
  by (induction ps) (simp_all add: shift_pools_def)

lemma shift_pools_shift:
  "shift_pools f g (shift_pools f' g' ps) = shift_pools (\<lambda>i. f i + f' i) (\<lambda>i. g i + g' i) ps"
  by (induction ps) (simp_all add: shift_pools_def add.assoc add.commute)

lemma shift_pools_keys [simp]:
  "map rp_ID (shift_pools f g ps) = map rp_ID ps"
  "map rp_Kind (shift_pools f g ps) = map rp_Kind ps"
  by (induction ps) (simp_all add: shift_pools_def)

lemma in_shift_pools:
  "p \<in> set (shift_pools f g ps) \<longleftrightarrow>
     (\<exists>q \<in> set ps. p = q\<lparr>rp_ReservedAmount := rp_ReservedAmount q + f (rp_ID q),
                         rp_DedicatedAmount := rp_DedicatedAmount q + g (rp_ID q)\<rparr>)"
  by (auto simp: shift_pools_def)

lemma shift_pools_cong:
  "(\<And>p. p \<in> set ps \<Longrightarrow> f (rp_ID p) = f' (rp_ID p)) \<Longrightarrow>
   (\<And>p. p \<in> set ps \<Longrightarrow> g (rp_ID p) = g' (rp_ID p)) \<Longrightarrow> shift_pools f g ps = shift_pools f' g' ps"
  by (simp add: shift_pools_def)

lemma effective_counters [simp]:
  "effective (p\<lparr>rp_ReservedAmount := a\<rparr>) = effective p"
  "effective (p\<lparr>rp_DedicatedAmount := b\<rparr>) = effective p"
  "effective (p\<lparr>rp_ReservedAmount := a, rp_DedicatedAmount := b\<rparr>) = effective p"
  by (simp_all add: effective_def)

definition pool_ids :: "tables \<Rightarrow> uuid set" where
  "pool_ids t = rp_ID ` set (t_pools t)"

definition pool_kinds :: "tables \<Rightarrow> string set" where
  "pool_kinds t = rp_Kind ` set (t_pools t)"

definition admits :: "uuid \<Rightarrow> int \<Rightarrow> tables \<Rightarrow> bool" where
  "admits i n t \<longleftrightarrow>
     list_ex (\<lambda>p. rp_ID p = i \<and> n \<le> effective p - rp_DedicatedAmount p - rp_ReservedAmount p) (t_pools t)"

definition reserves_at_least :: "uuid \<Rightarrow> int \<Rightarrow> tables \<Rightarrow> bool" where
  "reserves_at_least i n t \<longleftrightarrow> list_ex (\<lambda>p. rp_ID p = i \<and> n \<le> rp_ReservedAmount p) (t_pools t)"

definition spec_reserve :: "uuid \<Rightarrow> int \<Rightarrow> tables \<Rightarrow> tables" where
  "spec_reserve i n t = t\<lparr>t_pools := shift_pools (at i n) (\<lambda>_. 0) (t_pools t)\<rparr>"

definition spec_release :: "uuid \<Rightarrow> int \<Rightarrow> tables \<Rightarrow> tables" where
  "spec_release i n t =
     (if reserves_at_least i n t
      then t\<lparr>t_pools := shift_pools (at i (- n)) (\<lambda>_. 0) (t_pools t)\<rparr> else t)"

definition spec_dedicate :: "uuid \<Rightarrow> int \<Rightarrow> tables \<Rightarrow> tables" where
  "spec_dedicate i n t =
     (if reserves_at_least i n t
      then t\<lparr>t_pools := shift_pools (at i (- n)) (at i n) (t_pools t)\<rparr> else t)"

subsection \<open>Quotas\<close>

definition quota_key :: "customer_quota \<Rightarrow> string \<times> string" where
  "quota_key q = (cq_CustomerID q, cq_ResourceKind q)"

definition shift_quotas :: "(string \<times> string \<Rightarrow> int) \<Rightarrow> customer_quota list \<Rightarrow> customer_quota list" where
  "shift_quotas f qs = map (\<lambda>q. q\<lparr>cq_UsedAmount := cq_UsedAmount q + f (quota_key q)\<rparr>) qs"

lemma quota_key_upd [simp]:
  "quota_key (q\<lparr>cq_UsedAmount := n\<rparr>) = quota_key q" "quota_key (unstamp_quota q) = quota_key q"
  by (simp_all add: quota_key_def)

lemma shift_quotas_zero [simp]: "shift_quotas (\<lambda>_. 0) qs = qs"
  by (induction qs) (simp_all add: shift_quotas_def)

lemma shift_quotas_shift: "shift_quotas f (shift_quotas g qs) = shift_quotas (\<lambda>k. f k + g k) qs"
  by (induction qs) (simp_all add: shift_quotas_def add.assoc add.commute)

lemma shift_quotas_keys [simp]: "map quota_key (shift_quotas f qs) = map quota_key qs"
  by (induction qs) (simp_all add: shift_quotas_def)

lemma shift_quotas_append [simp]: "shift_quotas f (qs @ rs) = shift_quotas f qs @ shift_quotas f rs"
  by (simp add: shift_quotas_def)

lemma in_shift_quotas:
  "q \<in> set (shift_quotas f qs) \<longleftrightarrow>
     (\<exists>r \<in> set qs. q = r\<lparr>cq_UsedAmount := cq_UsedAmount r + f (quota_key r)\<rparr>)"
  by (auto simp: shift_quotas_def)

definition quota_keys :: "tables \<Rightarrow> (string \<times> string) set" where
  "quota_keys t = quota_key ` set (t_quotas t)"

definition new_quota :: "string \<Rightarrow> string \<Rightarrow> int \<Rightarrow> customer_quota" where
  "new_quota c k limit =
     \<lparr>cq_ID = UUID 0, cq_CustomerID = c, cq_ResourceKind = k, cq_Limit = limit, cq_UsedAmount = 0,
      cq_CreatedAt = 0, cq_UpdatedAt = 0\<rparr>"

definition spec_ensure :: "string \<Rightarrow> string \<Rightarrow> int \<Rightarrow> tables \<Rightarrow> tables" where
  "spec_ensure c k limit t =
     (if list_ex (\<lambda>q. quota_key q = (c, k)) (t_quotas t) then t
      else t\<lparr>t_quotas := t_quotas t @ [new_quota c k limit]\<rparr>)"

definition quota_admits :: "string \<Rightarrow> string \<Rightarrow> int \<Rightarrow> tables \<Rightarrow> bool" where
  "quota_admits c k n t \<longleftrightarrow>
     list_ex (\<lambda>q. quota_key q = (c, k) \<and> n \<le> cq_Limit q - cq_UsedAmount q) (t_quotas t)"

definition spec_consume :: "string \<Rightarrow> string \<Rightarrow> int \<Rightarrow> tables \<Rightarrow> tables" where
  "spec_consume c k n t = t\<lparr>t_quotas := shift_quotas (at (c, k) n) (t_quotas t)\<rparr>"

definition spec_unconsume :: "string \<Rightarrow> string \<Rightarrow> int \<Rightarrow> tables \<Rightarrow> tables" where
  "spec_unconsume c k n t =
     t\<lparr>t_quotas := mapWhere (\<lambda>q. quota_key q = (c, k))
                      (\<lambda>q. q\<lparr>cq_UsedAmount := max (cq_UsedAmount q - n) 0\<rparr>) (t_quotas t)\<rparr>"

subsection \<open>Requests, lines, holds, dedications, events\<close>

definition find_request :: "uuid \<Rightarrow> tables \<Rightarrow> capacity_request option" where
  "find_request i t = find (\<lambda>r. cr_ID r = i) (t_requests t)"

definition find_idem :: "string \<Rightarrow> string \<Rightarrow> tables \<Rightarrow> capacity_request option" where
  "find_idem c k t = find (\<lambda>r. cr_CustomerID r = c \<and> cr_IdempotencyKey r = k) (t_requests t)"

definition is_reserved :: "uuid \<Rightarrow> tables \<Rightarrow> bool" where
  "is_reserved i t \<longleftrightarrow> list_ex (\<lambda>r. cr_ID r = i \<and> cr_Status r = StatusReserved) (t_requests t)"

definition set_status :: "uuid \<Rightarrow> request_status \<Rightarrow> capacity_request list \<Rightarrow> capacity_request list" where
  "set_status i st rs =
     mapWhere (\<lambda>r. cr_ID r = i \<and> cr_Status r = StatusReserved) (\<lambda>r. r\<lparr>cr_Status := st\<rparr>) rs"

definition spec_insert_reserved ::
    "capacity_request \<Rightarrow> request_line list \<Rightarrow> hold list \<Rightarrow> request_event \<Rightarrow> tables \<Rightarrow> tables" where
  "spec_insert_reserved req ls hs ev t =
     t\<lparr>t_requests := t_requests t @ [unstamp_request req], t_lines := t_lines t @ ls,
       t_holds := t_holds t @ map unstamp_hold hs, t_events := t_events t @ [ev]\<rparr>"

definition spec_insert_rejected ::
    "capacity_request \<Rightarrow> request_line list \<Rightarrow> request_event \<Rightarrow> tables \<Rightarrow> tables" where
  "spec_insert_rejected req ls ev t =
     t\<lparr>t_requests := t_requests t @ [unstamp_request req], t_lines := t_lines t @ ls,
       t_events := t_events t @ [ev]\<rparr>"

definition spec_finish ::
    "uuid \<Rightarrow> request_status \<Rightarrow> dedication list \<Rightarrow> request_event \<Rightarrow> tables \<Rightarrow> tables" where
  "spec_finish i st ds ev t =
     (if is_reserved i t
      then t\<lparr>t_requests := set_status i st (t_requests t),
             t_dedications := t_dedications t @ ds, t_events := t_events t @ [ev]\<rparr>
      else t)"

definition spec_extend :: "uuid \<Rightarrow> time \<Rightarrow> int \<Rightarrow> request_event \<Rightarrow> tables \<Rightarrow> tables" where
  "spec_extend i e n ev t =
     (if is_reserved i t
      then t\<lparr>t_requests := mapWhere (\<lambda>r. cr_ID r = i \<and> cr_Status r = StatusReserved)
                              (\<lambda>r. r\<lparr>cr_ExpiresAt := Some e, cr_ExtensionCount := n\<rparr>) (t_requests t),
             t_events := t_events t @ [ev]\<rparr>
      else t)"

definition active_holds :: "uuid \<Rightarrow> tables \<Rightarrow> hold list" where
  "active_holds i t = filter (\<lambda>h. hd_RequestID h = i \<and> hd_Status h = HoldActive) (t_holds t)"

definition spec_hold :: "uuid \<Rightarrow> hold_status \<Rightarrow> hold_status \<Rightarrow> tables \<Rightarrow> tables" where
  "spec_hold i src dst t =
     t\<lparr>t_holds := mapWhere (\<lambda>h. hd_ID h = i \<and> hd_Status h = src) (\<lambda>h. h\<lparr>hd_Status := dst\<rparr>) (t_holds t)\<rparr>"

definition lines_of :: "uuid \<Rightarrow> tables \<Rightarrow> request_line list" where
  "lines_of i t = filter (\<lambda>l. ln_RequestID l = i) (t_lines t)"

definition events_of :: "uuid \<Rightarrow> tables \<Rightarrow> request_event list" where
  "events_of i t = filter (\<lambda>e. ev_RequestID e = i) (t_events t)"

definition count_reserved :: "string \<Rightarrow> tables \<Rightarrow> nat" where
  "count_reserved c t =
     length (filter (\<lambda>r. cr_CustomerID r = c \<and> cr_Status r = StatusReserved \<and>
       list_ex (\<lambda>h. hd_RequestID h = cr_ID r \<and> hd_Status h = HoldActive) (t_holds t)) (t_requests t))"

definition is_due :: "time \<Rightarrow> capacity_request \<Rightarrow> bool" where
  "is_due now r \<longleftrightarrow> cr_Status r = StatusReserved \<and>
     (case cr_ExpiresAt r of None \<Rightarrow> False | Some e \<Rightarrow> e < now)"

subsection \<open>Composed keys\<close>

text \<open>
  Customer and idempotency key joined by a colon, as the fakes and the Redis store do, identify the pair
  as long as the customer id has no colon of its own.
\<close>

definition colon_free :: "string \<Rightarrow> bool" where
  "colon_free c \<longleftrightarrow> CHR 0x3A \<notin> set c"

lemma colon_joined:
  assumes "colon_free c" and "colon_free d"
  shows "c @ CHR 0x3A # k = d @ CHR 0x3A # l \<longleftrightarrow> c = d \<and> k = l"
  using assms
proof (induction c arbitrary: d)
  case Nil
  then show ?case by (cases d) (auto simp: colon_free_def)
next
  case (Cons x xs)
  then show ?case by (cases d) (auto simp: colon_free_def)
qed

end
