(* ===== verification/Port_Interfaces.thy ===== *)
theory Port_Interfaces
  imports Store_Spec
begin

text \<open>
  The interfaces of \<^verbatim>\<open>internal/ports/ports.go\<close>. An interface value is a record of its
  methods over the state \<open>'r\<close> of the repositories (\<open>'c\<close> for the Redis-backed stores); the
  context argument, which carries the transaction in flight, is part of that state.

  Each repository interface is also a locale: its parameters are the methods, its assumptions
  what every implementation promises in terms of the abstract store. \<open>view\<close> reads the store off
  the state, \<open>inv\<close> is the representation invariant of the implementation. A call that fails
  leaves the store as it was unless the law says otherwise.
\<close>

subsection \<open>The interfaces\<close>

record 'r pool_repository =
  pr_List :: "('r, resource_pool list) gor"
  pr_GetByKind :: "string \<Rightarrow> ('r, resource_pool option) gor"
  pr_TryReserve :: "uuid \<Rightarrow> int \<Rightarrow> ('r, bool) gor"
  pr_ReleaseReserved :: "uuid \<Rightarrow> int \<Rightarrow> ('r, unit) gor"
  pr_MoveReservedToDedicated :: "uuid \<Rightarrow> int \<Rightarrow> ('r, unit) gor"

record 'r quota_repository =
  qr_Get :: "string \<Rightarrow> string \<Rightarrow> ('r, customer_quota option) gor"
  qr_ListByCustomer :: "string \<Rightarrow> ('r, customer_quota list) gor"
  qr_TryConsume :: "string \<Rightarrow> string \<Rightarrow> int \<Rightarrow> ('r, bool) gor"
  qr_Release :: "string \<Rightarrow> string \<Rightarrow> int \<Rightarrow> ('r, unit) gor"
  qr_EnsureAndTryConsume :: "string \<Rightarrow> string \<Rightarrow> int \<Rightarrow> int \<Rightarrow> ('r, bool) gor"

record 'r product_repository =
  pd_List :: "('r, product list) gor"
  pd_GetByCode :: "string \<Rightarrow> ('r, product option) gor"

record 'r request_repository =
  rr_FindByIdempotency :: "string \<Rightarrow> string \<Rightarrow> ('r, capacity_request option) gor"
  rr_Get :: "uuid \<Rightarrow> ('r, capacity_request option) gor"
  rr_ListByCustomer :: "string \<Rightarrow> string option \<Rightarrow> ('r, capacity_request list) gor"
  rr_CreateReserved ::
    "capacity_request \<Rightarrow> request_line list \<Rightarrow> hold list \<Rightarrow> request_event \<Rightarrow> ('r, unit) gor"
  rr_CreateRejected :: "capacity_request \<Rightarrow> request_line list \<Rightarrow> request_event \<Rightarrow> ('r, unit) gor"
  rr_Confirm :: "uuid \<Rightarrow> dedication list \<Rightarrow> request_event \<Rightarrow> ('r, bool) gor"
  rr_MarkCancelled :: "uuid \<Rightarrow> request_event \<Rightarrow> ('r, bool) gor"
  rr_MarkExpired :: "uuid \<Rightarrow> request_event \<Rightarrow> ('r, bool) gor"
  rr_Extend :: "uuid \<Rightarrow> time \<Rightarrow> int \<Rightarrow> request_event \<Rightarrow> ('r, bool) gor"
  rr_ListExpiredIDs :: "time \<Rightarrow> nat \<Rightarrow> ('r, uuid list) gor"
  rr_ListEvents :: "uuid \<Rightarrow> ('r, request_event list) gor"
  rr_ListLines :: "uuid \<Rightarrow> ('r, request_line list) gor"
  rr_ListActiveHolds :: "uuid \<Rightarrow> ('r, hold list) gor"
  rr_UpdateHoldStatus :: "uuid \<Rightarrow> hold_status \<Rightarrow> hold_status \<Rightarrow> ('r, bool) gor"
  rr_CountActiveHoldsByCustomer :: "string \<Rightarrow> ('r, int) gor"

text \<open>
  \<open>TxRunner.WithinTx\<close> takes the closure to run. A record field cannot be polymorphic in the
  closure's result, so the interface is given by the three calls \<open>WithinTx\<close> is made of: begin
  (whose handle is what a rollback goes back to), commit and rollback.
\<close>

record 'r tx_runner =
  tx_Begin :: "('r, 'r) gor"
  tx_Commit :: "('r, unit) gor"
  tx_Rollback :: "'r \<Rightarrow> 'r \<Rightarrow> 'r"

record 'r advisory_locker =
  al_TryLock :: "int \<Rightarrow> ('r, bool) gor"
  al_Unlock :: "int \<Rightarrow> ('r, unit) gor"

record 'r health_checker =
  hc_Ping :: "('r, unit) gor"

record 'c cache_store =
  cs_GetCapacity :: "string \<Rightarrow> ('c, string option) gor"
  cs_SetCapacity :: "string \<Rightarrow> string \<Rightarrow> duration \<Rightarrow> ('c, unit) gor"
  cs_InvalidateCapacity :: "string \<Rightarrow> ('c, unit) gor"
  cs_Ping :: "('c, unit) gor"

record 'c idempotency_store =
  is_Get :: "string \<Rightarrow> string \<Rightarrow> ('c, string option) gor"
  is_Set :: "string \<Rightarrow> string \<Rightarrow> string \<Rightarrow> duration \<Rightarrow> ('c, unit) gor"

subsection \<open>The no-op implementations\<close>

definition NoopCache :: "'c cache_store" where
  "NoopCache = \<lparr>cs_GetCapacity = (\<lambda>_. ret None), cs_SetCapacity = (\<lambda>_ _ _. ret ()),
                cs_InvalidateCapacity = (\<lambda>_. ret ()), cs_Ping = ret ()\<rparr>"

definition NoopIdempotency :: "'c idempotency_store" where
  "NoopIdempotency = \<lparr>is_Get = (\<lambda>_ _. ret None), is_Set = (\<lambda>_ _ _ _. ret ())\<rparr>"

definition NoopLocker :: "'r advisory_locker" where
  "NoopLocker = \<lparr>al_TryLock = (\<lambda>_. ret True), al_Unlock = (\<lambda>_. ret ())\<rparr>"

subsection \<open>What the pools promise\<close>

text \<open>
  The pools are well formed: keys are unique, and no pool has committed more than its effective
  capacity, which lies in the range where double arithmetic is exact.
\<close>

definition pool_ok :: "resource_pool \<Rightarrow> bool" where
  "pool_ok p \<longleftrightarrow> 0 \<le> rp_DedicatedAmount p \<and> 0 \<le> rp_ReservedAmount p \<and>
     rp_DedicatedAmount p + rp_ReservedAmount p \<le> effective p \<and> effective p \<le> maxAmount"

definition pools_ok :: "tables \<Rightarrow> bool" where
  "pools_ok t \<longleftrightarrow> distinct (map rp_ID (t_pools t)) \<and> distinct (map rp_Kind (t_pools t)) \<and>
     list_all pool_ok (t_pools t)"

locale pool_port =
  fixes P :: "'r pool_repository"
    and view :: "'r \<Rightarrow> tables"
    and inv :: "'r \<Rightarrow> bool"
  assumes list_pools:
      "inv s \<Longrightarrow> pr_List P s = (r26, s') \<Longrightarrow>
       inv s' \<and> view s' = view s \<and> (\<forall>ps. r26 = Inr ps \<longrightarrow> mset (map unstamp_pool ps) = mset (t_pools (view s)))"
    and get_by_kind:
      "inv s \<Longrightarrow> pr_GetByKind P k s = (r1, s') \<Longrightarrow>
       inv s' \<and> view s' = view s \<and>
       (\<forall>q. r1 = Inr q \<longrightarrow> map_option unstamp_pool q = find (\<lambda>p. rp_Kind p = k) (t_pools (view s)))"
    and try_reserve:
      "inv s \<Longrightarrow> pools_ok (view s) \<Longrightarrow> 0 < n \<Longrightarrow> n \<le> maxAmount \<Longrightarrow> i \<in> pool_ids (view s) \<Longrightarrow>
       pr_TryReserve P i n s = (r2, s') \<Longrightarrow>
       inv s' \<and> (\<forall>b. r2 = Inr b \<longrightarrow> b = admits i n (view s)) \<and>
       view s' = (if r2 = Inr True then spec_reserve i n (view s) else view s)"
    and release_reserved:
      "inv s \<Longrightarrow> pools_ok (view s) \<Longrightarrow> 0 < n \<Longrightarrow> n \<le> maxAmount \<Longrightarrow> i \<in> pool_ids (view s) \<Longrightarrow>
       pr_ReleaseReserved P i n s = (r3, s') \<Longrightarrow>
       inv s' \<and> view s' = (if r3 = Inr () then spec_release i n (view s) else view s)"
    and move_reserved:
      "inv s \<Longrightarrow> pools_ok (view s) \<Longrightarrow> 0 < n \<Longrightarrow> n \<le> maxAmount \<Longrightarrow> i \<in> pool_ids (view s) \<Longrightarrow>
       pr_MoveReservedToDedicated P i n s = (r4, s') \<Longrightarrow>
       inv s' \<and> view s' = (if r4 = Inr () then spec_dedicate i n (view s) else view s)"

subsection \<open>What the quotas promise\<close>

definition quota_ok :: "customer_quota \<Rightarrow> bool" where
  "quota_ok q \<longleftrightarrow> 0 \<le> cq_UsedAmount q \<and> cq_UsedAmount q \<le> cq_Limit q \<and> in_i64 (cq_Limit q)"

definition quotas_ok :: "tables \<Rightarrow> bool" where
  "quotas_ok t \<longleftrightarrow> distinct (map quota_key (t_quotas t)) \<and> list_all quota_ok (t_quotas t)"

locale quota_port =
  fixes Q :: "'r quota_repository"
    and view :: "'r \<Rightarrow> tables"
    and inv :: "'r \<Rightarrow> bool"
  assumes list_quotas:
      "inv s \<Longrightarrow> qr_ListByCustomer Q c s = (r27, s') \<Longrightarrow>
       inv s' \<and> view s' = view s \<and>
       (\<forall>qs. r27 = Inr qs \<longrightarrow>
          mset (map unstamp_quota qs) = mset (filter (\<lambda>q. cq_CustomerID q = c) (t_quotas (view s))))"
    and ensure_and_try_consume:
      "inv s \<Longrightarrow> quotas_ok (view s) \<Longrightarrow> 0 < n \<Longrightarrow> n \<le> maxAmount \<Longrightarrow> 0 \<le> limit \<Longrightarrow> limit \<le> maxAmount \<Longrightarrow>
       qr_EnsureAndTryConsume Q c k n limit s = (r5, s') \<Longrightarrow>
       inv s' \<and> (\<forall>b. r5 = Inr b \<longrightarrow>
         b = quota_admits c k n (spec_ensure c k limit (view s)) \<and>
         view s' = (if b then spec_consume c k n (spec_ensure c k limit (view s))
                    else spec_ensure c k limit (view s))) \<and>
       (\<forall>e. r5 = Inl e \<longrightarrow> view s' = view s \<or> view s' = spec_ensure c k limit (view s))"
    and release_quota:
      "inv s \<Longrightarrow> quotas_ok (view s) \<Longrightarrow> 0 < n \<Longrightarrow> n \<le> maxAmount \<Longrightarrow> qr_Release Q c k n s = (r6, s') \<Longrightarrow>
       inv s' \<and> view s' = (if r6 = Inr () then spec_unconsume c k n (view s) else view s)"

subsection \<open>What the requests promise\<close>

text \<open>
  The ids of requests and of holds are unique, and so is the idempotency key of a customer: a create
  method that succeeds found the key free. The rejected request is written without a transaction,
  so a failure may leave a prefix of its rows behind.
\<close>

definition request_ids :: "tables \<Rightarrow> uuid set" where
  "request_ids t = cr_ID ` set (t_requests t)"

definition product_ids :: "tables \<Rightarrow> uuid set" where
  "product_ids t = pd_ID ` set (t_products t)"

definition hold_ids :: "tables \<Rightarrow> uuid set" where
  "hold_ids t = hd_ID ` set (t_holds t)"

definition holds_distinct :: "tables \<Rightarrow> bool" where
  "holds_distinct t \<longleftrightarrow> distinct (map hd_ID (t_holds t))"

definition requests_distinct :: "tables \<Rightarrow> bool" where
  "requests_distinct t \<longleftrightarrow> distinct (map cr_ID (t_requests t))"

locale request_port =
  fixes R :: "'r request_repository"
    and view :: "'r \<Rightarrow> tables"
    and inv :: "'r \<Rightarrow> bool"
  assumes keys_unique: "inv s \<Longrightarrow> requests_distinct (view s) \<and> holds_distinct (view s)"
    and find_by_idempotency:
      "inv s \<Longrightarrow> rr_FindByIdempotency R c k s = (r7, s') \<Longrightarrow>
       inv s' \<and> view s' = view s \<and>
       (\<forall>q. r7 = Inr q \<longrightarrow> map_option unstamp_request q = find_idem c k (view s))"
    and get_request:
      "inv s \<Longrightarrow> rr_Get R i s = (r8, s') \<Longrightarrow>
       inv s' \<and> view s' = view s \<and>
       (\<forall>q. r8 = Inr q \<longrightarrow> map_option unstamp_request q = find_request i (view s))"
    and count_active:
      "inv s \<Longrightarrow> rr_CountActiveHoldsByCustomer R c s = (r9, s') \<Longrightarrow>
       inv s' \<and> view s' = view s \<and> (\<forall>n. r9 = Inr n \<longrightarrow> n = int (count_reserved c (view s)))"
    and create_reserved:
      "inv s \<Longrightarrow> cr_RejectReason req = None \<Longrightarrow>
       rr_CreateReserved R req ls hs ev s = (r10, s') \<Longrightarrow>
       inv s' \<and> (r10 = Inr () \<longrightarrow>
         find_idem (cr_CustomerID req) (cr_IdempotencyKey req) (view s) = None \<and>
         view s' = spec_insert_reserved req ls hs ev (view s))"
    and create_rejected:
      "inv s \<Longrightarrow> cr_ExpiresAt req = None \<Longrightarrow>
       rr_CreateRejected R req ls ev s = (r11, s') \<Longrightarrow>
       inv s' \<and> (r11 = Inr () \<longrightarrow>
         find_idem (cr_CustomerID req) (cr_IdempotencyKey req) (view s) = None \<and>
         view s' = spec_insert_rejected req ls ev (view s)) \<and>
       (\<forall>e. r11 = Inl e \<longrightarrow>
         (\<exists>reqs lns. view s' = view s\<lparr>t_requests := t_requests (view s) @ reqs,
                                      t_lines := t_lines (view s) @ lns\<rparr> \<and>
            (reqs = [] \<and> lns = [] \<or> reqs = [unstamp_request req] \<and> (\<exists>rest. ls = lns @ rest) \<and>
             find_idem (cr_CustomerID req) (cr_IdempotencyKey req) (view s) = None)))"
    and confirm:
      "inv s \<Longrightarrow> rr_Confirm R i ds ev s = (r12, s') \<Longrightarrow>
       inv s' \<and> (\<forall>b. r12 = Inr b \<longrightarrow>
         b = is_reserved i (view s) \<and> view s' = spec_finish i StatusCompleted ds ev (view s))"
    and mark_cancelled:
      "inv s \<Longrightarrow> rr_MarkCancelled R i ev s = (r13, s') \<Longrightarrow>
       inv s' \<and> (\<forall>b. r13 = Inr b \<longrightarrow>
         b = is_reserved i (view s) \<and> view s' = spec_finish i StatusCancelled [] ev (view s))"
    and mark_expired:
      "inv s \<Longrightarrow> rr_MarkExpired R i ev s = (r14, s') \<Longrightarrow>
       inv s' \<and> (\<forall>b. r14 = Inr b \<longrightarrow>
         b = is_reserved i (view s) \<and> view s' = spec_finish i StatusExpired [] ev (view s))"
    and extend:
      "inv s \<Longrightarrow> rr_Extend R i e n ev s = (r15, s') \<Longrightarrow>
       inv s' \<and> (\<forall>b. r15 = Inr b \<longrightarrow>
         b = is_reserved i (view s) \<and> view s' = spec_extend i e n ev (view s)) \<and>
       (\<forall>x. r15 = Inl x \<longrightarrow> view s' = view s \<or>
         view s' = (spec_extend i e n ev (view s))\<lparr>t_events := t_events (view s)\<rparr>)"
    and list_expired:
      "inv s \<Longrightarrow> rr_ListExpiredIDs R now lim s = (r16, s') \<Longrightarrow>
       inv s' \<and> view s' = view s \<and>
       (\<forall>is. r16 = Inr is \<longrightarrow> length is \<le> lim \<and>
         mset is \<subseteq># mset (map cr_ID (filter (is_due now) (t_requests (view s)))) \<and>
         (length is < lim \<longrightarrow>
           mset is = mset (map cr_ID (filter (is_due now) (t_requests (view s))))))"
    and list_lines:
      "inv s \<Longrightarrow> rr_ListLines R i s = (r17, s') \<Longrightarrow>
       inv s' \<and> view s' = view s \<and> (\<forall>ls. r17 = Inr ls \<longrightarrow> ls = lines_of i (view s))"
    and list_events:
      "inv s \<Longrightarrow> rr_ListEvents R i s = (r28, s') \<Longrightarrow>
       inv s' \<and> view s' = view s \<and> (\<forall>es. r28 = Inr es \<longrightarrow> mset es = mset (events_of i (view s)))"
    and list_by_customer:
      "inv s \<Longrightarrow> rr_ListByCustomer R c st s = (r29, s') \<Longrightarrow>
       inv s' \<and> view s' = view s \<and>
       (\<forall>rs. r29 = Inr rs \<longrightarrow> mset (map unstamp_request rs) =
          mset (filter (\<lambda>r. cr_CustomerID r = c \<and>
            (case st of None \<Rightarrow> True | Some x \<Rightarrow> status_string (cr_Status r) = x)) (t_requests (view s))))"
    and list_active_holds:
      "inv s \<Longrightarrow> rr_ListActiveHolds R i s = (r18, s') \<Longrightarrow>
       inv s' \<and> view s' = view s \<and>
       (\<forall>hs. r18 = Inr hs \<longrightarrow> mset (map unstamp_hold hs) = mset (active_holds i (view s)))"
    and update_hold_status:
      "inv s \<Longrightarrow> holds_distinct (view s) \<Longrightarrow> rr_UpdateHoldStatus R i src dst s = (r19, s') \<Longrightarrow>
       inv s' \<and> (\<forall>b. r19 = Inr b \<longrightarrow>
         b = list_ex (\<lambda>h. hd_ID h = i \<and> hd_Status h = src) (t_holds (view s)) \<and>
         view s' = spec_hold i src dst (view s)) \<and>
       (\<forall>e. r19 = Inl e \<longrightarrow> view s' = view s)"

subsection \<open>What a transaction promises\<close>

text \<open>
  Every repository promises to keep the representation invariant; a transaction runner that rolls
  back restores the store of the moment the transaction began.
\<close>

locale tx_port =
  fixes T :: "'r tx_runner"
    and view :: "'r \<Rightarrow> tables"
    and inv :: "'r \<Rightarrow> bool"
  assumes tx_begin:
      "inv s \<Longrightarrow> tx_Begin T s = (r20, s') \<Longrightarrow>
       inv s' \<and> view s' = view s \<and> (\<forall>h. r20 = Inr h \<longrightarrow> inv h \<and> view h = view s)"
    and tx_commit: "inv s \<Longrightarrow> tx_Commit T s = (r21, s') \<Longrightarrow> inv s' \<and> view s' = view s"

locale atomic_tx_port = tx_port +
  assumes tx_rollback: "inv h \<Longrightarrow> inv s \<Longrightarrow> inv (tx_Rollback T h s) \<and> view (tx_Rollback T h s) = view h"

locale lock_port =
  fixes L :: "'r advisory_locker"
    and view :: "'r \<Rightarrow> tables"
    and inv :: "'r \<Rightarrow> bool"
  assumes try_lock: "inv s \<Longrightarrow> al_TryLock L k s = (r23, s') \<Longrightarrow> inv s' \<and> view s' = view s"
    and unlock: "inv s \<Longrightarrow> al_Unlock L k s = (r24, s') \<Longrightarrow> inv s' \<and> view s' = view s"

locale product_port =
  fixes D :: "'r product_repository"
    and view :: "'r \<Rightarrow> tables"
    and inv :: "'r \<Rightarrow> bool"
  assumes list_products:
      "inv s \<Longrightarrow> pd_List D s = (r30, s') \<Longrightarrow>
       inv s' \<and> view s' = view s \<and> (\<forall>ps. r30 = Inr ps \<longrightarrow> mset ps = mset (t_products (view s)))"
    and get_by_code:
      "inv s \<Longrightarrow> pd_GetByCode D c s = (r25, s') \<Longrightarrow>
       inv s' \<and> view s' = view s \<and> (\<forall>q. r25 = Inr q \<longrightarrow> q = find (\<lambda>p. pd_Code p = c) (t_products (view s)))"

end
