(* ===== verification/Observability.thy ===== *)
theory Observability
  imports Domain_Model
begin

text \<open>
  The Prometheus metrics of \<^verbatim>\<open>internal/observability/metrics.go\<close> that the service and the
  HTTP middleware write: a counter per metric and label values, and the last value set of each gauge.
  The client library itself, the latency histogram and the log are not modelled.
\<close>

datatype metric =
    HTTPRequestsTotal | ReservationAttempts | ReservationRejects | ReservationConfirms
  | ReservationCancels | ReservationExpires | ReservationExtends | SweeperRuns | SweeperExpiredHolds

datatype gauge = HTTPInFlight | PoolAvailableRatio | QuotaUtilization | DependencyUp

record metrics =
  mx_counters :: "metric \<Rightarrow> string list \<Rightarrow> nat"
  mx_gauges :: "gauge \<Rightarrow> string list \<Rightarrow> f64"

definition newMetrics :: metrics where
  "newMetrics = \<lparr>mx_counters = (\<lambda>_ _. 0), mx_gauges = (\<lambda>_ _. F64 0 0)\<rparr>"

definition Inc :: "metric \<Rightarrow> string list \<Rightarrow> metrics \<Rightarrow> metrics" where
  "Inc m labels x = x\<lparr>mx_counters := (mx_counters x)(m := (mx_counters x m)(labels := Suc (mx_counters x m labels)))\<rparr>"

definition SetGauge :: "gauge \<Rightarrow> string list \<Rightarrow> f64 \<Rightarrow> metrics \<Rightarrow> metrics" where
  "SetGauge g labels v x = x\<lparr>mx_gauges := (mx_gauges x)(g := (mx_gauges x g)(labels := v))\<rparr>"

definition AddGauge :: "gauge \<Rightarrow> string list \<Rightarrow> int \<Rightarrow> metrics \<Rightarrow> metrics" where
  "AddGauge g labels n x = SetGauge g labels (f64_sub (mx_gauges x g labels) (F64 (- n) 0)) x"

lemma Inc_count [simp]:
  "mx_counters (Inc m l x) m' l' = (if m = m' \<and> l = l' then Suc (mx_counters x m' l') else mx_counters x m' l')"
  by (simp add: Inc_def)

lemma SetGauge_count [simp]: "mx_counters (SetGauge g l v x) = mx_counters x"
  by (simp add: SetGauge_def)

end
