(* ===== verification/Go_Json.thy ===== *)
theory Go_Json
  imports Domain_Model
begin

text \<open>
  What the service renders with \<^verbatim>\<open>encoding/json\<close>: the details of a rejection, which end up
  in the audit event, and the fingerprint of a request body, which is hashed. Strings are escaped as
  the encoder does with its default HTML escaping; bytes from 128 on are copied, as the encoder
  does for well-formed UTF-8 (its treatment of malformed UTF-8 and of U+2028 and U+2029 is not
  modelled).
\<close>

subsection \<open>Decimal numbers\<close>

fun digit :: "nat \<Rightarrow> char" where
  "digit n = char_of (48 + n)"

function decimal :: "nat \<Rightarrow> string" where
  "decimal n = (if n < 10 then [digit n] else decimal (n div 10) @ [digit (n mod 10)])"
  by pat_completeness auto
termination
  by (relation "measure id") auto

declare decimal.simps [simp del]

definition json_int :: "int \<Rightarrow> string" where
  "json_int k = (if k < 0 then CHR ''-'' # decimal (nat (- k)) else decimal (nat k))"

fun from_decimal :: "nat \<Rightarrow> string \<Rightarrow> nat" where
  "from_decimal acc [] = acc"
| "from_decimal acc (c # cs) = from_decimal (10 * acc + (of_char c - 48)) cs"

lemma from_decimal_append: "from_decimal acc (xs @ ys) = from_decimal (from_decimal acc xs) ys"
  by (induction xs arbitrary: acc) auto

lemma of_char_digit: "n < 10 \<Longrightarrow> of_char (digit n) = (48 + n :: nat)"
  by simp

lemma from_decimal_decimal: "from_decimal 0 (decimal n) = n"
proof (induction n rule: decimal.induct)
  case (1 n)
  show ?case
  proof (cases "n < 10")
    case True
    then show ?thesis by (simp add: decimal.simps [of n] of_char_digit del: digit.simps)
  next
    case False
    with 1 show ?thesis
      by (simp add: decimal.simps [of n] from_decimal_append of_char_digit del: digit.simps)
  qed
qed

lemma decimal_inject [simp]: "decimal m = decimal n \<longleftrightarrow> m = n"
  by (metis from_decimal_decimal)

lemma decimal_digits: "c \<in> set (decimal n) \<Longrightarrow> 48 \<le> (of_char c :: nat) \<and> (of_char c :: nat) \<le> 57"
proof (induction n rule: decimal.induct)
  case (1 n)
  have "\<And>m. m < 10 \<Longrightarrow> 48 \<le> (of_char (digit m) :: nat) \<and> (of_char (digit m) :: nat) \<le> 57"
    by (simp add: of_char_digit del: digit.simps)
  with 1 show ?case
    by (auto simp: decimal.simps [of n] simp del: digit.simps split: if_splits)
qed

lemma minus_not_decimal: "CHR ''-'' # xs \<noteq> decimal n"
proof
  assume "CHR ''-'' # xs = decimal n"
  then have "CHR ''-'' \<in> set (decimal n)" by (metis list.set_intros(1))
  from decimal_digits [OF this] show False by simp
qed

lemma json_int_inject [simp]: "json_int a = json_int b \<longleftrightarrow> a = b"
  using minus_not_decimal minus_not_decimal [symmetric]
  by (auto simp: json_int_def)

subsection \<open>Strings\<close>

definition hex_digit :: "nat \<Rightarrow> char" where
  "hex_digit n = (if n < 10 then char_of (48 + n) else char_of (87 + n))"

definition json_char :: "char \<Rightarrow> string" where
  "json_char c =
     (let n = (of_char c :: nat) in
      if n = 34 then [CHR 0x5C, CHR 0x22]
      else if n = 92 then [CHR 0x5C, CHR 0x5C]
      else if n = 8 then [CHR 0x5C, CHR ''b'']
      else if n = 12 then [CHR 0x5C, CHR ''f'']
      else if n = 10 then [CHR 0x5C, CHR ''n'']
      else if n = 13 then [CHR 0x5C, CHR ''r'']
      else if n = 9 then [CHR 0x5C, CHR ''t'']
      else if n < 32 \<or> n = 60 \<or> n = 62 \<or> n = 38 then
        [CHR 0x5C, CHR ''u'', CHR ''0'', CHR ''0'', hex_digit (n div 16), hex_digit (n mod 16)]
      else [c])"

definition json_string :: "string \<Rightarrow> string" where
  "json_string s = CHR 0x22 # concat (map json_char s) @ [CHR 0x22]"

subsection \<open>Objects and arrays\<close>

fun commas :: "string list \<Rightarrow> string" where
  "commas [] = ''''"
| "commas [x] = x"
| "commas (x # xs) = x @ '','' @ commas xs"

definition json_object :: "(string \<times> string) list \<Rightarrow> string" where
  "json_object kvs = ''{'' @ commas (map (\<lambda>(k, v). json_string k @ '':'' @ v) kvs) @ ''}''"

definition json_array :: "string list \<Rightarrow> string" where
  "json_array xs = ''['' @ commas xs @ '']''"

fun json_detail :: "detail \<Rightarrow> string" where
  "json_detail (DStr s) = json_string s"
| "json_detail (DInt k) = json_int k"

text \<open>A map is rendered with its keys in order.\<close>

definition json_details :: "(string \<times> detail) list \<Rightarrow> string" where
  "json_details kvs = json_object (map (\<lambda>(k, v). (k, json_detail v)) (sort_key fst kvs))"

end
