(* ===== verification/Go_Hoare.thy ===== *)
theory Go_Hoare
  imports Go_Prelude
begin

text \<open>
  Pre- and postconditions for Go code: \<open>hoare P m Q E\<close> says that a run of \<open>m\<close> from a state
  with \<open>P\<close> ends with \<open>Q\<close> of its value and the state left, or with \<open>E\<close> of its error
  and the state left. Runs are total, so this is total correctness. The rules follow the shape of
  the code; \<open>hoare_intro\<close> collects them.
\<close>

named_theorems hoare_intro "syntax-directed rules"

definition hoare ::
    "('s \<Rightarrow> bool) \<Rightarrow> ('s, 'e, 'a) go \<Rightarrow> ('a \<Rightarrow> 's \<Rightarrow> bool) \<Rightarrow> ('e \<Rightarrow> 's \<Rightarrow> bool) \<Rightarrow> bool" where
  "hoare P m Q E \<longleftrightarrow>
     (\<forall>s a s'. P s \<and> m s = (Inr a, s') \<longrightarrow> Q a s') \<and> (\<forall>s e s'. P s \<and> m s = (Inl e, s') \<longrightarrow> E e s')"

lemma hoareI:
  "(\<And>s a s'. P s \<Longrightarrow> m s = (Inr a, s') \<Longrightarrow> Q a s') \<Longrightarrow> (\<And>s e s'. P s \<Longrightarrow> m s = (Inl e, s') \<Longrightarrow> E e s') \<Longrightarrow>
   hoare P m Q E"
  unfolding hoare_def by blast

lemma hoare_Inr: "hoare P m Q E \<Longrightarrow> m s = (Inr a, s') \<Longrightarrow> P s \<Longrightarrow> Q a s'"
  and hoare_Inl: "hoare P m Q E \<Longrightarrow> m s = (Inl e, s') \<Longrightarrow> P s \<Longrightarrow> E e s'"
  unfolding hoare_def by blast+

lemma hoareD:
  assumes "hoare P m Q E" and "m s = (r, s')" and "P s"
  shows "case r of Inl e \<Rightarrow> E e s' | Inr a \<Rightarrow> Q a s'"
  using assms by (cases r) (auto dest: hoare_Inr hoare_Inl)

lemma hoare_conseq:
  "hoare P m Q E \<Longrightarrow> (\<And>s. P' s \<Longrightarrow> P s) \<Longrightarrow> (\<And>a s. Q a s \<Longrightarrow> Q' a s) \<Longrightarrow> (\<And>e s. E e s \<Longrightarrow> E' e s) \<Longrightarrow>
   hoare P' m Q' E'"
  unfolding hoare_def by blast

lemma hoare_pre: "hoare P m Q E \<Longrightarrow> (\<And>s. P' s \<Longrightarrow> P s) \<Longrightarrow> hoare P' m Q E"
  and hoare_post: "hoare P m Q E \<Longrightarrow> (\<And>a s. Q a s \<Longrightarrow> Q' a s) \<Longrightarrow> hoare P m Q' E"
  and hoare_error: "hoare P m Q E \<Longrightarrow> (\<And>e s. E e s \<Longrightarrow> E' e s) \<Longrightarrow> hoare P m Q E'"
  unfolding hoare_def by blast+

lemma hoare_ex_pre: "hoare (\<lambda>s. \<exists>x. P x s) m Q E \<longleftrightarrow> (\<forall>x. hoare (P x) m Q E)"
  unfolding hoare_def by blast

lemma hoare_assume: "(p \<Longrightarrow> hoare P m Q E) \<Longrightarrow> hoare (\<lambda>s. p \<and> P s) m Q E"
  unfolding hoare_def by blast

lemma hoare_ret [hoare_intro]: "(\<And>s. P s \<Longrightarrow> Q a s) \<Longrightarrow> hoare P (ret a) Q E"
  by (auto simp: hoare_def)

lemma hoare_fail [hoare_intro]: "(\<And>s. P s \<Longrightarrow> E e s) \<Longrightarrow> hoare P (fail e) Q E"
  by (auto simp: hoare_def)

lemma hoare_updating: "(\<And>s. P s \<Longrightarrow> Q () (f s)) \<Longrightarrow> hoare P (updating f) Q E"
  by (auto simp: hoare_def)

lemma hoare_andThen [hoare_intro]:
  assumes "hoare P m R E" and "\<And>a. hoare (R a) (f a) Q E"
  shows "hoare P (andThen m f) Q E"
  using assms unfolding hoare_def andThen_Inr_iff andThen_Inl_iff by blast

lemma hoare_attempt [hoare_intro]:
  assumes "hoare P m (\<lambda>a. Q (Inr a)) (\<lambda>e. Q (Inl e))"
  shows "hoare P (attempt m) Q E"
proof (rule hoareI)
  fix s q s' assume P: "P s" and "attempt m s = (Inr q, s')"
  then have "m s = (q, s')" by (simp add: attempt_iff)
  from hoareD [OF assms this P] show "Q q s'" by (simp split: sum.splits)
qed (simp add: attempt_iff)

lemma hoare_if [hoare_intro]:
  "(b \<Longrightarrow> hoare P m Q E) \<Longrightarrow> (\<not> b \<Longrightarrow> hoare P m' Q E) \<Longrightarrow> hoare P (if b then m else m') Q E"
  by simp

lemma hoare_option [hoare_intro]:
  "(x = None \<Longrightarrow> hoare P m Q E) \<Longrightarrow> (\<And>a. x = Some a \<Longrightarrow> hoare P (f a) Q E) \<Longrightarrow>
   hoare P (case x of None \<Rightarrow> m | Some a \<Rightarrow> f a) Q E"
  by (cases x) simp_all

lemma hoare_sum [hoare_intro]:
  "(\<And>a. x = Inl a \<Longrightarrow> hoare P (f a) Q E) \<Longrightarrow> (\<And>b. x = Inr b \<Longrightarrow> hoare P (g b) Q E) \<Longrightarrow>
   hoare P (case x of Inl a \<Rightarrow> f a | Inr b \<Rightarrow> g b) Q E"
  by (cases x) simp_all

lemma hoare_prod [hoare_intro]:
  "(\<And>a b. x = (a, b) \<Longrightarrow> hoare P (f a b) Q E) \<Longrightarrow> hoare P (case x of (a, b) \<Rightarrow> f a b) Q E"
  by (cases x) simp

lemma hoare_let [hoare_intro]: "hoare P (f x) Q E \<Longrightarrow> hoare P (let y = x in f y) Q E"
  by simp

text \<open>A loop: \<open>I\<close> speaks of the elements done so far and those still to come.\<close>

lemma hoare_forEach:
  assumes "\<And>dn x rest. xs = dn @ x # rest \<Longrightarrow> hoare (I dn) (f x) (\<lambda>_. I (dn @ [x])) E"
  shows "hoare (I []) (forEach f xs) (\<lambda>_. I xs) E"
proof -
  have "hoare (I dn) (forEach f ys) (\<lambda>_. I xs) E" if "xs = dn @ ys" for dn ys
    using that
  proof (induction ys arbitrary: dn)
    case Nil
    then show ?case by (auto intro: hoare_ret)
  next
    case (Cons y ys)
    have "hoare (I (dn @ [y])) (forEach f ys) (\<lambda>_. I xs) E" by (rule Cons.IH) (simp add: Cons.prems)
    with assms [OF Cons.prems] show ?case by (auto intro: hoare_andThen)
  qed
  from this [of "[]" xs] show ?thesis by simp
qed

lemma hoare_forEach_inv:
  assumes "\<And>x. x \<in> set xs \<Longrightarrow> hoare I (f x) (\<lambda>_. I) E"
  shows "hoare I (forEach f xs) (\<lambda>_. I) E"
  by (rule hoare_forEach [where I = "\<lambda>_. I"]) (simp add: assms)

text \<open>A loop that collects results.\<close>

fun collect :: "('x \<Rightarrow> ('s, 'e, 'y) go) \<Rightarrow> 'x list \<Rightarrow> ('s, 'e, 'y list) go" where
  "collect f [] = ret []"
| "collect f (x # xs) = andThen (f x) (\<lambda>y. andThen (collect f xs) (\<lambda>ys. ret (y # ys)))"

lemma hoare_collect:
  assumes "\<And>dn x rest. xs = dn @ x # rest \<Longrightarrow> hoare (I dn) (f x) (\<lambda>y s. Q x y \<and> I (dn @ [x]) s) E"
  shows "hoare (I []) (collect f xs) (\<lambda>ys s. list_all2 Q xs ys \<and> I xs s) E"
proof -
  have "hoare (I dn) (collect f ys) (\<lambda>zs s. list_all2 Q ys zs \<and> I xs s) E" if "xs = dn @ ys" for dn ys
    using that
  proof (induction ys arbitrary: dn)
    case Nil
    then show ?case by (auto intro: hoare_ret)
  next
    case (Cons y ys)
    have "hoare (I (dn @ [y])) (collect f ys) (\<lambda>zs s. list_all2 Q ys zs \<and> I xs s) E"
      by (rule Cons.IH) (simp add: Cons.prems)
    then have "hoare (\<lambda>s. Q y z \<and> I (dn @ [y]) s) (andThen (collect f ys) (\<lambda>zs. ret (z # zs)))
        (\<lambda>zs s. list_all2 Q (y # ys) zs \<and> I xs s) E" for z
      by (intro hoare_assume hoare_andThen) (assumption, auto intro: hoare_ret)
    with assms [OF Cons.prems] show ?case by (auto intro: hoare_andThen)
  qed
  from this [of "[]" xs] show ?thesis by simp
qed

lemma hoare_collect_inv:
  assumes "\<And>x. x \<in> set xs \<Longrightarrow> hoare I (f x) (\<lambda>y s. Q x y \<and> I s) E"
  shows "hoare I (collect f xs) (\<lambda>ys s. list_all2 Q xs ys \<and> I s) E"
  by (rule hoare_collect [where I = "\<lambda>_. I"]) (simp add: assms)

subsection \<open>Dropped errors, deferred calls\<close>

text \<open>\<^verbatim>\<open>_ = f()\<close>: the error is dropped.\<close>

definition ignoring :: "('s, 'e, 'a) go \<Rightarrow> ('s, 'e, unit) go" where
  "ignoring m = andThen (attempt m) (\<lambda>_. ret ())"

text \<open>\<^verbatim>\<open>defer func() { _ = d() }()\<close> at the head of \<open>m\<close>.\<close>

definition deferring :: "('s, 'e, 'b) go \<Rightarrow> ('s, 'e, 'a) go \<Rightarrow> ('s, 'e, 'a) go" where
  "deferring d m s = (case m s of (r, s1) \<Rightarrow> (r, snd (d s1)))"

lemma hoare_ignoring: "hoare P m (\<lambda>_. Q ()) (\<lambda>_. Q ()) \<Longrightarrow> hoare P (ignoring m) Q E"
  unfolding ignoring_def by (rule hoare_andThen [OF hoare_attempt [where Q = "\<lambda>_. Q ()"]]) (auto intro: hoare_ret)

lemma hoare_deferring:
  assumes "hoare P m Q E" and "\<And>a. hoare (Q a) d (\<lambda>_. Q' a) (\<lambda>_. Q' a)" and "\<And>e. hoare (E e) d (\<lambda>_. E' e) (\<lambda>_. E' e)"
  shows "hoare P (deferring d m) Q' E'"
proof (rule hoareI)
  fix s a s' assume P: "P s" and run: "deferring d m s = (Inr a, s')"
  then obtain s1 where m: "m s = (Inr a, s1)" and s': "s' = snd (d s1)"
    by (auto simp: deferring_def split: prod.splits)
  obtain r s2 where d: "d s1 = (r, s2)" by fastforce
  from hoareD [OF assms(2) d hoare_Inr [OF assms(1) m P]] d s' show "Q' a s'" by (auto split: sum.splits)
next
  fix s e s' assume P: "P s" and run: "deferring d m s = (Inl e, s')"
  then obtain s1 where m: "m s = (Inl e, s1)" and s': "s' = snd (d s1)"
    by (auto simp: deferring_def split: prod.splits)
  obtain r s2 where d: "d s1 = (r, s2)" by fastforce
  from hoareD [OF assms(3) d hoare_Inl [OF assms(1) m P]] d s' show "E' e s'" by (auto split: sum.splits)
qed

text \<open>Sequencing when the first call's postcondition fixes facts that hold from then on.\<close>

lemma hoare_bind:
  assumes "hoare P m (\<lambda>a s. R a \<and> P' a s) E'" and "\<And>a. R a \<Longrightarrow> hoare (P' a) (f a) Q E"
    and "\<And>e s. E' e s \<Longrightarrow> E e s"
  shows "hoare P (andThen m f) Q E"
  by (rule hoare_andThen [OF hoare_error [OF assms(1,3)]]) (auto intro: hoare_assume assms(2))

lemma hoare_seq:
  assumes "hoare P m (\<lambda>_. P') E'" and "\<And>a. hoare P' (f a) Q E" and "\<And>e s. E' e s \<Longrightarrow> E e s"
  shows "hoare P (andThen m f) Q E"
  by (rule hoare_andThen [OF hoare_error [OF assms(1,3)]]) (auto intro: assms(2))

end
