(* ===== verification/Service_World.thy ===== *)
theory Service_World
  imports Port_Interfaces Observability Go_Json Go_Hoare "HOL-Library.Product_Lexorder"
begin

text \<open>
  What the capacity service works on: the repositories' state, the Redis state, the clock, the
  source of UUIDs and the metrics; the service record of its injected interfaces; and the
  combinators its functions are written with.
\<close>

record ('r, 'c) world =
  w_repo :: 'r
  w_redis :: 'c
  w_clock :: "nat \<Rightarrow> time"
  w_tick :: nat
  w_uuids :: "nat \<Rightarrow> uuid"
  w_drawn :: nat
  w_metrics :: metrics

record capacity_view =
  cv_Pool :: resource_pool
  cv_Available :: int
  cv_CustomerRemaining :: "int option"

text \<open>
  The libraries the service calls: the text form of a UUID and its parser, SHA-256 in hex, the
  JSON codec of the capacity views (\<open>None\<close> for an error), and the order in which a
  \<^verbatim>\<open>range\<close> over a map meets its entries, which Go leaves open.
\<close>

record environment =
  en_uuid_String :: "uuid \<Rightarrow> string"
  en_uuid_Parse :: "string \<Rightarrow> uuid option"
  en_sha256_hex :: "string \<Rightarrow> string"
  en_marshal_views :: "capacity_view list \<Rightarrow> string option"
  en_unmarshal_views :: "string \<Rightarrow> capacity_view list option"
  en_range :: "(string \<times> int) list \<Rightarrow> (string \<times> int) list"

record ('r, 'c) capacity_service =
  sv_pools :: "'r pool_repository"
  sv_quotas :: "'r quota_repository"
  sv_products :: "'r product_repository"
  sv_requests :: "'r request_repository"
  sv_tx :: "'r tx_runner"
  sv_lock :: "'r advisory_locker"
  sv_cache :: "'c cache_store"
  sv_idem :: "'c idempotency_store"
  sv_cfg :: config
  sv_env :: environment

subsection \<open>Calls on the parts of the world\<close>

definition onRepo :: "('r, 'a) gor \<Rightarrow> (('r, 'c) world, 'a) gor" where
  "onRepo m w = (case m (w_repo w) of (r, s) \<Rightarrow> (r, w\<lparr>w_repo := s\<rparr>))"

definition onRedis :: "('c, 'a) gor \<Rightarrow> (('r, 'c) world, 'a) gor" where
  "onRedis m w = (case m (w_redis w) of (r, s) \<Rightarrow> (r, w\<lparr>w_redis := s\<rparr>))"

definition Now :: "(('r, 'c) world, time) gor" where
  "Now = calling (\<lambda>w. (w_clock w (w_tick w), w\<lparr>w_tick := Suc (w_tick w)\<rparr>))"

definition uuid_New :: "(('r, 'c) world, uuid) gor" where
  "uuid_New = calling (\<lambda>w. (w_uuids w (w_drawn w), w\<lparr>w_drawn := Suc (w_drawn w)\<rparr>))"

definition count :: "metric \<Rightarrow> string list \<Rightarrow> (('r, 'c) world, unit) gor" where
  "count m l = updating (\<lambda>w. w\<lparr>w_metrics := Inc m l (w_metrics w)\<rparr>)"

definition gauge :: "gauge \<Rightarrow> string list \<Rightarrow> f64 \<Rightarrow> (('r, 'c) world, unit) gor" where
  "gauge g l v = updating (\<lambda>w. w\<lparr>w_metrics := SetGauge g l v (w_metrics w)\<rparr>)"

subsection \<open>Transactions (postgres.DB.WithinTx)\<close>

text \<open>
  Begin, run the closure, commit; on the error of the closure or of the commit the deferred
  rollback runs.
\<close>

definition WithinTx ::
    "('r, 'c) capacity_service \<Rightarrow> (('r, 'c) world, 'a) gor \<Rightarrow> (('r, 'c) world, 'a) gor" where
  "WithinTx S body w =
     (case onRepo (tx_Begin (sv_tx S)) w of
        (Inl e, w1) \<Rightarrow> (Inl e, w1)
      | (Inr h, w1) \<Rightarrow>
          (case body w1 of
             (Inl e, w2) \<Rightarrow> (Inl e, w2\<lparr>w_repo := tx_Rollback (sv_tx S) h (w_repo w2)\<rparr>)
           | (Inr a, w2) \<Rightarrow>
               (case onRepo (tx_Commit (sv_tx S)) w2 of
                  (Inl e, w3) \<Rightarrow> (Inl e, w3\<lparr>w_repo := tx_Rollback (sv_tx S) h (w_repo w3)\<rparr>)
                | (Inr _, w3) \<Rightarrow> (Inr a, w3))))"

end
