(* ===== verification/Service_Create.thy ===== *)
theory Service_Create
  imports Service_World
begin

text \<open>
  Creating a request (\<^verbatim>\<open>internal/service/capacity.go\<close>): validation, the body hash, the
  idempotent replay, the reservation plan, the reserve transaction and the rejection path; and the
  listing of capacity. The functions are translated one by one, under their names.
\<close>

subsection \<open>Inputs\<close>

record line_input =
  li_ResourceKind :: string
  li_Amount :: int

record create_input =
  ci_CustomerID :: string
  ci_IdempotencyKey :: string
  ci_ProductCode :: string
  ci_Quantity :: int
  ci_Lines :: "line_input list"
  ci_CorrelationID :: string

record reservation_plan =
  pl_kind :: string
  pl_poolID :: uuid
  pl_amount :: int

fun validate_lines :: "string list \<Rightarrow> line_input list \<Rightarrow> go_error option" where
  "validate_lines seen [] = None"
| "validate_lines seen (l # ls) =
     (if li_ResourceKind l = '''' then
        Some (NewAppError ReasonInvalidInput ''resource_kind is required'' None)
      else if li_ResourceKind l \<in> set seen then
        Some (NewAppError ReasonInvalidInput ''duplicate resource_kind in lines''
                (Some [(''kind'', DStr (li_ResourceKind l))]))
      else if li_Amount l \<le> 0 \<or> li_Amount l > maxAmount then
        Some (NewAppError ReasonInvalidInput ''line amount out of bounds''
                (Some [(''kind'', DStr (li_ResourceKind l)), (''amount'', DInt (li_Amount l)),
                       (''max'', DInt maxAmount)]))
      else validate_lines (li_ResourceKind l # seen) ls)"

definition validateCreateInput :: "create_input \<Rightarrow> go_error option" where
  "validateCreateInput inp =
     (if ci_ProductCode inp \<noteq> '''' then
        (if ci_Quantity inp < 0 \<or> ci_Quantity inp > maxQuantity then
           Some (NewAppError ReasonInvalidInput ''quantity out of bounds''
                   (Some [(''quantity'', DInt (ci_Quantity inp)), (''max'', DInt maxQuantity)]))
         else if ci_Lines inp \<noteq> [] then
           Some (NewAppError ReasonInvalidInput ''provide product_id or lines, not both'' None)
         else None)
      else if ci_Lines inp = [] then None
      else if length (ci_Lines inp) > maxLinesPerRequest then
        Some (NewAppError ReasonInvalidInput ''too many resource lines''
                (Some [(''lines'', DInt (int (length (ci_Lines inp)))), (''max'', DInt (int maxLinesPerRequest))]))
      else validate_lines [] (ci_Lines inp))"

subsection \<open>The body hash\<close>

definition fp_lines :: "line_input list \<Rightarrow> line_input list" where
  "fp_lines ls = sort_key (\<lambda>l. (li_ResourceKind l, li_Amount l)) ls"

definition json_fp_line :: "line_input \<Rightarrow> string" where
  "json_fp_line l = json_object [(''resource_kind'', json_string (li_ResourceKind l)),
                                 (''amount'', json_int (li_Amount l))]"

text \<open>All three fields are \<^verbatim>\<open>omitempty\<close>.\<close>

definition body_fingerprint :: "create_input \<Rightarrow> string" where
  "body_fingerprint inp =
     (if ci_ProductCode inp \<noteq> '''' then
        let qty = (if ci_Quantity inp \<le> 0 then 1 else ci_Quantity inp) in
        json_object [(''product_code'', json_string (ci_ProductCode inp)), (''quantity'', json_int qty)]
      else if ci_Lines inp = [] then json_object []
      else json_object [(''lines'', json_array (map json_fp_line (fp_lines (ci_Lines inp))))])"

definition computeBodyHash :: "environment \<Rightarrow> create_input \<Rightarrow> string" where
  "computeBodyHash E inp = en_sha256_hex E (body_fingerprint inp)"

subsection \<open>Idempotent replay\<close>

definition matchIdempotentBody ::
    "environment \<Rightarrow> capacity_request \<Rightarrow> string \<Rightarrow> ('s, capacity_request) gor" where
  "matchIdempotentBody E existing bodyHash =
     (if cr_BodyHash existing \<noteq> '''' \<and> cr_BodyHash existing \<noteq> bodyHash then
        fail (NewAppError ReasonIdempotencyKeyReused ''idempotency key reused with different body''
                (Some [(''request_id'', DStr (en_uuid_String E (cr_ID existing)))]))
      else ret existing)"

text \<open>The lookup through the idempotency store: \<open>None\<close> falls through to the table.\<close>

definition replay_fast ::
    "('r, 'c) capacity_service \<Rightarrow> create_input \<Rightarrow> (('r, 'c) world, capacity_request option) gor" where
  "replay_fast S inp =
     andThen (attempt (onRedis (is_Get (sv_idem S) (ci_CustomerID inp) (ci_IdempotencyKey inp))))
       (\<lambda>g. case g of
          Inr (Some i) \<Rightarrow> (case en_uuid_Parse (sv_env S) i of
                             Some uid \<Rightarrow> onRepo (rr_Get (sv_requests S) uid)
                           | None \<Rightarrow> ret None)
        | _ \<Rightarrow> ret None)"

definition checkIdempotentReplay ::
    "('r, 'c) capacity_service \<Rightarrow> create_input \<Rightarrow> string \<Rightarrow> (('r, 'c) world, capacity_request option) gor" where
  "checkIdempotentReplay S inp bodyHash =
     andThen (replay_fast S inp) (\<lambda>fast.
     case fast of
       Some existing \<Rightarrow> andThen (matchIdempotentBody (sv_env S) existing bodyHash) (\<lambda>r. ret (Some r))
     | None \<Rightarrow>
         andThen (onRepo (rr_FindByIdempotency (sv_requests S) (ci_CustomerID inp) (ci_IdempotencyKey inp)))
           (\<lambda>found. case found of
              None \<Rightarrow> ret None
            | Some existing \<Rightarrow>
                andThen (matchIdempotentBody (sv_env S) existing bodyHash) (\<lambda>matched.
                andThen (ignoring (onRedis (is_Set (sv_idem S) (ci_CustomerID inp) (ci_IdempotencyKey inp)
                                     (en_uuid_String (sv_env S) (cr_ID existing)) (cfg_ReserveTTL (sv_cfg S) * 2))))
                (\<lambda>_. ret (Some matched)))))"

definition replayAfterDuplicate ::
    "('r, 'c) capacity_service \<Rightarrow> create_input \<Rightarrow> string \<Rightarrow> (('r, 'c) world, capacity_request) gor" where
  "replayAfterDuplicate S inp bodyHash =
     andThen (onRepo (rr_FindByIdempotency (sv_requests S) (ci_CustomerID inp) (ci_IdempotencyKey inp)))
       (\<lambda>found. case found of
          None \<Rightarrow> fail (NewAppError ReasonConflict ''duplicate key race but request not found'' None)
        | Some existing \<Rightarrow> matchIdempotentBody (sv_env S) existing bodyHash)"

subsection \<open>Limits\<close>

definition enforceActiveHoldsLimit ::
    "('r, 'c) capacity_service \<Rightarrow> string \<Rightarrow> (('r, 'c) world, unit) gor" where
  "enforceActiveHoldsLimit S customerID =
     (let limit = cfg_MaxActiveHoldsPerCustomer (sv_cfg S) in
      if limit \<le> 0 then ret ()
      else andThen (onRepo (rr_CountActiveHoldsByCustomer (sv_requests S) customerID)) (\<lambda>n.
        if n \<ge> limit then
          fail (NewAppError ReasonTooManyActiveHolds ''too many active holds for customer''
                  (Some [(''customer_id'', DStr customerID), (''active'', DInt n), (''limit'', DInt limit)]))
        else ret ()))"

subsection \<open>The plan\<close>

text \<open>\<^verbatim>\<open>out[k] += n\<close> on a map from kinds to amounts\<close>

definition bump :: "string \<Rightarrow> int \<Rightarrow> (string \<times> int) list \<Rightarrow> (string \<times> int) list" where
  "bump k n out = AList.update k (i64 ((case map_of out k of None \<Rightarrow> 0 | Some v \<Rightarrow> v) + n)) out"

fun resolve_template ::
    "int \<Rightarrow> (string \<times> int) list \<Rightarrow> (string \<times> int) list \<Rightarrow> go_error + (string \<times> int) list" where
  "resolve_template qty [] out = Inr out"
| "resolve_template qty ((k, v) # kvs) out =
     (let amt = i64 (v * qty) in
      if amt \<le> 0 \<or> amt > maxAmount then
        Inl (NewAppError ReasonInvalidInput ''resolved line amount out of bounds''
               (Some [(''kind'', DStr k), (''amount'', DInt amt), (''max'', DInt maxAmount)]))
      else resolve_template qty kvs (bump k amt out))"

definition resolveLines ::
    "('r, 'c) capacity_service \<Rightarrow> create_input \<Rightarrow> (('r, 'c) world, (string \<times> int) list \<times> product option) gor" where
  "resolveLines S inp =
     (if ci_ProductCode inp \<noteq> '''' then
        andThen (onRepo (pd_GetByCode (sv_products S) (ci_ProductCode inp))) (\<lambda>p.
        case p of
          None \<Rightarrow> fail (NewAppError ReasonProductNotFound ''product not found''
                          (Some [(''product'', DStr (ci_ProductCode inp))]))
        | Some p \<Rightarrow>
            let qty = (if ci_Quantity inp \<le> 0 then 1 else ci_Quantity inp) in
            (case resolve_template qty (en_range (sv_env S) (pd_ResourceTemplate p)) [] of
               Inl e \<Rightarrow> fail e
             | Inr out \<Rightarrow> ret (out, Some p)))
      else if ci_Lines inp = [] then fail (NewAppError ReasonConflict ''product_id or lines required'' None)
      else ret (fold (\<lambda>l. bump (li_ResourceKind l) (li_Amount l)) (ci_Lines inp) [], None))"

definition plan_for ::
    "('r, 'c) capacity_service \<Rightarrow> string \<times> int \<Rightarrow> (('r, 'c) world, reservation_plan) gor" where
  "plan_for S = (\<lambda>(kind, amount).
     andThen (onRepo (pr_GetByKind (sv_pools S) kind)) (\<lambda>pool.
     case pool of
       None \<Rightarrow> fail (NewAppError ReasonInvalidResourceKind ''unknown resource kind''
                       (Some [(''kind'', DStr kind)]))
     | Some pool \<Rightarrow>
         if pp_MinGrain (rp_Policy pool) > 0 \<and> amount mod pp_MinGrain (rp_Policy pool) \<noteq> 0 then
           fail (NewAppError ReasonConflict ''amount not aligned to min grain''
                   (Some [(''kind'', DStr kind), (''amount'', DInt amount),
                          (''min_grain'', DInt (pp_MinGrain (rp_Policy pool)))]))
         else ret \<lparr>pl_kind = kind, pl_poolID = rp_ID pool, pl_amount = amount\<rparr>))"

definition buildReservationPlan ::
    "('r, 'c) capacity_service \<Rightarrow> create_input \<Rightarrow> (('r, 'c) world, reservation_plan list \<times> product option) gor" where
  "buildReservationPlan S inp =
     andThen (resolveLines S inp) (\<lambda>(resolved, product).
     andThen (collect (plan_for S) (en_range (sv_env S) resolved)) (\<lambda>plans.
     ret (sort_key (\<lambda>p. en_uuid_String (sv_env S) (pl_poolID p)) plans, product)))"

subsection \<open>Rows of a new request\<close>

definition resolvedQuantity :: "create_input \<Rightarrow> int" where
  "resolvedQuantity inp = (if ci_Quantity inp > 0 then ci_Quantity inp else 1)"

definition buildLines :: "uuid \<Rightarrow> reservation_plan list \<Rightarrow> (('r, 'c) world, request_line list) gor" where
  "buildLines reqID = collect (\<lambda>p. andThen uuid_New (\<lambda>i.
     ret \<lparr>ln_ID = i, ln_RequestID = reqID, ln_PoolID = pl_poolID p, ln_Kind = pl_kind p,
          ln_Amount = pl_amount p\<rparr>))"

definition buildHolds :: "uuid \<Rightarrow> reservation_plan list \<Rightarrow> time \<Rightarrow> (('r, 'c) world, hold list) gor" where
  "buildHolds reqID plans now = collect (\<lambda>p. andThen uuid_New (\<lambda>i.
     ret \<lparr>hd_ID = i, hd_RequestID = reqID, hd_PoolID = pl_poolID p, hd_Amount = pl_amount p,
          hd_Status = HoldActive, hd_CreatedAt = now, hd_UpdatedAt = now\<rparr>)) plans"

definition reserved_request ::
    "create_input \<Rightarrow> product option \<Rightarrow> uuid \<Rightarrow> time \<Rightarrow> time \<Rightarrow> string \<Rightarrow> capacity_request" where
  "reserved_request inp product reqID now expires bodyHash =
     \<lparr>cr_ID = reqID, cr_CustomerID = ci_CustomerID inp, cr_IdempotencyKey = ci_IdempotencyKey inp,
      cr_BodyHash = bodyHash, cr_ProductID = map_option pd_ID product,
      cr_Quantity = resolvedQuantity inp, cr_Status = StatusReserved, cr_RejectReason = None,
      cr_ExpiresAt = Some expires, cr_ExtensionCount = 0, cr_CorrelationID = ci_CorrelationID inp,
      cr_CreatedAt = now, cr_UpdatedAt = now\<rparr>"

definition rejected_request ::
    "create_input \<Rightarrow> product option \<Rightarrow> uuid \<Rightarrow> time \<Rightarrow> reason \<Rightarrow> string \<Rightarrow> capacity_request" where
  "rejected_request inp product reqID now reason bodyHash =
     \<lparr>cr_ID = reqID, cr_CustomerID = ci_CustomerID inp, cr_IdempotencyKey = ci_IdempotencyKey inp,
      cr_BodyHash = bodyHash, cr_ProductID = map_option pd_ID product,
      cr_Quantity = resolvedQuantity inp, cr_Status = StatusRejected, cr_RejectReason = Some reason,
      cr_ExpiresAt = None, cr_ExtensionCount = 0, cr_CorrelationID = ci_CorrelationID inp,
      cr_CreatedAt = now, cr_UpdatedAt = now\<rparr>"

subsection \<open>The reserve transaction\<close>

definition reserve_line ::
    "('r, 'c) capacity_service \<Rightarrow> create_input \<Rightarrow> reservation_plan \<Rightarrow> (('r, 'c) world, unit) gor" where
  "reserve_line S inp p =
     andThen (onRepo (pr_TryReserve (sv_pools S) (pl_poolID p) (pl_amount p))) (\<lambda>ok.
     if \<not> ok then
       fail (ErrRejected \<lparr>rej_reason = ReasonInsufficientCapacity, rej_message = ''insufficient capacity'',
               rej_details = Some [(''pool'', DStr (pl_kind p)), (''requested'', DInt (pl_amount p))]\<rparr>)
     else andThen (onRepo (qr_EnsureAndTryConsume (sv_quotas S) (ci_CustomerID inp) (pl_kind p)
                             (pl_amount p) defaultQuotaLimit)) (\<lambda>ok.
     if \<not> ok then
       fail (ErrRejected \<lparr>rej_reason = ReasonQuotaExceeded, rej_message = ''quota exceeded'',
               rej_details = Some [(''resource_kind'', DStr (pl_kind p)), (''requested'', DInt (pl_amount p))]\<rparr>)
     else ret ()))"

definition reserve_body ::
    "('r, 'c) capacity_service \<Rightarrow> reservation_plan list \<Rightarrow> product option \<Rightarrow> create_input \<Rightarrow> uuid \<Rightarrow>
     time \<Rightarrow> time \<Rightarrow> string \<Rightarrow> (('r, 'c) world, capacity_request) gor" where
  "reserve_body S plans product inp reqID now expires bodyHash =
     andThen (forEach (reserve_line S inp) plans) (\<lambda>_.
     let req = reserved_request inp product reqID now expires bodyHash in
     andThen (buildLines reqID plans) (\<lambda>lines.
     andThen (buildHolds reqID plans now) (\<lambda>holds.
     andThen uuid_New (\<lambda>evID.
     andThen (onRepo (rr_CreateReserved (sv_requests S) req lines holds
       \<lparr>ev_ID = evID, ev_RequestID = reqID, ev_EventType = EventReserved, ev_Reason = '''', ev_At = now\<rparr>))
     (\<lambda>_. ret req)))))"

definition reserveWithinTx ::
    "('r, 'c) capacity_service \<Rightarrow> reservation_plan list \<Rightarrow> product option \<Rightarrow> create_input \<Rightarrow> uuid \<Rightarrow>
     time \<Rightarrow> time \<Rightarrow> string \<Rightarrow> (('r, 'c) world, rejection + capacity_request) gor" where
  "reserveWithinTx S plans product inp reqID now expires bodyHash =
     andThen (attempt (WithinTx S (reserve_body S plans product inp reqID now expires bodyHash))) (\<lambda>q.
     case q of
       Inr req \<Rightarrow> ret (Inr req)
     | Inl e \<Rightarrow> (case as_rejected e of Some rej \<Rightarrow> ret (Inl rej) | None \<Rightarrow> fail e))"

definition event_reason :: "rejection \<Rightarrow> string" where
  "event_reason rej =
     (case rej_details rej of
        None \<Rightarrow> rej_message rej
      | Some d \<Rightarrow> rej_message rej @ '': '' @ json_details d)"

definition persistRejected ::
    "('r, 'c) capacity_service \<Rightarrow> create_input \<Rightarrow> uuid \<Rightarrow> time \<Rightarrow> reservation_plan list \<Rightarrow> product option \<Rightarrow>
     rejection \<Rightarrow> string \<Rightarrow> (('r, 'c) world, capacity_request) gor" where
  "persistRejected S inp reqID now plans product rej bodyHash =
     (let req = rejected_request inp product reqID now (rej_reason rej) bodyHash in
      andThen (buildLines reqID plans) (\<lambda>lines.
      andThen uuid_New (\<lambda>evID.
      andThen (attempt (onRepo (rr_CreateRejected (sv_requests S) req lines
        \<lparr>ev_ID = evID, ev_RequestID = reqID, ev_EventType = EventRejected,
         ev_Reason = event_reason rej, ev_At = now\<rparr>))) (\<lambda>q.
      case q of
        Inr _ \<Rightarrow> ret req
      | Inl e \<Rightarrow> if is_duplicate e then replayAfterDuplicate S inp bodyHash else fail e))))"

definition recordOutcome ::
    "('r, 'c) capacity_service \<Rightarrow> create_input \<Rightarrow> capacity_request \<Rightarrow> string \<Rightarrow> (('r, 'c) world, unit) gor" where
  "recordOutcome S inp req result =
     andThen (count ReservationAttempts [result]) (\<lambda>_.
     andThen (if result = ''rejected'' then
                (case cr_RejectReason req of
                   None \<Rightarrow> ret ()
                 | Some reason \<Rightarrow> count ReservationRejects [reason_string reason])
              else ret ()) (\<lambda>_.
     andThen (ignoring (onRedis (is_Set (sv_idem S) (ci_CustomerID inp) (ci_IdempotencyKey inp)
                (en_uuid_String (sv_env S) (cr_ID req)) (cfg_ReserveTTL (sv_cfg S) * 2)))) (\<lambda>_.
     andThen (ignoring (onRedis (cs_InvalidateCapacity (sv_cache S) capacityCacheKey))) (\<lambda>_.
     ignoring (onRedis (cs_InvalidateCapacity (sv_cache S) (''cust:'' @ ci_CustomerID inp)))))))"

text \<open>What \<^verbatim>\<open>CreateRequest\<close> does once the request is known to be new.\<close>

definition create_new ::
    "('r, 'c) capacity_service \<Rightarrow> create_input \<Rightarrow> string \<Rightarrow> (('r, 'c) world, capacity_request) gor" where
  "create_new S inp bodyHash =
     andThen (enforceActiveHoldsLimit S (ci_CustomerID inp)) (\<lambda>_.
     andThen (buildReservationPlan S inp) (\<lambda>(plans, product).
     andThen Now (\<lambda>now.
     andThen uuid_New (\<lambda>reqID.
     andThen (attempt (reserveWithinTx S plans product inp reqID now (now + cfg_ReserveTTL (sv_cfg S)) bodyHash))
       (\<lambda>q. case q of
          Inl e \<Rightarrow> if is_duplicate e then replayAfterDuplicate S inp bodyHash else fail e
        | Inr (Inl rej) \<Rightarrow>
            andThen (persistRejected S inp reqID now plans product rej bodyHash) (\<lambda>req.
            andThen (recordOutcome S inp req ''rejected'') (\<lambda>_. ret req))
        | Inr (Inr reserved) \<Rightarrow>
            andThen (recordOutcome S inp reserved ''reserved'') (\<lambda>_. ret reserved))))))"

definition CreateRequest ::
    "('r, 'c) capacity_service \<Rightarrow> create_input \<Rightarrow> (('r, 'c) world, capacity_request) gor" where
  "CreateRequest S inp =
     (if ci_IdempotencyKey inp = '''' then
        fail (NewAppError ReasonMissingIdempotency ''Idempotency-Key is required'' None)
      else if ci_CustomerID inp = '''' then fail (NewAppError ReasonConflict ''customer_id is required'' None)
      else case validateCreateInput inp of Some e \<Rightarrow> fail e
      | None \<Rightarrow>
          andThen (if ci_CorrelationID inp = '''' then
                     andThen uuid_New (\<lambda>i. ret (inp\<lparr>ci_CorrelationID := en_uuid_String (sv_env S) i\<rparr>))
                   else ret inp) (\<lambda>inp.
          let bodyHash = computeBodyHash (sv_env S) inp in
          andThen (checkIdempotentReplay S inp bodyHash) (\<lambda>replayed.
          case replayed of
            Some existing \<Rightarrow> ret existing
          | None \<Rightarrow> create_new S inp bodyHash)))"

subsection \<open>Listing capacity\<close>

definition capacity_view_of :: "(string \<times> customer_quota) list \<Rightarrow> resource_pool \<Rightarrow> capacity_view" where
  "capacity_view_of quotasByKind p =
     (case map_of quotasByKind (rp_Kind p) of
        None \<Rightarrow> \<lparr>cv_Pool = p, cv_Available = Available p, cv_CustomerRemaining = None\<rparr>
      | Some q \<Rightarrow> \<lparr>cv_Pool = p, cv_Available = min (Remaining q) (Available p),
                    cv_CustomerRemaining = Some (Remaining q)\<rparr>)"

definition ListCapacity ::
    "('r, 'c) capacity_service \<Rightarrow> string \<Rightarrow> (('r, 'c) world, capacity_view list) gor" where
  "ListCapacity S customerID =
     (let cacheKey = (if customerID \<noteq> '''' then ''cust:'' @ customerID else capacityCacheKey) in
      andThen (attempt (onRedis (cs_GetCapacity (sv_cache S) cacheKey))) (\<lambda>g.
      case (case g of Inr (Some b) \<Rightarrow> en_unmarshal_views (sv_env S) b | _ \<Rightarrow> None) of
        Some views \<Rightarrow> ret views
      | None \<Rightarrow>
          andThen (onRepo (pr_List (sv_pools S))) (\<lambda>pools.
          andThen (if customerID \<noteq> '''' then onRepo (qr_ListByCustomer (sv_quotas S) customerID) else ret [])
            (\<lambda>qs.
          let quotasByKind = fold (\<lambda>q. AList.update (cq_ResourceKind q) q) qs [];
              views = map (capacity_view_of quotasByKind) pools in
          andThen (forEach (\<lambda>p. gauge PoolAvailableRatio [rp_Kind p]
                     (AvailableRatio (rp_Total p) (rp_DedicatedAmount p) (rp_ReservedAmount p)
                        (rp_OversubscribeFactor p))) pools) (\<lambda>_.
          andThen (case en_marshal_views (sv_env S) views of
                     None \<Rightarrow> ret ()
                   | Some b \<Rightarrow> ignoring (onRedis (cs_SetCapacity (sv_cache S) cacheKey b
                                                    (cfg_CapacityCacheTTL (sv_cfg S))))) (\<lambda>_.
          ret views))))))"

definition ListProducts :: "('r, 'c) capacity_service \<Rightarrow> (('r, 'c) world, product list) gor" where
  "ListProducts S = onRepo (pd_List (sv_products S))"

end
