(* ===== verification/Ledger.thy ===== *)
theory Ledger
  imports Port_Interfaces
begin

text \<open>
  The books: how the counters of the pools and the quotas agree with the holds. A pool's reserved
  amount is what its ACTIVE holds add up to, its dedicated amount what its DEDICATED holds add up to
  (beyond what was dedicated before the first request), a quota's used amount what the live holds of
  its customer and kind add up to. The offsets of \<open>tally\<close> express the moments inside a
  transaction when the counters run ahead of the holds or behind them.
\<close>

subsection \<open>Counting holds\<close>

definition live :: "hold \<Rightarrow> bool" where
  "live h \<longleftrightarrow> hd_Status h = HoldActive \<or> hd_Status h = HoldDedicated"

definition customer_of :: "tables \<Rightarrow> uuid \<Rightarrow> string option" where
  "customer_of t i = map_option cr_CustomerID (find_request i t)"

definition kind_of :: "tables \<Rightarrow> uuid \<Rightarrow> string option" where
  "kind_of t i = map_option rp_Kind (find (\<lambda>p. rp_ID p = i) (t_pools t))"

definition on_pool :: "hold_status \<Rightarrow> uuid \<Rightarrow> hold list \<Rightarrow> int" where
  "on_pool st i hs = sum_list (map (\<lambda>h. if hd_PoolID h = i \<and> hd_Status h = st then hd_Amount h else 0) hs)"

definition used_by ::
    "(uuid \<Rightarrow> string option) \<Rightarrow> (uuid \<Rightarrow> string option) \<Rightarrow> string \<times> string \<Rightarrow> hold list \<Rightarrow> int" where
  "used_by own kind ck hs =
     sum_list (map (\<lambda>h. if live h \<and> own (hd_RequestID h) = Some (fst ck) \<and> kind (hd_PoolID h) = Some (snd ck)
                        then hd_Amount h else 0) hs)"

definition used_in :: "tables \<Rightarrow> string \<times> string \<Rightarrow> int" where
  "used_in t ck = used_by (customer_of t) (kind_of t) ck (t_holds t)"

lemma on_pool_simps [simp]:
  "on_pool st i [] = 0"
  "on_pool st i (h # hs) = (if hd_PoolID h = i \<and> hd_Status h = st then hd_Amount h else 0) + on_pool st i hs"
  "on_pool st i (hs @ hs') = on_pool st i hs + on_pool st i hs'"
  by (simp_all add: on_pool_def)

lemma used_by_simps [simp]:
  "used_by own kind ck [] = 0"
  "used_by own kind ck (h # hs) =
     (if live h \<and> own (hd_RequestID h) = Some (fst ck) \<and> kind (hd_PoolID h) = Some (snd ck) then hd_Amount h else 0) +
     used_by own kind ck hs"
  "used_by own kind ck (hs @ hs') = used_by own kind ck hs + used_by own kind ck hs'"
  by (simp_all add: used_by_def)

lemma used_by_cong:
  "(\<And>h. h \<in> set hs \<Longrightarrow> own (hd_RequestID h) = own' (hd_RequestID h)) \<Longrightarrow>
   (\<And>h. h \<in> set hs \<Longrightarrow> kind (hd_PoolID h) = kind' (hd_PoolID h)) \<Longrightarrow>
   used_by own kind ck hs = used_by own' kind' ck hs"
  by (induction hs) auto

lemma on_pool_nonneg: "(\<And>h. h \<in> set hs \<Longrightarrow> 0 \<le> hd_Amount h) \<Longrightarrow> 0 \<le> on_pool st i hs"
  unfolding on_pool_def by (rule sum_list_map_nonneg) simp

lemma on_pool_member:
  "(\<And>h. h \<in> set hs \<Longrightarrow> 0 \<le> hd_Amount h) \<Longrightarrow> h \<in> set hs \<Longrightarrow>
   hd_Amount h \<le> on_pool (hd_Status h) (hd_PoolID h) hs"
  unfolding on_pool_def
  using sum_list_map_ge_member [of h hs
      "\<lambda>g. if hd_PoolID g = hd_PoolID h \<and> hd_Status g = hd_Status h then hd_Amount g else 0"]
  by simp

lemma used_by_member:
  "(\<And>h. h \<in> set hs \<Longrightarrow> 0 \<le> hd_Amount h) \<Longrightarrow> h \<in> set hs \<Longrightarrow> live h \<Longrightarrow>
   own (hd_RequestID h) = Some c \<Longrightarrow> kind (hd_PoolID h) = Some k \<Longrightarrow> hd_Amount h \<le> used_by own kind (c, k) hs"
  unfolding used_by_def
  using sum_list_map_ge_member [of h hs "\<lambda>g. if live g \<and> own (hd_RequestID g) = Some (fst (c, k)) \<and>
      kind (hd_PoolID g) = Some (snd (c, k)) then hd_Amount g else 0"]
  by simp

lemma used_by_nonneg: "(\<And>h. h \<in> set hs \<Longrightarrow> 0 \<le> hd_Amount h) \<Longrightarrow> 0 \<le> used_by own kind ck hs"
  unfolding used_by_def by (rule sum_list_map_nonneg) simp

text \<open>Moving one hold from one status to another.\<close>

lemma flip_elsewhere: "i \<notin> hd_ID ` set hs \<Longrightarrow> mapWhere (\<lambda>g. hd_ID g = i \<and> p g) f hs = hs"
  by (intro mapWhere_none) auto

lemma on_pool_flip:
  assumes "distinct (map hd_ID hs)" and "h \<in> set hs" and "hd_Status h = src"
  shows "on_pool st i (mapWhere (\<lambda>g. hd_ID g = hd_ID h \<and> hd_Status g = src) (\<lambda>g. g\<lparr>hd_Status := dst\<rparr>) hs) =
    on_pool st i hs + at (hd_PoolID h) ((if st = dst then hd_Amount h else 0) - (if st = src then hd_Amount h else 0)) i"
  using assms
proof (induction hs)
  case Nil
  then show ?case by simp
next
  case (Cons g gs)
  show ?case
  proof (cases "g = h")
    case True
    with Cons.prems(1) have "mapWhere (\<lambda>g. hd_ID g = hd_ID h \<and> hd_Status g = src) (\<lambda>g. g\<lparr>hd_Status := dst\<rparr>) gs = gs"
      by (intro flip_elsewhere) simp
    with True Cons.prems(3) show ?thesis by (simp add: at_def)
  next
    case False
    with Cons.prems have "h \<in> set gs" "hd_ID g \<noteq> hd_ID h" by auto
    with Cons show ?thesis by simp
  qed
qed

lemma used_by_flip:
  assumes "distinct (map hd_ID hs)" and "h \<in> set hs" and "hd_Status h = src"
    and "own (hd_RequestID h) = Some c" and "kind (hd_PoolID h) = Some k"
  shows "used_by own kind ck (mapWhere (\<lambda>g. hd_ID g = hd_ID h \<and> hd_Status g = src) (\<lambda>g. g\<lparr>hd_Status := dst\<rparr>) hs) =
    used_by own kind ck hs + at (c, k) ((if live (h\<lparr>hd_Status := dst\<rparr>) then hd_Amount h else 0) -
      (if live h then hd_Amount h else 0)) ck"
  using assms
proof (induction hs)
  case Nil
  then show ?case by simp
next
  case (Cons g gs)
  show ?case
  proof (cases "g = h")
    case True
    with Cons.prems(1) have "mapWhere (\<lambda>g. hd_ID g = hd_ID h \<and> hd_Status g = src) (\<lambda>g. g\<lparr>hd_Status := dst\<rparr>) gs = gs"
      by (intro flip_elsewhere) simp
    with True Cons.prems(3-5) show ?thesis by (cases ck) (auto simp: at_def)
  next
    case False
    with Cons.prems have "h \<in> set gs" "hd_ID g \<noteq> hd_ID h" by auto
    with Cons show ?thesis by simp
  qed
qed

subsection \<open>The books\<close>

definition tally :: "(uuid \<Rightarrow> int) \<Rightarrow> (uuid \<Rightarrow> int) \<Rightarrow> (string \<times> string \<Rightarrow> int) \<Rightarrow> tables \<Rightarrow> bool" where
  "tally br bd bq t \<longleftrightarrow>
     (\<forall>p \<in> set (t_pools t).
        rp_ReservedAmount p = br (rp_ID p) + on_pool HoldActive (rp_ID p) (t_holds t) \<and>
        rp_DedicatedAmount p = bd (rp_ID p) + on_pool HoldDedicated (rp_ID p) (t_holds t)) \<and>
     (\<forall>q \<in> set (t_quotas t). cq_UsedAmount q = bq (quota_key q) + used_in t (quota_key q)) \<and>
     (\<forall>ck. ck \<in> quota_keys t \<or> bq ck + used_in t ck = 0)"

definition refs_ok :: "tables \<Rightarrow> bool" where
  "refs_ok t \<longleftrightarrow>
     (\<forall>h \<in> set (t_holds t). 0 < hd_Amount h \<and> hd_RequestID h \<in> request_ids t \<and>
        (\<exists>l \<in> set (t_lines t). ln_RequestID l = hd_RequestID h \<and> ln_PoolID l = hd_PoolID h)) \<and>
     (\<forall>l \<in> set (t_lines t). ln_Kind l \<noteq> '''' \<and> kind_of t (ln_PoolID l) = Some (ln_Kind l))"

definition book :: "(uuid \<Rightarrow> int) \<Rightarrow> (uuid \<Rightarrow> int) \<Rightarrow> (string \<times> string \<Rightarrow> int) \<Rightarrow> tables \<Rightarrow> bool" where
  "book br bd bq t \<longleftrightarrow> pools_ok t \<and> quotas_ok t \<and> requests_distinct t \<and> holds_distinct t \<and> refs_ok t \<and>
     tally br bd bq t"

definition status_ok :: "tables \<Rightarrow> bool" where
  "status_ok t \<longleftrightarrow> (\<forall>h \<in> set (t_holds t). \<forall>r \<in> set (t_requests t).
     cr_ID r = hd_RequestID h \<longrightarrow> hold_status_of (cr_Status r) = Some (hd_Status h))"

text \<open>
  \<open>bd\<close> and \<open>bq\<close> are what was dedicated and used before the system took its first
  request.
\<close>

definition ledger :: "(uuid \<Rightarrow> int) \<Rightarrow> (string \<times> string \<Rightarrow> int) \<Rightarrow> tables \<Rightarrow> bool" where
  "ledger bd bq t \<longleftrightarrow> (\<forall>ck. 0 \<le> bq ck) \<and> book (\<lambda>_. 0) bd bq t \<and> status_ok t"

subsection \<open>What the bookkeeping does not look at\<close>

lemma customer_of_frame [simp]:
  "customer_of (t\<lparr>t_pools := a\<rparr>) = customer_of t" "customer_of (t\<lparr>t_quotas := b\<rparr>) = customer_of t"
  "customer_of (t\<lparr>t_lines := c\<rparr>) = customer_of t" "customer_of (t\<lparr>t_holds := d\<rparr>) = customer_of t"
  "customer_of (t\<lparr>t_dedications := e\<rparr>) = customer_of t" "customer_of (t\<lparr>t_events := f\<rparr>) = customer_of t"
  by (simp_all add: customer_of_def find_request_def fun_eq_iff)

lemma kind_of_frame [simp]:
  "kind_of (t\<lparr>t_requests := a\<rparr>) = kind_of t" "kind_of (t\<lparr>t_quotas := b\<rparr>) = kind_of t"
  "kind_of (t\<lparr>t_lines := c\<rparr>) = kind_of t" "kind_of (t\<lparr>t_holds := d\<rparr>) = kind_of t"
  "kind_of (t\<lparr>t_dedications := e\<rparr>) = kind_of t" "kind_of (t\<lparr>t_events := f\<rparr>) = kind_of t"
  by (simp_all add: kind_of_def fun_eq_iff)

lemma kind_of_shift [simp]: "kind_of (t\<lparr>t_pools := shift_pools f g (t_pools t)\<rparr>) = kind_of t"
proof -
  have "map_option rp_Kind (find (\<lambda>p. rp_ID p = i) (shift_pools f g ps)) =
      map_option rp_Kind (find (\<lambda>p. rp_ID p = i) ps)" for i ps
    by (induction ps) (simp_all add: shift_pools_def)
  then show ?thesis by (simp add: kind_of_def fun_eq_iff)
qed

lemma customer_of_mapWhere:
  assumes "\<And>r. cr_ID (f r) = cr_ID r" and "\<And>r. cr_CustomerID (f r) = cr_CustomerID r"
  shows "customer_of (t\<lparr>t_requests := mapWhere p f (t_requests t)\<rparr>) = customer_of t"
proof -
  have "map_option cr_CustomerID (find (\<lambda>r. cr_ID r = i) (mapWhere p f rs)) =
      map_option cr_CustomerID (find (\<lambda>r. cr_ID r = i) rs)" for i rs
    by (induction rs) (simp_all add: assms)
  then show ?thesis by (simp add: customer_of_def find_request_def fun_eq_iff)
qed

lemma find_append:
  "find p (xs @ ys) = (case find p xs of None \<Rightarrow> find p ys | Some x \<Rightarrow> Some x)"
  by (induction xs) auto

lemma customer_of_append:
  "i \<in> request_ids t \<Longrightarrow> customer_of (t\<lparr>t_requests := t_requests t @ rs\<rparr>) i = customer_of t i"
  by (auto simp: customer_of_def find_request_def request_ids_def find_None_iff find_append split: option.splits)

lemma customer_of_member:
  assumes "requests_distinct t" and "r \<in> set (t_requests t)"
  shows "customer_of t (cr_ID r) = Some (cr_CustomerID r)"
proof -
  have "find (\<lambda>x. cr_ID x = cr_ID r) (t_requests t) = Some r"
    using assms find_Some_iff_distinct [of cr_ID "t_requests t" "cr_ID r" r] by (simp add: requests_distinct_def)
  then show ?thesis by (simp add: customer_of_def find_request_def)
qed

subsection \<open>Pool operations\<close>

lemma book_shift_pools:
  assumes "book br bd bq t" and "pools_ok (t\<lparr>t_pools := shift_pools f g (t_pools t)\<rparr>)"
  shows "book (\<lambda>i. br i + f i) (\<lambda>i. bd i + g i) bq (t\<lparr>t_pools := shift_pools f g (t_pools t)\<rparr>)"
  using assms
  by (auto simp: book_def tally_def refs_ok_def in_shift_pools quotas_ok_def requests_distinct_def
      holds_distinct_def used_in_def quota_keys_def request_ids_def)

lemma pools_ok_shift:
  assumes "pools_ok t"
    and "\<And>p. p \<in> set (t_pools t) \<Longrightarrow> 0 \<le> rp_ReservedAmount p + f (rp_ID p)"
    and "\<And>p. p \<in> set (t_pools t) \<Longrightarrow> 0 \<le> rp_DedicatedAmount p + g (rp_ID p)"
    and "\<And>p. p \<in> set (t_pools t) \<Longrightarrow>
           rp_DedicatedAmount p + g (rp_ID p) + (rp_ReservedAmount p + f (rp_ID p)) \<le> effective p"
  shows "pools_ok (t\<lparr>t_pools := shift_pools f g (t_pools t)\<rparr>)"
  using assms by (auto simp: pools_ok_def list_all_iff pool_ok_def in_shift_pools)

lemma pool_unique:
  "pools_ok t \<Longrightarrow> p \<in> set (t_pools t) \<Longrightarrow> q \<in> set (t_pools t) \<Longrightarrow> rp_ID p = rp_ID q \<Longrightarrow> p = q"
  unfolding pools_ok_def by (metis distinct_key_inj)

lemma pools_ok_reserve:
  assumes ok: "pools_ok t" and "admits i n t" and "0 < n"
  shows "pools_ok (spec_reserve i n t)"
proof -
  obtain p0 where p0: "p0 \<in> set (t_pools t)" "rp_ID p0 = i"
    "n \<le> effective p0 - rp_DedicatedAmount p0 - rp_ReservedAmount p0"
    using assms(2) by (auto simp: admits_def list_ex_iff)
  have only: "p = p0" if "p \<in> set (t_pools t)" "rp_ID p = i" for p
    using pool_unique [OF ok that(1) p0(1)] that(2) p0(2) by simp
  have "pool_ok p" if "p \<in> set (t_pools t)" for p
    using ok that by (simp add: pools_ok_def list_all_iff)
  with only p0(3) assms(3) show ?thesis
    unfolding spec_reserve_def by (intro pools_ok_shift ok) (fastforce simp: at_def pool_ok_def)+
qed

lemma reserves_at_leastD:
  assumes "pools_ok t" and "reserves_at_least i n t" and "p \<in> set (t_pools t)" and "rp_ID p = i"
  shows "n \<le> rp_ReservedAmount p"
  using assms pool_unique by (fastforce simp: reserves_at_least_def list_ex_iff)

lemma pools_ok_release:
  assumes ok: "pools_ok t" and "0 < n"
  shows "pools_ok (spec_release i n t)" and "pools_ok (spec_dedicate i n t)"
proof -
  have "pool_ok p" if "p \<in> set (t_pools t)" for p
    using ok that by (simp add: pools_ok_def list_all_iff)
  with reserves_at_leastD [OF ok] assms(2) show "pools_ok (spec_release i n t)" "pools_ok (spec_dedicate i n t)"
    unfolding spec_release_def spec_dedicate_def
    by (auto intro!: pools_ok_shift ok) (fastforce simp: at_def pool_ok_def)+
qed

lemma book_reserve:
  assumes b: "book br bd bq t" and "admits i n t" and "0 < n"
  shows "book (\<lambda>j. br j + at i n j) bd bq (spec_reserve i n t)"
proof -
  have "pools_ok (spec_reserve i n t)" using b by (intro pools_ok_reserve assms(2,3)) (simp add: book_def)
  with book_shift_pools [OF b, of "at i n" "\<lambda>_. 0"] show ?thesis by (simp add: spec_reserve_def)
qed

lemma book_release:
  assumes b: "book br bd bq t" and r: "reserves_at_least i n t" and "0 < n"
  shows "book (\<lambda>j. br j + at i (- n) j) bd bq (spec_release i n t)"
proof -
  have "pools_ok (spec_release i n t)" using b assms(3) by (intro pools_ok_release) (simp add: book_def)
  with book_shift_pools [OF b, of "at i (- n)" "\<lambda>_. 0"] show ?thesis by (simp add: spec_release_def r)
qed

lemma book_dedicate:
  assumes b: "book br bd bq t" and r: "reserves_at_least i n t" and "0 < n"
  shows "book (\<lambda>j. br j + at i (- n) j) (\<lambda>j. bd j + at i n j) bq (spec_dedicate i n t)"
proof -
  have "pools_ok (spec_dedicate i n t)" using b assms(3) by (intro pools_ok_release) (simp add: book_def)
  with book_shift_pools [OF b, of "at i (- n)" "at i n"] show ?thesis by (simp add: spec_dedicate_def r)
qed

subsection \<open>Quota operations\<close>

lemma quota_keys_shift [simp]: "quota_keys (t\<lparr>t_quotas := shift_quotas f (t_quotas t)\<rparr>) = quota_keys t"
  by (simp add: quota_keys_def shift_quotas_def image_image)

lemma used_in_quotas [simp]: "used_in (t\<lparr>t_quotas := qs\<rparr>) = used_in t"
  by (simp add: used_in_def fun_eq_iff)

lemma book_shift_quotas:
  assumes "book br bd bq t" and "quotas_ok (t\<lparr>t_quotas := shift_quotas f (t_quotas t)\<rparr>)"
    and "\<And>ck. ck \<notin> quota_keys t \<Longrightarrow> f ck = 0"
  shows "book br bd (\<lambda>ck. bq ck + f ck) (t\<lparr>t_quotas := shift_quotas f (t_quotas t)\<rparr>)"
proof -
  let ?t = "t\<lparr>t_quotas := shift_quotas f (t_quotas t)\<rparr>"
  have "tally br bd (\<lambda>ck. bq ck + f ck) ?t"
    unfolding tally_def used_in_quotas quota_keys_shift
  proof (intro conjI allI)
    fix ck
    show "ck \<in> quota_keys t \<or> bq ck + f ck + used_in t ck = 0"
    proof (cases "ck \<in> quota_keys t")
      case False
      with assms(1) have "bq ck + used_in t ck = 0" unfolding book_def tally_def by blast
      with assms(3) [OF False] show ?thesis by simp
    qed simp
  qed (use assms(1) in \<open>auto simp: book_def tally_def in_shift_quotas\<close>)
  with assms(1,2) show ?thesis
    by (simp add: book_def pools_ok_def refs_ok_def requests_distinct_def holds_distinct_def request_ids_def)
qed

lemma quotas_ok_shift:
  assumes "quotas_ok t"
    and "\<And>q. q \<in> set (t_quotas t) \<Longrightarrow> 0 \<le> cq_UsedAmount q + f (quota_key q)"
    and "\<And>q. q \<in> set (t_quotas t) \<Longrightarrow> cq_UsedAmount q + f (quota_key q) \<le> cq_Limit q"
  shows "quotas_ok (t\<lparr>t_quotas := shift_quotas f (t_quotas t)\<rparr>)"
  using assms by (auto simp: quotas_ok_def list_all_iff quota_ok_def in_shift_quotas)

lemma quota_unique:
  "quotas_ok t \<Longrightarrow> p \<in> set (t_quotas t) \<Longrightarrow> q \<in> set (t_quotas t) \<Longrightarrow> quota_key p = quota_key q \<Longrightarrow> p = q"
  unfolding quotas_ok_def by (metis distinct_key_inj)

lemma quotas_ok_ensure:
  assumes "quotas_ok t" and "0 \<le> limit" and "limit \<le> maxAmount"
  shows "quotas_ok (spec_ensure c k limit t)"
  using assms by (auto simp: spec_ensure_def quotas_ok_def new_quota_def quota_ok_def quota_key_def maxAmount_def in_i64_def list_ex_iff)

lemma book_ensure:
  assumes "book br bd bq t" and "0 \<le> limit" and "limit \<le> maxAmount"
  shows "book br bd bq (spec_ensure c k limit t)"
proof (cases "list_ex (\<lambda>q. quota_key q = (c, k)) (t_quotas t)")
  case True
  with assms show ?thesis by (simp add: spec_ensure_def)
next
  case False
  then have new: "(c, k) \<notin> quota_keys t" by (auto simp: quota_keys_def list_ex_iff)
  with assms(1) have "bq (c, k) + used_in t (c, k) = 0" by (auto simp: book_def tally_def)
  moreover have "quota_key (new_quota c k limit) = (c, k)" by (simp add: quota_key_def new_quota_def)
  ultimately have "tally br bd bq (spec_ensure c k limit t)"
    using assms(1) False by (auto simp: book_def tally_def spec_ensure_def new_quota_def quota_keys_def)
  moreover have "quotas_ok (spec_ensure c k limit t)"
    using assms by (intro quotas_ok_ensure) (simp_all add: book_def)
  ultimately show ?thesis
    using assms(1) False
    by (simp add: book_def spec_ensure_def pools_ok_def refs_ok_def requests_distinct_def holds_distinct_def
        request_ids_def)
qed

lemma quotas_ok_consume:
  assumes ok: "quotas_ok t" and a: "quota_admits c k n t" and "0 < n"
  shows "quotas_ok (spec_consume c k n t)"
proof -
  obtain q0 where q0: "q0 \<in> set (t_quotas t)" "quota_key q0 = (c, k)" "n \<le> cq_Limit q0 - cq_UsedAmount q0"
    using a by (auto simp: quota_admits_def list_ex_iff)
  have only: "q = q0" if "q \<in> set (t_quotas t)" "quota_key q = (c, k)" for q
    using quota_unique [OF ok that(1) q0(1)] that(2) q0(2) by simp
  have "quota_ok q" if "q \<in> set (t_quotas t)" for q
    using ok that by (simp add: quotas_ok_def list_all_iff)
  with only q0(3) assms(3) show ?thesis
    unfolding spec_consume_def by (intro quotas_ok_shift ok) (fastforce simp: at_def quota_ok_def)+
qed

lemma quotas_ok_unconsume:
  assumes "quotas_ok t" and "0 < n"
  shows "quotas_ok (spec_unconsume c k n t)"
proof -
  have "map quota_key (t_quotas (spec_unconsume c k n t)) = map quota_key (t_quotas t)"
    by (simp add: spec_unconsume_def) (rule map_mapWhere_same, simp)
  with assms show ?thesis
    by (auto simp: quotas_ok_def spec_unconsume_def list_all_iff set_mapWhere quota_ok_def)
qed

lemma book_consume:
  assumes b: "book br bd bq t" and a: "quota_admits c k n t" and "0 < n"
  shows "book br bd (\<lambda>ck. bq ck + at (c, k) n ck) (spec_consume c k n t)"
proof -
  obtain q0 where q0: "q0 \<in> set (t_quotas t)" "quota_key q0 = (c, k)"
    using a by (auto simp: quota_admits_def list_ex_iff)
  have "quotas_ok (spec_consume c k n t)" using b by (intro quotas_ok_consume a assms(3)) (simp add: book_def)
  moreover have "\<And>ck. ck \<notin> quota_keys t \<Longrightarrow> at (c, k) n ck = 0"
    using imageI [OF q0(1), of quota_key] q0(2) by (auto simp: quota_keys_def at_def)
  ultimately show ?thesis unfolding spec_consume_def by (intro book_shift_quotas b)
qed

lemma book_unconsume:
  assumes b: "book br bd bq t" and "n \<le> bq (c, k) + used_in t (c, k)" and "0 < n"
  shows "book br bd (\<lambda>ck. bq ck + at (c, k) (- n) ck) (spec_unconsume c k n t)"
proof -
  have ok: "quotas_ok t" using b by (simp add: book_def)
  have used: "n \<le> cq_UsedAmount q" if "q \<in> set (t_quotas t)" "quota_key q = (c, k)" for q
    using b assms(2) that by (auto simp: book_def tally_def)
  have "(c, k) \<in> quota_keys t"
  proof (rule ccontr)
    assume "(c, k) \<notin> quota_keys t"
    with b have "bq (c, k) + used_in t (c, k) = 0" by (auto simp: book_def tally_def)
    with assms(2,3) show False by simp
  qed
  then have absent: "\<And>ck. ck \<notin> quota_keys t \<Longrightarrow> at (c, k) (- n) ck = 0" by (auto simp: at_def)
  have "mapWhere (\<lambda>q. quota_key q = (c, k)) (\<lambda>q. q\<lparr>cq_UsedAmount := max (cq_UsedAmount q - n) 0\<rparr>) (t_quotas t) =
      shift_quotas (at (c, k) (- n)) (t_quotas t)"
    unfolding mapWhere_def shift_quotas_def using used by (intro map_cong) (auto simp: at_def)
  then have eq: "spec_unconsume c k n t = t\<lparr>t_quotas := shift_quotas (at (c, k) (- n)) (t_quotas t)\<rparr>"
    by (simp add: spec_unconsume_def)
  have "quota_ok q" if "q \<in> set (t_quotas t)" for q
    using ok that by (simp add: quotas_ok_def list_all_iff)
  with used assms(3) have "quotas_ok (t\<lparr>t_quotas := shift_quotas (at (c, k) (- n)) (t_quotas t)\<rparr>)"
    by (intro quotas_ok_shift ok) (fastforce simp: at_def quota_ok_def)+
  from book_shift_quotas [OF b this absent] show ?thesis unfolding eq .
qed

subsection \<open>Hold operations\<close>

lemma book_hold:
  assumes b: "book br bd bq t" and h: "h \<in> set (t_holds t)" "hd_Status h = HoldActive"
    and own: "customer_of t (hd_RequestID h) = Some c" "kind_of t (hd_PoolID h) = Some k"
    and dst: "dst \<noteq> HoldActive"
  shows "book (\<lambda>i. br i + at (hd_PoolID h) (hd_Amount h) i)
     (\<lambda>i. bd i - at (hd_PoolID h) (if dst = HoldDedicated then hd_Amount h else 0) i)
     (\<lambda>ck. bq ck + at (c, k) (if dst = HoldDedicated then 0 else hd_Amount h) ck)
     (spec_hold (hd_ID h) HoldActive dst t)"
proof -
  let ?t = "spec_hold (hd_ID h) HoldActive dst t"
  have ids: "distinct (map hd_ID (t_holds t))" using b by (simp add: book_def holds_distinct_def)
  note pool = on_pool_flip [OF ids h, where dst = dst]
  have used: "used_in ?t ck = used_in t ck + at (c, k) (if dst = HoldDedicated then 0 else - hd_Amount h) ck" for ck
    using used_by_flip [where own = "customer_of t" and kind = "kind_of t" and ck = ck and dst = dst, OF ids h own] h(2) dst
    by (cases dst) (simp_all add: used_in_def spec_hold_def live_def)
  have [simp]: "t_pools ?t = t_pools t" "t_quotas ?t = t_quotas t" "t_requests ?t = t_requests t"
    "t_lines ?t = t_lines t" "quota_keys ?t = quota_keys t" "request_ids ?t = request_ids t" "kind_of ?t = kind_of t"
    by (simp_all add: spec_hold_def quota_keys_def request_ids_def)
  have "tally (\<lambda>i. br i + at (hd_PoolID h) (hd_Amount h) i)
      (\<lambda>i. bd i - at (hd_PoolID h) (if dst = HoldDedicated then hd_Amount h else 0) i)
      (\<lambda>ck. bq ck + at (c, k) (if dst = HoldDedicated then 0 else hd_Amount h) ck) ?t"
    unfolding tally_def used
  proof (intro conjI allI ballI)
    fix p
    assume "p \<in> set (t_pools ?t)"
    then have p: "p \<in> set (t_pools t)" by simp
    show "rp_ReservedAmount p = br (rp_ID p) + at (hd_PoolID h) (hd_Amount h) (rp_ID p) + on_pool HoldActive (rp_ID p) (t_holds ?t)"
      using b p dst pool [where st = HoldActive and i = "rp_ID p"] h(2) by (simp add: book_def tally_def spec_hold_def at_def)
    show "rp_DedicatedAmount p = bd (rp_ID p) - at (hd_PoolID h) (if dst = HoldDedicated then hd_Amount h else 0) (rp_ID p) +
        on_pool HoldDedicated (rp_ID p) (t_holds ?t)"
      using b p dst pool [where st = HoldDedicated and i = "rp_ID p"] h(2) by (simp add: book_def tally_def spec_hold_def at_def)
  next
    fix q
    assume "q \<in> set (t_quotas ?t)"
    with b show "cq_UsedAmount q = bq (quota_key q) + at (c, k) (if dst = HoldDedicated then 0 else hd_Amount h) (quota_key q) +
        (used_in t (quota_key q) + at (c, k) (if dst = HoldDedicated then 0 else - hd_Amount h) (quota_key q))"
      by (simp add: book_def tally_def at_def)
  next
    fix ck
    have "ck \<in> quota_keys t \<or> bq ck + used_in t ck = 0" using b unfolding book_def tally_def by blast
    then show "ck \<in> quota_keys ?t \<or> bq ck + at (c, k) (if dst = HoldDedicated then 0 else hd_Amount h) ck +
        (used_in t ck + at (c, k) (if dst = HoldDedicated then 0 else - hd_Amount h) ck) = 0"
      by (auto simp: at_def)
  qed
  moreover have "holds_distinct ?t"
    using ids by (simp add: holds_distinct_def spec_hold_def map_mapWhere_same)
  moreover have "refs_ok ?t"
    using b by (auto simp: book_def refs_ok_def) (auto simp: spec_hold_def set_mapWhere)
  ultimately show ?thesis
    using b by (simp add: book_def pools_ok_def quotas_ok_def requests_distinct_def)
qed

text \<open>What the books say about an active hold.\<close>

lemma active_hold_facts:
  assumes b: "book (\<lambda>_. 0) bd bq t" and h: "h \<in> set (t_holds t)" "hd_Status h = HoldActive"
  shows "0 < hd_Amount h" "hd_Amount h \<le> maxAmount" "reserves_at_least (hd_PoolID h) (hd_Amount h) t"
    "hd_PoolID h \<in> pool_ids t"
    "\<exists>r \<in> set (t_requests t). cr_ID r = hd_RequestID h \<and> customer_of t (hd_RequestID h) = Some (cr_CustomerID r)"
    "\<exists>l \<in> set (t_lines t). ln_RequestID l = hd_RequestID h \<and> ln_PoolID l = hd_PoolID h \<and>
       ln_Kind l \<noteq> '''' \<and> kind_of t (hd_PoolID h) = Some (ln_Kind l)"
proof -
  have refs: "refs_ok t" and pools: "pools_ok t" and tal: "tally (\<lambda>_. 0) bd bq t" and req: "requests_distinct t"
    using b by (simp_all add: book_def)
  have pos: "\<And>g. g \<in> set (t_holds t) \<Longrightarrow> 0 < hd_Amount g" using refs by (simp add: refs_ok_def)
  show amt: "0 < hd_Amount h" using pos [OF h(1)] .
  obtain r where r: "r \<in> set (t_requests t)" "cr_ID r = hd_RequestID h"
    using refs h(1) by (fastforce simp: refs_ok_def request_ids_def)
  with customer_of_member [OF req r(1)]
  show "\<exists>r \<in> set (t_requests t). cr_ID r = hd_RequestID h \<and> customer_of t (hd_RequestID h) = Some (cr_CustomerID r)"
    by auto
  obtain l where l: "l \<in> set (t_lines t)" "ln_RequestID l = hd_RequestID h" "ln_PoolID l = hd_PoolID h"
    using refs h(1) unfolding refs_ok_def by blast
  from refs l(1) have k: "ln_Kind l \<noteq> ''''" "kind_of t (ln_PoolID l) = Some (ln_Kind l)"
    unfolding refs_ok_def by blast+
  with l show "\<exists>l \<in> set (t_lines t). ln_RequestID l = hd_RequestID h \<and> ln_PoolID l = hd_PoolID h \<and>
       ln_Kind l \<noteq> '''' \<and> kind_of t (hd_PoolID h) = Some (ln_Kind l)" by auto
  from k(2) l(3) obtain p where p: "p \<in> set (t_pools t)" "rp_ID p = hd_PoolID h"
    by (auto simp: kind_of_def find_Some_iff in_set_conv_nth)
  then show "hd_PoolID h \<in> pool_ids t" by (auto simp: pool_ids_def intro: rev_image_eqI)
  have "rp_ReservedAmount p = on_pool HoldActive (hd_PoolID h) (t_holds t)"
    using tal p by (simp add: tally_def)
  moreover have "hd_Amount h \<le> on_pool HoldActive (hd_PoolID h) (t_holds t)"
    using on_pool_member [OF _ h(1)] pos h(2) by (simp add: less_imp_le)
  ultimately have le: "hd_Amount h \<le> rp_ReservedAmount p" by simp
  with p show "reserves_at_least (hd_PoolID h) (hd_Amount h) t"
    by (auto simp: reserves_at_least_def list_ex_iff)
  have "pool_ok p" using pools p(1) by (simp add: pools_ok_def list_all_iff)
  with le show "hd_Amount h \<le> maxAmount" by (simp add: pool_ok_def)
qed

subsection \<open>Releasing and dedicating a hold\<close>

definition release_step :: "string \<Rightarrow> string \<Rightarrow> hold_status \<Rightarrow> hold \<Rightarrow> tables \<Rightarrow> tables" where
  "release_step c k dst h t = spec_hold (hd_ID h) HoldActive dst
     (spec_unconsume c k (hd_Amount h) (spec_release (hd_PoolID h) (hd_Amount h) t))"

definition dedicate_step :: "hold \<Rightarrow> tables \<Rightarrow> tables" where
  "dedicate_step h t = spec_hold (hd_ID h) HoldActive HoldDedicated (spec_dedicate (hd_PoolID h) (hd_Amount h) t)"

lemma spec_pool_frame [simp]:
  "t_holds (spec_release i n t) = t_holds t" "t_holds (spec_dedicate i n t) = t_holds t"
  "t_requests (spec_release i n t) = t_requests t" "t_requests (spec_dedicate i n t) = t_requests t"
  "t_lines (spec_release i n t) = t_lines t" "t_lines (spec_dedicate i n t) = t_lines t"
  "t_quotas (spec_release i n t) = t_quotas t" "t_quotas (spec_dedicate i n t) = t_quotas t"
  "customer_of (spec_release i n t) = customer_of t" "customer_of (spec_dedicate i n t) = customer_of t"
  "kind_of (spec_release i n t) = kind_of t" "kind_of (spec_dedicate i n t) = kind_of t"
  by (simp_all add: spec_release_def spec_dedicate_def)

lemma spec_quota_frame [simp]:
  "t_holds (spec_unconsume c k n t) = t_holds t" "t_requests (spec_unconsume c k n t) = t_requests t"
  "t_lines (spec_unconsume c k n t) = t_lines t" "t_pools (spec_unconsume c k n t) = t_pools t"
  "customer_of (spec_unconsume c k n t) = customer_of t" "kind_of (spec_unconsume c k n t) = kind_of t"
  by (simp_all add: spec_unconsume_def)

lemma at_cancels: "(\<lambda>j. 0 + at i (- n) j + at i n j) = (\<lambda>_. 0)" "(\<lambda>j. f j + at i n j - at i n j) = f"
  "(\<lambda>j. f j + at i (- n) j + at i n j) = f" "(\<lambda>j. f j - at i 0 j) = f" "(\<lambda>j. f j + at i 0 j) = f"
  by (auto simp: at_def)

lemma book_release_step:
  assumes b: "book (\<lambda>_. 0) bd bq t" and nn: "\<And>ck. 0 \<le> bq ck"
    and h: "h \<in> set (t_holds t)" "hd_Status h = HoldActive"
    and own: "customer_of t (hd_RequestID h) = Some c" "kind_of t (hd_PoolID h) = Some k"
    and dst: "dst \<noteq> HoldActive" "dst \<noteq> HoldDedicated"
  shows "book (\<lambda>_. 0) bd bq (release_step c k dst h t)"
proof -
  note facts = active_hold_facts [OF b h]
  let ?n = "hd_Amount h" and ?i = "hd_PoolID h"
  from book_release [OF b facts(3,1)]
  have b1: "book (\<lambda>j. 0 + at ?i (- ?n) j) bd bq (spec_release ?i ?n t)" .
  have "\<And>g. g \<in> set (t_holds t) \<Longrightarrow> 0 \<le> hd_Amount g"
    using b unfolding book_def refs_ok_def by (meson less_imp_le)
  then have "?n \<le> used_in t (c, k)"
    unfolding used_in_def using used_by_member [where own = "customer_of t" and kind = "kind_of t", OF _ h(1) _ own] h(2) by (simp add: live_def)
  with nn [of "(c, k)"] have "?n \<le> bq (c, k) + used_in (spec_release ?i ?n t) (c, k)"
    by (simp add: used_in_def)
  from book_unconsume [OF b1 this facts(1)]
  have b2: "book (\<lambda>j. 0 + at ?i (- ?n) j) bd (\<lambda>ck. bq ck + at (c, k) (- ?n) ck)
      (spec_unconsume c k ?n (spec_release ?i ?n t))" .
  have "book (\<lambda>j. 0 + at ?i (- ?n) j + at ?i ?n j) (\<lambda>i. bd i - at ?i 0 i)
      (\<lambda>ck. bq ck + at (c, k) (- ?n) ck + at (c, k) ?n ck) (release_step c k dst h t)"
    unfolding release_step_def
    using book_hold [OF b2 _ _ _ _ dst(1)] h own dst(2) by simp
  then show ?thesis unfolding at_cancels .
qed

lemma book_dedicate_step:
  assumes b: "book (\<lambda>_. 0) bd bq t" and h: "h \<in> set (t_holds t)" "hd_Status h = HoldActive"
    and own: "customer_of t (hd_RequestID h) = Some c" "kind_of t (hd_PoolID h) = Some k"
  shows "book (\<lambda>_. 0) bd bq (dedicate_step h t)"
proof -
  note facts = active_hold_facts [OF b h]
  let ?n = "hd_Amount h" and ?i = "hd_PoolID h"
  from book_dedicate [OF b facts(3,1)]
  have b1: "book (\<lambda>j. 0 + at ?i (- ?n) j) (\<lambda>j. bd j + at ?i ?n j) bq (spec_dedicate ?i ?n t)" .
  have "book (\<lambda>j. 0 + at ?i (- ?n) j + at ?i ?n j) (\<lambda>i. bd i + at ?i ?n i - at ?i ?n i)
      (\<lambda>ck. bq ck + at (c, k) 0 ck) (dedicate_step h t)"
    unfolding dedicate_step_def
    using book_hold [OF b1 _ _ _ _ , where h = h and dst = HoldDedicated and c = c and k = k] h own by simp
  then show ?thesis unfolding at_cancels .
qed

subsection \<open>The life cycle of a request\<close>

text \<open>
  Everything but the counters of the pools and quotas: what releasing and confirming leave alone.
\<close>

definition pool_shell :: "tables \<Rightarrow> resource_pool list" where
  "pool_shell t = map (\<lambda>p. p\<lparr>rp_ReservedAmount := 0, rp_DedicatedAmount := 0\<rparr>) (t_pools t)"

definition quota_shell :: "tables \<Rightarrow> customer_quota list" where
  "quota_shell t = map (\<lambda>q. q\<lparr>cq_UsedAmount := 0\<rparr>) (t_quotas t)"

definition flip_holds :: "(hold \<Rightarrow> bool) \<Rightarrow> hold_status \<Rightarrow> hold list \<Rightarrow> hold list" where
  "flip_holds w dst hs = mapWhere (\<lambda>h. w h \<and> hd_Status h = HoldActive) (\<lambda>h. h\<lparr>hd_Status := dst\<rparr>) hs"

text \<open>
  \<open>moved w dst t t'\<close>: from \<open>t\<close> to \<open>t'\<close>, the active holds selected by \<open>w\<close> went
  to status \<open>dst\<close>, and only counters changed besides.
\<close>

definition moved :: "(hold \<Rightarrow> bool) \<Rightarrow> hold_status \<Rightarrow> tables \<Rightarrow> tables \<Rightarrow> bool" where
  "moved w dst t t' \<longleftrightarrow> t_holds t' = flip_holds w dst (t_holds t) \<and>
     pool_shell t' = pool_shell t \<and> quota_shell t' = quota_shell t \<and>
     t_products t' = t_products t \<and> t_requests t' = t_requests t \<and> t_lines t' = t_lines t \<and>
     t_dedications t' = t_dedications t \<and> t_events t' = t_events t"

lemma pool_shell_shift [simp]: "pool_shell (t\<lparr>t_pools := shift_pools f g (t_pools t)\<rparr>) = pool_shell t"
  by (simp add: pool_shell_def shift_pools_def)

lemma moved_none: "moved (\<lambda>_. False) dst t t"
  by (simp add: moved_def flip_holds_def mapWhere_def)

lemma moved_step:
  assumes "moved w dst t t1" and "dst \<noteq> HoldActive"
    and "t2 = spec_hold i HoldActive dst t1' "
    and "t_holds t1' = t_holds t1" "pool_shell t1' = pool_shell t1" "quota_shell t1' = quota_shell t1"
      "t_products t1' = t_products t1" "t_requests t1' = t_requests t1" "t_lines t1' = t_lines t1"
      "t_dedications t1' = t_dedications t1" "t_events t1' = t_events t1"
  shows "moved (\<lambda>h. w h \<or> hd_ID h = i) dst t t2"
proof -
  have "mapWhere (\<lambda>h. hd_ID h = i \<and> hd_Status h = HoldActive) (\<lambda>h. h\<lparr>hd_Status := dst\<rparr>) (flip_holds w dst hs) =
      flip_holds (\<lambda>h. w h \<or> hd_ID h = i) dst hs" for hs
    using assms(2) by (induction hs) (auto simp: flip_holds_def)
  with assms show ?thesis
    by (simp add: moved_def spec_hold_def pool_shell_def quota_shell_def)
qed

lemma release_frame:
  "pool_shell (spec_unconsume c k n (spec_release i n t)) = pool_shell t"
  "quota_shell (spec_unconsume c k n (spec_release i n t)) = quota_shell t"
  "pool_shell (spec_dedicate i n t) = pool_shell t" "quota_shell (spec_dedicate i n t) = quota_shell t"
  by (simp_all add: spec_unconsume_def spec_release_def spec_dedicate_def quota_shell_def map_mapWhere_same
      pool_shell_def shift_pools_def)

lemma moved_release:
  assumes "moved w dst t t1" and "dst \<noteq> HoldActive"
  shows "moved (\<lambda>g. w g \<or> hd_ID g = hd_ID h) dst t (release_step c k dst h t1)"
proof (rule moved_step [OF assms release_step_def])
  let ?t = "spec_unconsume c k (hd_Amount h) (spec_release (hd_PoolID h) (hd_Amount h) t1)"
  show "pool_shell ?t = pool_shell t1" "quota_shell ?t = quota_shell t1" by (rule release_frame)+
qed (simp_all add: spec_unconsume_def spec_release_def)

lemma moved_dedicate:
  assumes "moved w HoldDedicated t t1"
  shows "moved (\<lambda>g. w g \<or> hd_ID g = hd_ID h) HoldDedicated t (dedicate_step h t1)"
proof (rule moved_step [OF assms _ dedicate_step_def])
  let ?t = "spec_dedicate (hd_PoolID h) (hd_Amount h) t1"
  show "pool_shell ?t = pool_shell t1" "quota_shell ?t = quota_shell t1" by (rule release_frame)+
qed (simp_all add: spec_dedicate_def)

lemma flip_holds_set: "h \<in> set (flip_holds w dst hs) \<longleftrightarrow>
    (\<exists>g \<in> set hs. h = (if w g \<and> hd_Status g = HoldActive then g\<lparr>hd_Status := dst\<rparr> else g))"
  by (auto simp: flip_holds_def mapWhere_def image_iff)

lemma set_status_member:
  "r \<in> set (set_status i st rs) \<longleftrightarrow>
     (\<exists>q \<in> set rs. r = (if cr_ID q = i \<and> cr_Status q = StatusReserved then q\<lparr>cr_Status := st\<rparr> else q))"
  unfolding set_status_def mapWhere_def set_map image_iff by blast

lemma book_requests:
  assumes "book br bd bq t" and "\<And>r. cr_ID (f r) = cr_ID r" and "\<And>r. cr_CustomerID (f r) = cr_CustomerID r"
  shows "book br bd bq (t\<lparr>t_requests := mapWhere p f (t_requests t), t_dedications := ds, t_events := es\<rparr>)"
proof -
  let ?t = "t\<lparr>t_requests := mapWhere p f (t_requests t), t_dedications := ds, t_events := es\<rparr>"
  have cust: "customer_of ?t = customer_of t"
    using customer_of_mapWhere [where f = f and t = t and p = p, OF assms(2,3)] by simp
  have ids: "map cr_ID (t_requests ?t) = map cr_ID (t_requests t)"
    using assms(2) by (simp add: map_mapWhere_same)
  then have "request_ids ?t = request_ids t" unfolding request_ids_def by (metis list.set_map)
  with assms(1) cust ids show ?thesis
    by (simp add: book_def pools_ok_def quotas_ok_def requests_distinct_def holds_distinct_def refs_ok_def
        tally_def used_in_def quota_keys_def)
qed

text \<open>A request that is RESERVED has only ACTIVE holds; any other has none.\<close>

lemma reserved_holds_active:
  "status_ok t \<Longrightarrow> is_reserved i t \<Longrightarrow> h \<in> set (t_holds t) \<Longrightarrow> hd_RequestID h = i \<Longrightarrow> hd_Status h = HoldActive"
  by (fastforce simp: status_ok_def is_reserved_def list_ex_iff)

lemma ledger_finish:
  assumes l: "ledger bd bq t" and res: "is_reserved i t" and b: "book (\<lambda>_. 0) bd bq t1"
    and mv: "moved (\<lambda>h. hd_RequestID h = i) dst t t1" and st: "hold_status_of st = Some dst"
  shows "ledger bd bq (spec_finish i st ds ev t1)"
proof -
  have t1: "t_requests t1 = t_requests t" "t_holds t1 = flip_holds (\<lambda>h. hd_RequestID h = i) dst (t_holds t)"
    using mv by (simp_all add: moved_def)
  have res1: "is_reserved i t1" using res t1(1) by (simp add: is_reserved_def)
  have ids: "distinct (map cr_ID (t_requests t))" using l by (simp add: ledger_def book_def requests_distinct_def)
  obtain r0 where r0: "r0 \<in> set (t_requests t)" "cr_ID r0 = i" "cr_Status r0 = StatusReserved"
    using res by (auto simp: is_reserved_def list_ex_iff)
  have fin: "spec_finish i st ds ev t1 = t1\<lparr>t_requests := mapWhere (\<lambda>r. cr_ID r = i \<and> cr_Status r = StatusReserved)
      (\<lambda>r. r\<lparr>cr_Status := st\<rparr>) (t_requests t1), t_dedications := t_dedications t1 @ ds, t_events := t_events t1 @ [ev]\<rparr>"
    using res1 by (simp add: spec_finish_def set_status_def)
  have "book (\<lambda>_. 0) bd bq (spec_finish i st ds ev t1)"
    unfolding fin by (rule book_requests [OF b]) simp_all
  moreover have "status_ok (spec_finish i st ds ev t1)"
    unfolding status_ok_def
  proof (intro ballI impI)
    fix h r
    assume h: "h \<in> set (t_holds (spec_finish i st ds ev t1))"
      and r: "r \<in> set (t_requests (spec_finish i st ds ev t1))" and eq: "cr_ID r = hd_RequestID h"
    from h obtain g where g: "g \<in> set (t_holds t)"
      "h = (if hd_RequestID g = i \<and> hd_Status g = HoldActive then g\<lparr>hd_Status := dst\<rparr> else g)"
      using t1(2) res1 by (auto simp: spec_finish_def flip_holds_set)
    from r obtain q where q: "q \<in> set (t_requests t)"
      "r = (if cr_ID q = i \<and> cr_Status q = StatusReserved then q\<lparr>cr_Status := st\<rparr> else q)"
      using t1(1) res1 by (auto simp: spec_finish_def set_status_member)
    have qg: "cr_ID q = hd_RequestID g" using eq g(2) q(2) by (auto split: if_splits)
    then have ok: "hold_status_of (cr_Status q) = Some (hd_Status g)"
      using l g(1) q(1) by (auto simp: ledger_def status_ok_def)
    show "hold_status_of (cr_Status r) = Some (hd_Status h)"
    proof (cases "hd_RequestID g = i")
      case True
      with qg have "q = r0" using distinct_key_inj [OF ids q(1) r0(1)] r0(2) by simp
      with True g q r0 ok st show ?thesis by simp
    next
      case False
      with g q qg ok show ?thesis by simp
    qed
  qed
  ultimately show ?thesis using l by (simp add: ledger_def)
qed

lemma ledger_extend:
  assumes "ledger bd bq t"
  shows "ledger bd bq (t\<lparr>t_requests := mapWhere p (\<lambda>r. r\<lparr>cr_ExpiresAt := Some e, cr_ExtensionCount := n\<rparr>) (t_requests t),
     t_events := es\<rparr>)"
proof -
  let ?f = "\<lambda>r. r\<lparr>cr_ExpiresAt := Some e, cr_ExtensionCount := n\<rparr>"
  have "book (\<lambda>_. 0) bd bq (t\<lparr>t_requests := mapWhere p ?f (t_requests t), t_dedications := t_dedications t, t_events := es\<rparr>)"
    using assms by (intro book_requests) (simp_all add: ledger_def)
  then show ?thesis
    using assms by (fastforce simp: ledger_def status_ok_def set_mapWhere)
qed

subsection \<open>New requests\<close>

lemma fresh_request:
  assumes "refs_ok t" and "h \<in> set (t_holds t)" and "distinct (map cr_ID (t_requests t @ rs))" and "r \<in> set rs"
  shows "cr_ID r \<noteq> hd_RequestID h"
  using assms by (fastforce simp: refs_ok_def request_ids_def)

text \<open>Requests without holds, and their lines, do not touch the books.\<close>

lemma ledger_add:
  assumes l: "ledger bd bq t"
    and dist: "requests_distinct (t\<lparr>t_requests := t_requests t @ rs, t_lines := t_lines t @ ls, t_events := es\<rparr>)"
    and lines: "\<And>l. l \<in> set ls \<Longrightarrow> ln_Kind l \<noteq> '''' \<and> kind_of t (ln_PoolID l) = Some (ln_Kind l)"
  shows "ledger bd bq (t\<lparr>t_requests := t_requests t @ rs, t_lines := t_lines t @ ls, t_events := es\<rparr>)" (is "ledger bd bq ?t")
proof -
  have b: "book (\<lambda>_. 0) bd bq t" and refs: "refs_ok t" using l by (simp_all add: ledger_def book_def)
  have "used_in ?t ck = used_in t ck" for ck
    unfolding used_in_def
    by (simp, intro used_by_cong customer_of_append) (use refs in \<open>auto simp: refs_ok_def\<close>)
  then have "tally (\<lambda>_. 0) bd bq ?t" using b by (simp add: book_def tally_def quota_keys_def)
  moreover have "refs_ok ?t"
    using refs lines by (fastforce simp: refs_ok_def request_ids_def)
  moreover have "status_ok ?t"
    unfolding status_ok_def
  proof (intro ballI impI)
    fix h r
    assume h: "h \<in> set (t_holds ?t)" and r: "r \<in> set (t_requests ?t)" and eq: "cr_ID r = hd_RequestID h"
    have "r \<notin> set rs"
    proof
      assume "r \<in> set rs"
      with fresh_request [OF refs] h dist eq show False by (auto simp: requests_distinct_def)
    qed
    with h r eq l show "hold_status_of (cr_Status r) = Some (hd_Status h)" by (auto simp: ledger_def status_ok_def)
  qed
  ultimately show ?thesis
    using l dist by (simp add: ledger_def book_def pools_ok_def quotas_ok_def holds_distinct_def)
qed

lemma ledger_insert_reserved:
  assumes l: "ledger bd bq t0" and b: "book br bd bq' t" and st: "t_requests t = t_requests t0" "t_holds t = t_holds t0"
    and dist: "requests_distinct (spec_insert_reserved req ls hs ev t)" "holds_distinct (spec_insert_reserved req ls hs ev t)"
    and status: "cr_Status req = StatusReserved"
    and lines: "\<And>l. l \<in> set ls \<Longrightarrow> ln_Kind l \<noteq> '''' \<and> kind_of t (ln_PoolID l) = Some (ln_Kind l)"
    and holds: "\<And>h. h \<in> set hs \<Longrightarrow> hd_RequestID h = cr_ID req \<and> hd_Status h = HoldActive \<and> 0 < hd_Amount h"
    and backed: "\<And>h. h \<in> set hs \<Longrightarrow> \<exists>l \<in> set ls. ln_RequestID l = cr_ID req \<and> ln_PoolID l = hd_PoolID h"
    and br: "\<And>i. br i = on_pool HoldActive i hs"
    and bq': "\<And>ck. bq' ck = bq ck + used_by (\<lambda>_. Some (cr_CustomerID req)) (kind_of t) ck hs"
  shows "ledger bd bq (spec_insert_reserved req ls hs ev t)" (is "ledger bd bq ?t")
proof -
  have refs: "refs_ok t" using b by (simp add: book_def)
  have pools: "on_pool s i (map unstamp_hold hs) = on_pool s i hs" for s i
    by (induction hs) simp_all
  have none: "on_pool HoldDedicated i hs = 0" for i
    using holds by (induction hs) auto
  have cust: "customer_of ?t i = customer_of t i" if "i \<in> request_ids t" for i
    using customer_of_append [OF that, of "[unstamp_request req]"] by (simp add: spec_insert_reserved_def)
  have new: "customer_of ?t (cr_ID req) = Some (cr_CustomerID req)"
    using customer_of_member [OF dist(1), of "unstamp_request req"] by (simp add: spec_insert_reserved_def)
  have used: "used_in ?t ck = used_in t ck + used_by (\<lambda>_. Some (cr_CustomerID req)) (kind_of t) ck hs" for ck
  proof -
    have "used_by (customer_of ?t) (kind_of ?t) ck (t_holds t) = used_in t ck"
      unfolding used_in_def
      by (intro used_by_cong cust) (use refs in \<open>auto simp: refs_ok_def spec_insert_reserved_def\<close>)
    moreover have "used_by (customer_of ?t) (kind_of ?t) ck (map unstamp_hold hs) =
        used_by (\<lambda>_. Some (cr_CustomerID req)) (kind_of t) ck hs"
      using holds new by (induction hs) (auto simp: live_def spec_insert_reserved_def)
    ultimately show ?thesis by (simp add: used_in_def spec_insert_reserved_def)
  qed
  have tal: "tally br bd bq' t" using b by (simp add: book_def)
  have "tally (\<lambda>_. 0) bd bq ?t"
    unfolding tally_def used
  proof (intro conjI allI)
    fix ck
    have "ck \<in> quota_keys t \<or> bq' ck + used_in t ck = 0" using tal unfolding tally_def by blast
    then show "ck \<in> quota_keys ?t \<or>
        bq ck + (used_in t ck + used_by (\<lambda>_. Some (cr_CustomerID req)) (kind_of t) ck hs) = 0"
      by (auto simp: bq' quota_keys_def spec_insert_reserved_def)
  qed (use tal in \<open>auto simp: tally_def spec_insert_reserved_def pools none br bq'\<close>)
  moreover have "refs_ok ?t"
    using refs lines holds backed
    by (fastforce simp: refs_ok_def request_ids_def spec_insert_reserved_def)
  moreover have "status_ok ?t"
    unfolding status_ok_def
  proof (intro ballI impI)
    fix h r
    assume h: "h \<in> set (t_holds ?t)" and r: "r \<in> set (t_requests ?t)" and eq: "cr_ID r = hd_RequestID h"
    have d: "distinct (map cr_ID (t_requests t @ [unstamp_request req]))"
      using dist(1) by (simp add: requests_distinct_def spec_insert_reserved_def)
    from h consider (old) "h \<in> set (t_holds t)" | (new) g where "g \<in> set hs" "h = unstamp_hold g"
      by (auto simp: spec_insert_reserved_def)
    then show "hold_status_of (cr_Status r) = Some (hd_Status h)"
    proof cases
      case old
      with fresh_request [OF refs old d] r eq have "r \<in> set (t_requests t)" by (auto simp: spec_insert_reserved_def)
      with old eq l st show ?thesis by (auto simp: ledger_def status_ok_def)
    next
      case new
      with holds eq d r have "r = unstamp_request req" by (auto simp: spec_insert_reserved_def image_iff)
      with new holds status show ?thesis by simp
    qed
  qed
  ultimately show ?thesis
    using l b dist by (simp add: ledger_def book_def pools_ok_def quotas_ok_def spec_insert_reserved_def)
qed

end
