(* ===== verification/Create_Plans.thy ===== *)
theory Create_Plans
  imports Service_Create Ledger
begin

text \<open>
  What the reservation plan of a request is, without the state: validated lines, the resolved
  amounts, and the plan's rows. The amounts asked for are \<open>wanted\<close>; \<open>planned\<close> says when a list
  of plans is a plan for them.
\<close>

subsection \<open>Validation\<close>

lemma validate_lines_None:
  "validate_lines seen ls = None \<longleftrightarrow>
     (\<forall>l \<in> set ls. li_ResourceKind l \<noteq> '''' \<and> 0 < li_Amount l \<and> li_Amount l \<le> maxAmount) \<and>
     distinct (map li_ResourceKind ls) \<and> set seen \<inter> li_ResourceKind ` set ls = {}"
  by (induction ls arbitrary: seen) auto

lemma validate_lines_reason:
  "validate_lines seen ls = Some e \<Longrightarrow> \<exists>m d. e = NewAppError ReasonInvalidInput m d"
  by (induction ls arbitrary: seen) (auto split: if_splits)

definition input_ok :: "create_input \<Rightarrow> bool" where
  "input_ok inp \<longleftrightarrow>
     (if ci_ProductCode inp \<noteq> ''''
      then 0 \<le> ci_Quantity inp \<and> ci_Quantity inp \<le> maxQuantity \<and> ci_Lines inp = []
      else length (ci_Lines inp) \<le> maxLinesPerRequest \<and> distinct (map li_ResourceKind (ci_Lines inp)) \<and>
        (\<forall>l \<in> set (ci_Lines inp). li_ResourceKind l \<noteq> '''' \<and> 0 < li_Amount l \<and> li_Amount l \<le> maxAmount))"

lemma validate_None: "validateCreateInput inp = None \<longleftrightarrow> input_ok inp"
  by (auto simp: validateCreateInput_def input_ok_def validate_lines_None)

lemma validate_Some: "validateCreateInput inp = Some e \<Longrightarrow> \<exists>m d. e = NewAppError ReasonInvalidInput m d"
  by (auto simp: validateCreateInput_def dest: validate_lines_reason split: if_splits)

lemma input_ok_correlation [simp]: "input_ok (inp\<lparr>ci_CorrelationID := c\<rparr>) = input_ok inp"
  by (simp add: input_ok_def)

lemma hash_correlation [simp]: "computeBodyHash E (inp\<lparr>ci_CorrelationID := c\<rparr>) = computeBodyHash E inp"
  by (simp add: computeBodyHash_def body_fingerprint_def)

subsection \<open>Resolved amounts\<close>

definition amounts_ok :: "(string \<times> int) list \<Rightarrow> bool" where
  "amounts_ok out \<longleftrightarrow> distinct (map fst out) \<and> (\<forall>(k, n) \<in> set out. 0 < n \<and> n \<le> maxAmount)"

lemma small_in_i64: "0 < n \<Longrightarrow> n \<le> maxAmount \<Longrightarrow> in_i64 n"
  by (simp add: in_i64_def maxAmount_def)

lemma bump_new:
  assumes "k \<notin> fst ` set out" and "0 < n" and "n \<le> maxAmount"
  shows "bump k n out = out @ [(k, n)]"
proof -
  have "AList.update k v out = out @ [(k, v)]" for v
    using assms(1) by (induction out) auto
  moreover have "map_of out k = None" using assms(1) by (simp add: map_of_eq_None_iff)
  ultimately show ?thesis using small_in_i64 [OF assms(2,3)] by (simp add: bump_def)
qed

lemma amounts_ok_snoc:
  "amounts_ok (out @ [(k, n)]) \<longleftrightarrow> amounts_ok out \<and> k \<notin> fst ` set out \<and> 0 < n \<and> n \<le> maxAmount"
  by (auto simp: amounts_ok_def)

lemma resolve_template_Inr:
  "resolve_template qty kvs out = Inr r \<Longrightarrow> distinct (map fst (out @ kvs)) \<Longrightarrow> amounts_ok out \<Longrightarrow>
   amounts_ok r \<and> r = out @ map (\<lambda>(k, v). (k, i64 (v * qty))) kvs"
proof (induction kvs arbitrary: out)
  case Nil
  then show ?case by simp
next
  case (Cons kv kvs)
  obtain k v where kv: "kv = (k, v)" by fastforce
  from Cons.prems(1) kv have amt: "0 < i64 (v * qty)" "i64 (v * qty) \<le> maxAmount"
    and rest: "resolve_template qty kvs (bump k (i64 (v * qty)) out) = Inr r"
    by (auto simp: Let_def split: if_splits)
  have new: "k \<notin> fst ` set out" using Cons.prems(2) kv by auto
  note b = bump_new [OF new amt]
  have "amounts_ok (out @ [(k, i64 (v * qty))])" using Cons.prems(3) new amt by (simp add: amounts_ok_snoc)
  with Cons.IH [OF rest] Cons.prems(2) kv b show ?case by auto
qed

lemma resolve_lines:
  assumes "distinct (map li_ResourceKind ls)" and "\<forall>l \<in> set ls. 0 < li_Amount l \<and> li_Amount l \<le> maxAmount"
    and "amounts_ok out" and "fst ` set out \<inter> li_ResourceKind ` set ls = {}"
  shows "fold (\<lambda>l. bump (li_ResourceKind l) (li_Amount l)) ls out =
      out @ map (\<lambda>l. (li_ResourceKind l, li_Amount l)) ls \<and>
    amounts_ok (out @ map (\<lambda>l. (li_ResourceKind l, li_Amount l)) ls)"
  using assms
proof (induction ls arbitrary: out)
  case Nil
  then show ?case by simp
next
  case (Cons l ls)
  have new: "li_ResourceKind l \<notin> fst ` set out" using Cons.prems(4) by auto
  have b: "bump (li_ResourceKind l) (li_Amount l) out = out @ [(li_ResourceKind l, li_Amount l)]"
    using Cons.prems(2) new by (intro bump_new) simp_all
  have ok: "amounts_ok (out @ [(li_ResourceKind l, li_Amount l)])"
    using Cons.prems(2,3) new by (simp add: amounts_ok_snoc)
  have "distinct (map li_ResourceKind ls)" "\<forall>l \<in> set ls. 0 < li_Amount l \<and> li_Amount l \<le> maxAmount"
    "fst ` set (out @ [(li_ResourceKind l, li_Amount l)]) \<inter> li_ResourceKind ` set ls = {}"
    using Cons.prems(1,2,4) by auto
  from Cons.IH [OF this(1,2) ok this(3)] show ?case by (simp add: b)
qed

definition effective_quantity :: "create_input \<Rightarrow> int" where
  "effective_quantity inp = (if ci_Quantity inp \<le> 0 then 1 else ci_Quantity inp)"

text \<open>The amounts a request asks for, per kind.\<close>

definition wanted :: "create_input \<Rightarrow> product option \<Rightarrow> (string \<times> int) list" where
  "wanted inp product =
     (case product of
        Some p \<Rightarrow> map (\<lambda>(k, v). (k, i64 (v * effective_quantity inp))) (pd_ResourceTemplate p)
      | None \<Rightarrow> map (\<lambda>l. (li_ResourceKind l, li_Amount l)) (ci_Lines inp))"

lemma wanted_correlation [simp]: "wanted (inp\<lparr>ci_CorrelationID := c\<rparr>) product = wanted inp product"
  by (cases product) (simp_all add: wanted_def effective_quantity_def)

subsection \<open>Plans\<close>

definition plan_ok :: "tables \<Rightarrow> reservation_plan list \<Rightarrow> bool" where
  "plan_ok t plans \<longleftrightarrow> distinct (map pl_poolID plans) \<and>
     (\<forall>p \<in> set plans. kind_of t (pl_poolID p) = Some (pl_kind p) \<and> pl_kind p \<noteq> '''' \<and>
        0 < pl_amount p \<and> pl_amount p \<le> maxAmount)"

definition planned ::
    "environment \<Rightarrow> tables \<Rightarrow> create_input \<Rightarrow> product option \<Rightarrow> reservation_plan list \<Rightarrow> bool" where
  "planned E t inp product plans \<longleftrightarrow> plan_ok t plans \<and>
     sorted (map (\<lambda>p. en_uuid_String E (pl_poolID p)) plans) \<and>
     mset (map (\<lambda>p. (pl_kind p, pl_amount p)) plans) = mset (wanted inp product) \<and>
     product = (if ci_ProductCode inp = '''' then None else find (\<lambda>p. pd_Code p = ci_ProductCode inp) (t_products t)) \<and>
     (ci_ProductCode inp \<noteq> '''' \<longrightarrow> product \<noteq> None)"

text \<open>
  The catalog is sane: no pool has an empty kind, and the keys of a template are distinct, as those of
  a Go map are.
\<close>

definition catalog_ok :: "tables \<Rightarrow> bool" where
  "catalog_ok t \<longleftrightarrow> '''' \<notin> pool_kinds t \<and> (\<forall>p \<in> set (t_products t). distinct (map fst (pd_ResourceTemplate p)))"

lemma kind_of_pool:
  assumes "pools_ok t" and "find (\<lambda>p. rp_Kind p = k) (t_pools t) = Some p"
  shows "kind_of t (rp_ID p) = Some k"
proof -
  have p: "p \<in> set (t_pools t)" "rp_Kind p = k" using assms(2) by (auto simp: find_Some_iff in_set_conv_nth)
  have "find (\<lambda>q. rp_ID q = rp_ID p) (t_pools t) = Some p"
    using assms(1) p(1) find_Some_iff_distinct [of rp_ID "t_pools t" "rp_ID p" p] by (simp add: pools_ok_def)
  then show ?thesis by (simp add: kind_of_def p(2))
qed

lemma kind_of_in_kinds: "kind_of t i = Some k \<Longrightarrow> k \<in> pool_kinds t"
  by (auto simp: kind_of_def pool_kinds_def find_Some_iff)

lemma kind_of_in_pools: "kind_of t i = Some k \<Longrightarrow> i \<in> pool_ids t"
  by (auto simp: kind_of_def pool_ids_def find_Some_iff)

lemma list_all2_map_eq: "list_all2 (\<lambda>x y. f x = g y) xs ys \<Longrightarrow> map f xs = map g ys"
  by (induction rule: list_all2_induct) auto

text \<open>Plans collected in any order, then sorted.\<close>

lemma planned_sort:
  assumes cat: "catalog_ok t" and perm: "mset out = mset (wanted inp product)"
    and ok: "amounts_ok (wanted inp product)"
    and each: "list_all2 (\<lambda>(k, n) p. pl_kind p = k \<and> pl_amount p = n \<and> kind_of t (pl_poolID p) = Some k) out plans"
    and prod: "product = (if ci_ProductCode inp = '''' then None
      else find (\<lambda>p. pd_Code p = ci_ProductCode inp) (t_products t))" "ci_ProductCode inp \<noteq> '''' \<longrightarrow> product \<noteq> None"
  shows "planned E t inp product (sort_key (\<lambda>p. en_uuid_String E (pl_poolID p)) plans)"
proof -
  let ?sorted = "sort_key (\<lambda>p. en_uuid_String E (pl_poolID p)) plans"
  have pairs: "out = map (\<lambda>p. (pl_kind p, pl_amount p)) plans"
    using each by (induction rule: list_all2_induct) auto
  have kinds: "\<forall>p \<in> set plans. kind_of t (pl_poolID p) = Some (pl_kind p)"
    using each by (induction rule: list_all2_induct) auto
  have msets: "mset (map (\<lambda>p. (pl_kind p, pl_amount p)) ?sorted) = mset (wanted inp product)"
    using perm pairs by simp
  have "mset (map fst out) = mset (map fst (wanted inp product))" using perm by (metis mset_map)
  then have "distinct (map fst out)" using ok unfolding amounts_ok_def by (metis mset_eq_imp_distinct_iff)
  then have "distinct (map pl_kind plans)" by (simp add: pairs comp_def)
  moreover have "map (\<lambda>i. the (kind_of t i)) (map pl_poolID plans) = map pl_kind plans"
    using kinds by simp
  ultimately have "distinct (map pl_poolID plans)" by (metis distinct_map)
  then have "distinct (map pl_poolID ?sorted)"
    by (metis mset_map mset_sort mset_eq_imp_distinct_iff)
  moreover have "\<forall>p \<in> set plans. 0 < pl_amount p \<and> pl_amount p \<le> maxAmount"
  proof
    fix p assume "p \<in> set plans"
    then have "(pl_kind p, pl_amount p) \<in> set out" by (simp add: pairs)
    then have "(pl_kind p, pl_amount p) \<in> set (wanted inp product)" using perm by (metis mset_eq_setD)
    with ok show "0 < pl_amount p \<and> pl_amount p \<le> maxAmount" unfolding amounts_ok_def by blast
  qed
  moreover have "\<forall>p \<in> set plans. pl_kind p \<noteq> ''''"
    using kinds cat kind_of_in_kinds by (metis catalog_ok_def)
  ultimately have "plan_ok t ?sorted" using kinds by (simp add: plan_ok_def)
  with msets prod show ?thesis by (simp add: planned_def)
qed

text \<open>A plan is determined by the input and the catalog: the iteration order leaves no trace.\<close>

definition pool_of :: "tables \<Rightarrow> string \<Rightarrow> uuid" where
  "pool_of t k = rp_ID (the (find (\<lambda>p. rp_Kind p = k) (t_pools t)))"

lemma pool_of_kind:
  assumes "pools_ok t" and "kind_of t i = Some k"
  shows "pool_of t k = i"
proof -
  from assms(2) obtain p where p: "find (\<lambda>p. rp_ID p = i) (t_pools t) = Some p" "rp_Kind p = k"
    by (auto simp: kind_of_def)
  then have "p \<in> set (t_pools t)" "rp_ID p = i" by (auto simp: find_Some_iff in_set_conv_nth)
  then have "find (\<lambda>q. rp_Kind q = k) (t_pools t) = Some p"
    using assms(1) p(2) find_Some_iff_distinct [of rp_Kind "t_pools t" k p] by (simp add: pools_ok_def)
  then show ?thesis by (simp add: pool_of_def \<open>rp_ID p = i\<close>)
qed

lemma planned_unique:
  assumes "planned E t inp product plans" and "planned E t inp product' plans'" and "inj (en_uuid_String E)"
    and "pools_ok t"
  shows "plans = plans'"
proof -
  let ?pair = "\<lambda>p. (pl_kind p, pl_amount p)"
  let ?g = "\<lambda>(k, n). \<lparr>pl_kind = k, pl_poolID = pool_of t k, pl_amount = n\<rparr>"
  let ?key = "\<lambda>p. en_uuid_String E (pl_poolID p)"
  have same: "product = product'" using assms(1,2) by (simp add: planned_def)
  have rebuilt: "map ?g (map ?pair ps) = ps" if "planned E t inp pr ps" for pr ps
  proof -
    have "?g (?pair p) = p" if "p \<in> set ps" for p
      using \<open>planned E t inp pr ps\<close> that pool_of_kind [OF assms(4)] by (simp add: planned_def plan_ok_def)
    then show ?thesis by (simp add: map_idI)
  qed
  have "mset (map ?g (map ?pair plans)) = mset (map ?g (map ?pair plans'))"
    using assms(1,2) same unfolding planned_def mset_map [of ?g] by simp
  then have ms: "mset plans = mset plans'"
    unfolding rebuilt [OF assms(1)] rebuilt [OF assms(2)] .
  have "inj_on ?key (set plans)"
  proof (rule inj_onI)
    fix p q assume "p \<in> set plans" "q \<in> set plans" "?key p = ?key q"
    moreover from this(3) have "pl_poolID p = pl_poolID q" using assms(3) by (simp add: inj_eq)
    ultimately show "p = q" using assms(1) distinct_key_inj [of pl_poolID plans p q] by (simp add: planned_def plan_ok_def)
  qed
  from sort_key_inj_key_eq [OF ms this] sort_key_inj_key_eq [OF refl this] assms(1,2)
  show ?thesis by (simp add: planned_def)
qed

end
