(* ===== verification/Service_Lifecycle.thy ===== *)
theory Service_Lifecycle
  imports Service_Create
begin

text \<open>
  The life of a reserved request (\<^verbatim>\<open>internal/service/capacity.go\<close>): reading it, confirming,
  cancelling and extending it, and the sweeper that expires what is overdue.
\<close>

subsection \<open>Reading\<close>

definition not_found :: go_error where
  "not_found = NewAppError ReasonNotFound ''request not found'' None"

definition GetRequest ::
    "('r, 'c) capacity_service \<Rightarrow> uuid \<Rightarrow>
     (('r, 'c) world, capacity_request \<times> request_line list \<times> request_event list) gor" where
  "GetRequest S i =
     andThen (onRepo (rr_Get (sv_requests S) i)) (\<lambda>req.
     case req of
       None \<Rightarrow> fail not_found
     | Some req \<Rightarrow>
         andThen (onRepo (rr_ListLines (sv_requests S) i)) (\<lambda>lines.
         andThen (onRepo (rr_ListEvents (sv_requests S) i)) (\<lambda>events.
         ret (req, lines, events))))"

definition ListRequests ::
    "('r, 'c) capacity_service \<Rightarrow> string \<Rightarrow> string option \<Rightarrow> (('r, 'c) world, capacity_request list) gor" where
  "ListRequests S customerID status = onRepo (rr_ListByCustomer (sv_requests S) customerID status)"

text \<open>\<^verbatim>\<open>req.ExpiresAt != nil && !req.ExpiresAt.After(now)\<close>\<close>

definition expired_at :: "time \<Rightarrow> capacity_request \<Rightarrow> bool" where
  "expired_at now req = (case cr_ExpiresAt req of None \<Rightarrow> False | Some e \<Rightarrow> e \<le> now)"

subsection \<open>Confirm\<close>

definition confirm_hold ::
    "('r, 'c) capacity_service \<Rightarrow> uuid \<Rightarrow> time \<Rightarrow> hold \<Rightarrow> (('r, 'c) world, dedication) gor" where
  "confirm_hold S i now h =
     andThen (onRepo (pr_MoveReservedToDedicated (sv_pools S) (hd_PoolID h) (hd_Amount h))) (\<lambda>_.
     andThen (onRepo (rr_UpdateHoldStatus (sv_requests S) (hd_ID h) HoldActive HoldDedicated)) (\<lambda>ok.
     if \<not> ok then fail (NewAppError ReasonConflict ''hold already transitioned'' None)
     else andThen uuid_New (\<lambda>d.
       ret \<lparr>dd_ID = d, dd_RequestID = i, dd_PoolID = hd_PoolID h, dd_HoldID = hd_ID h,
            dd_Amount = hd_Amount h, dd_CreatedAt = now\<rparr>)))"

definition confirm_write ::
    "('r, 'c) capacity_service \<Rightarrow> uuid \<Rightarrow> time \<Rightarrow> hold list \<Rightarrow> (('r, 'c) world, unit) gor" where
  "confirm_write S i now holds =
     andThen (collect (confirm_hold S i now) holds) (\<lambda>dedications.
     andThen uuid_New (\<lambda>evID.
     andThen (onRepo (rr_Confirm (sv_requests S) i dedications
       \<lparr>ev_ID = evID, ev_RequestID = i, ev_EventType = EventConfirmed, ev_Reason = '''', ev_At = now\<rparr>))
     (\<lambda>updated. if \<not> updated then fail (NewAppError ReasonConflict ''confirm race lost'' None) else ret ())))"

definition confirm_body ::
    "('r, 'c) capacity_service \<Rightarrow> uuid \<Rightarrow> time \<Rightarrow> (('r, 'c) world, unit) gor" where
  "confirm_body S i now =
     andThen (onRepo (rr_ListActiveHolds (sv_requests S) i)) (\<lambda>holds. confirm_write S i now holds)"

definition Confirm ::
    "('r, 'c) capacity_service \<Rightarrow> uuid \<Rightarrow> (('r, 'c) world, capacity_request option) gor" where
  "Confirm S i =
     andThen (onRepo (rr_Get (sv_requests S) i)) (\<lambda>req.
     case req of
       None \<Rightarrow> fail not_found
     | Some req \<Rightarrow>
         if cr_Status req = StatusCompleted then ret (Some req)
         else if cr_Status req \<noteq> StatusReserved then
           fail (NewAppError ReasonConflict ''request is not in RESERVED state''
                   (Some [(''status'', DStr (status_string (cr_Status req)))]))
         else andThen Now (\<lambda>now.
           if expired_at now req then fail (NewAppError ReasonExpired ''reservation expired'' None)
           else andThen (WithinTx S (confirm_body S i now)) (\<lambda>_.
             andThen (count ReservationConfirms
                        [case cr_ProductID req of None \<Rightarrow> ''raw'' | Some p \<Rightarrow> en_uuid_String (sv_env S) p]) (\<lambda>_.
             andThen (ignoring (onRedis (cs_InvalidateCapacity (sv_cache S) capacityCacheKey))) (\<lambda>_.
             onRepo (rr_Get (sv_requests S) i))))))"

subsection \<open>Releasing a reservation\<close>

text \<open>
  The closure of \<^verbatim>\<open>releaseReserved\<close> in its two halves: what it reads, and what it then
  writes. Whether a hold was still active, and whether the request was still RESERVED, is not
  looked at.
\<close>

definition release_read ::
    "('r, 'c) capacity_service \<Rightarrow> uuid \<Rightarrow> (('r, 'c) world, hold list \<times> request_line list) gor" where
  "release_read S i =
     andThen (onRepo (rr_ListActiveHolds (sv_requests S) i)) (\<lambda>holds.
     andThen (onRepo (rr_ListLines (sv_requests S) i)) (\<lambda>lines. ret (holds, lines)))"

definition kind_by_pool :: "request_line list \<Rightarrow> (uuid \<times> string) list" where
  "kind_by_pool lines = fold (\<lambda>l. AList.update (ln_PoolID l) (ln_Kind l)) lines []"

definition kind_of_pool :: "request_line list \<Rightarrow> uuid \<Rightarrow> string" where
  "kind_of_pool lines p = (case map_of (kind_by_pool lines) p of None \<Rightarrow> '''' | Some k \<Rightarrow> k)"

definition release_hold ::
    "('r, 'c) capacity_service \<Rightarrow> string \<Rightarrow> request_line list \<Rightarrow> hold_status \<Rightarrow> hold \<Rightarrow> (('r, 'c) world, unit) gor" where
  "release_hold S customerID lines holdTo h =
     andThen (onRepo (pr_ReleaseReserved (sv_pools S) (hd_PoolID h) (hd_Amount h))) (\<lambda>_.
     andThen (let kind = kind_of_pool lines (hd_PoolID h) in
              if kind \<noteq> '''' then onRepo (qr_Release (sv_quotas S) customerID kind (hd_Amount h))
              else ret ()) (\<lambda>_.
     andThen (onRepo (rr_UpdateHoldStatus (sv_requests S) (hd_ID h) HoldActive holdTo)) (\<lambda>_. ret ())))"

definition release_write ::
    "('r, 'c) capacity_service \<Rightarrow> capacity_request \<Rightarrow> request_status \<Rightarrow> time \<Rightarrow> hold list \<times> request_line list \<Rightarrow>
     (('r, 'c) world, unit) gor" where
  "release_write S req terminal now = (\<lambda>(holds, lines).
     andThen (forEach (release_hold S (cr_CustomerID req) lines
                (if terminal = StatusExpired then HoldExpired else HoldReleased)) holds) (\<lambda>_.
     andThen uuid_New (\<lambda>evID.
     let ev = \<lparr>ev_ID = evID, ev_RequestID = cr_ID req,
               ev_EventType = (if terminal = StatusExpired then EventExpired else EventCancelled),
               ev_Reason = status_string terminal, ev_At = now\<rparr> in
     andThen (onRepo (if terminal = StatusExpired then rr_MarkExpired (sv_requests S) (cr_ID req) ev
                      else rr_MarkCancelled (sv_requests S) (cr_ID req) ev)) (\<lambda>_. ret ()))))"

definition releaseReserved ::
    "('r, 'c) capacity_service \<Rightarrow> capacity_request \<Rightarrow> request_status \<Rightarrow> (('r, 'c) world, unit) gor" where
  "releaseReserved S req terminal =
     andThen Now (\<lambda>now.
     WithinTx S (andThen (release_read S (cr_ID req)) (release_write S req terminal now)))"

subsection \<open>Cancel\<close>

definition Cancel ::
    "('r, 'c) capacity_service \<Rightarrow> uuid \<Rightarrow> (('r, 'c) world, capacity_request option) gor" where
  "Cancel S i =
     andThen (onRepo (rr_Get (sv_requests S) i)) (\<lambda>req.
     case req of
       None \<Rightarrow> fail not_found
     | Some req \<Rightarrow>
         if cr_Status req = StatusCancelled then ret (Some req)
         else if cr_Status req \<noteq> StatusReserved then
           fail (NewAppError ReasonConflict ''request cannot be cancelled''
                   (Some [(''status'', DStr (status_string (cr_Status req)))]))
         else andThen (releaseReserved S req StatusCancelled) (\<lambda>_.
           andThen (count ReservationCancels []) (\<lambda>_.
           andThen (ignoring (onRedis (cs_InvalidateCapacity (sv_cache S) capacityCacheKey))) (\<lambda>_.
           onRepo (rr_Get (sv_requests S) i)))))"

subsection \<open>Extend\<close>

definition extension_base :: "time \<Rightarrow> capacity_request \<Rightarrow> time" where
  "extension_base now req =
     (case cr_ExpiresAt req of None \<Rightarrow> now | Some e \<Rightarrow> if e > now then e else now)"

definition Extend ::
    "('r, 'c) capacity_service \<Rightarrow> uuid \<Rightarrow> (('r, 'c) world, capacity_request option) gor" where
  "Extend S i =
     andThen (onRepo (rr_Get (sv_requests S) i)) (\<lambda>req.
     case req of
       None \<Rightarrow> fail not_found
     | Some req \<Rightarrow>
         andThen Now (\<lambda>now.
         if cr_Status req \<noteq> StatusReserved then
           (if cr_Status req = StatusExpired then fail (NewAppError ReasonExpired ''reservation expired'' None)
            else fail (NewAppError ReasonConflict ''request cannot be extended''
                         (Some [(''status'', DStr (status_string (cr_Status req)))])))
         else if expired_at now req then fail (NewAppError ReasonExpired ''reservation expired'' None)
         else if cr_ExtensionCount req \<ge> cfg_MaxExtensions (sv_cfg S) then
           fail (NewAppError ReasonExtensionLimit ''max extensions reached''
                   (Some [(''max'', DInt (cfg_MaxExtensions (sv_cfg S)))]))
         else let newExp = extension_base now req + cfg_ReserveTTL (sv_cfg S) in
           if cr_CreatedAt req + cfg_MaxReserveWallTime (sv_cfg S) < newExp then
             fail (NewAppError ReasonExtensionLimit ''max reserve wall time reached'' None)
           else andThen uuid_New (\<lambda>evID.
             andThen (onRepo (rr_Extend (sv_requests S) i newExp (cr_ExtensionCount req + 1)
               \<lparr>ev_ID = evID, ev_RequestID = i, ev_EventType = EventExtended, ev_Reason = '''', ev_At = now\<rparr>))
             (\<lambda>updated.
               if \<not> updated then fail (NewAppError ReasonConflict ''extend race lost'' None)
               else andThen (count ReservationExtends []) (\<lambda>_. onRepo (rr_Get (sv_requests S) i))))))"

subsection \<open>The sweeper\<close>

text \<open>One round of the loop: 1 when the request was expired; an error is logged and skipped.\<close>

definition expire_one :: "('r, 'c) capacity_service \<Rightarrow> uuid \<Rightarrow> (('r, 'c) world, nat) gor" where
  "expire_one S i =
     andThen (attempt (onRepo (rr_Get (sv_requests S) i))) (\<lambda>g.
     case g of
       Inr (Some req) \<Rightarrow>
         andThen (attempt (releaseReserved S req StatusExpired)) (\<lambda>r.
         case r of
           Inl _ \<Rightarrow> ret 0
         | Inr _ \<Rightarrow> andThen (count ReservationExpires [''sweeper'']) (\<lambda>_.
                    andThen (count SweeperExpiredHolds []) (\<lambda>_. ret 1)))
     | _ \<Rightarrow> ret 0)"

definition expire_body :: "('r, 'c) capacity_service \<Rightarrow> (('r, 'c) world, nat) gor" where
  "expire_body S =
     andThen (count SweeperRuns [''true'']) (\<lambda>_.
     andThen Now (\<lambda>now.
     andThen (onRepo (rr_ListExpiredIDs (sv_requests S) now expireBatchSize)) (\<lambda>ids.
     andThen (collect (expire_one S) ids) (\<lambda>ns.
     let n = sum_list ns in
     andThen (if n > 0 then ignoring (onRedis (cs_InvalidateCapacity (sv_cache S) capacityCacheKey))
              else ret ()) (\<lambda>_. ret n)))))"

definition ExpireDue :: "('r, 'c) capacity_service \<Rightarrow> (('r, 'c) world, nat) gor" where
  "ExpireDue S =
     andThen (onRepo (al_TryLock (sv_lock S) sweeperLockKey)) (\<lambda>ok.
     if \<not> ok then andThen (count SweeperRuns [''false'']) (\<lambda>_. ret 0)
     else deferring (onRepo (al_Unlock (sv_lock S) sweeperLockKey)) (expire_body S))"

end
