(* ===== verification/Service_Rules.thy ===== *)
theory Service_Rules
  imports Service_Lifecycle Ledger
begin

text \<open>
  The capacity service as a client of its interfaces: the locale \<open>capacity_client\<close> collects the
  contracts of the repositories, the transaction runner and the lock the service is injected with, and
  turns each of them into a rule about the call the service makes.
\<close>

subsection \<open>What an assertion sees of the world\<close>

text \<open>
  \<open>sees view I V k w\<close>: the repository invariant holds, the store satisfies \<open>V\<close>, and the
  clock with its position is \<open>k\<close>.
\<close>

definition sees ::
    "('r \<Rightarrow> tables) \<Rightarrow> ('r \<Rightarrow> bool) \<Rightarrow> (tables \<Rightarrow> bool) \<Rightarrow> (nat \<Rightarrow> time) \<times> nat \<Rightarrow> ('r, 'c) world \<Rightarrow> bool" where
  "sees view I V k w \<longleftrightarrow> I (w_repo w) \<and> V (view (w_repo w)) \<and> (w_clock w, w_tick w) = k"

lemma sees_mono: "sees view I V k w \<Longrightarrow> (\<And>t. V t \<Longrightarrow> V' t) \<Longrightarrow> sees view I V' k w"
  by (auto simp: sees_def)

lemma sees_world [simp]:
  "sees view I V k (w\<lparr>w_metrics := x\<rparr>) = sees view I V k w"
  "sees view I V k (w\<lparr>w_redis := c\<rparr>) = sees view I V k w"
  "sees view I V k (w\<lparr>w_drawn := n\<rparr>) = sees view I V k w"
  by (simp_all add: sees_def)

lemma hoare_onRepo:
  assumes "\<And>s r s'. I s \<Longrightarrow> V (view s) \<Longrightarrow> m s = (r, s') \<Longrightarrow>
     I s' \<and> (\<forall>a. r = Inr a \<longrightarrow> Q a (view s')) \<and> (\<forall>e. r = Inl e \<longrightarrow> E e (view s'))"
  shows "hoare (sees view I V k) (onRepo m) (\<lambda>a. sees view I (Q a) k) (\<lambda>e. sees view I (E e) k)"
proof (rule hoareI)
  fix w a w' assume w: "sees view I V k w" and run: "onRepo m w = (Inr a, w')"
  obtain r s' where m: "m (w_repo w) = (r, s')" by fastforce
  from assms [OF _ _ m] w run m show "sees view I (Q a) k w'" by (auto simp: onRepo_def sees_def)
next
  fix w e w' assume w: "sees view I V k w" and run: "onRepo m w = (Inl e, w')"
  obtain r s' where m: "m (w_repo w) = (r, s')" by fastforce
  from assms [OF _ _ m] w run m show "sees view I (E e) k w'" by (auto simp: onRepo_def sees_def)
qed

text \<open>Fixing the store an assertion speaks about.\<close>

lemma hoare_sees:
  assumes "\<And>t. V t \<Longrightarrow> hoare (sees view I ((=) t) k) m Q E"
  shows "hoare (sees view I V k) m Q E"
proof (rule hoareI)
  fix w a w' assume w: "sees view I V k w" and run: "m w = (Inr a, w')"
  from w have "sees view I ((=) (view (w_repo w))) k w" "V (view (w_repo w))" by (simp_all add: sees_def)
  from hoare_Inr [OF assms [OF this(2)] run this(1)] show "Q a w'" .
next
  fix w e w' assume w: "sees view I V k w" and run: "m w = (Inl e, w')"
  from w have "sees view I ((=) (view (w_repo w))) k w" "V (view (w_repo w))" by (simp_all add: sees_def)
  from hoare_Inl [OF assms [OF this(2)] run this(1)] show "E e w'" .
qed

text \<open>A call from a known store: what its value says, and the store it leaves.\<close>

lemma hoare_write:
  assumes "\<And>s r s'. I s \<Longrightarrow> view s = t \<Longrightarrow> m s = (r, s') \<Longrightarrow>
     I s' \<and> (\<forall>a. r = Inr a \<longrightarrow> P a \<and> view s' = F a) \<and> (\<forall>e. r = Inl e \<longrightarrow> V (view s'))"
  shows "hoare (sees view I ((=) t) k) (onRepo m) (\<lambda>a w. P a \<and> sees view I ((=) (F a)) k w) (\<lambda>_. sees view I V k)"
proof (rule hoareI)
  fix w a w' assume w: "sees view I ((=) t) k w" and run: "onRepo m w = (Inr a, w')"
  obtain r s' where m: "m (w_repo w) = (r, s')" by fastforce
  from assms [OF _ _ m] w run m show "P a \<and> sees view I ((=) (F a)) k w'" by (auto simp: onRepo_def sees_def)
next
  fix w e w' assume w: "sees view I ((=) t) k w" and run: "onRepo m w = (Inl e, w')"
  obtain r s' where m: "m (w_repo w) = (r, s')" by fastforce
  from assms [OF _ _ m] w run m show "sees view I V k w'" by (auto simp: onRepo_def sees_def)
qed

text \<open>A read: the store stays, and the value is known.\<close>

lemma hoare_read:
  assumes "\<And>s r s'. I s \<Longrightarrow> view s = t \<Longrightarrow> m s = (r, s') \<Longrightarrow>
     I s' \<and> view s' = view s \<and> (\<forall>a. r = Inr a \<longrightarrow> P a)"
  shows "hoare (sees view I ((=) t) k) (onRepo m) (\<lambda>a w. P a \<and> sees view I ((=) t) k w)
     (\<lambda>_. sees view I ((=) t) k)"
proof (rule hoare_write)
  fix s r s' assume s: "I s" "view s = t" and run: "m s = (r, s')"
  from assms [OF s run] s(2)
  show "I s' \<and> (\<forall>a. r = Inr a \<longrightarrow> P a \<and> view s' = t) \<and> (\<forall>e. r = Inl e \<longrightarrow> t = view s')" by simp
qed

lemma hoare_onRedis: "hoare (sees view I V k) (onRedis m) (\<lambda>_. sees view I V k) (\<lambda>_. sees view I V k)"
  by (rule hoareI) (auto simp: onRedis_def sees_def split: prod.splits)

lemma hoare_count: "hoare (sees view I V k) (count m l) (\<lambda>_. sees view I V k) E"
  unfolding count_def by (rule hoare_updating) simp

lemma hoare_gauge: "hoare (sees view I V k) (gauge g l v) (\<lambda>_. sees view I V k) E"
  unfolding gauge_def by (rule hoare_updating) simp

lemma hoare_uuid: "hoare (sees view I V k) uuid_New (\<lambda>_. sees view I V k) E"
  by (rule hoareI) (auto simp: uuid_New_def calling_iff)

lemma hoare_Now:
  "hoare (sees view I V (ck, n)) Now (\<lambda>now w. now = ck n \<and> sees view I V (ck, Suc n) w) E"
  by (rule hoareI) (auto simp: Now_def calling_iff sees_def)

lemma hoare_ignore_redis:
  "hoare (sees view I V k) (ignoring (onRedis m)) (\<lambda>_. sees view I V k) E"
  by (rule hoare_ignoring [OF hoare_onRedis])

subsection \<open>The client of the interfaces\<close>

locale capacity_client =
  pool_port "sv_pools S" view inv + quota_port "sv_quotas S" view inv +
  product_port "sv_products S" view inv + request_port "sv_requests S" view inv +
  atomic_tx_port "sv_tx S" view inv + lock_port "sv_lock S" view inv
  for S :: "('r, 'c) capacity_service" and view :: "'r \<Rightarrow> tables" and inv :: "'r \<Rightarrow> bool"
begin

lemma Get_rule:
  "hoare (sees view inv ((=) t) k) (onRepo (rr_Get (sv_requests S) i))
     (\<lambda>q w. map_option unstamp_request q = find_request i t \<and> sees view inv ((=) t) k w)
     (\<lambda>_. sees view inv ((=) t) k)"
  by (rule hoare_read) (use get_request in blast)

lemma FindByIdempotency_rule:
  "hoare (sees view inv ((=) t) k) (onRepo (rr_FindByIdempotency (sv_requests S) c i))
     (\<lambda>q w. map_option unstamp_request q = find_idem c i t \<and> sees view inv ((=) t) k w)
     (\<lambda>_. sees view inv ((=) t) k)"
  by (rule hoare_read) (use find_by_idempotency in blast)

lemma CountActive_rule:
  "hoare (sees view inv ((=) t) k) (onRepo (rr_CountActiveHoldsByCustomer (sv_requests S) c))
     (\<lambda>n w. n = int (count_reserved c t) \<and> sees view inv ((=) t) k w) (\<lambda>_. sees view inv ((=) t) k)"
  by (rule hoare_read) (use count_active in blast)

lemma ListLines_rule:
  "hoare (sees view inv ((=) t) k) (onRepo (rr_ListLines (sv_requests S) i))
     (\<lambda>ls w. ls = lines_of i t \<and> sees view inv ((=) t) k w) (\<lambda>_. sees view inv ((=) t) k)"
  by (rule hoare_read) (use list_lines in blast)

lemma ListEvents_rule:
  "hoare (sees view inv ((=) t) k) (onRepo (rr_ListEvents (sv_requests S) i))
     (\<lambda>es w. mset es = mset (events_of i t) \<and> sees view inv ((=) t) k w) (\<lambda>_. sees view inv ((=) t) k)"
  by (rule hoare_read) (use list_events in blast)

lemma ListActiveHolds_rule:
  "hoare (sees view inv ((=) t) k) (onRepo (rr_ListActiveHolds (sv_requests S) i))
     (\<lambda>hs w. mset (map unstamp_hold hs) = mset (active_holds i t) \<and> sees view inv ((=) t) k w)
     (\<lambda>_. sees view inv ((=) t) k)"
  by (rule hoare_read) (use list_active_holds in blast)

lemma ListExpired_rule:
  "hoare (sees view inv ((=) t) k) (onRepo (rr_ListExpiredIDs (sv_requests S) now lim))
     (\<lambda>is w. (length is \<le> lim \<and> mset is \<subseteq># mset (map cr_ID (filter (is_due now) (t_requests t))) \<and>
        (length is < lim \<longrightarrow> mset is = mset (map cr_ID (filter (is_due now) (t_requests t))))) \<and>
        sees view inv ((=) t) k w)
     (\<lambda>_. sees view inv ((=) t) k)"
  by (rule hoare_read) (use list_expired in blast)

lemma GetByKind_rule:
  "hoare (sees view inv ((=) t) k) (onRepo (pr_GetByKind (sv_pools S) kind))
     (\<lambda>q w. map_option unstamp_pool q = find (\<lambda>p. rp_Kind p = kind) (t_pools t) \<and> sees view inv ((=) t) k w)
     (\<lambda>_. sees view inv ((=) t) k)"
  by (rule hoare_read) (use get_by_kind in blast)

lemma GetByCode_rule:
  "hoare (sees view inv ((=) t) k) (onRepo (pd_GetByCode (sv_products S) code))
     (\<lambda>q w. q = find (\<lambda>p. pd_Code p = code) (t_products t) \<and> sees view inv ((=) t) k w)
     (\<lambda>_. sees view inv ((=) t) k)"
  by (rule hoare_read) (use get_by_code in blast)

lemma TryReserve_rule:
  assumes "pools_ok t" and "0 < n" and "n \<le> maxAmount" and "i \<in> pool_ids t"
  shows "hoare (sees view inv ((=) t) k) (onRepo (pr_TryReserve (sv_pools S) i n))
     (\<lambda>a w. (a = admits i n t) \<and> sees view inv ((=) (if a then spec_reserve i n t else t)) k w)
     (\<lambda>_. sees view inv ((=) t) k)"
proof (rule hoare_write)
  fix s r s' assume s: "inv s" "view s = t" and run: "pr_TryReserve (sv_pools S) i n s = (r, s')"
  from try_reserve [OF s(1) _ assms(2,3) _ run] assms(1,4) s(2)
  show "inv s' \<and> (\<forall>a. r = Inr a \<longrightarrow> (a = admits i n t) \<and> view s' = (if a then spec_reserve i n t else t)) \<and> (\<forall>e. r = Inl e \<longrightarrow> (t = view s'))" by (cases r) auto
qed

lemma ReleaseReserved_rule:
  assumes "pools_ok t" and "0 < n" and "n \<le> maxAmount" and "i \<in> pool_ids t"
  shows "hoare (sees view inv ((=) t) k) (onRepo (pr_ReleaseReserved (sv_pools S) i n))
     (\<lambda>a w. (True) \<and> sees view inv ((=) (spec_release i n t)) k w)
     (\<lambda>_. sees view inv ((=) t) k)"
proof (rule hoare_write)
  fix s r s' assume s: "inv s" "view s = t" and run: "pr_ReleaseReserved (sv_pools S) i n s = (r, s')"
  from release_reserved [OF s(1) _ assms(2,3) _ run] assms(1,4) s(2)
  show "inv s' \<and> (\<forall>a. r = Inr a \<longrightarrow> (True) \<and> view s' = (spec_release i n t)) \<and> (\<forall>e. r = Inl e \<longrightarrow> (t = view s'))" by (cases r) auto
qed

lemma MoveReserved_rule:
  assumes "pools_ok t" and "0 < n" and "n \<le> maxAmount" and "i \<in> pool_ids t"
  shows "hoare (sees view inv ((=) t) k) (onRepo (pr_MoveReservedToDedicated (sv_pools S) i n))
     (\<lambda>a w. (True) \<and> sees view inv ((=) (spec_dedicate i n t)) k w)
     (\<lambda>_. sees view inv ((=) t) k)"
proof (rule hoare_write)
  fix s r s' assume s: "inv s" "view s = t" and run: "pr_MoveReservedToDedicated (sv_pools S) i n s = (r, s')"
  from move_reserved [OF s(1) _ assms(2,3) _ run] assms(1,4) s(2)
  show "inv s' \<and> (\<forall>a. r = Inr a \<longrightarrow> (True) \<and> view s' = (spec_dedicate i n t)) \<and> (\<forall>e. r = Inl e \<longrightarrow> (t = view s'))" by (cases r) auto
qed

lemma EnsureAndTryConsume_rule:
  assumes "quotas_ok t" and "0 < n" and "n \<le> maxAmount" and "0 \<le> limit" and "limit \<le> maxAmount"
  shows "hoare (sees view inv ((=) t) k) (onRepo (qr_EnsureAndTryConsume (sv_quotas S) c kind n limit))
     (\<lambda>a w. (a = quota_admits c kind n (spec_ensure c kind limit t)) \<and> sees view inv ((=) (if a then spec_consume c kind n (spec_ensure c kind limit t) else spec_ensure c kind limit t)) k w)
     (\<lambda>_. sees view inv (\<lambda>_. True) k)"
proof (rule hoare_write)
  fix s r s' assume s: "inv s" "view s = t" and run: "qr_EnsureAndTryConsume (sv_quotas S) c kind n limit s = (r, s')"
  from ensure_and_try_consume [OF s(1) _ assms(2-5) run] assms(1) s(2)
  show "inv s' \<and> (\<forall>a. r = Inr a \<longrightarrow> (a = quota_admits c kind n (spec_ensure c kind limit t)) \<and> view s' = (if a then spec_consume c kind n (spec_ensure c kind limit t) else spec_ensure c kind limit t)) \<and> (\<forall>e. r = Inl e \<longrightarrow> (True))" by (cases r) auto
qed

lemma ReleaseQuota_rule:
  assumes "quotas_ok t" and "0 < n" and "n \<le> maxAmount"
  shows "hoare (sees view inv ((=) t) k) (onRepo (qr_Release (sv_quotas S) c kind n))
     (\<lambda>a w. (True) \<and> sees view inv ((=) (spec_unconsume c kind n t)) k w)
     (\<lambda>_. sees view inv ((=) t) k)"
proof (rule hoare_write)
  fix s r s' assume s: "inv s" "view s = t" and run: "qr_Release (sv_quotas S) c kind n s = (r, s')"
  from release_quota [OF s(1) _ assms(2,3) run] assms(1) s(2)
  show "inv s' \<and> (\<forall>a. r = Inr a \<longrightarrow> (True) \<and> view s' = (spec_unconsume c kind n t)) \<and> (\<forall>e. r = Inl e \<longrightarrow> (t = view s'))" by (cases r) auto
qed

lemma UpdateHold_rule:
  assumes "holds_distinct t"
  shows "hoare (sees view inv ((=) t) k) (onRepo (rr_UpdateHoldStatus (sv_requests S) i src dst))
     (\<lambda>a w. (a = list_ex (\<lambda>h. hd_ID h = i \<and> hd_Status h = src) (t_holds t)) \<and> sees view inv ((=) (spec_hold i src dst t)) k w)
     (\<lambda>_. sees view inv ((=) t) k)"
proof (rule hoare_write)
  fix s r s' assume s: "inv s" "view s = t" and run: "rr_UpdateHoldStatus (sv_requests S) i src dst s = (r, s')"
  from update_hold_status [OF s(1) _ run] assms s(2)
  show "inv s' \<and> (\<forall>a. r = Inr a \<longrightarrow> (a = list_ex (\<lambda>h. hd_ID h = i \<and> hd_Status h = src) (t_holds t)) \<and> view s' = (spec_hold i src dst t)) \<and> (\<forall>e. r = Inl e \<longrightarrow> (t = view s'))" by (cases r) auto
qed

lemma CreateReserved_rule:
  assumes "cr_RejectReason req = None"
  shows "hoare (sees view inv ((=) t) k) (onRepo (rr_CreateReserved (sv_requests S) req ls hs ev))
     (\<lambda>a w. (find_idem (cr_CustomerID req) (cr_IdempotencyKey req) t = None \<and> requests_distinct (spec_insert_reserved req ls hs ev t) \<and>
        holds_distinct (spec_insert_reserved req ls hs ev t)) \<and> sees view inv ((=) (spec_insert_reserved req ls hs ev t)) k w)
     (\<lambda>_. sees view inv (\<lambda>_. True) k)"
proof (rule hoare_write)
  fix s r s' assume s: "inv s" "view s = t" and run: "rr_CreateReserved (sv_requests S) req ls hs ev s = (r, s')"
  from create_reserved [OF s(1) assms run] keys_unique [of s'] s(2)
  show "inv s' \<and> (\<forall>a. r = Inr a \<longrightarrow> (find_idem (cr_CustomerID req) (cr_IdempotencyKey req) t = None \<and> requests_distinct (spec_insert_reserved req ls hs ev t) \<and>
        holds_distinct (spec_insert_reserved req ls hs ev t)) \<and> view s' = (spec_insert_reserved req ls hs ev t)) \<and> (\<forall>e. r = Inl e \<longrightarrow> (True))" by (cases r) auto
qed

lemma Confirm_rule:
  shows "hoare (sees view inv ((=) t) k) (onRepo (rr_Confirm (sv_requests S) i ds ev))
     (\<lambda>a w. (a = is_reserved i t) \<and> sees view inv ((=) (spec_finish i StatusCompleted ds ev t)) k w)
     (\<lambda>_. sees view inv (\<lambda>_. True) k)"
proof (rule hoare_write)
  fix s r s' assume s: "inv s" "view s = t" and run: "rr_Confirm (sv_requests S) i ds ev s = (r, s')"
  from confirm [OF s(1) run] s(2)
  show "inv s' \<and> (\<forall>a. r = Inr a \<longrightarrow> (a = is_reserved i t) \<and> view s' = (spec_finish i StatusCompleted ds ev t)) \<and> (\<forall>e. r = Inl e \<longrightarrow> (True))" by (cases r) auto
qed

lemma MarkCancelled_rule:
  shows "hoare (sees view inv ((=) t) k) (onRepo (rr_MarkCancelled (sv_requests S) i ev))
     (\<lambda>a w. (a = is_reserved i t) \<and> sees view inv ((=) (spec_finish i StatusCancelled [] ev t)) k w)
     (\<lambda>_. sees view inv (\<lambda>_. True) k)"
proof (rule hoare_write)
  fix s r s' assume s: "inv s" "view s = t" and run: "rr_MarkCancelled (sv_requests S) i ev s = (r, s')"
  from mark_cancelled [OF s(1) run] s(2)
  show "inv s' \<and> (\<forall>a. r = Inr a \<longrightarrow> (a = is_reserved i t) \<and> view s' = (spec_finish i StatusCancelled [] ev t)) \<and> (\<forall>e. r = Inl e \<longrightarrow> (True))" by (cases r) auto
qed

lemma MarkExpired_rule:
  shows "hoare (sees view inv ((=) t) k) (onRepo (rr_MarkExpired (sv_requests S) i ev))
     (\<lambda>a w. (a = is_reserved i t) \<and> sees view inv ((=) (spec_finish i StatusExpired [] ev t)) k w)
     (\<lambda>_. sees view inv (\<lambda>_. True) k)"
proof (rule hoare_write)
  fix s r s' assume s: "inv s" "view s = t" and run: "rr_MarkExpired (sv_requests S) i ev s = (r, s')"
  from mark_expired [OF s(1) run] s(2)
  show "inv s' \<and> (\<forall>a. r = Inr a \<longrightarrow> (a = is_reserved i t) \<and> view s' = (spec_finish i StatusExpired [] ev t)) \<and> (\<forall>e. r = Inl e \<longrightarrow> (True))" by (cases r) auto
qed

lemma Extend_rule:
  shows "hoare (sees view inv ((=) t) k) (onRepo (rr_Extend (sv_requests S) i ex n ev))
     (\<lambda>a w. (a = is_reserved i t) \<and> sees view inv ((=) (spec_extend i ex n ev t)) k w)
     (\<lambda>_. sees view inv (\<lambda>t'. t' = t \<or> t' = (spec_extend i ex n ev t)\<lparr>t_events := t_events t\<rparr>) k)"
proof (rule hoare_write)
  fix s r s' assume s: "inv s" "view s = t" and run: "rr_Extend (sv_requests S) i ex n ev s = (r, s')"
  from extend [OF s(1) run] s(2)
  show "inv s' \<and> (\<forall>a. r = Inr a \<longrightarrow> (a = is_reserved i t) \<and> view s' = (spec_extend i ex n ev t)) \<and> (\<forall>e. r = Inl e \<longrightarrow> (view s' = t \<or> view s' = (spec_extend i ex n ev t)\<lparr>t_events := t_events t\<rparr>))" by (cases r) auto
qed

lemma CreateRejected_rule:
  assumes "cr_ExpiresAt req = None"
  shows "hoare (sees view inv ((=) t) k) (onRepo (rr_CreateRejected (sv_requests S) req ls ev))
     (\<lambda>a w. (find_idem (cr_CustomerID req) (cr_IdempotencyKey req) t = None \<and> requests_distinct (spec_insert_rejected req ls ev t)) \<and> sees view inv ((=) (spec_insert_rejected req ls ev t)) k w)
     (\<lambda>_. sees view inv (\<lambda>t'. \<exists>reqs lns. t' = t\<lparr>t_requests := t_requests t @ reqs, t_lines := t_lines t @ lns\<rparr> \<and>
       (reqs = [] \<and> lns = [] \<or> reqs = [unstamp_request req] \<and> (\<exists>rest. ls = lns @ rest)) \<and>
       requests_distinct (t')) k)"
proof (rule hoare_write)
  fix s r s' assume s: "inv s" "view s = t" and run: "rr_CreateRejected (sv_requests S) req ls ev s = (r, s')"
  from create_rejected [OF s(1) assms run] keys_unique [of s'] s(2)
  show "inv s' \<and> (\<forall>a. r = Inr a \<longrightarrow> (find_idem (cr_CustomerID req) (cr_IdempotencyKey req) t = None \<and> requests_distinct (spec_insert_rejected req ls ev t)) \<and> view s' = (spec_insert_rejected req ls ev t)) \<and> (\<forall>e. r = Inl e \<longrightarrow> (\<exists>reqs lns. view s' = t\<lparr>t_requests := t_requests t @ reqs, t_lines := t_lines t @ lns\<rparr> \<and>
       (reqs = [] \<and> lns = [] \<or> reqs = [unstamp_request req] \<and> (\<exists>rest. ls = lns @ rest)) \<and>
       requests_distinct (view s')))" by (cases r) auto
qed

text \<open>
  A transaction: the closure runs on the store, and if anything fails the store is what it was.
\<close>

lemma WithinTx_rule:
  assumes body: "hoare (sees view inv ((=) t) k) body (\<lambda>a. sees view inv (Q a) k') (\<lambda>_. sees view inv (\<lambda>_. True) k')"
  shows "hoare (sees view inv ((=) t) k) (WithinTx S body) (\<lambda>a. sees view inv (Q a) k')
     (\<lambda>_ w. sees view inv ((=) t) k w \<or> sees view inv ((=) t) k' w)"
proof (rule hoareI)
  fix w a w' assume w: "sees view inv ((=) t) k w" and run: "WithinTx S body w = (Inr a, w')"
  from run obtain h w1 w2 where b: "onRepo (tx_Begin (sv_tx S)) w = (Inr h, w1)" "body w1 = (Inr a, w2)"
    "onRepo (tx_Commit (sv_tx S)) w2 = (Inr (), w')"
    by (auto simp: WithinTx_def split: prod.splits sum.splits)
  from w have w0: "inv (w_repo w)" "view (w_repo w) = t" by (simp_all add: sees_def)
  obtain r s1 where beg: "tx_Begin (sv_tx S) (w_repo w) = (r, s1)" by fastforce
  from tx_begin [OF w0(1) beg] beg b(1) w have "sees view inv ((=) t) k w1"
    by (auto simp: onRepo_def sees_def)
  from hoare_Inr [OF body b(2) this] have w2: "sees view inv (Q a) k' w2" .
  obtain c s3 where com: "tx_Commit (sv_tx S) (w_repo w2) = (c, s3)" by fastforce
  from w2 have "inv (w_repo w2)" by (simp add: sees_def)
  from tx_commit [OF this com] w2 com b(3) show "sees view inv (Q a) k' w'"
    by (auto simp: onRepo_def sees_def)
next
  fix w e w' assume w: "sees view inv ((=) t) k w" and run: "WithinTx S body w = (Inl e, w')"
  from w have w0: "inv (w_repo w)" "view (w_repo w) = t" by (simp_all add: sees_def)
  obtain r s1 where beg: "tx_Begin (sv_tx S) (w_repo w) = (r, s1)" by fastforce
  note b = tx_begin [OF w0(1) beg]
  show "sees view inv ((=) t) k w' \<or> sees view inv ((=) t) k' w'"
  proof (cases r)
    case (Inl x)
    with run beg b w0(2) w show ?thesis by (auto simp: WithinTx_def onRepo_def sees_def)
  next
    case (Inr h)
    let ?w1 = "w\<lparr>w_repo := s1\<rparr>"
    have h: "inv h" "view h = t" using b Inr w0(2) by auto
    have w1: "sees view inv ((=) t) k ?w1" using b w w0(2) by (simp add: sees_def)
    obtain q w2 where bd: "body ?w1 = (q, w2)" by fastforce
    show ?thesis
    proof (cases q)
      case (Inl x)
      from hoare_Inl [OF body _ w1] bd Inl have i2: "inv (w_repo w2)" "(w_clock w2, w_tick w2) = k'"
        by (simp_all add: sees_def)
      from tx_rollback [OF h(1) i2(1)] i2(2) h(2) run beg bd Inr Inl show ?thesis
        by (auto simp: WithinTx_def onRepo_def sees_def)
    next
      case (Inr a)
      from hoare_Inr [OF body _ w1] bd Inr have i2: "inv (w_repo w2)" "(w_clock w2, w_tick w2) = k'"
        by (simp_all add: sees_def)
      obtain c s3 where com: "tx_Commit (sv_tx S) (w_repo w2) = (c, s3)" by fastforce
      from tx_commit [OF i2(1) com] have "inv s3" by simp
      from tx_rollback [OF h(1) this] i2(2) h(2) run beg bd com \<open>r = Inr h\<close> Inr show ?thesis
        by (auto simp: WithinTx_def onRepo_def sees_def split: sum.splits)
    qed
  qed
qed

end

end
