(* ===== verification/Create_Laws.thy ===== *)
theory Create_Laws
  imports Create_Plans Service_Rules
begin

text \<open>
  What \<^verbatim>\<open>CreateRequest\<close> does to the store: the reading part leaves it alone, the reserve
  transaction either inserts the request together with everything it reserved or changes nothing, and a
  rejection adds the request, its lines and its event, and nothing else.
\<close>

subsection \<open>The pure effect of the reserve loop\<close>

definition reserve_step :: "string \<Rightarrow> reservation_plan \<Rightarrow> tables \<Rightarrow> tables" where
  "reserve_step c p t = spec_consume c (pl_kind p) (pl_amount p)
     (spec_ensure c (pl_kind p) defaultQuotaLimit (spec_reserve (pl_poolID p) (pl_amount p) t))"

definition reserve_all :: "string \<Rightarrow> reservation_plan list \<Rightarrow> tables \<Rightarrow> tables" where
  "reserve_all c plans t = fold (reserve_step c) plans t"

definition plan_on :: "reservation_plan list \<Rightarrow> uuid \<Rightarrow> int" where
  "plan_on plans i = sum_list (map (\<lambda>p. if pl_poolID p = i then pl_amount p else 0) plans)"

definition plan_used :: "string \<Rightarrow> reservation_plan list \<Rightarrow> string \<times> string \<Rightarrow> int" where
  "plan_used c plans ck = sum_list (map (\<lambda>p. if ck = (c, pl_kind p) then pl_amount p else 0) plans)"

lemma plan_sums_nil: "plan_on [] = (\<lambda>_. 0)" "plan_used c [] = (\<lambda>_. 0)"
  by (simp_all add: plan_on_def plan_used_def fun_eq_iff)

lemma plan_sums_snoc:
  "plan_on (ps @ [p]) = (\<lambda>i. plan_on ps i + at (pl_poolID p) (pl_amount p) i)"
  "plan_used c (ps @ [p]) = (\<lambda>ck. plan_used c ps ck + at (c, pl_kind p) (pl_amount p) ck)"
  by (auto simp: plan_on_def plan_used_def at_def fun_eq_iff)

lemma pool_shell_quotas [simp]: "pool_shell (t\<lparr>t_quotas := qs\<rparr>) = pool_shell t"
  by (simp add: pool_shell_def)

lemma reserve_step_frame [simp]:
  "t_requests (reserve_step c p t) = t_requests t" "t_holds (reserve_step c p t) = t_holds t"
  "t_lines (reserve_step c p t) = t_lines t" "t_products (reserve_step c p t) = t_products t"
  "t_dedications (reserve_step c p t) = t_dedications t" "t_events (reserve_step c p t) = t_events t"
  "pool_shell (reserve_step c p t) = pool_shell t"
  "kind_of (reserve_step c p t) = kind_of t"
  by (simp_all add: reserve_step_def spec_consume_def spec_ensure_def spec_reserve_def)

lemma reserve_all_frame [simp]:
  "t_requests (reserve_all c ps t) = t_requests t" "t_holds (reserve_all c ps t) = t_holds t"
  "t_lines (reserve_all c ps t) = t_lines t" "t_products (reserve_all c ps t) = t_products t"
  "t_dedications (reserve_all c ps t) = t_dedications t" "t_events (reserve_all c ps t) = t_events t"
  "pool_shell (reserve_all c ps t) = pool_shell t" "kind_of (reserve_all c ps t) = kind_of t"
  by (induction ps arbitrary: t) (simp_all add: reserve_all_def)

subsection \<open>The rows of a request\<close>

definition lines_for :: "uuid \<Rightarrow> reservation_plan list \<Rightarrow> request_line list \<Rightarrow> bool" where
  "lines_for i plans ls \<longleftrightarrow> list_all2 (\<lambda>p l. ln_RequestID l = i \<and> ln_PoolID l = pl_poolID p \<and>
     ln_Kind l = pl_kind p \<and> ln_Amount l = pl_amount p) plans ls"

definition holds_for :: "uuid \<Rightarrow> time \<Rightarrow> reservation_plan list \<Rightarrow> hold list \<Rightarrow> bool" where
  "holds_for i now plans hs \<longleftrightarrow> list_all2 (\<lambda>p h. hd_RequestID h = i \<and> hd_PoolID h = pl_poolID p \<and>
     hd_Amount h = pl_amount p \<and> hd_Status h = HoldActive \<and> hd_CreatedAt h = now) plans hs"

lemma lines_for_member:
  "lines_for i plans ls \<Longrightarrow> l \<in> set ls \<Longrightarrow>
     \<exists>p \<in> set plans. ln_RequestID l = i \<and> ln_PoolID l = pl_poolID p \<and> ln_Kind l = pl_kind p"
  unfolding lines_for_def by (induction rule: list_all2_induct) auto

lemma lines_for_plan:
  "lines_for i plans ls \<Longrightarrow> p \<in> set plans \<Longrightarrow> \<exists>l \<in> set ls. ln_RequestID l = i \<and> ln_PoolID l = pl_poolID p"
  unfolding lines_for_def by (induction rule: list_all2_induct) auto

lemma holds_for_member:
  "holds_for i now plans hs \<Longrightarrow> h \<in> set hs \<Longrightarrow>
     \<exists>p \<in> set plans. hd_RequestID h = i \<and> hd_PoolID h = pl_poolID p \<and> hd_Amount h = pl_amount p \<and>
       hd_Status h = HoldActive"
  unfolding holds_for_def by (induction rule: list_all2_induct) auto

lemma holds_for_sums:
  assumes "holds_for i now plans hs" and "\<forall>p \<in> set plans. kind (pl_poolID p) = Some (pl_kind p)"
  shows "on_pool HoldActive j hs = plan_on plans j"
    and "used_by (\<lambda>_. Some c) kind ck hs = plan_used c plans ck"
  using assms unfolding holds_for_def
  by (induction rule: list_all2_induct) (auto simp: plan_on_def plan_used_def live_def)

subsection \<open>Effects\<close>

definition reserved_effect ::
    "environment \<Rightarrow> config \<Rightarrow> create_input \<Rightarrow> string \<Rightarrow> time \<Rightarrow> tables \<Rightarrow> capacity_request \<Rightarrow> tables \<Rightarrow> bool" where
  "reserved_effect E cfg inp hash now t req t' \<longleftrightarrow>
     (\<exists>plans product reqID ls hs evID. planned E t inp product plans \<and>
        req = reserved_request inp product reqID now (now + cfg_ReserveTTL cfg) hash \<and>
        lines_for reqID plans ls \<and> holds_for reqID now plans hs \<and>
        find_idem (ci_CustomerID inp) (ci_IdempotencyKey inp) t = None \<and>
        t' = spec_insert_reserved req ls hs
          \<lparr>ev_ID = evID, ev_RequestID = reqID, ev_EventType = EventReserved, ev_Reason = '''', ev_At = now\<rparr>
          (reserve_all (ci_CustomerID inp) plans t))"

definition rejected_effect ::
    "environment \<Rightarrow> create_input \<Rightarrow> string \<Rightarrow> time \<Rightarrow> tables \<Rightarrow> capacity_request \<Rightarrow> tables \<Rightarrow> bool" where
  "rejected_effect E inp hash now t req t' \<longleftrightarrow>
     (\<exists>plans product reqID ls evID rej. planned E t inp product plans \<and>
        req = rejected_request inp product reqID now (rej_reason rej) hash \<and> lines_for reqID plans ls \<and>
        find_idem (ci_CustomerID inp) (ci_IdempotencyKey inp) t = None \<and>
        t' = spec_insert_rejected req ls
          \<lparr>ev_ID = evID, ev_RequestID = reqID, ev_EventType = EventRejected,
           ev_Reason = event_reason rej, ev_At = now\<rparr> t)"

text \<open>What a failed write of a rejection may leave behind: the request and a prefix of its lines.\<close>

definition rejection_debris ::
    "environment \<Rightarrow> create_input \<Rightarrow> string \<Rightarrow> time \<Rightarrow> tables \<Rightarrow> tables \<Rightarrow> bool" where
  "rejection_debris E inp hash now t t' \<longleftrightarrow>
     (\<exists>plans product reqID ls lns rest reason reqs. planned E t inp product plans \<and> lines_for reqID plans ls \<and>
        ls = lns @ rest \<and>
        (reqs = [] \<and> lns = [] \<or>
         reqs = [unstamp_request (rejected_request inp product reqID now reason hash)]) \<and>
        t' = t\<lparr>t_requests := t_requests t @ reqs, t_lines := t_lines t @ lns\<rparr>)"

text \<open>
  What a replay returns: a request already stored whose body hash matches; when it was found through
  the table it is the one of this customer and key.
\<close>

definition replays :: "tables \<Rightarrow> string \<Rightarrow> capacity_request \<Rightarrow> bool" where
  "replays t hash req \<longleftrightarrow> unstamp_request req \<in> set (t_requests t) \<and> (cr_BodyHash req = '''' \<or> cr_BodyHash req = hash)"

definition replays_own :: "tables \<Rightarrow> create_input \<Rightarrow> string \<Rightarrow> capacity_request \<Rightarrow> bool" where
  "replays_own t inp hash req \<longleftrightarrow>
     find_idem (ci_CustomerID inp) (ci_IdempotencyKey inp) t = Some (unstamp_request req) \<and> replays t hash req"

lemma found_replays:
  "map_option unstamp_request (Some req) = find_idem (ci_CustomerID inp) (ci_IdempotencyKey inp) t \<Longrightarrow>
   cr_BodyHash req = '''' \<or> cr_BodyHash req = hash \<Longrightarrow> replays_own t inp hash req"
  unfolding replays_own_def replays_def find_idem_def by (auto dest: find_SomeD [OF sym])

lemma get_replays:
  "map_option unstamp_request (Some req) = find_request i t \<Longrightarrow>
   cr_BodyHash req = '''' \<or> cr_BodyHash req = hash \<Longrightarrow> replays t hash req"
  unfolding replays_def find_request_def by (auto dest: find_SomeD [OF sym])

subsection \<open>The effects keep the books\<close>

lemma lines_backed:
  assumes "plan_ok t plans" and "lines_for i plans ls" and "l \<in> set ls"
  shows "ln_Kind l \<noteq> '''' \<and> kind_of t (ln_PoolID l) = Some (ln_Kind l)"
  using lines_for_member [OF assms(2,3)] assms(1) by (auto simp: plan_ok_def)

lemma rejected_effect_ledger:
  assumes "ledger bd bq t" and "rejected_effect E inp hash now t req t'" and "requests_distinct t'"
  shows "ledger bd bq t'"
proof -
  from assms(2) obtain plans i ls ev where p: "plan_ok t plans" "lines_for i plans ls"
    "t' = t\<lparr>t_requests := t_requests t @ [unstamp_request req], t_lines := t_lines t @ ls, t_events := t_events t @ [ev]\<rparr>"
    by (auto simp: rejected_effect_def planned_def spec_insert_rejected_def)
  show ?thesis
    unfolding p(3) by (rule ledger_add [OF assms(1)]) (use assms(3) lines_backed [OF p(1,2)] p(3) in auto)
qed

lemma rejection_debris_ledger:
  assumes "ledger bd bq t" and "rejection_debris E inp hash now t t'" and "requests_distinct t'"
  shows "ledger bd bq t'"
proof -
  from assms(2) obtain plans i lns rest reqs where p: "plan_ok t plans" "lines_for i plans (lns @ rest)"
    and t': "t' = t\<lparr>t_requests := t_requests t @ reqs, t_lines := t_lines t @ lns\<rparr>"
    unfolding rejection_debris_def planned_def by blast
  then have eq: "t' = t\<lparr>t_requests := t_requests t @ reqs, t_lines := t_lines t @ lns, t_events := t_events t\<rparr>" by simp
  have "ln_Kind l \<noteq> '''' \<and> kind_of t (ln_PoolID l) = Some (ln_Kind l)" if "l \<in> set lns" for l
    using lines_backed [OF p] that by simp
  then show ?thesis
    unfolding eq by (intro ledger_add [OF assms(1)]) (use assms(3) eq in auto)
qed

lemma reserved_rows_ledger:
  assumes l: "ledger bd bq t" and p: "plan_ok t plans"
    and b: "book (plan_on plans) bd (\<lambda>ck. bq ck + plan_used c plans ck) (reserve_all c plans t)"
    and rows: "lines_for (cr_ID req) plans ls" "holds_for (cr_ID req) now plans hs"
    and req: "cr_Status req = StatusReserved" "cr_CustomerID req = c"
    and dist: "requests_distinct (spec_insert_reserved req ls hs ev (reserve_all c plans t))"
      "holds_distinct (spec_insert_reserved req ls hs ev (reserve_all c plans t))"
  shows "ledger bd bq (spec_insert_reserved req ls hs ev (reserve_all c plans t))"
proof (rule ledger_insert_reserved [OF l b _ _ dist req(1)])
  have kinds: "\<forall>p \<in> set plans. kind_of (reserve_all c plans t) (pl_poolID p) = Some (pl_kind p)"
    using p by (simp add: plan_ok_def)
  fix i ck
  show "plan_on plans i = on_pool HoldActive i hs"
    "bq ck + plan_used c plans ck = bq ck + used_by (\<lambda>_. Some (cr_CustomerID req)) (kind_of (reserve_all c plans t)) ck hs"
    using holds_for_sums [OF rows(2) kinds] req(2) by simp_all
next
  fix l assume "l \<in> set ls"
  from lines_backed [OF p rows(1) this]
  show "ln_Kind l \<noteq> '''' \<and> kind_of (reserve_all c plans t) (ln_PoolID l) = Some (ln_Kind l)" by simp
next
  fix h assume "h \<in> set hs"
  from holds_for_member [OF rows(2) this] obtain q where q: "q \<in> set plans" "hd_PoolID h = pl_poolID q"
    "hd_RequestID h = cr_ID req" "hd_Amount h = pl_amount q" "hd_Status h = HoldActive" by blast
  with p show "hd_RequestID h = cr_ID req \<and> hd_Status h = HoldActive \<and> 0 < hd_Amount h" by (simp add: plan_ok_def)
  from lines_for_plan [OF rows(1) q(1)] q(2)
  show "\<exists>l \<in> set ls. ln_RequestID l = cr_ID req \<and> ln_PoolID l = hd_PoolID h" by simp
qed simp_all

subsection \<open>Running the code\<close>

lemma hoare_buildLines:
  "hoare (sees view I V k) (buildLines i plans) (\<lambda>ls w. lines_for i plans ls \<and> sees view I V k w) E"
  unfolding buildLines_def lines_for_def
  by (rule hoare_collect_inv, rule hoare_seq [OF hoare_uuid, where E' = E]) (auto intro: hoare_ret)

lemma hoare_buildHolds:
  "hoare (sees view I V k) (buildHolds i plans now) (\<lambda>hs w. holds_for i now plans hs \<and> sees view I V k w) E"
  unfolding buildHolds_def holds_for_def
  by (rule hoare_collect_inv, rule hoare_seq [OF hoare_uuid, where E' = E]) (auto intro: hoare_ret)

lemma hoare_recordOutcome:
  "hoare (sees view I V k) (recordOutcome S inp req result) (\<lambda>_. sees view I V k) E"
proof -
  have counted: "hoare (sees view I V k) (if result = ''rejected'' then
        (case cr_RejectReason req of None \<Rightarrow> ret () | Some reason \<Rightarrow> count ReservationRejects [reason_string reason])
      else ret ()) (\<lambda>_. sees view I V k) E"
    by (intro hoare_intro hoare_count)
  show ?thesis
    unfolding recordOutcome_def
    by (rule hoare_seq [OF hoare_count], rule hoare_seq [OF counted],
        rule hoare_seq [OF hoare_ignore_redis], rule hoare_seq [OF hoare_ignore_redis],
        rule hoare_ignore_redis)
qed

context capacity_client
begin

lemma matchBody_rule:
  "hoare P (matchIdempotentBody E existing hash)
     (\<lambda>r w. (r = existing \<and> (cr_BodyHash existing = '''' \<or> cr_BodyHash existing = hash)) \<and> P w) (\<lambda>_. P)"
  unfolding matchIdempotentBody_def by (intro hoare_intro) auto

lemma resolveLines_rule:
  assumes perm: "\<And>xs. mset (en_range (sv_env S) xs) = mset xs" and cat: "catalog_ok t" and ok: "input_ok inp"
  shows "hoare (sees view inv ((=) t) k) (resolveLines S inp)
     (\<lambda>q w. (mset (fst q) = mset (wanted inp (snd q)) \<and> amounts_ok (wanted inp (snd q)) \<and>
        snd q = (if ci_ProductCode inp = '''' then None else find (\<lambda>p. pd_Code p = ci_ProductCode inp) (t_products t)) \<and>
        (ci_ProductCode inp \<noteq> '''' \<longrightarrow> snd q \<noteq> None)) \<and> sees view inv ((=) t) k w)
     (\<lambda>_. sees view inv ((=) t) k)"
proof (cases "ci_ProductCode inp = ''''")
  case True
  have lines: "distinct (map li_ResourceKind (ci_Lines inp))"
    "\<forall>l \<in> set (ci_Lines inp). 0 < li_Amount l \<and> li_Amount l \<le> maxAmount"
    using ok True by (auto simp: input_ok_def)
  have "amounts_ok []" by (simp add: amounts_ok_def)
  from resolve_lines [OF lines this] True show ?thesis
    unfolding resolveLines_def by (auto simp: wanted_def intro!: hoare_intro)
next
  case False
  let ?find = "find (\<lambda>p. pd_Code p = ci_ProductCode inp) (t_products t)"
  have step: "amounts_ok (wanted inp (Some p)) \<and> mset out = mset (wanted inp (Some p))"
    if p: "?find = Some p" and out: "resolve_template (effective_quantity inp) (en_range (sv_env S) (pd_ResourceTemplate p)) [] = Inr out"
    for p out
  proof -
    have "p \<in> set (t_products t)" using p by (auto simp: find_Some_iff in_set_conv_nth)
    then have "distinct (map fst (pd_ResourceTemplate p))" using cat by (simp add: catalog_ok_def)
    then have "distinct (map fst (en_range (sv_env S) (pd_ResourceTemplate p)))"
      using perm by (metis mset_eq_imp_distinct_iff mset_map)
    from resolve_template_Inr [OF out] this
    have a: "amounts_ok out" and o: "out = map (\<lambda>(k, v). (k, i64 (v * effective_quantity inp))) (en_range (sv_env S) (pd_ResourceTemplate p))"
      by (auto simp: amounts_ok_def)
    have ms: "mset out = mset (wanted inp (Some p))"
      unfolding o wanted_def by (simp add: perm)
    moreover have "amounts_ok (wanted inp (Some p))"
      using a ms unfolding amounts_ok_def by (metis mset_eq_imp_distinct_iff mset_eq_setD mset_map)
    ultimately show ?thesis by simp
  qed
  show ?thesis
    unfolding resolveLines_def effective_quantity_def [symmetric]
    using False
    by (simp only: if_True not_False_eq_True)
      (rule hoare_bind [OF GetByCode_rule], auto simp: Let_def split: option.splits sum.splits intro!: hoare_intro dest: step)
qed

lemma plan_for_rule:
  assumes "pools_ok t"
  shows "hoare (sees view inv ((=) t) k) (plan_for S x)
     (\<lambda>p w. (\<lambda>(kind, n) p. pl_kind p = kind \<and> pl_amount p = n \<and> kind_of t (pl_poolID p) = Some kind) x p \<and>
        sees view inv ((=) t) k w) (\<lambda>_. sees view inv ((=) t) k)"
proof -
  obtain kind n where x: "x = (kind, n)" by fastforce
  have pool: "kind_of t (rp_ID q) = Some kind" if "map_option unstamp_pool (Some q) = find (\<lambda>p. rp_Kind p = kind) (t_pools t)" for q
    using kind_of_pool [OF assms, of kind "unstamp_pool q"] that by simp
  show ?thesis
    unfolding plan_for_def x split_conv
    by (rule hoare_bind [OF GetByKind_rule]) (auto intro!: hoare_intro pool split: option.splits)
qed

lemma buildReservationPlan_rule:
  assumes perm: "\<And>xs. mset (en_range (sv_env S) xs) = mset xs" and cat: "catalog_ok t" and ok: "input_ok inp"
    and pools: "pools_ok t"
  shows "hoare (sees view inv ((=) t) k) (buildReservationPlan S inp)
     (\<lambda>q w. planned (sv_env S) t inp (snd q) (fst q) \<and> sees view inv ((=) t) k w) (\<lambda>_. sees view inv ((=) t) k)"
  unfolding buildReservationPlan_def
proof (rule hoare_bind [OF resolveLines_rule [OF perm cat ok]])
  fix q :: "(string \<times> int) list \<times> product option"
  assume q: "mset (fst q) = mset (wanted inp (snd q)) \<and> amounts_ok (wanted inp (snd q)) \<and>
      snd q = (if ci_ProductCode inp = '''' then None else find (\<lambda>p. pd_Code p = ci_ProductCode inp) (t_products t)) \<and>
      (ci_ProductCode inp \<noteq> '''' \<longrightarrow> snd q \<noteq> None)"
  obtain out product where [simp]: "q = (out, product)" by fastforce
  have ms: "mset (en_range (sv_env S) out) = mset (wanted inp product)" using q perm by simp
  show "hoare (sees view inv ((=) t) k) (case q of (resolved, product) \<Rightarrow>
      andThen (collect (plan_for S) (en_range (sv_env S) resolved))
        (\<lambda>plans. ret (sort_key (\<lambda>p. en_uuid_String (sv_env S) (pl_poolID p)) plans, product)))
      (\<lambda>q w. planned (sv_env S) t inp (snd q) (fst q) \<and> sees view inv ((=) t) k w) (\<lambda>_. sees view inv ((=) t) k)"
    unfolding \<open>q = (out, product)\<close> split_conv
  proof (rule hoare_bind [OF hoare_collect_inv [OF plan_for_rule [OF pools]]])
    fix plans :: "reservation_plan list"
    assume "list_all2 (\<lambda>(kind, n) p. pl_kind p = kind \<and> pl_amount p = n \<and> kind_of t (pl_poolID p) = Some kind)
        (en_range (sv_env S) out) plans"
    note each = this
    have "amounts_ok (wanted inp product)" "ci_ProductCode inp \<noteq> '''' \<longrightarrow> product \<noteq> None"
      "product = (if ci_ProductCode inp = '''' then None else find (\<lambda>p. pd_Code p = ci_ProductCode inp) (t_products t))"
      using q unfolding \<open>q = (out, product)\<close> fst_conv snd_conv by blast+
    from planned_sort [OF cat ms this(1) each this(3,2)]
    have "planned (sv_env S) t inp product (sort_key (\<lambda>p. en_uuid_String (sv_env S) (pl_poolID p)) plans)" .
    then show "hoare (sees view inv ((=) t) k) (ret (sort_key (\<lambda>p. en_uuid_String (sv_env S) (pl_poolID p)) plans, product))
        (\<lambda>q w. planned (sv_env S) t inp (snd q) (fst q) \<and> sees view inv ((=) t) k w) (\<lambda>_. sees view inv ((=) t) k)"
      by (intro hoare_ret) simp
  qed
qed

lemma reserve_line_rule:
  assumes b: "book br bd bq t" and p: "kind_of t (pl_poolID p) = Some (pl_kind p)" "0 < pl_amount p" "pl_amount p \<le> maxAmount"
    and c: "c = ci_CustomerID inp"
  shows "hoare (sees view inv ((=) t) k) (reserve_line S inp p)
     (\<lambda>_ w. book (\<lambda>i. br i + at (pl_poolID p) (pl_amount p) i) bd (\<lambda>ck. bq ck + at (c, pl_kind p) (pl_amount p) ck)
          (reserve_step c p t) \<and> sees view inv ((=) (reserve_step c p t)) k w)
     (\<lambda>_. sees view inv (\<lambda>_. True) k)"
  unfolding reserve_line_def
proof (rule hoare_bind [OF TryReserve_rule])
  show "pools_ok t" "pl_poolID p \<in> pool_ids t" using b kind_of_in_pools [OF p(1)] by (simp_all add: book_def)
  fix ok
  assume ok: "ok = admits (pl_poolID p) (pl_amount p) t"
  let ?t1 = "spec_reserve (pl_poolID p) (pl_amount p) t"
  let ?t2 = "spec_ensure c (pl_kind p) defaultQuotaLimit ?t1"
  let ?post = "\<lambda>_ w. book (\<lambda>i. br i + at (pl_poolID p) (pl_amount p) i) bd (\<lambda>ck. bq ck + at (c, pl_kind p) (pl_amount p) ck)
          (reserve_step c p t) \<and> sees view inv ((=) (reserve_step c p t)) k w"
  show "hoare (sees view inv ((=) (if ok then ?t1 else t)) k)
     (if \<not> ok then fail (ErrRejected \<lparr>rej_reason = ReasonInsufficientCapacity, rej_message = ''insufficient capacity'',
               rej_details = Some [(''pool'', DStr (pl_kind p)), (''requested'', DInt (pl_amount p))]\<rparr>)
     else andThen (onRepo (qr_EnsureAndTryConsume (sv_quotas S) (ci_CustomerID inp) (pl_kind p)
                             (pl_amount p) defaultQuotaLimit)) (\<lambda>ok.
     if \<not> ok then
       fail (ErrRejected \<lparr>rej_reason = ReasonQuotaExceeded, rej_message = ''quota exceeded'',
               rej_details = Some [(''resource_kind'', DStr (pl_kind p)), (''requested'', DInt (pl_amount p))]\<rparr>)
     else ret ())) ?post (\<lambda>_. sees view inv (\<lambda>_. True) k)"
  proof (cases ok)
    case True
    with ok have b1: "book (\<lambda>i. br i + at (pl_poolID p) (pl_amount p) i) bd bq ?t1"
      using book_reserve [OF b _ p(2)] by simp
    then have b2: "book (\<lambda>i. br i + at (pl_poolID p) (pl_amount p) i) bd bq ?t2"
      by (rule book_ensure) (simp_all add: defaultQuotaLimit_def maxAmount_def)
    show ?thesis
      unfolding c [symmetric] if_P [OF True] if_not_P [of "\<not> ok", unfolded not_not, OF True]
    proof (rule hoare_bind [OF EnsureAndTryConsume_rule [OF _ p(2,3)]])
      show "quotas_ok ?t1" using b1 by (simp add: book_def)
      show "0 \<le> defaultQuotaLimit" "defaultQuotaLimit \<le> maxAmount" by (simp_all add: defaultQuotaLimit_def maxAmount_def)
      fix ok2
      assume ok2: "ok2 = quota_admits c (pl_kind p) (pl_amount p) ?t2"
      show "hoare (sees view inv ((=) (if ok2 then spec_consume c (pl_kind p) (pl_amount p) ?t2 else ?t2)) k)
        (if \<not> ok2 then
          fail (ErrRejected \<lparr>rej_reason = ReasonQuotaExceeded, rej_message = ''quota exceeded'',
               rej_details = Some [(''resource_kind'', DStr (pl_kind p)), (''requested'', DInt (pl_amount p))]\<rparr>)
         else ret ()) ?post (\<lambda>_. sees view inv (\<lambda>_. True) k)"
        using ok2 book_consume [OF b2 _ p(2), of c "pl_kind p"]
        by (cases ok2) (auto intro!: hoare_ret hoare_fail simp: reserve_step_def elim: sees_mono)
    qed simp
  next
    case False
    then show ?thesis by (auto intro!: hoare_fail elim: sees_mono)
  qed
qed (use p in \<open>auto elim: sees_mono\<close>)

lemma reserve_loop_rule:
  assumes l: "ledger bd bq t" and p: "plan_ok t plans"
  shows "hoare (sees view inv ((=) t) k) (forEach (reserve_line S inp) plans)
     (\<lambda>_ w. book (plan_on plans) bd (\<lambda>ck. bq ck + plan_used (ci_CustomerID inp) plans ck)
          (reserve_all (ci_CustomerID inp) plans t) \<and>
        sees view inv ((=) (reserve_all (ci_CustomerID inp) plans t)) k w)
     (\<lambda>_. sees view inv (\<lambda>_. True) k)"
proof -
  let ?c = "ci_CustomerID inp"
  let ?I = "\<lambda>dn w. book (plan_on dn) bd (\<lambda>ck. bq ck + plan_used ?c dn ck) (reserve_all ?c dn t) \<and>
      sees view inv ((=) (reserve_all ?c dn t)) k w"
  have "hoare (?I []) (forEach (reserve_line S inp) plans) (\<lambda>_. ?I plans) (\<lambda>_. sees view inv (\<lambda>_. True) k)"
  proof (rule hoare_forEach [where I = ?I], rule hoare_assume)
    fix dn p rest
    assume split: "plans = dn @ p # rest"
      and b: "book (plan_on dn) bd (\<lambda>ck. bq ck + plan_used ?c dn ck) (reserve_all ?c dn t)"
    have "kind_of (reserve_all ?c dn t) (pl_poolID p) = Some (pl_kind p)" "0 < pl_amount p" "pl_amount p \<le> maxAmount"
      using p split by (simp_all add: plan_ok_def)
    from reserve_line_rule [OF b this refl, where k = k]
    show "hoare (sees view inv ((=) (reserve_all ?c dn t)) k) (reserve_line S inp p) (\<lambda>_. ?I (dn @ [p]))
        (\<lambda>_. sees view inv (\<lambda>_. True) k)"
      by (rule hoare_post) (simp add: plan_sums_snoc reserve_all_def add.assoc)
  qed
  then show ?thesis
    by (rule hoare_pre) (use l in \<open>simp add: ledger_def reserve_all_def plan_sums_nil\<close>)
qed

lemma reserve_body_rule:
  assumes l: "ledger bd bq t" and p: "planned (sv_env S) t inp product plans"
  shows "hoare (sees view inv ((=) t) k)
     (reserve_body S plans product inp i now (now + cfg_ReserveTTL (sv_cfg S)) hash)
     (\<lambda>req. sees view inv (\<lambda>t'. reserved_effect (sv_env S) (sv_cfg S) inp hash now t req t' \<and> ledger bd bq t') k)
     (\<lambda>_. sees view inv (\<lambda>_. True) k)"
proof -
  let ?c = "ci_CustomerID inp"
  let ?r = "reserved_request inp product i now (now + cfg_ReserveTTL (sv_cfg S)) hash"
  have ok: "plan_ok t plans" using p by (simp add: planned_def)
  show ?thesis
    unfolding reserve_body_def Let_def
  proof (rule hoare_bind [OF reserve_loop_rule [OF l ok]], rule hoare_bind [OF hoare_buildLines],
      rule hoare_bind [OF hoare_buildHolds], rule hoare_seq [OF hoare_uuid],
      rule hoare_bind [OF CreateReserved_rule])
    show "cr_RejectReason ?r = None" by (simp add: reserved_request_def)
    fix u ls hs evID v
    let ?ev = "\<lparr>ev_ID = evID, ev_RequestID = i, ev_EventType = EventReserved, ev_Reason = '''', ev_At = now\<rparr>"
    let ?t' = "spec_insert_reserved ?r ls hs ?ev (reserve_all ?c plans t)"
    assume b: "book (plan_on plans) bd (\<lambda>ck. bq ck + plan_used ?c plans ck) (reserve_all ?c plans t)"
      and rows: "lines_for i plans ls" "holds_for i now plans hs"
      and new: "find_idem (cr_CustomerID ?r) (cr_IdempotencyKey ?r) (reserve_all ?c plans t) = None \<and>
        requests_distinct ?t' \<and> holds_distinct ?t'"
    have "find_idem ?c (ci_IdempotencyKey inp) t = None"
      using new by (simp add: reserved_request_def find_idem_def)
    then have "reserved_effect (sv_env S) (sv_cfg S) inp hash now t ?r ?t'"
      unfolding reserved_effect_def using p rows by blast
    moreover have "ledger bd bq ?t'"
      by (rule reserved_rows_ledger [OF l ok b]) (use rows new in \<open>simp_all add: reserved_request_def\<close>)
    ultimately show "hoare (sees view inv ((=) ?t') k) (ret ?r)
        (\<lambda>req. sees view inv (\<lambda>t'. reserved_effect (sv_env S) (sv_cfg S) inp hash now t req t' \<and> ledger bd bq t') k)
        (\<lambda>_. sees view inv (\<lambda>_. True) k)"
      by (intro hoare_ret) (auto elim: sees_mono)
  qed
qed

lemma reserveWithinTx_rule:
  assumes "ledger bd bq t" and "planned (sv_env S) t inp product plans"
  shows "hoare (sees view inv ((=) t) k)
     (reserveWithinTx S plans product inp i now (now + cfg_ReserveTTL (sv_cfg S)) hash)
     (\<lambda>q. case q of
        Inr req \<Rightarrow> sees view inv (\<lambda>t'. reserved_effect (sv_env S) (sv_cfg S) inp hash now t req t' \<and> ledger bd bq t') k
      | Inl rej \<Rightarrow> sees view inv ((=) t) k)
     (\<lambda>_. sees view inv ((=) t) k)"
  unfolding reserveWithinTx_def
proof (rule hoare_andThen [OF hoare_attempt])
  let ?R = "\<lambda>q. case q of
        Inr req \<Rightarrow> sees view inv (\<lambda>t'. reserved_effect (sv_env S) (sv_cfg S) inp hash now t req t' \<and> ledger bd bq t') k
      | Inl (e::go_error) \<Rightarrow> sees view inv ((=) t) k"
  show "hoare (sees view inv ((=) t) k)
     (WithinTx S (reserve_body S plans product inp i now (now + cfg_ReserveTTL (sv_cfg S)) hash))
     (\<lambda>a. ?R (Inr a)) (\<lambda>e. ?R (Inl e))"
    using WithinTx_rule [OF reserve_body_rule [OF assms]] by (rule hoare_conseq) simp_all
  fix q
  show "hoare (?R q) (case q of Inl e \<Rightarrow> (case as_rejected e of None \<Rightarrow> fail e | Some rej \<Rightarrow> ret (Inl rej))
       | Inr req \<Rightarrow> ret (Inr req))
     (\<lambda>q. case q of
        Inr req \<Rightarrow> sees view inv (\<lambda>t'. reserved_effect (sv_env S) (sv_cfg S) inp hash now t req t' \<and> ledger bd bq t') k
      | Inl rej \<Rightarrow> sees view inv ((=) t) k)
     (\<lambda>_. sees view inv ((=) t) k)"
    by (intro hoare_intro) simp_all
qed

lemma replayAfterDuplicate_rule:
  "hoare (sees view inv ((=) t) k) (replayAfterDuplicate S inp hash)
     (\<lambda>req w. replays_own t inp hash req \<and> sees view inv ((=) t) k w) (\<lambda>_. sees view inv ((=) t) k)"
  unfolding replayAfterDuplicate_def
proof (rule hoare_bind [OF FindByIdempotency_rule])
  fix q assume q: "map_option unstamp_request q = find_idem (ci_CustomerID inp) (ci_IdempotencyKey inp) t"
  show "hoare (sees view inv ((=) t) k)
     (case q of None \<Rightarrow> fail (NewAppError ReasonConflict ''duplicate key race but request not found'' None)
      | Some existing \<Rightarrow> matchIdempotentBody (sv_env S) existing hash)
     (\<lambda>req w. replays_own t inp hash req \<and> sees view inv ((=) t) k w) (\<lambda>_. sees view inv ((=) t) k)"
  proof (cases q)
    case (Some x)
    with q found_replays [of x inp t hash] show ?thesis
      by (auto intro: hoare_post [OF matchBody_rule])
  qed (auto intro: hoare_fail)
qed

lemma checkIdempotentReplay_rule:
  "hoare (sees view inv ((=) t) k) (checkIdempotentReplay S inp hash)
     (\<lambda>q w. (\<forall>req. q = Some req \<longrightarrow> replays t hash req) \<and>
        (q = None \<longrightarrow> find_idem (ci_CustomerID inp) (ci_IdempotencyKey inp) t = None) \<and> sees view inv ((=) t) k w)
     (\<lambda>_. sees view inv ((=) t) k)"
proof -
  let ?see = "sees view inv ((=) t) k"
  have fast: "hoare ?see (replay_fast S inp)
      (\<lambda>q w. (\<exists>i. q = None \<or> map_option unstamp_request q = find_request i t) \<and> ?see w) (\<lambda>_. ?see)"
    unfolding replay_fast_def
  proof (rule hoare_andThen [where R = "\<lambda>_. ?see", OF hoare_attempt [OF hoare_onRedis]])
    fix g
    show "hoare ?see (case g of Inl _ \<Rightarrow> ret None | Inr None \<Rightarrow> ret None
        | Inr (Some i) \<Rightarrow> (case en_uuid_Parse (sv_env S) i of None \<Rightarrow> ret None | Some uid \<Rightarrow> onRepo (rr_Get (sv_requests S) uid)))
      (\<lambda>q w. (\<exists>i. q = None \<or> map_option unstamp_request q = find_request i t) \<and> ?see w) (\<lambda>_. ?see)"
      by (intro hoare_intro hoare_post [OF Get_rule]) auto
  qed
  show ?thesis
    unfolding checkIdempotentReplay_def
  proof (rule hoare_bind [OF fast])
    fix q assume q: "\<exists>i. q = None \<or> map_option unstamp_request q = find_request i t"
    show "hoare ?see (case q of
       Some existing \<Rightarrow> andThen (matchIdempotentBody (sv_env S) existing hash) (\<lambda>r. ret (Some r))
     | None \<Rightarrow>
         andThen (onRepo (rr_FindByIdempotency (sv_requests S) (ci_CustomerID inp) (ci_IdempotencyKey inp)))
           (\<lambda>found. case found of
              None \<Rightarrow> ret None
            | Some existing \<Rightarrow>
                andThen (matchIdempotentBody (sv_env S) existing hash) (\<lambda>matched.
                andThen (ignoring (onRedis (is_Set (sv_idem S) (ci_CustomerID inp) (ci_IdempotencyKey inp)
                                     (en_uuid_String (sv_env S) (cr_ID existing)) (cfg_ReserveTTL (sv_cfg S) * 2))))
                (\<lambda>_. ret (Some matched)))))
      (\<lambda>q w. (\<forall>req. q = Some req \<longrightarrow> replays t hash req) \<and>
        (q = None \<longrightarrow> find_idem (ci_CustomerID inp) (ci_IdempotencyKey inp) t = None) \<and> ?see w) (\<lambda>_. ?see)"
    proof (cases q)
      case None
      have "hoare ?see (case found of
              None \<Rightarrow> ret None
            | Some existing \<Rightarrow>
                andThen (matchIdempotentBody (sv_env S) existing hash) (\<lambda>matched.
                andThen (ignoring (onRedis (is_Set (sv_idem S) (ci_CustomerID inp) (ci_IdempotencyKey inp)
                                     (en_uuid_String (sv_env S) (cr_ID existing)) (cfg_ReserveTTL (sv_cfg S) * 2))))
                (\<lambda>_. ret (Some matched))))
        (\<lambda>q w. (\<forall>req. q = Some req \<longrightarrow> replays t hash req) \<and>
          (q = None \<longrightarrow> find_idem (ci_CustomerID inp) (ci_IdempotencyKey inp) t = None) \<and> ?see w) (\<lambda>_. ?see)"
        if found: "map_option unstamp_request found = find_idem (ci_CustomerID inp) (ci_IdempotencyKey inp) t" for found
      proof (cases found)
        case (Some x)
        show ?thesis
          unfolding Some option.case
        proof (rule hoare_bind [OF matchBody_rule], rule hoare_seq [OF hoare_ignore_redis])
          fix r u
          assume "r = x \<and> (cr_BodyHash x = '''' \<or> cr_BodyHash x = hash)"
          with found Some found_replays [of x inp t hash]
          show "hoare ?see (ret (Some r)) (\<lambda>q w. (\<forall>req. q = Some req \<longrightarrow> replays t hash req) \<and>
            (q = None \<longrightarrow> find_idem (ci_CustomerID inp) (ci_IdempotencyKey inp) t = None) \<and> ?see w) (\<lambda>_. ?see)"
            by (auto intro!: hoare_ret simp: replays_own_def)
        qed auto
      qed (use found in \<open>auto intro!: hoare_ret\<close>)
      with None show ?thesis by (auto intro!: hoare_bind [OF FindByIdempotency_rule])
    next
      case (Some x)
      then obtain i where i: "map_option unstamp_request (Some x) = find_request i t" using q by auto
      show ?thesis
        unfolding Some option.case
        by (rule hoare_bind [OF matchBody_rule]) (use get_replays [OF i] in \<open>auto intro!: hoare_ret\<close>)
    qed
  qed auto
qed

text \<open>A rejection: what the write leaves when it fails, and what it adds when it does not.\<close>

lemma persistRejected_rule:
  assumes l: "ledger bd bq t" and p: "planned (sv_env S) t inp product plans"
  shows "hoare (sees view inv ((=) t) k) (persistRejected S inp i now plans product rej hash)
     (\<lambda>req. sees view inv (\<lambda>t'. (rejected_effect (sv_env S) inp hash now t req t' \<or>
        rejection_debris (sv_env S) inp hash now t t' \<and> replays_own t' inp hash req) \<and> ledger bd bq t') k)
     (\<lambda>_. sees view inv (\<lambda>t'. rejection_debris (sv_env S) inp hash now t t' \<and> ledger bd bq t') k)"
proof -
  let ?r = "rejected_request inp product i now (rej_reason rej) hash"
  let ?debris = "\<lambda>t'. rejection_debris (sv_env S) inp hash now t t' \<and> ledger bd bq t'"
  let ?post = "\<lambda>req. sees view inv (\<lambda>t'. (rejected_effect (sv_env S) inp hash now t req t' \<or>
        rejection_debris (sv_env S) inp hash now t t' \<and> replays_own t' inp hash req) \<and> ledger bd bq t') k"
  have debris: "?debris t'" if rows: "lines_for i plans ls"
    and t': "\<exists>reqs lns. t' = t\<lparr>t_requests := t_requests t @ reqs, t_lines := t_lines t @ lns\<rparr> \<and>
       (reqs = [] \<and> lns = [] \<or> reqs = [unstamp_request ?r] \<and> (\<exists>rest. ls = lns @ rest)) \<and> requests_distinct t'"
    for ls t'
  proof -
    from t' obtain reqs lns where
      eq: "t' = t\<lparr>t_requests := t_requests t @ reqs, t_lines := t_lines t @ lns\<rparr>" and dist: "requests_distinct t'"
      and c: "reqs = [] \<and> lns = [] \<or> reqs = [unstamp_request ?r] \<and> (\<exists>rest. ls = lns @ rest)" by blast
    from c obtain rest where "ls = lns @ rest" by auto
    with p rows c eq have "rejection_debris (sv_env S) inp hash now t t'"
      unfolding rejection_debris_def by blast
    with rejection_debris_ledger [OF l this dist] show ?thesis by simp
  qed
  show ?thesis
    unfolding persistRejected_def Let_def
  proof (rule hoare_bind [OF hoare_buildLines], rule hoare_seq [OF hoare_uuid])
    fix ls evID
    assume rows: "lines_for i plans ls"
    let ?ev = "\<lparr>ev_ID = evID, ev_RequestID = i, ev_EventType = EventRejected, ev_Reason = event_reason rej, ev_At = now\<rparr>"
    let ?t' = "spec_insert_rejected ?r ls ?ev t"
    let ?mid = "\<lambda>q. case q of Inl (e :: go_error) \<Rightarrow> sees view inv ?debris k
      | Inr (u :: unit) \<Rightarrow> (\<lambda>w. (rejected_effect (sv_env S) inp hash now t ?r ?t' \<and> ledger bd bq ?t') \<and> sees view inv ((=) ?t') k w)"
    have written: "hoare (sees view inv ((=) t) k) (onRepo (rr_CreateRejected (sv_requests S) ?r ls ?ev))
        (\<lambda>a. ?mid (Inr a)) (\<lambda>e. ?mid (Inl e))"
    proof (rule hoare_conseq [OF CreateRejected_rule])
      show "cr_ExpiresAt ?r = None" by (simp add: rejected_request_def)
      fix u w
      assume a: "(find_idem (cr_CustomerID ?r) (cr_IdempotencyKey ?r) t = None \<and> requests_distinct ?t') \<and>
          sees view inv ((=) ?t') k w"
      then have "find_idem (ci_CustomerID inp) (ci_IdempotencyKey inp) t = None" by (simp add: rejected_request_def)
      with p rows have "rejected_effect (sv_env S) inp hash now t ?r ?t'" unfolding rejected_effect_def by blast
      with rejected_effect_ledger [OF l this] a show "?mid (Inr u) w" by simp
    next
      fix e w
      assume "sees view inv (\<lambda>t'. \<exists>reqs lns. t' = t\<lparr>t_requests := t_requests t @ reqs, t_lines := t_lines t @ lns\<rparr> \<and>
       (reqs = [] \<and> lns = [] \<or> reqs = [unstamp_request ?r] \<and> (\<exists>rest. ls = lns @ rest)) \<and> requests_distinct t') k w"
      then show "?mid (Inl e) w" unfolding sum.case by (rule sees_mono) (rule debris [OF rows])
    qed simp_all
    show "hoare (sees view inv ((=) t) k)
        (andThen (attempt (onRepo (rr_CreateRejected (sv_requests S) ?r ls ?ev))) (\<lambda>q.
          case q of Inl e \<Rightarrow> if is_duplicate e then replayAfterDuplicate S inp hash else fail e | Inr _ \<Rightarrow> ret ?r))
        ?post (\<lambda>_. sees view inv ?debris k)"
    proof (rule hoare_andThen [OF hoare_attempt [OF written]])
      fix q
      show "hoare (?mid q) (case q of Inl e \<Rightarrow> if is_duplicate e then replayAfterDuplicate S inp hash else fail e
          | Inr _ \<Rightarrow> ret ?r) ?post (\<lambda>_. sees view inv ?debris k)"
      proof (cases q)
        case (Inr u)
        then show ?thesis by (auto intro!: hoare_ret elim: sees_mono)
      next
        case (Inl e)
        have replay: "hoare (sees view inv ?debris k) (replayAfterDuplicate S inp hash) ?post (\<lambda>_. sees view inv ?debris k)"
          by (rule hoare_sees) (rule hoare_conseq [OF replayAfterDuplicate_rule], auto elim: sees_mono simp: sees_def)
        show ?thesis unfolding Inl sum.case by (intro hoare_if replay hoare_fail) simp
      qed
    qed
  qed auto
qed

text \<open>
  Everything a creation can do to the store. \<open>created\<close>: the request was reserved, rejected or
  found already there; \<open>refused\<close>: nothing happened, unless the record of a rejection was being
  written when the call failed.
\<close>

end

definition under_limit :: "config \<Rightarrow> string \<Rightarrow> tables \<Rightarrow> bool" where
  "under_limit cfg c t \<longleftrightarrow> 0 < cfg_MaxActiveHoldsPerCustomer cfg \<longrightarrow>
     int (count_reserved c t) < cfg_MaxActiveHoldsPerCustomer cfg"

definition created ::
    "environment \<Rightarrow> config \<Rightarrow> create_input \<Rightarrow> string \<Rightarrow> time \<Rightarrow> tables \<Rightarrow> capacity_request \<Rightarrow> tables \<Rightarrow> bool" where
  "created E cfg inp hash now t req t' \<longleftrightarrow>
     reserved_effect E cfg inp hash now t req t' \<and> under_limit cfg (ci_CustomerID inp) t \<or> rejected_effect E inp hash now t req t' \<or>
     t' = t \<and> replays t hash req \<or>
     rejection_debris E inp hash now t t' \<and> replays_own t' inp hash req"

definition refused :: "environment \<Rightarrow> create_input \<Rightarrow> string \<Rightarrow> time \<Rightarrow> tables \<Rightarrow> tables \<Rightarrow> bool" where
  "refused E inp hash now t t' \<longleftrightarrow> t' = t \<or> rejection_debris E inp hash now t t'"

context capacity_client
begin

lemma enforce_rule:
  "hoare (sees view inv ((=) t) k) (enforceActiveHoldsLimit S c)
     (\<lambda>_ w. under_limit (sv_cfg S) c t \<and> sees view inv ((=) t) k w)
     (\<lambda>_. sees view inv ((=) t) k)"
proof (cases "cfg_MaxActiveHoldsPerCustomer (sv_cfg S) \<le> 0")
  case True
  then show ?thesis unfolding enforceActiveHoldsLimit_def Let_def under_limit_def by (auto intro: hoare_ret)
next
  case False
  then show ?thesis
    unfolding enforceActiveHoldsLimit_def Let_def under_limit_def
    by (simp, intro hoare_bind [OF CountActive_rule]) (auto intro!: hoare_intro)
qed

lemma create_new_rule:
  assumes perm: "\<And>xs. mset (en_range (sv_env S) xs) = mset xs" and cat: "catalog_ok t" and ok: "input_ok inp"
    and l: "ledger bd bq t"
  shows "hoare (sees view inv ((=) t) (ck, n)) (create_new S inp hash)
     (\<lambda>req w. sees view inv (\<lambda>t'. created (sv_env S) (sv_cfg S) inp hash (ck n) t req t' \<and> ledger bd bq t') (ck, Suc n) w)
     (\<lambda>_ w. \<exists>j. sees view inv (\<lambda>t'. refused (sv_env S) inp hash (ck n) t t' \<and> ledger bd bq t') j w)"
proof -
  let ?k = "(ck, Suc n)" and ?now = "ck n"
  let ?post = "\<lambda>req w. sees view inv (\<lambda>t'. created (sv_env S) (sv_cfg S) inp hash ?now t req t' \<and> ledger bd bq t') ?k w"
  let ?err = "\<lambda>(_ :: go_error) w. \<exists>j. sees view inv (\<lambda>t'. refused (sv_env S) inp hash ?now t t' \<and> ledger bd bq t') j w"
  have pools: "pools_ok t" using l by (simp add: ledger_def book_def)
  have quiet: "?err e w" if "sees view inv ((=) t) j w" for e w j
    by (rule exI [of _ j], rule sees_mono [OF that]) (use l in \<open>auto simp: refused_def\<close>)
  show ?thesis
    unfolding create_new_def
  proof (rule hoare_bind [OF enforce_rule])
    fix u :: unit
    assume lim: "under_limit (sv_cfg S) (ci_CustomerID inp) t"
    show "hoare (sees view inv ((=) t) (ck, n))
     (andThen (buildReservationPlan S inp) (\<lambda>(plans, product).
     andThen Now (\<lambda>now.
     andThen uuid_New (\<lambda>reqID.
     andThen (attempt (reserveWithinTx S plans product inp reqID now (now + cfg_ReserveTTL (sv_cfg S)) hash))
       (\<lambda>q. case q of
          Inl e \<Rightarrow> if is_duplicate e then replayAfterDuplicate S inp hash else fail e
        | Inr (Inl rej) \<Rightarrow>
            andThen (persistRejected S inp reqID now plans product rej hash) (\<lambda>req.
            andThen (recordOutcome S inp req ''rejected'') (\<lambda>_. ret req))
        | Inr (Inr reserved) \<Rightarrow>
            andThen (recordOutcome S inp reserved ''reserved'') (\<lambda>_. ret reserved)))))) ?post ?err"
    proof (rule hoare_bind [OF buildReservationPlan_rule [OF perm cat ok pools]])
      fix pp :: "reservation_plan list \<times> product option"
      assume "planned (sv_env S) t inp (snd pp) (fst pp)"
      then obtain plans product where pp: "pp = (plans, product)" and p: "planned (sv_env S) t inp product plans"
        by (cases pp) simp
      show "hoare (sees view inv ((=) t) (ck, n)) (case pp of (plans, product) \<Rightarrow>
       andThen Now (\<lambda>now.
       andThen uuid_New (\<lambda>reqID.
       andThen (attempt (reserveWithinTx S plans product inp reqID now (now + cfg_ReserveTTL (sv_cfg S)) hash))
       (\<lambda>q. case q of
          Inl e \<Rightarrow> if is_duplicate e then replayAfterDuplicate S inp hash else fail e
        | Inr (Inl rej) \<Rightarrow>
            andThen (persistRejected S inp reqID now plans product rej hash) (\<lambda>req.
            andThen (recordOutcome S inp req ''rejected'') (\<lambda>_. ret req))
        | Inr (Inr reserved) \<Rightarrow>
            andThen (recordOutcome S inp reserved ''reserved'') (\<lambda>_. ret reserved))))) ?post ?err"
        unfolding pp split_conv
      proof (rule hoare_bind [OF hoare_Now], rule hoare_seq [OF hoare_uuid])
        fix now i
        assume now: "now = ck n"
        let ?mid = "\<lambda>q. case q of Inl (e :: go_error) \<Rightarrow> sees view inv ((=) t) ?k
          | Inr (Inl (rej :: rejection)) \<Rightarrow> sees view inv ((=) t) ?k
          | Inr (Inr req) \<Rightarrow> sees view inv (\<lambda>t'. reserved_effect (sv_env S) (sv_cfg S) inp hash ?now t req t' \<and> ledger bd bq t') ?k"
        have tx: "hoare (sees view inv ((=) t) ?k)
            (reserveWithinTx S plans product inp i now (now + cfg_ReserveTTL (sv_cfg S)) hash)
            (\<lambda>a. ?mid (Inr a)) (\<lambda>e. ?mid (Inl e))"
          unfolding now by (rule hoare_conseq [OF reserveWithinTx_rule [OF l p]]) (auto split: sum.splits)
        show "hoare (sees view inv ((=) t) ?k)
          (andThen (attempt (reserveWithinTx S plans product inp i now (now + cfg_ReserveTTL (sv_cfg S)) hash))
          (\<lambda>q. case q of
            Inl e \<Rightarrow> if is_duplicate e then replayAfterDuplicate S inp hash else fail e
          | Inr (Inl rej) \<Rightarrow>
            andThen (persistRejected S inp i now plans product rej hash) (\<lambda>req.
            andThen (recordOutcome S inp req ''rejected'') (\<lambda>_. ret req))
          | Inr (Inr reserved) \<Rightarrow>
            andThen (recordOutcome S inp reserved ''reserved'') (\<lambda>_. ret reserved))) ?post ?err"
        proof (rule hoare_andThen [OF hoare_attempt [OF tx]])
          fix q
          have dup: "hoare (sees view inv ((=) t) ?k) (replayAfterDuplicate S inp hash) ?post ?err"
          proof (rule hoare_conseq [OF replayAfterDuplicate_rule])
            fix req w
            assume "replays_own t inp hash req \<and> sees view inv ((=) t) ?k w"
            with l show "?post req w" by (auto simp: created_def replays_own_def elim: sees_mono)
          qed (use quiet in auto)
          have rej: "hoare (sees view inv ((=) t) ?k)
            (andThen (persistRejected S inp i now plans product rej hash) (\<lambda>req.
             andThen (recordOutcome S inp req ''rejected'') (\<lambda>_. ret req))) ?post ?err" for rej
            unfolding now
          proof (rule hoare_andThen [OF hoare_error [OF hoare_post [OF persistRejected_rule [OF l p]]]])
            fix req w
            assume "sees view inv (\<lambda>t'. (rejected_effect (sv_env S) inp hash ?now t req t' \<or>
               rejection_debris (sv_env S) inp hash ?now t t' \<and> replays_own t' inp hash req) \<and> ledger bd bq t') ?k w"
            then show "?post req w" by (rule sees_mono) (auto simp: created_def)
          next
            fix e w
            assume "sees view inv (\<lambda>t'. rejection_debris (sv_env S) inp hash ?now t t' \<and> ledger bd bq t') ?k w"
            then have "sees view inv (\<lambda>t'. refused (sv_env S) inp hash ?now t t' \<and> ledger bd bq t') ?k w"
              by (rule sees_mono) (auto simp: refused_def)
            then show "?err e w" by blast
          next
            fix req
            show "hoare (?post req) (andThen (recordOutcome S inp req ''rejected'') (\<lambda>_. ret req)) ?post ?err"
              by (rule hoare_andThen [OF hoare_recordOutcome]) (rule hoare_ret)
          qed
          have res: "hoare (sees view inv (\<lambda>t'. reserved_effect (sv_env S) (sv_cfg S) inp hash ?now t req t' \<and> ledger bd bq t') ?k)
            (andThen (recordOutcome S inp req ''reserved'') (\<lambda>_. ret req)) ?post ?err" for req
            by (rule hoare_andThen [OF hoare_recordOutcome], rule hoare_ret, erule sees_mono) (use lim in \<open>simp add: created_def\<close>)
          show "hoare (?mid q) (case q of
            Inl e \<Rightarrow> if is_duplicate e then replayAfterDuplicate S inp hash else fail e
          | Inr (Inl rej) \<Rightarrow>
            andThen (persistRejected S inp i now plans product rej hash) (\<lambda>req.
            andThen (recordOutcome S inp req ''rejected'') (\<lambda>_. ret req))
          | Inr (Inr reserved) \<Rightarrow>
            andThen (recordOutcome S inp reserved ''reserved'') (\<lambda>_. ret reserved)) ?post ?err"
            by (cases q; (rename_tac s)?; (case_tac s)?; simp only: sum.case; intro hoare_if dup rej res hoare_fail quiet)
        qed
      qed auto
    qed (use quiet in auto)
  qed (use quiet in auto)
qed

text \<open>
  The whole of \<^verbatim>\<open>CreateRequest\<close>. The request that is built carries the caller's correlation
  id, or a fresh one.
\<close>

theorem CreateRequest_rule:
  assumes perm: "\<And>xs. mset (en_range (sv_env S) xs) = mset xs" and cat: "catalog_ok t" and l: "ledger bd bq t"
  shows "hoare (sees view inv ((=) t) (ck, n)) (CreateRequest S inp)
     (\<lambda>req w. \<exists>j cor. sees view inv (\<lambda>t'. created (sv_env S) (sv_cfg S) (inp\<lparr>ci_CorrelationID := cor\<rparr>)
        (computeBodyHash (sv_env S) inp) (ck n) t req t' \<and> ledger bd bq t') j w)
     (\<lambda>_ w. \<exists>j cor. sees view inv (\<lambda>t'. refused (sv_env S) (inp\<lparr>ci_CorrelationID := cor\<rparr>)
        (computeBodyHash (sv_env S) inp) (ck n) t t' \<and> ledger bd bq t') j w)"
proof -
  let ?hash = "computeBodyHash (sv_env S) inp"
  let ?post = "\<lambda>req w. \<exists>j cor. sees view inv (\<lambda>t'. created (sv_env S) (sv_cfg S) (inp\<lparr>ci_CorrelationID := cor\<rparr>)
        ?hash (ck n) t req t' \<and> ledger bd bq t') j w"
  let ?err = "\<lambda>(e :: go_error) w. \<exists>j cor. sees view inv (\<lambda>t'. refused (sv_env S) (inp\<lparr>ci_CorrelationID := cor\<rparr>)
        ?hash (ck n) t t' \<and> ledger bd bq t') j w"
  let ?see = "sees view inv ((=) t) (ck, n)"
  have quiet: "?err e w" if "?see w" for e w
    by (rule exI [of _ "(ck, n)"], rule exI [of _ "ci_CorrelationID inp"], rule sees_mono [OF that])
      (use l in \<open>auto simp: refused_def\<close>)
  have main: "hoare ?see (andThen (checkIdempotentReplay S (inp\<lparr>ci_CorrelationID := cor\<rparr>) ?hash) (\<lambda>replayed.
          case replayed of Some existing \<Rightarrow> ret existing | None \<Rightarrow> create_new S (inp\<lparr>ci_CorrelationID := cor\<rparr>) ?hash))
      ?post ?err" if ok: "input_ok inp" for cor
  proof (rule hoare_bind [where P' = "\<lambda>_. ?see"])
    let ?in = "inp\<lparr>ci_CorrelationID := cor\<rparr>"
    show "hoare ?see (checkIdempotentReplay S ?in ?hash) (\<lambda>q w. (\<forall>req. q = Some req \<longrightarrow> replays t ?hash req) \<and> ?see w) (\<lambda>_. ?see)"
      by (rule hoare_post [OF checkIdempotentReplay_rule]) blast
    fix q assume q: "\<forall>req. q = Some req \<longrightarrow> replays t ?hash req"
    show "hoare ?see (case q of Some existing \<Rightarrow> ret existing | None \<Rightarrow> create_new S ?in ?hash) ?post ?err"
    proof (rule hoare_option)
      have "input_ok ?in" using ok by simp
      from create_new_rule [OF perm cat this l] show "hoare ?see (create_new S ?in ?hash) ?post ?err"
        by (rule hoare_conseq) blast+
      fix x assume x: "q = Some x"
      show "hoare ?see (ret x) ?post ?err"
      proof (rule hoare_ret)
        fix w assume w: "?see w"
        show "?post x w"
          by (rule exI [of _ "(ck, n)"], rule exI [of _ cor], rule sees_mono [OF w]) (use q x l in \<open>auto simp: created_def\<close>)
      qed
    qed
  qed (use quiet in blast)
  show ?thesis
    unfolding CreateRequest_def
  proof (intro hoare_if hoare_option hoare_fail quiet)
    assume "validateCreateInput inp = None"
    then have ok: "input_ok inp" by (simp add: validate_None)
    show "hoare ?see (andThen (if ci_CorrelationID inp = '''' then
                     andThen uuid_New (\<lambda>i. ret (inp\<lparr>ci_CorrelationID := en_uuid_String (sv_env S) i\<rparr>))
                   else ret inp) (\<lambda>inp.
          let bodyHash = computeBodyHash (sv_env S) inp in
          andThen (checkIdempotentReplay S inp bodyHash) (\<lambda>replayed.
          case replayed of Some existing \<Rightarrow> ret existing | None \<Rightarrow> create_new S inp bodyHash))) ?post ?err"
    proof (rule hoare_bind [where R = "\<lambda>i. \<exists>cor. i = inp\<lparr>ci_CorrelationID := cor\<rparr>" and P' = "\<lambda>_. ?see"])
      have "\<exists>cor. inp = inp\<lparr>ci_CorrelationID := cor\<rparr>" by (rule exI [of _ "ci_CorrelationID inp"]) simp
      then show "hoare ?see (if ci_CorrelationID inp = '''' then
                     andThen uuid_New (\<lambda>i. ret (inp\<lparr>ci_CorrelationID := en_uuid_String (sv_env S) i\<rparr>))
                   else ret inp) (\<lambda>i w. (\<exists>cor. i = inp\<lparr>ci_CorrelationID := cor\<rparr>) \<and> ?see w) ?err"
        by (intro hoare_if hoare_seq [OF hoare_uuid]) (auto intro!: hoare_ret)
      fix i assume "\<exists>cor. i = inp\<lparr>ci_CorrelationID := cor\<rparr>"
      then obtain cor where i: "i = inp\<lparr>ci_CorrelationID := cor\<rparr>" by blast
      show "hoare ?see (let bodyHash = computeBodyHash (sv_env S) i in
          andThen (checkIdempotentReplay S i bodyHash) (\<lambda>replayed.
          case replayed of Some existing \<Rightarrow> ret existing | None \<Rightarrow> create_new S i bodyHash)) ?post ?err"
        unfolding i Let_def hash_correlation by (rule main [OF ok])
    qed
  qed
qed

end

end
