(* ===== verification/Lifecycle_Laws.thy ===== *)
theory Lifecycle_Laws
  imports Service_Rules
begin

text \<open>
  What confirming, cancelling, extending and sweeping do to the store: the holds of the request move
  together with the request, the counters follow them, and everything else stays.
\<close>

subsection \<open>Moving the holds of a request, one by one\<close>

text \<open>
  \<open>progress bd bq dst t A u\<close>: on the way from \<open>t\<close>, the active holds with ids in \<open>A\<close>
  have been moved to \<open>dst\<close>, and the books agree.
\<close>

definition progress ::
    "(uuid \<Rightarrow> int) \<Rightarrow> (string \<times> string \<Rightarrow> int) \<Rightarrow> hold_status \<Rightarrow> tables \<Rightarrow> uuid set \<Rightarrow> tables \<Rightarrow> bool" where
  "progress bd bq dst t A u \<longleftrightarrow> book (\<lambda>_. 0) bd bq u \<and> moved (\<lambda>h. hd_ID h \<in> A) dst t u"

lemma progress_start: "ledger bd bq t \<Longrightarrow> progress bd bq dst t {} t"
  by (simp add: progress_def ledger_def moved_none)

lemma flip_holds_cong:
  assumes "\<And>h. h \<in> set hs \<Longrightarrow> hd_Status h = HoldActive \<Longrightarrow> w h = w' h"
  shows "flip_holds w dst hs = flip_holds w' dst hs"
  unfolding flip_holds_def by (rule mapWhere_cong) (use assms in blast)

lemma progress_member:
  "progress bd bq dst t A u \<Longrightarrow> h \<in> set (t_holds t) \<Longrightarrow> hd_ID h \<notin> A \<Longrightarrow> h \<in> set (t_holds u)"
  by (auto simp: progress_def moved_def flip_holds_set)

lemma pool_shell_kind_of:
  assumes "pool_shell t = pool_shell u"
  shows "kind_of t = kind_of u"
proof -
  have "map_option rp_Kind (find (\<lambda>p. rp_ID p = i) (map (\<lambda>p. p\<lparr>rp_ReservedAmount := 0, rp_DedicatedAmount := 0\<rparr>) ps)) =
      map_option rp_Kind (find (\<lambda>p. rp_ID p = i) ps)" for i ps
    by (induction ps) simp_all
  then have "map_option rp_Kind (find (\<lambda>p. rp_ID p = i) (pool_shell s)) = kind_of s i" for i s
    by (simp add: kind_of_def pool_shell_def)
  from this [of _ t] this [of _ u] show ?thesis unfolding assms by (simp add: fun_eq_iff)
qed

lemma moved_frame:
  assumes "moved w dst t u"
  shows "customer_of u = customer_of t" "kind_of u = kind_of t" "t_lines u = t_lines t" "t_requests u = t_requests t"
  using assms pool_shell_kind_of [of u t] by (auto simp: moved_def customer_of_def find_request_def fun_eq_iff)

lemma step_same_hold [simp]:
  "dedicate_step (unstamp_hold h) t = dedicate_step h t" "release_step c k dst (unstamp_hold h) t = release_step c k dst h t"
  by (simp_all add: dedicate_step_def release_step_def)

lemma progress_dedicate:
  assumes p: "progress bd bq HoldDedicated t A u" and h: "h \<in> set (t_holds t)" "hd_Status h = HoldActive" "hd_ID h \<notin> A"
  shows "progress bd bq HoldDedicated t (insert (hd_ID h) A) (dedicate_step h u)"
proof -
  have b: "book (\<lambda>_. 0) bd bq u" and m: "moved (\<lambda>h. hd_ID h \<in> A) HoldDedicated t u" using p by (simp_all add: progress_def)
  have u: "h \<in> set (t_holds u)" by (rule progress_member [OF p h(1,3)])
  from active_hold_facts(5,6) [OF b u h(2)] obtain c k where
    "customer_of u (hd_RequestID h) = Some c" "kind_of u (hd_PoolID h) = Some k" by blast
  from book_dedicate_step [OF b u h(2) this] moved_dedicate [OF m, of h]
  show ?thesis by (simp add: progress_def disj_commute)
qed

lemma progress_release:
  assumes p: "progress bd bq dst t A u" and h: "h \<in> set (t_holds t)" "hd_Status h = HoldActive" "hd_ID h \<notin> A"
    and own: "customer_of t (hd_RequestID h) = Some c" "kind_of t (hd_PoolID h) = Some k"
    and nn: "\<And>ck. 0 \<le> bq ck" and dst: "dst \<noteq> HoldActive" "dst \<noteq> HoldDedicated"
  shows "progress bd bq dst t (insert (hd_ID h) A) (release_step c k dst h u)"
proof -
  have b: "book (\<lambda>_. 0) bd bq u" and m: "moved (\<lambda>h. hd_ID h \<in> A) dst t u" using p by (simp_all add: progress_def)
  have u: "h \<in> set (t_holds u)" by (rule progress_member [OF p h(1,3)])
  from book_release_step [OF b nn u h(2) _ _ dst, of c k] own moved_frame [OF m] moved_release [OF m dst(1), of h c k]
  show ?thesis by (simp add: progress_def disj_commute)
qed

text \<open>\<open>lists_active i t hs\<close>: \<open>hs\<close> are the active holds of request \<open>i\<close>.\<close>

definition lists_active :: "uuid \<Rightarrow> tables \<Rightarrow> hold list \<Rightarrow> bool" where
  "lists_active i t hs \<longleftrightarrow> mset (map unstamp_hold hs) = mset (active_holds i t)"

lemma lists_active_member:
  assumes "lists_active i t hs" and "h \<in> set hs"
  shows "unstamp_hold h \<in> set (t_holds t)" "hd_Status h = HoldActive" "hd_RequestID h = i"
proof -
  have "unstamp_hold h \<in> set (map unstamp_hold hs)" using assms(2) by simp
  then have "unstamp_hold h \<in> set (active_holds i t)" using assms(1) unfolding lists_active_def by (metis mset_eq_setD)
  then show "unstamp_hold h \<in> set (t_holds t)" "hd_Status h = HoldActive" "hd_RequestID h = i"
    by (simp_all add: active_holds_def)
qed

lemma lists_active_ids:
  assumes "lists_active i t hs" and "holds_distinct t"
  shows "distinct (map hd_ID hs)" "hd_ID ` set hs = hd_ID ` set (active_holds i t)"
proof -
  have "mset (map hd_ID (map unstamp_hold hs)) = mset (map hd_ID (active_holds i t))"
    using assms(1) unfolding lists_active_def by (metis mset_map)
  then have ms: "mset (map hd_ID hs) = mset (map hd_ID (active_holds i t))" by (simp add: comp_def)
  have "distinct (map hd_ID (active_holds i t))"
    using assms(2) by (simp add: holds_distinct_def active_holds_def distinct_map_filter)
  with ms show "distinct (map hd_ID hs)" by (metis mset_eq_imp_distinct_iff)
  from ms show "hd_ID ` set hs = hd_ID ` set (active_holds i t)" by (metis mset_eq_setD set_map)
qed

text \<open>When all of them have moved, exactly the request's holds have.\<close>

lemma progress_done:
  assumes "progress bd bq dst t (hd_ID ` set hs) u" and "lists_active i t hs" and "holds_distinct t"
  shows "book (\<lambda>_. 0) bd bq u" "moved (\<lambda>h. hd_RequestID h = i) dst t u"
proof -
  have ids: "hd_ID ` set hs = hd_ID ` set (active_holds i t)" by (rule lists_active_ids [OF assms(2,3)])
  have "flip_holds (\<lambda>h. hd_ID h \<in> hd_ID ` set hs) dst (t_holds t) = flip_holds (\<lambda>h. hd_RequestID h = i) dst (t_holds t)"
  proof (rule flip_holds_cong)
    fix h assume h: "h \<in> set (t_holds t)" "hd_Status h = HoldActive"
    have "g = h" if "g \<in> set (t_holds t)" "hd_ID g = hd_ID h" for g
      using distinct_key_inj [of hd_ID "t_holds t" g h] that h(1) assms(3) by (simp add: holds_distinct_def)
    then have "hd_ID h \<in> hd_ID ` set (active_holds i t) \<longleftrightarrow> h \<in> set (active_holds i t)"
      unfolding active_holds_def by fastforce
    with h show "(hd_ID h \<in> hd_ID ` set hs) = (hd_RequestID h = i)"
      unfolding ids by (simp add: active_holds_def)
  qed
  then show "book (\<lambda>_. 0) bd bq u" "moved (\<lambda>h. hd_RequestID h = i) dst t u"
    using assms(1) by (simp_all add: progress_def moved_def)
qed

subsection \<open>The kinds the release path looks up\<close>

lemma map_of_kinds:
  assumes "\<And>l. l \<in> set ls \<Longrightarrow> ln_PoolID l = p \<Longrightarrow> ln_Kind l = k"
    and "(\<exists>l \<in> set ls. ln_PoolID l = p) \<or> map_of m p = Some k"
  shows "map_of (fold (\<lambda>l. AList.update (ln_PoolID l) (ln_Kind l)) ls m) p = Some k"
  using assms
proof (induction ls arbitrary: m)
  case Nil
  then show ?case by simp
next
  case (Cons l ls)
  show ?case
    unfolding fold_simps
  proof (rule Cons.IH)
    show "\<And>l'. l' \<in> set ls \<Longrightarrow> ln_PoolID l' = p \<Longrightarrow> ln_Kind l' = k" using Cons.prems(1) by simp
    show "(\<exists>l \<in> set ls. ln_PoolID l = p) \<or> map_of (AList.update (ln_PoolID l) (ln_Kind l) m) p = Some k"
      using Cons.prems by (auto simp: update_conv)
  qed
qed

lemma kind_of_pool_hold:
  assumes b: "book (\<lambda>_. 0) bd bq t" and h: "h \<in> set (t_holds t)" "hd_Status h = HoldActive"
  shows "kind_of_pool (lines_of (hd_RequestID h) t) (hd_PoolID h) \<noteq> ''''"
    and "kind_of t (hd_PoolID h) = Some (kind_of_pool (lines_of (hd_RequestID h) t) (hd_PoolID h))"
proof -
  let ?ls = "lines_of (hd_RequestID h) t"
  from active_hold_facts(6) [OF b h] obtain l where l: "l \<in> set ?ls" "ln_PoolID l = hd_PoolID h"
    and k: "ln_Kind l \<noteq> ''''" "kind_of t (hd_PoolID h) = Some (ln_Kind l)" by (auto simp: lines_of_def)
  have "ln_Kind l' = ln_Kind l" if "l' \<in> set ?ls" "ln_PoolID l' = hd_PoolID h" for l'
    using b that k(2) by (auto simp: book_def refs_ok_def lines_of_def)
  then have "map_of (kind_by_pool ?ls) (hd_PoolID h) = Some (ln_Kind l)"
    unfolding kind_by_pool_def by (rule map_of_kinds) (use l in auto)
  with k show "kind_of_pool ?ls (hd_PoolID h) \<noteq> ''''"
    "kind_of t (hd_PoolID h) = Some (kind_of_pool ?ls (hd_PoolID h))"
    by (simp_all add: kind_of_pool_def)
qed

subsection \<open>Effects\<close>

definition event_at :: "uuid \<Rightarrow> uuid \<Rightarrow> event_type \<Rightarrow> string \<Rightarrow> time \<Rightarrow> request_event" where
  "event_at evID i et reason now =
     \<lparr>ev_ID = evID, ev_RequestID = i, ev_EventType = et, ev_Reason = reason, ev_At = now\<rparr>"

definition dedications_for :: "uuid \<Rightarrow> time \<Rightarrow> hold list \<Rightarrow> dedication list \<Rightarrow> bool" where
  "dedications_for i now hs ds \<longleftrightarrow> list_all2 (\<lambda>h d. dd_RequestID d = i \<and> dd_PoolID d = hd_PoolID h \<and>
     dd_HoldID d = hd_ID h \<and> dd_Amount d = hd_Amount h \<and> dd_CreatedAt d = now) hs ds"

definition confirm_effect :: "uuid \<Rightarrow> time \<Rightarrow> tables \<Rightarrow> tables \<Rightarrow> bool" where
  "confirm_effect i now t t' \<longleftrightarrow> is_reserved i t \<and>
     (\<exists>u hs ds evID. moved (\<lambda>h. hd_RequestID h = i) HoldDedicated t u \<and> lists_active i t hs \<and>
        dedications_for i now hs ds \<and>
        t' = spec_finish i StatusCompleted ds (event_at evID i EventConfirmed '''' now) u)"

definition release_effect :: "uuid \<Rightarrow> request_status \<Rightarrow> time \<Rightarrow> tables \<Rightarrow> tables \<Rightarrow> bool" where
  "release_effect i st now t t' \<longleftrightarrow> is_reserved i t \<and>
     (\<exists>u evID. moved (\<lambda>h. hd_RequestID h = i) (if st = StatusExpired then HoldExpired else HoldReleased) t u \<and>
        t' = spec_finish i st [] (event_at evID i (if st = StatusExpired then EventExpired else EventCancelled)
               (status_string st) now) u)"

definition extend_effect :: "config \<Rightarrow> uuid \<Rightarrow> time \<Rightarrow> tables \<Rightarrow> tables \<Rightarrow> bool" where
  "extend_effect cfg i now t t' \<longleftrightarrow>
     (\<exists>r evID. find_request i t = Some r \<and> cr_Status r = StatusReserved \<and> \<not> expired_at now r \<and>
        cr_ExtensionCount r < cfg_MaxExtensions cfg \<and>
        extension_base now r + cfg_ReserveTTL cfg \<le> cr_CreatedAt r + cfg_MaxReserveWallTime cfg \<and>
        t' = spec_extend i (extension_base now r + cfg_ReserveTTL cfg) (cr_ExtensionCount r + 1)
               (event_at evID i EventExtended '''' now) t)"

text \<open>\<open>Extend\<close> runs its two statements without a transaction: the event may be missing.\<close>

definition extend_debris :: "config \<Rightarrow> uuid \<Rightarrow> time \<Rightarrow> tables \<Rightarrow> tables \<Rightarrow> bool" where
  "extend_debris cfg i now t t' \<longleftrightarrow> (\<exists>u. extend_effect cfg i now t u \<and> t' = u\<lparr>t_events := t_events t\<rparr>)"

definition has_status :: "uuid \<Rightarrow> request_status \<Rightarrow> tables \<Rightarrow> bool" where
  "has_status i st t \<longleftrightarrow> (\<exists>r. find_request i t = Some r \<and> cr_Status r = st)"

lemma is_reserved_has_status: "requests_distinct t \<Longrightarrow> is_reserved i t \<longleftrightarrow> has_status i StatusReserved t"
  unfolding is_reserved_def has_status_def find_request_def requests_distinct_def list_ex_iff
  by (auto simp: find_Some_iff_distinct)

lemma release_effect_ledger: "ledger bd bq t \<Longrightarrow> is_reserved i t \<Longrightarrow> book (\<lambda>_. 0) bd bq u \<Longrightarrow>
   moved (\<lambda>h. hd_RequestID h = i) (if st = StatusExpired then HoldExpired else HoldReleased) t u \<Longrightarrow>
   st = StatusExpired \<or> st = StatusCancelled \<Longrightarrow> ledger bd bq (spec_finish i st ds ev u)"
  by (rule ledger_finish) auto

subsection \<open>Running the code\<close>

context capacity_client
begin

lemma confirm_hold_rule:
  assumes p: "progress bd bq HoldDedicated t A u"
    and h: "unstamp_hold h \<in> set (t_holds t)" "hd_Status h = HoldActive" "hd_ID h \<notin> A"
  shows "hoare (sees view inv ((=) u) k) (confirm_hold S i now h)
     (\<lambda>d w. (dd_RequestID d = i \<and> dd_PoolID d = hd_PoolID h \<and> dd_HoldID d = hd_ID h \<and>
         dd_Amount d = hd_Amount h \<and> dd_CreatedAt d = now) \<and> sees view inv ((=) (dedicate_step h u)) k w)
     (\<lambda>_. sees view inv (\<lambda>_. True) k)"
proof -
  have b: "book (\<lambda>_. 0) bd bq u" using p by (simp add: progress_def)
  have u: "unstamp_hold h \<in> set (t_holds u)" using progress_member [OF p h(1)] h(3) by simp
  note f = active_hold_facts [OF b u, simplified, OF h(2)]
  let ?u1 = "spec_dedicate (hd_PoolID h) (hd_Amount h) u"
  show ?thesis
    unfolding confirm_hold_def
  proof (rule hoare_bind [OF MoveReserved_rule [OF _ f(1,2,4)]])
    show "pools_ok u" using b by (simp add: book_def)
    fix x
    show "hoare (sees view inv ((=) ?u1) k)
      (andThen (onRepo (rr_UpdateHoldStatus (sv_requests S) (hd_ID h) HoldActive HoldDedicated)) (\<lambda>ok.
        if \<not> ok then fail (NewAppError ReasonConflict ''hold already transitioned'' None)
        else andThen uuid_New (\<lambda>d. ret \<lparr>dd_ID = d, dd_RequestID = i, dd_PoolID = hd_PoolID h, dd_HoldID = hd_ID h,
            dd_Amount = hd_Amount h, dd_CreatedAt = now\<rparr>)))
      (\<lambda>d w. (dd_RequestID d = i \<and> dd_PoolID d = hd_PoolID h \<and> dd_HoldID d = hd_ID h \<and>
         dd_Amount d = hd_Amount h \<and> dd_CreatedAt d = now) \<and> sees view inv ((=) (dedicate_step h u)) k w)
      (\<lambda>_. sees view inv (\<lambda>_. True) k)"
    proof (rule hoare_bind [OF UpdateHold_rule])
      show "holds_distinct ?u1" using b by (simp add: book_def holds_distinct_def)
      fix ok assume "ok = list_ex (\<lambda>g. hd_ID g = hd_ID h \<and> hd_Status g = HoldActive) (t_holds ?u1)"
      with u h(2) have "ok" by (auto simp: list_ex_iff intro!: bexI [of _ "unstamp_hold h"])
      then show "hoare (sees view inv ((=) (spec_hold (hd_ID h) HoldActive HoldDedicated ?u1)) k)
       (if \<not> ok then fail (NewAppError ReasonConflict ''hold already transitioned'' None)
        else andThen uuid_New (\<lambda>d. ret \<lparr>dd_ID = d, dd_RequestID = i, dd_PoolID = hd_PoolID h, dd_HoldID = hd_ID h,
            dd_Amount = hd_Amount h, dd_CreatedAt = now\<rparr>))
      (\<lambda>d w. (dd_RequestID d = i \<and> dd_PoolID d = hd_PoolID h \<and> dd_HoldID d = hd_ID h \<and>
         dd_Amount d = hd_Amount h \<and> dd_CreatedAt d = now) \<and> sees view inv ((=) (dedicate_step h u)) k w)
      (\<lambda>_. sees view inv (\<lambda>_. True) k)"
        by (simp add: dedicate_step_def) (rule hoare_seq [OF hoare_uuid], auto intro!: hoare_ret)
    qed (auto elim: sees_mono)
  qed (auto elim: sees_mono)
qed

lemma confirm_write_rule:
  assumes l: "ledger bd bq t" and res: "is_reserved i t" and la: "lists_active i t hs"
  shows "hoare (sees view inv ((=) t) k) (confirm_write S i now hs)
     (\<lambda>_. sees view inv (\<lambda>t'. confirm_effect i now t t' \<and> ledger bd bq t') k) (\<lambda>_. sees view inv (\<lambda>_. True) k)"
proof -
  have dist: "holds_distinct t" using l by (simp add: ledger_def book_def)
  note ids = lists_active_ids(1) [OF la dist]
  let ?u = "\<lambda>dn. fold dedicate_step dn t"
  let ?I = "\<lambda>dn w. progress bd bq HoldDedicated t (hd_ID ` set dn) (?u dn) \<and> sees view inv ((=) (?u dn)) k w"
  have loop: "hoare (?I []) (collect (confirm_hold S i now) hs)
      (\<lambda>ds w. dedications_for i now hs ds \<and> ?I hs w) (\<lambda>_. sees view inv (\<lambda>_. True) k)"
    unfolding dedications_for_def
  proof (rule hoare_collect [where I = ?I], rule hoare_assume)
    fix dn h rest
    assume split: "hs = dn @ h # rest" and p: "progress bd bq HoldDedicated t (hd_ID ` set dn) (?u dn)"
    have h: "unstamp_hold h \<in> set (t_holds t)" "hd_Status h = HoldActive" "hd_ID h \<notin> hd_ID ` set dn"
      using lists_active_member [OF la, of h] ids by (auto simp: split)
    have "progress bd bq HoldDedicated t (hd_ID ` set (dn @ [h])) (?u (dn @ [h]))"
      using progress_dedicate [OF p h(1)] h(2,3) by simp
    then show "hoare (sees view inv ((=) (?u dn)) k) (confirm_hold S i now h)
      (\<lambda>d w. (dd_RequestID d = i \<and> dd_PoolID d = hd_PoolID h \<and> dd_HoldID d = hd_ID h \<and>
         dd_Amount d = hd_Amount h \<and> dd_CreatedAt d = now) \<and> ?I (dn @ [h]) w) (\<lambda>_. sees view inv (\<lambda>_. True) k)"
      using hoare_post [OF confirm_hold_rule [OF p h]] by simp
  qed
  have loop': "hoare (sees view inv ((=) t) k) (collect (confirm_hold S i now) hs)
      (\<lambda>ds w. (dedications_for i now hs ds \<and> progress bd bq HoldDedicated t (hd_ID ` set hs) (?u hs)) \<and>
         sees view inv ((=) (?u hs)) k w) (\<lambda>_. sees view inv (\<lambda>_. True) k)"
    by (rule hoare_conseq [OF loop]) (use progress_start [OF l] in auto)
  show "hoare (sees view inv ((=) t) k) (confirm_write S i now hs)
     (\<lambda>_. sees view inv (\<lambda>t'. confirm_effect i now t t' \<and> ledger bd bq t') k) (\<lambda>_. sees view inv (\<lambda>_. True) k)"
    unfolding confirm_write_def
  proof (rule hoare_bind [OF loop'], rule hoare_seq [OF hoare_uuid], fold event_at_def, rule hoare_bind [OF Confirm_rule])
    fix ds evID b
    let ?t' = "spec_finish i StatusCompleted ds (event_at evID i EventConfirmed '''' now) (?u hs)"
    assume d: "dedications_for i now hs ds \<and> progress bd bq HoldDedicated t (hd_ID ` set hs) (?u hs)"
      and b: "b = is_reserved i (?u hs)"
    note fin = progress_done [OF conjunct2 [OF d] la dist]
    have "b" using b res moved_frame(4) [OF fin(2)] by (simp add: is_reserved_def)
    moreover have "confirm_effect i now t ?t'"
      unfolding confirm_effect_def using res fin(2) la d by blast
    moreover have "ledger bd bq ?t'" by (rule ledger_finish [OF l res fin]) simp
    ultimately show "hoare (sees view inv ((=) ?t') k)
      (if \<not> b then fail (NewAppError ReasonConflict ''confirm race lost'' None) else ret ())
      (\<lambda>_. sees view inv (\<lambda>t'. confirm_effect i now t t' \<and> ledger bd bq t') k) (\<lambda>_. sees view inv (\<lambda>_. True) k)"
      by (auto intro!: hoare_ret elim: sees_mono)
  qed auto
qed

lemma confirm_body_rule:
  assumes "ledger bd bq t" and "is_reserved i t"
  shows "hoare (sees view inv ((=) t) k) (confirm_body S i now)
     (\<lambda>_. sees view inv (\<lambda>t'. confirm_effect i now t t' \<and> ledger bd bq t') k) (\<lambda>_. sees view inv (\<lambda>_. True) k)"
  unfolding confirm_body_def
  by (rule hoare_bind [OF ListActiveHolds_rule]) (auto intro!: confirm_write_rule [OF assms] simp: lists_active_def elim: sees_mono)

text \<open>The request the client reads back.\<close>

lemma Get_any_rule:
  assumes "\<And>t. V t \<Longrightarrow> U t"
  shows "hoare (sees view inv V k) (onRepo (rr_Get (sv_requests S) i))
     (\<lambda>q. sees view inv (\<lambda>t. map_option unstamp_request q = find_request i t \<and> V t) k) (\<lambda>_. sees view inv U k)"
  by (rule hoare_sees, rule hoare_conseq [OF Get_rule]) (auto simp: sees_def assms)


theorem Confirm_service:
  assumes l: "ledger bd bq t"
  shows "hoare (sees view inv ((=) t) (ck, n)) (Confirm S i)
     (\<lambda>q w. \<exists>j. sees view inv (\<lambda>t'. map_option unstamp_request q = find_request i t' \<and> ledger bd bq t' \<and>
        (t' = t \<and> has_status i StatusCompleted t \<or>
         confirm_effect i (ck n) t t' \<and> (\<forall>r. find_request i t = Some r \<longrightarrow> \<not> expired_at (ck n) r))) j w)
     (\<lambda>_ w. \<exists>j. sees view inv (\<lambda>t'. ledger bd bq t' \<and> (t' = t \<or> confirm_effect i (ck n) t t' \<and>
         (\<forall>r. find_request i t = Some r \<longrightarrow> \<not> expired_at (ck n) r))) j w)"
proof -
  let ?see = "sees view inv ((=) t) (ck, n)"
  let ?fresh = "\<forall>r. find_request i t = Some r \<longrightarrow> \<not> expired_at (ck n) r"
  let ?post = "\<lambda>q w. \<exists>j. sees view inv (\<lambda>t'. map_option unstamp_request q = find_request i t' \<and> ledger bd bq t' \<and>
        (t' = t \<and> has_status i StatusCompleted t \<or> confirm_effect i (ck n) t t' \<and> ?fresh)) j w"
  let ?err = "\<lambda>(_ :: go_error) w. \<exists>j. sees view inv (\<lambda>t'. ledger bd bq t' \<and> (t' = t \<or> confirm_effect i (ck n) t t' \<and> ?fresh)) j w"
  have quiet: "?err e w" if "sees view inv ((=) t) j w" for e w j
    by (rule exI [of _ j], rule sees_mono [OF that]) (use l in auto)
  have dist: "requests_distinct t" using l by (simp add: ledger_def book_def)
  show ?thesis
    unfolding Confirm_def
  proof (rule hoare_bind [OF Get_rule])
    fix q assume q: "map_option unstamp_request q = find_request i t"
    show "hoare ?see (case q of None \<Rightarrow> fail not_found
     | Some req \<Rightarrow>
         if cr_Status req = StatusCompleted then ret (Some req)
         else if cr_Status req \<noteq> StatusReserved then
           fail (NewAppError ReasonConflict ''request is not in RESERVED state''
                   (Some [(''status'', DStr (status_string (cr_Status req)))]))
         else andThen Now (\<lambda>now.
           if expired_at now req then fail (NewAppError ReasonExpired ''reservation expired'' None)
           else andThen (WithinTx S (confirm_body S i now)) (\<lambda>_.
             andThen (count ReservationConfirms
                        [case cr_ProductID req of None \<Rightarrow> ''raw'' | Some p \<Rightarrow> en_uuid_String (sv_env S) p]) (\<lambda>_.
             andThen (ignoring (onRedis (cs_InvalidateCapacity (sv_cache S) capacityCacheKey))) (\<lambda>_.
             onRepo (rr_Get (sv_requests S) i)))))) ?post ?err"
    proof (intro hoare_option hoare_if hoare_fail quiet)
      fix req w assume req: "q = Some req" "cr_Status req = StatusCompleted"
      show "hoare ?see (ret (Some req)) ?post ?err"
      proof (rule hoare_ret)
        fix w assume w: "?see w"
        have "has_status i StatusCompleted t" using q req by (auto simp: has_status_def intro: exI [of _ "unstamp_request req"] sym)
        then show "?post (Some req) w"
          by (intro exI [of _ "(ck, n)"], intro sees_mono [OF w]) (use q req l in auto)
      qed
    next
      fix req assume req: "q = Some req" "\<not> cr_Status req \<noteq> StatusReserved"
      have fr: "find_request i t = Some (unstamp_request req)" using q req(1) by simp
      have res: "is_reserved i t"
        unfolding is_reserved_has_status [OF dist] has_status_def using fr req(2) by simp
      let ?E = "\<lambda>t'. confirm_effect i (ck n) t t' \<and> ledger bd bq t'"
      show "hoare ?see (andThen Now (\<lambda>now.
           if expired_at now req then fail (NewAppError ReasonExpired ''reservation expired'' None)
           else andThen (WithinTx S (confirm_body S i now)) (\<lambda>_.
             andThen (count ReservationConfirms
                        [case cr_ProductID req of None \<Rightarrow> ''raw'' | Some p \<Rightarrow> en_uuid_String (sv_env S) p]) (\<lambda>_.
             andThen (ignoring (onRedis (cs_InvalidateCapacity (sv_cache S) capacityCacheKey))) (\<lambda>_.
             onRepo (rr_Get (sv_requests S) i)))))) ?post ?err"
      proof (rule hoare_bind [OF hoare_Now], intro hoare_if hoare_fail quiet, assumption)
        fix now assume now: "now = ck n" and fresh: "\<not> expired_at now req"
        have fresh': ?fresh using fr fresh now by (auto simp: expired_at_def)
        show "hoare (sees view inv ((=) t) (ck, Suc n)) (andThen (WithinTx S (confirm_body S i now)) (\<lambda>_.
             andThen (count ReservationConfirms
                        [case cr_ProductID req of None \<Rightarrow> ''raw'' | Some p \<Rightarrow> en_uuid_String (sv_env S) p]) (\<lambda>_.
             andThen (ignoring (onRedis (cs_InvalidateCapacity (sv_cache S) capacityCacheKey))) (\<lambda>_.
             onRepo (rr_Get (sv_requests S) i))))) ?post ?err"
          unfolding now
        proof (rule hoare_seq [OF WithinTx_rule [OF confirm_body_rule [OF l res]]],
            rule hoare_seq [OF hoare_count], rule hoare_seq [OF hoare_ignore_redis],
            rule hoare_conseq [OF Get_any_rule [where U = ?E]])
          fix q w
          assume "sees view inv (\<lambda>t'. map_option unstamp_request q = find_request i t' \<and> ?E t') (ck, Suc n) w"
          then show "?post q w" using fresh' by (intro exI [of _ "(ck, Suc n)"]) (erule sees_mono, blast)
        next
          fix e w assume "sees view inv ?E (ck, Suc n) w"
          then show "?err e w" using fresh' by (intro exI [of _ "(ck, Suc n)"]) (erule sees_mono, blast)
        next
          fix e w assume "sees view inv ((=) t) (ck, Suc n) w \<or> sees view inv ((=) t) (ck, Suc n) w"
          then show "?err e w" using quiet by blast
        qed (blast intro: quiet | simp)+
      qed (erule quiet)
    qed
  qed (rule quiet)
qed

subsection \<open>Releasing\<close>

lemma release_hold_rule:
  assumes p: "progress bd bq dst t A u" and b0: "book (\<lambda>_. 0) bd bq t"
    and h: "unstamp_hold h \<in> set (t_holds t)" "hd_Status h = HoldActive" "hd_ID h \<notin> A"
    and own: "customer_of t (hd_RequestID h) = Some c"
    and nn: "\<And>ck. 0 \<le> bq ck" and dst: "dst \<noteq> HoldActive" "dst \<noteq> HoldDedicated"
    and kd: "kd = kind_of_pool (lines_of (hd_RequestID h) t) (hd_PoolID h)"
  shows "hoare (sees view inv ((=) u) k) (release_hold S c (lines_of (hd_RequestID h) t) dst h)
     (\<lambda>_ w. progress bd bq dst t (insert (hd_ID h) A) (release_step c kd dst h u) \<and>
        sees view inv ((=) (release_step c kd dst h u)) k w)
     (\<lambda>_. sees view inv (\<lambda>_. True) k)"
proof -
  have b: "book (\<lambda>_. 0) bd bq u" using p by (simp add: progress_def)
  have u: "unstamp_hold h \<in> set (t_holds u)" using progress_member [OF p h(1)] h(3) by simp
  note f = active_hold_facts [OF b u, simplified, OF h(2)]
  note kind = kind_of_pool_hold [OF b0 h(1), simplified, OF h(2)]
  have prog: "progress bd bq dst t (insert (hd_ID h) A) (release_step c kd dst h u)"
    using progress_release [OF p h(1) _ _ _ _ nn dst, of c kd] h(2,3) own kind(2) kd by simp
  let ?u1 = "spec_release (hd_PoolID h) (hd_Amount h) u"
  let ?u2 = "spec_unconsume c kd (hd_Amount h) ?u1"
  show ?thesis
    unfolding release_hold_def Let_def kd [symmetric]
  proof (rule hoare_bind [OF ReleaseReserved_rule [OF _ f(1,2,4)]])
    show "pools_ok u" using b by (simp add: book_def)
    fix x
    show "hoare (sees view inv ((=) ?u1) k)
      (andThen (if kd \<noteq> '''' then onRepo (qr_Release (sv_quotas S) c kd (hd_Amount h)) else ret ())
        (\<lambda>_. andThen (onRepo (rr_UpdateHoldStatus (sv_requests S) (hd_ID h) HoldActive dst)) (\<lambda>_. ret ())))
      (\<lambda>_ w. progress bd bq dst t (insert (hd_ID h) A) (release_step c kd dst h u) \<and>
        sees view inv ((=) (release_step c kd dst h u)) k w) (\<lambda>_. sees view inv (\<lambda>_. True) k)"
      unfolding if_P [OF kind(1) [folded kd]]
    proof (rule hoare_bind [OF ReleaseQuota_rule [OF _ f(1,2)]], goal_cases)
      case 1
      show ?case using b by (simp add: book_def quotas_ok_def)
    next
      case (2 y)
      show ?case
      proof (rule hoare_bind [OF UpdateHold_rule])
        show "holds_distinct ?u2" using b by (simp add: book_def holds_distinct_def)
        fix z
        show "hoare (sees view inv ((=) (spec_hold (hd_ID h) HoldActive dst ?u2)) k) (ret ())
          (\<lambda>_ w. progress bd bq dst t (insert (hd_ID h) A) (release_step c kd dst h u) \<and>
             sees view inv ((=) (release_step c kd dst h u)) k w) (\<lambda>_. sees view inv (\<lambda>_. True) k)"
          by (rule hoare_ret) (use prog in \<open>simp add: release_step_def\<close>)
      qed (auto elim: sees_mono)
    qed (auto elim: sees_mono)
  qed (auto elim: sees_mono)
qed

lemma release_write_rule:
  assumes l: "ledger bd bq t" and fr: "find_request (cr_ID req) t = Some (unstamp_request req)"
    and la: "lists_active (cr_ID req) t hs" and st: "st = StatusExpired \<or> st = StatusCancelled"
  shows "hoare (sees view inv ((=) t) k) (release_write S req st now (hs, lines_of (cr_ID req) t))
     (\<lambda>_. sees view inv (\<lambda>t'. (release_effect (cr_ID req) st now t t' \<or> t' = t \<and> \<not> is_reserved (cr_ID req) t) \<and> ledger bd bq t') k)
     (\<lambda>_. sees view inv (\<lambda>_. True) k)"
proof -
  let ?i = "cr_ID req" and ?c = "cr_CustomerID req"
  let ?dst = "if st = StatusExpired then HoldExpired else HoldReleased"
  have b: "book (\<lambda>_. 0) bd bq t" and nn: "\<And>ck. 0 \<le> bq ck" using l unfolding ledger_def by blast+
  have dist: "holds_distinct t" using b by (simp add: book_def)
  have dst: "?dst \<noteq> HoldActive" "?dst \<noteq> HoldDedicated" by simp_all
  note ids = lists_active_ids(1) [OF la dist]
  have own: "customer_of t ?i = Some ?c" using fr by (simp add: customer_of_def)
  let ?step = "\<lambda>h. release_step ?c (kind_of_pool (lines_of ?i t) (hd_PoolID h)) ?dst h"
  let ?u = "\<lambda>dn. fold ?step dn t"
  let ?I = "\<lambda>dn w. progress bd bq ?dst t (hd_ID ` set dn) (?u dn) \<and> sees view inv ((=) (?u dn)) k w"
  have loop: "hoare (?I []) (forEach (release_hold S ?c (lines_of ?i t) ?dst) hs) (\<lambda>_. ?I hs) (\<lambda>_. sees view inv (\<lambda>_. True) k)"
  proof (rule hoare_forEach [where I = ?I], rule hoare_assume)
    fix dn h rest
    assume split: "hs = dn @ h # rest" and p: "progress bd bq ?dst t (hd_ID ` set dn) (?u dn)"
    have h: "unstamp_hold h \<in> set (t_holds t)" "hd_Status h = HoldActive" "hd_ID h \<notin> hd_ID ` set dn" "hd_RequestID h = ?i"
      using lists_active_member [OF la, of h] ids by (auto simp: split)
    have own': "customer_of t (hd_RequestID h) = Some ?c" using own h(4) by simp
    from release_hold_rule [OF p b h(1-3) own' nn dst refl, where k = k] h(4)
    show "hoare (sees view inv ((=) (?u dn)) k) (release_hold S ?c (lines_of ?i t) ?dst h) (\<lambda>_. ?I (dn @ [h]))
        (\<lambda>_. sees view inv (\<lambda>_. True) k)" by simp
  qed
  have loop': "hoare (sees view inv ((=) t) k) (forEach (release_hold S ?c (lines_of ?i t) ?dst) hs)
      (\<lambda>_. ?I hs) (\<lambda>_. sees view inv (\<lambda>_. True) k)"
    by (rule hoare_pre [OF loop]) (use progress_start [OF l] in auto)
  show ?thesis
    unfolding release_write_def split_conv Let_def
  proof (rule hoare_bind [OF loop'], rule hoare_seq [OF hoare_uuid], fold event_at_def, goal_cases)
    case (1 x evID)
    note fin = progress_done [OF 1 la dist]
    let ?ev = "event_at evID ?i (if st = StatusExpired then EventExpired else EventCancelled) (status_string st) now"
    let ?t' = "spec_finish ?i st [] ?ev (?u hs)"
    have same: "is_reserved ?i (?u hs) = is_reserved ?i t"
      using moved_frame(4) [OF fin(2)] by (simp add: is_reserved_def)
    have eff: "(release_effect ?i st now t ?t' \<or> ?t' = t \<and> \<not> is_reserved ?i t) \<and> ledger bd bq ?t'"
    proof (cases "is_reserved ?i t")
      case True
      have "release_effect ?i st now t ?t'" unfolding release_effect_def using True fin(2) by blast
      moreover have "ledger bd bq ?t'" using release_effect_ledger [OF l True fin] st by blast
      ultimately show ?thesis by simp
    next
      case False
      have "active_holds ?i t = []"
      proof (rule ccontr)
        assume "active_holds ?i t \<noteq> []"
        then obtain h where h: "h \<in> set (t_holds t)" "hd_RequestID h = ?i" "hd_Status h = HoldActive"
          by (auto simp: active_holds_def filter_empty_conv)
        have "unstamp_request req \<in> set (t_requests t)" "cr_ID (unstamp_request req) = ?i"
          using find_SomeD [OF fr [unfolded find_request_def]] by simp_all
        with h l have "hold_status_of (cr_Status req) = Some HoldActive"
          unfolding ledger_def status_ok_def by (metis unstamp_request_sel(7))
        then have "cr_Status req = StatusReserved" by (cases "cr_Status req") simp_all
        with \<open>unstamp_request req \<in> set (t_requests t)\<close> False show False
          by (auto simp: is_reserved_def list_ex_iff)
      qed
      then have "hs = []" using la by (simp add: lists_active_def)
      with False l show ?thesis by (simp add: spec_finish_def)
    qed
    show ?case
    proof (cases "st = StatusExpired")
      case True
      show ?thesis
        by (rule hoare_bind [where R = "\<lambda>_. True" and P' = "\<lambda>_. sees view inv ((=) ?t') k"])
          (use True eff in \<open>auto intro!: hoare_ret hoare_conseq [OF MarkExpired_rule] elim: sees_mono\<close>)
    next
      case False
      with st have "st = StatusCancelled" by simp
      then show ?thesis
        by (intro hoare_bind [where R = "\<lambda>_. True" and P' = "\<lambda>_. sees view inv ((=) ?t') k"])
          (use eff in \<open>auto intro!: hoare_ret hoare_conseq [OF MarkCancelled_rule] elim: sees_mono\<close>)
    qed
  qed auto
qed

lemma releaseReserved_rule:
  assumes l: "ledger bd bq t" and fr: "find_request (cr_ID req) t = Some (unstamp_request req)"
    and st: "st = StatusExpired \<or> st = StatusCancelled"
  shows "hoare (sees view inv ((=) t) (ck, n)) (releaseReserved S req st)
     (\<lambda>_. sees view inv (\<lambda>t'. (release_effect (cr_ID req) st (ck n) t t' \<or> t' = t \<and> \<not> is_reserved (cr_ID req) t) \<and>
         ledger bd bq t') (ck, Suc n))
     (\<lambda>_. sees view inv ((=) t) (ck, Suc n))"
proof -
  have body: "hoare (sees view inv ((=) t) k) (andThen (release_read S (cr_ID req)) (release_write S req st now))
     (\<lambda>_. sees view inv (\<lambda>t'. (release_effect (cr_ID req) st now t t' \<or> t' = t \<and> \<not> is_reserved (cr_ID req) t) \<and> ledger bd bq t') k)
     (\<lambda>_. sees view inv (\<lambda>_. True) k)" for k now
  proof (rule hoare_bind [where R = "\<lambda>q. lists_active (cr_ID req) t (fst q) \<and> snd q = lines_of (cr_ID req) t"
        and P' = "\<lambda>_. sees view inv ((=) t) k"])
    show "hoare (sees view inv ((=) t) k) (release_read S (cr_ID req))
       (\<lambda>q w. (lists_active (cr_ID req) t (fst q) \<and> snd q = lines_of (cr_ID req) t) \<and> sees view inv ((=) t) k w)
       (\<lambda>_. sees view inv ((=) t) k)"
      unfolding release_read_def
      by (rule hoare_bind [OF ListActiveHolds_rule], rule hoare_bind [OF ListLines_rule])
        (auto intro!: hoare_ret simp: lists_active_def)
    fix q :: "hold list \<times> request_line list"
    assume "lists_active (cr_ID req) t (fst q) \<and> snd q = lines_of (cr_ID req) t"
    with release_write_rule [OF l fr _ st, of "fst q"]
    show "hoare (sees view inv ((=) t) k) (release_write S req st now q)
     (\<lambda>_. sees view inv (\<lambda>t'. (release_effect (cr_ID req) st now t t' \<or> t' = t \<and> \<not> is_reserved (cr_ID req) t) \<and> ledger bd bq t') k)
     (\<lambda>_. sees view inv (\<lambda>_. True) k)" by (cases q) simp
  qed (auto elim: sees_mono)
  show ?thesis
    unfolding releaseReserved_def
  proof (rule hoare_bind [OF hoare_Now])
    fix now assume "now = ck n"
    then show "hoare (sees view inv ((=) t) (ck, Suc n))
      (WithinTx S (andThen (release_read S (cr_ID req)) (release_write S req st now)))
      (\<lambda>_. sees view inv (\<lambda>t'. (release_effect (cr_ID req) st (ck n) t t' \<or> t' = t \<and> \<not> is_reserved (cr_ID req) t) \<and>
         ledger bd bq t') (ck, Suc n)) (\<lambda>_. sees view inv ((=) t) (ck, Suc n))"
      using hoare_error [OF WithinTx_rule [OF body]] by simp
  qed simp
qed

lemma found_status:
  assumes "map_option unstamp_request q = find_request i t" and "q = Some req"
  shows "find_request i t = Some (unstamp_request req)" "has_status i (cr_Status req) t" "cr_ID req = i"
proof -
  show fr: "find_request i t = Some (unstamp_request req)" using assms by simp
  then show "has_status i (cr_Status req) t" by (simp add: has_status_def)
  from find_SomeD [OF fr [unfolded find_request_def]] show "cr_ID req = i" by simp
qed

theorem Cancel_service:
  assumes l: "ledger bd bq t"
  shows "hoare (sees view inv ((=) t) (ck, n)) (Cancel S i)
     (\<lambda>q w. \<exists>j. sees view inv (\<lambda>t'. map_option unstamp_request q = find_request i t' \<and> ledger bd bq t' \<and>
        (t' = t \<and> has_status i StatusCancelled t \<or> release_effect i StatusCancelled (ck n) t t')) j w)
     (\<lambda>_ w. \<exists>j. sees view inv (\<lambda>t'. ledger bd bq t' \<and> (t' = t \<or> release_effect i StatusCancelled (ck n) t t')) j w)"
proof -
  let ?see = "sees view inv ((=) t) (ck, n)"
  let ?R = "release_effect i StatusCancelled (ck n) t"
  let ?post = "\<lambda>q w. \<exists>j. sees view inv (\<lambda>t'. map_option unstamp_request q = find_request i t' \<and> ledger bd bq t' \<and>
        (t' = t \<and> has_status i StatusCancelled t \<or> ?R t')) j w"
  let ?err = "\<lambda>(_ :: go_error) w. \<exists>j. sees view inv (\<lambda>t'. ledger bd bq t' \<and> (t' = t \<or> ?R t')) j w"
  have quiet: "?err e w" if "sees view inv ((=) t) j w" for e w j
    by (rule exI [of _ j], rule sees_mono [OF that]) (use l in auto)
  have dist: "requests_distinct t" using l by (simp add: ledger_def book_def)
  show ?thesis
    unfolding Cancel_def
  proof (rule hoare_bind [OF Get_rule])
    fix q assume q: "map_option unstamp_request q = find_request i t"
    show "hoare ?see (case q of None \<Rightarrow> fail not_found
     | Some req \<Rightarrow>
         if cr_Status req = StatusCancelled then ret (Some req)
         else if cr_Status req \<noteq> StatusReserved then
           fail (NewAppError ReasonConflict ''request cannot be cancelled''
                   (Some [(''status'', DStr (status_string (cr_Status req)))]))
         else andThen (releaseReserved S req StatusCancelled) (\<lambda>_.
           andThen (count ReservationCancels []) (\<lambda>_.
           andThen (ignoring (onRedis (cs_InvalidateCapacity (sv_cache S) capacityCacheKey))) (\<lambda>_.
           onRepo (rr_Get (sv_requests S) i))))) ?post ?err"
    proof (intro hoare_option hoare_if hoare_fail quiet)
      fix req assume req: "q = Some req" "cr_Status req = StatusCancelled"
      note f = found_status [OF q req(1)]
      show "hoare ?see (ret (Some req)) ?post ?err"
        by (rule hoare_ret, rule exI [of _ "(ck, n)"], erule sees_mono) (use f req(2) l in auto)
    next
      fix req assume req: "q = Some req" "\<not> cr_Status req \<noteq> StatusReserved"
      note f = found_status [OF q req(1)]
      have res: "is_reserved i t" unfolding is_reserved_has_status [OF dist] using f(2) req(2) by simp
      have fr: "find_request (cr_ID req) t = Some (unstamp_request req)" using f(1,3) by simp
      let ?E = "\<lambda>t'. ledger bd bq t' \<and> ?R t'"
      have rel: "hoare ?see (releaseReserved S req StatusCancelled)
          (\<lambda>_. sees view inv ?E (ck, Suc n)) (\<lambda>_. sees view inv ((=) t) (ck, Suc n))"
        by (rule hoare_post [OF releaseReserved_rule [OF l fr]], simp, erule sees_mono) (use res f(3) in auto)
      show "hoare ?see (andThen (releaseReserved S req StatusCancelled) (\<lambda>_.
           andThen (count ReservationCancels []) (\<lambda>_.
           andThen (ignoring (onRedis (cs_InvalidateCapacity (sv_cache S) capacityCacheKey))) (\<lambda>_.
           onRepo (rr_Get (sv_requests S) i))))) ?post ?err"
      proof (rule hoare_seq [OF rel], rule hoare_seq [OF hoare_count], rule hoare_seq [OF hoare_ignore_redis],
            rule hoare_conseq [OF Get_any_rule [where U = ?E]])
        fix q w
        assume "sees view inv (\<lambda>t'. map_option unstamp_request q = find_request i t' \<and> ?E t') (ck, Suc n) w"
        then show "?post q w" by (intro exI [of _ "(ck, Suc n)"]) (erule sees_mono, blast)
      next
        fix e w assume "sees view inv ?E (ck, Suc n) w"
        then show "?err e w" by (intro exI [of _ "(ck, Suc n)"]) (erule sees_mono, blast)
      qed (blast intro: quiet | simp)+
    qed
  qed (rule quiet)
qed

subsection \<open>Extending\<close>

lemma spec_extend_ledger:
  "ledger bd bq t \<Longrightarrow> ledger bd bq (spec_extend i e n ev t)"
  "ledger bd bq t \<Longrightarrow> ledger bd bq ((spec_extend i e n ev t)\<lparr>t_events := t_events t\<rparr>)"
  using ledger_extend [of bd bq t] ledger_extend [of bd bq t "t_events t"] by (simp_all add: spec_extend_def)

theorem Extend_service:
  assumes l: "ledger bd bq t"
  shows "hoare (sees view inv ((=) t) (ck, n)) (Extend S i)
     (\<lambda>q w. \<exists>j. sees view inv (\<lambda>t'. map_option unstamp_request q = find_request i t' \<and> ledger bd bq t' \<and>
        extend_effect (sv_cfg S) i (ck n) t t') j w)
     (\<lambda>_ w. \<exists>j. sees view inv (\<lambda>t'. ledger bd bq t' \<and>
        (t' = t \<or> extend_effect (sv_cfg S) i (ck n) t t' \<or> extend_debris (sv_cfg S) i (ck n) t t')) j w)"
proof -
  let ?see = "sees view inv ((=) t) (ck, n)" and ?see' = "sees view inv ((=) t) (ck, Suc n)"
  let ?X = "extend_effect (sv_cfg S) i (ck n) t"
  let ?post = "\<lambda>q w. \<exists>j. sees view inv (\<lambda>t'. map_option unstamp_request q = find_request i t' \<and> ledger bd bq t' \<and> ?X t') j w"
  let ?err = "\<lambda>(_ :: go_error) w. \<exists>j. sees view inv (\<lambda>t'. ledger bd bq t' \<and>
     (t' = t \<or> ?X t' \<or> extend_debris (sv_cfg S) i (ck n) t t')) j w"
  have quiet: "?err e w" if "sees view inv ((=) t) j w" for e w j
    by (rule exI [of _ j], rule sees_mono [OF that]) (use l in auto)
  have dist: "requests_distinct t" using l by (simp add: ledger_def book_def)
  show ?thesis
    unfolding Extend_def
  proof (rule hoare_bind [OF Get_rule], intro hoare_option hoare_fail quiet, assumption)
    fix q req assume q: "map_option unstamp_request q = find_request i t" and req: "q = Some req"
    note f = found_status [OF q req]
    show "hoare ?see (andThen Now (\<lambda>now.
         if cr_Status req \<noteq> StatusReserved then
           (if cr_Status req = StatusExpired then fail (NewAppError ReasonExpired ''reservation expired'' None)
            else fail (NewAppError ReasonConflict ''request cannot be extended''
                         (Some [(''status'', DStr (status_string (cr_Status req)))])))
         else if expired_at now req then fail (NewAppError ReasonExpired ''reservation expired'' None)
         else if cr_ExtensionCount req \<ge> cfg_MaxExtensions (sv_cfg S) then
           fail (NewAppError ReasonExtensionLimit ''max extensions reached''
                   (Some [(''max'', DInt (cfg_MaxExtensions (sv_cfg S)))]))
         else let newExp = extension_base now req + cfg_ReserveTTL (sv_cfg S) in
           if cr_CreatedAt req + cfg_MaxReserveWallTime (sv_cfg S) < newExp then
             fail (NewAppError ReasonExtensionLimit ''max reserve wall time reached'' None)
           else andThen uuid_New (\<lambda>evID.
             andThen (onRepo (rr_Extend (sv_requests S) i newExp (cr_ExtensionCount req + 1)
               \<lparr>ev_ID = evID, ev_RequestID = i, ev_EventType = EventExtended, ev_Reason = '''', ev_At = now\<rparr>))
             (\<lambda>updated.
               if \<not> updated then fail (NewAppError ReasonConflict ''extend race lost'' None)
               else andThen (count ReservationExtends []) (\<lambda>_. onRepo (rr_Get (sv_requests S) i)))))) ?post ?err"
      unfolding Let_def
    proof (rule hoare_bind [OF hoare_Now], intro hoare_if hoare_fail; (erule quiet)?)
      fix now
      let ?new = "extension_base now req + cfg_ReserveTTL (sv_cfg S)"
      let ?u = "\<lambda>evID. spec_extend i ?new (cr_ExtensionCount req + 1) (event_at evID i EventExtended '''' now) t"
      assume now: "now = ck n" and st: "\<not> cr_Status req \<noteq> StatusReserved" and c: "\<not> expired_at now req"
        "\<not> cfg_MaxExtensions (sv_cfg S) \<le> cr_ExtensionCount req"
        "\<not> cr_CreatedAt req + cfg_MaxReserveWallTime (sv_cfg S) < ?new"
      have res: "is_reserved i t" unfolding is_reserved_has_status [OF dist] using f(2) st by simp
      have same: "extension_base now (unstamp_request req) = extension_base now req"
        "expired_at now (unstamp_request req) = expired_at now req"
        by (simp_all add: extension_base_def expired_at_def)
      have eff: "?X (?u evID)" for evID
        unfolding extend_effect_def using f(1) st c same now
        by (intro exI [of _ "unstamp_request req"] exI [of _ evID]) simp
      have led: "ledger bd bq (?u evID)" "ledger bd bq ((?u evID)\<lparr>t_events := t_events t\<rparr>)" for evID
        by (rule spec_extend_ledger [OF l])+
      show "hoare ?see' (andThen uuid_New (\<lambda>evID.
             andThen (onRepo (rr_Extend (sv_requests S) i ?new (cr_ExtensionCount req + 1)
               \<lparr>ev_ID = evID, ev_RequestID = i, ev_EventType = EventExtended, ev_Reason = '''', ev_At = now\<rparr>))
             (\<lambda>updated.
               if \<not> updated then fail (NewAppError ReasonConflict ''extend race lost'' None)
               else andThen (count ReservationExtends []) (\<lambda>_. onRepo (rr_Get (sv_requests S) i))))) ?post ?err"
      proof (rule hoare_seq [OF hoare_uuid], fold event_at_def, rule hoare_bind [OF Extend_rule])
        fix evID b
        assume b: "b = is_reserved i t"
        let ?V = "\<lambda>t'. ledger bd bq t' \<and> ?X t'"
        have "hoare (sees view inv ?V (ck, Suc n)) (andThen (count ReservationExtends []) (\<lambda>_. onRepo (rr_Get (sv_requests S) i))) ?post ?err"
        proof (rule hoare_seq [OF hoare_count], rule hoare_conseq [OF Get_any_rule [where U = ?V]])
          fix q w
          assume "sees view inv (\<lambda>t'. map_option unstamp_request q = find_request i t' \<and> ?V t') (ck, Suc n) w"
          then show "?post q w" by (intro exI [of _ "(ck, Suc n)"]) (erule sees_mono, blast)
        next
          fix e w assume "sees view inv ?V (ck, Suc n) w"
          then show "?err e w" by (intro exI [of _ "(ck, Suc n)"]) (erule sees_mono, blast)
        qed (blast intro: quiet | simp)+
        then have "hoare (sees view inv ((=) (?u evID)) (ck, Suc n))
            (andThen (count ReservationExtends []) (\<lambda>_. onRepo (rr_Get (sv_requests S) i))) ?post ?err"
          by (rule hoare_pre) (erule sees_mono, use eff led in auto)
        then show "hoare (sees view inv ((=) (?u evID)) (ck, Suc n))
          (if \<not> b then fail (NewAppError ReasonConflict ''extend race lost'' None)
           else andThen (count ReservationExtends []) (\<lambda>_. onRepo (rr_Get (sv_requests S) i))) ?post ?err"
          using b res by simp
      next
        fix evID e w
        assume "sees view inv (\<lambda>t'. t' = t \<or> t' = (?u evID)\<lparr>t_events := t_events t\<rparr>) (ck, Suc n) w"
        then show "?err e w"
          by (intro exI [of _ "(ck, Suc n)"], elim sees_mono) (use l led eff in \<open>auto simp: extend_debris_def\<close>)
      qed (blast intro: quiet | simp)+
    qed
  qed (rule quiet)
qed

end

subsection \<open>Sweeping\<close>

text \<open>The requests of a list expire one after the other.\<close>

fun expire_chain :: "uuid list \<Rightarrow> tables \<Rightarrow> tables \<Rightarrow> bool" where
  "expire_chain [] t t' \<longleftrightarrow> t' = t"
| "expire_chain (i # is) t t' \<longleftrightarrow> (\<exists>u now. release_effect i StatusExpired now t u \<and> expire_chain is u t')"

lemma expire_chain_snoc:
  "expire_chain is t u \<Longrightarrow> release_effect i StatusExpired now u v \<Longrightarrow> expire_chain (is @ [i]) t v"
  by (induction "is" arbitrary: t) auto

definition due :: "time \<Rightarrow> uuid \<Rightarrow> tables \<Rightarrow> bool" where
  "due now i t \<longleftrightarrow> (\<exists>r \<in> set (t_requests t). cr_ID r = i \<and> is_due now r)"

lemma due_reserved: "due now i t \<Longrightarrow> is_reserved i t"
  by (auto simp: due_def is_reserved_def is_due_def list_ex_iff)

text \<open>Expiring one request leaves the others as they were.\<close>

lemma reserved_set_status:
  assumes "j \<noteq> i" and "is_reserved j t" and "t_requests u = set_status i st (t_requests t)"
  shows "is_reserved j u"
proof -
  obtain r where r: "r \<in> set (t_requests t)" "cr_ID r = j" "cr_Status r = StatusReserved"
    using assms(2) by (auto simp: is_reserved_def list_ex_iff)
  then have "r \<in> set (t_requests u)"
    unfolding assms(3) set_status_member using assms(1) by (intro bexI [of _ r]) simp_all
  with r show ?thesis by (auto simp: is_reserved_def list_ex_iff)
qed

lemma release_effect_others:
  assumes "release_effect i st now t u" and "j \<noteq> i" and "is_reserved j t"
  shows "is_reserved j u"
proof -
  from assms(1) have "t_requests u = set_status i st (t_requests t)"
    by (auto simp: release_effect_def moved_def spec_finish_def is_reserved_def)
  from reserved_set_status [OF assms(2,3) this] show ?thesis .
qed

lemma distinct_submset: "mset xs \<subseteq># mset ys \<Longrightarrow> distinct ys \<Longrightarrow> distinct xs"
  by (metis distinct_append ex_mset mset_append mset_eq_imp_distinct_iff mset_subset_eq_exists_conv)

definition swept :: "time \<Rightarrow> nat \<Rightarrow> tables \<Rightarrow> tables \<Rightarrow> bool" where
  "swept now n t t' \<longleftrightarrow> (\<exists>is. length is = n \<and> distinct is \<and> n \<le> expireBatchSize \<and>
     (\<forall>i \<in> set is. due now i t) \<and> expire_chain is t t')"

context capacity_client
begin

lemma expire_one_rule:
  assumes l: "ledger bd bq t" and res: "is_reserved i t"
  shows "hoare (sees view inv ((=) t) (ck, n)) (expire_one S i)
     (\<lambda>x w. \<exists>m. sees view inv (\<lambda>t'. ledger bd bq t' \<and>
        (x = 0 \<and> t' = t \<or> x = 1 \<and> (\<exists>now. release_effect i StatusExpired now t t'))) (ck, m) w) E"
proof -
  let ?post = "\<lambda>x w. \<exists>m. sees view inv (\<lambda>t'. ledger bd bq t' \<and>
        (x = (0::nat) \<and> t' = t \<or> x = 1 \<and> (\<exists>now. release_effect i StatusExpired now t t'))) (ck, m) w"
  have zero: "hoare (sees view inv ((=) t) (ck, m)) (ret 0) ?post E" for m
    by (rule hoare_ret, rule exI [of _ m], erule sees_mono) (use l in auto)
  let ?g = "\<lambda>g w. (\<forall>q. g = Inr q \<longrightarrow> map_option unstamp_request q = find_request i t) \<and> sees view inv ((=) t) (ck, n) w"
  show ?thesis
    unfolding expire_one_def
  proof (rule hoare_andThen [OF hoare_attempt [where Q = ?g]])
    show "hoare (sees view inv ((=) t) (ck, n)) (onRepo (rr_Get (sv_requests S) i)) (\<lambda>a. ?g (Inr a)) (\<lambda>e. ?g (Inl e))"
      by (rule hoare_conseq [OF Get_rule]) auto
    fix g
    show "hoare (?g g) (case g of Inl _ \<Rightarrow> ret 0 | Inr None \<Rightarrow> ret 0 | Inr (Some req) \<Rightarrow>
         andThen (attempt (releaseReserved S req StatusExpired)) (\<lambda>r.
         case r of Inl _ \<Rightarrow> ret 0
         | Inr _ \<Rightarrow> andThen (count ReservationExpires [''sweeper'']) (\<lambda>_.
                    andThen (count SweeperExpiredHolds []) (\<lambda>_. ret 1)))) ?post E"
    proof (rule hoare_assume)
      assume g: "\<forall>q. g = Inr q \<longrightarrow> map_option unstamp_request q = find_request i t"
      show "hoare (sees view inv ((=) t) (ck, n)) (case g of Inl _ \<Rightarrow> ret 0 | Inr None \<Rightarrow> ret 0 | Inr (Some req) \<Rightarrow>
         andThen (attempt (releaseReserved S req StatusExpired)) (\<lambda>r.
         case r of Inl _ \<Rightarrow> ret 0
         | Inr _ \<Rightarrow> andThen (count ReservationExpires [''sweeper'']) (\<lambda>_.
                    andThen (count SweeperExpiredHolds []) (\<lambda>_. ret 1)))) ?post E"
      proof (intro hoare_sum hoare_option zero)
        fix q req assume "g = Inr q" and req: "q = Some req"
        with g have q: "map_option unstamp_request q = find_request i t" by simp
        note f = found_status [OF q req]
        have fr: "find_request (cr_ID req) t = Some (unstamp_request req)" using f(1,3) by simp
        let ?V = "\<lambda>t'. ledger bd bq t' \<and> (\<exists>now. release_effect i StatusExpired now t t')"
        let ?r = "\<lambda>r. case r of Inl (e::go_error) \<Rightarrow> sees view inv ((=) t) (ck, Suc n)
           | Inr (u::unit) \<Rightarrow> sees view inv ?V (ck, Suc n)"
        have rel: "hoare (sees view inv ((=) t) (ck, n)) (releaseReserved S req StatusExpired) (\<lambda>a. ?r (Inr a)) (\<lambda>e. ?r (Inl e))"
          by (rule hoare_conseq [OF releaseReserved_rule [OF l fr]])
            (use res f(3) in \<open>auto elim!: sees_mono\<close>)
        show "hoare (sees view inv ((=) t) (ck, n)) (andThen (attempt (releaseReserved S req StatusExpired)) (\<lambda>r.
         case r of Inl _ \<Rightarrow> ret 0
         | Inr _ \<Rightarrow> andThen (count ReservationExpires [''sweeper'']) (\<lambda>_.
                    andThen (count SweeperExpiredHolds []) (\<lambda>_. ret 1)))) ?post E"
        proof (rule hoare_andThen [OF hoare_attempt [OF rel]])
          fix r
          have one: "hoare (sees view inv ?V (ck, Suc n)) (andThen (count ReservationExpires [''sweeper'']) (\<lambda>_.
                    andThen (count SweeperExpiredHolds []) (\<lambda>_. ret 1))) ?post E"
            by (rule hoare_andThen [OF hoare_count], rule hoare_andThen [OF hoare_count], rule hoare_ret,
                rule exI [of _ "Suc n"], erule sees_mono) simp
          show "hoare (?r r) (case r of Inl _ \<Rightarrow> ret 0
            | Inr _ \<Rightarrow> andThen (count ReservationExpires [''sweeper'']) (\<lambda>_.
                    andThen (count SweeperExpiredHolds []) (\<lambda>_. ret 1))) ?post E"
            using one zero [of "Suc n"] by (cases r) simp_all
        qed
      qed
    qed
  qed
qed

text \<open>The loop over the batch.\<close>

lemma expire_loop_chain:
  assumes l: "ledger bd bq t" and dist: "distinct ids" and res: "\<forall>i \<in> set ids. is_reserved i t"
  shows "hoare (sees view inv ((=) t) (ck, n)) (collect (expire_one S) ids)
     (\<lambda>ns w. \<exists>m. sees view inv (\<lambda>t'. ledger bd bq t' \<and>
        (\<exists>dn. length dn = sum_list ns \<and> distinct dn \<and> set dn \<subseteq> set ids \<and> expire_chain dn t t')) (ck, m) w) E"
proof -
  let ?I = "\<lambda>todo ys w. \<exists>m. sees view inv (\<lambda>t'. ledger bd bq t' \<and> (\<forall>i \<in> set todo. is_reserved i t') \<and>
      (\<exists>dn. length dn = sum_list ys \<and> distinct dn \<and> set dn \<subseteq> set ids - set todo \<and> expire_chain dn t t')) (ck, m) w"
  have loop: "hoare (?I todo ys) (collect (expire_one S) todo) (\<lambda>zs. ?I [] (ys @ zs)) E"
    if "distinct todo" "set todo \<subseteq> set ids" for todo ys
    using that
  proof (induction todo arbitrary: ys)
    case Nil
    then show ?case by (auto intro!: hoare_ret)
  next
    case (Cons i todo)
    have step: "hoare (?I (i # todo) ys) (expire_one S i) (\<lambda>y. ?I todo (ys @ [y])) E"
      unfolding hoare_ex_pre
    proof (rule allI, rule hoare_sees, elim conjE exE)
      fix m t' dn
      assume t': "ledger bd bq t'" "\<forall>j \<in> set (i # todo). is_reserved j t'" and dn: "length dn = sum_list ys" "distinct dn"
        "set dn \<subseteq> set ids - set (i # todo)" "expire_chain dn t t'"
      have "is_reserved i t'" using t'(2) by simp
      from expire_one_rule [OF t'(1) this]
      show "hoare (sees view inv ((=) t') (ck, m)) (expire_one S i) (\<lambda>y. ?I todo (ys @ [y])) E"
      proof (rule hoare_post, elim exE)
        fix y :: nat and w :: "('r, 'c) world" and m'
        assume w: "sees view inv (\<lambda>u. ledger bd bq u \<and>
          (y = 0 \<and> u = t' \<or> y = 1 \<and> (\<exists>now. release_effect i StatusExpired now t' u))) (ck, m') w"
        show "?I todo (ys @ [y]) w"
        proof (rule exI [of _ m'], rule sees_mono [OF w], elim conjE disjE exE; intro conjI; assumption?)
          fix u assume "y = 0" "u = t'"
          then show "\<forall>j \<in> set todo. is_reserved j u"
            "\<exists>dn. length dn = sum_list (ys @ [y]) \<and> distinct dn \<and> set dn \<subseteq> set ids - set todo \<and> expire_chain dn t u"
            using t'(2) dn by auto
        next
          fix u now'
          assume y: "y = 1" and eff: "release_effect i StatusExpired now' t' u"
          show "\<forall>j \<in> set todo. is_reserved j u"
          proof
            fix j assume "j \<in> set todo"
            then show "is_reserved j u"
              using t'(2) Cons.prems(1) by (intro release_effect_others [OF eff]) auto
          qed
          show "\<exists>dn. length dn = sum_list (ys @ [y]) \<and> distinct dn \<and> set dn \<subseteq> set ids - set todo \<and> expire_chain dn t u"
            using expire_chain_snoc [OF dn(4) eff] dn(1-3) y Cons.prems
            by (intro exI [of _ "dn @ [i]"]) auto
        qed
      qed
    qed
    show ?case
      unfolding collect.simps
    proof (rule hoare_andThen [OF step])
      fix y
      show "hoare (?I todo (ys @ [y])) (andThen (collect (expire_one S) todo) (\<lambda>zs. ret (y # zs))) (\<lambda>zs. ?I [] (ys @ zs)) E"
        using Cons by (intro hoare_andThen [OF Cons.IH]) (auto intro!: hoare_ret)
    qed
  qed
  have start: "?I ids [] w" if "sees view inv ((=) t) (ck, n) w" for w
    by (rule exI [of _ n], rule sees_mono [OF that]) (use l res in \<open>auto intro: exI [of _ "[]"]\<close>)
  show ?thesis
  proof (rule hoare_conseq [OF loop [OF dist subset_refl], of _ "[]"])
    fix w assume "sees view inv ((=) t) (ck, n) w"
    then show "?I ids [] w" by (rule start)
  next
    fix ns w assume "?I [] ([] @ ns) w"
    then show "\<exists>m. sees view inv (\<lambda>t'. ledger bd bq t' \<and>
        (\<exists>dn. length dn = sum_list ns \<and> distinct dn \<and> set dn \<subseteq> set ids \<and> expire_chain dn t t')) (ck, m) w"
      by (auto elim!: sees_mono)
  qed
qed

lemma expire_loop_rule:
  assumes l: "ledger bd bq t" and dist: "distinct ids" and due: "\<forall>i \<in> set ids. due now i t" and len: "length ids \<le> expireBatchSize"
  shows "hoare (sees view inv ((=) t) (ck, n)) (collect (expire_one S) ids)
     (\<lambda>ns w. \<exists>m. sees view inv (\<lambda>t'. ledger bd bq t' \<and> swept now (sum_list ns) t t') (ck, m) w) E"
proof (rule hoare_conseq [OF expire_loop_chain [OF l dist]])
  show "\<forall>i \<in> set ids. is_reserved i t" using due by (blast intro: due_reserved)
  fix ns w assume "\<exists>m. sees view inv (\<lambda>t'. ledger bd bq t' \<and>
        (\<exists>dn. length dn = sum_list ns \<and> distinct dn \<and> set dn \<subseteq> set ids \<and> expire_chain dn t t')) (ck, m) w"
  then obtain m where w: "sees view inv (\<lambda>t'. ledger bd bq t' \<and>
        (\<exists>dn. length dn = sum_list ns \<and> distinct dn \<and> set dn \<subseteq> set ids \<and> expire_chain dn t t')) (ck, m) w" by blast
  show "\<exists>m. sees view inv (\<lambda>t'. ledger bd bq t' \<and> swept now (sum_list ns) t t') (ck, m) w"
  proof (rule exI [of _ m], rule sees_mono [OF w], elim conjE exE, intro conjI, assumption)
    fix t' dn
    assume dn: "length dn = sum_list ns" "distinct dn" "set dn \<subseteq> set ids" "expire_chain dn t t'"
    have "length dn \<le> length ids" using dn(2,3) dist by (metis card_mono distinct_card finite_set)
    with dn len due show "swept now (sum_list ns) t t'"
      unfolding swept_def by (intro exI [of _ dn]) auto
  qed
qed

theorem ExpireDue_service:
  assumes l: "ledger bd bq t"
  shows "hoare (sees view inv ((=) t) (ck, n)) (ExpireDue S)
     (\<lambda>x w. \<exists>j. sees view inv (\<lambda>t'. ledger bd bq t' \<and> swept (ck n) x t t') j w)
     (\<lambda>_ w. \<exists>j. sees view inv ((=) t) j w)"
proof -
  let ?see = "sees view inv ((=) t) (ck, n)"
  let ?post = "\<lambda>x w. \<exists>j. sees view inv (\<lambda>t'. ledger bd bq t' \<and> swept (ck n) x t t') j w"
  let ?err = "\<lambda>(_ :: go_error) w. \<exists>j. sees view inv ((=) t) j w"
  have lock: "hoare ?see (onRepo (al_TryLock (sv_lock S) key)) (\<lambda>_. ?see) (\<lambda>_. ?see)" for key
    by (rule hoare_onRepo) (use try_lock in auto)
  have unlock: "hoare (sees view inv V j) (onRepo (al_Unlock (sv_lock S) key)) (\<lambda>_. sees view inv V j) (\<lambda>_. sees view inv V j)" for V j key
    by (rule hoare_onRepo) (use unlock in auto)
  have none: "?post 0 w" if "?see w" for w
    by (rule exI [of _ "(ck, n)"], rule sees_mono [OF that]) (use l in \<open>auto simp: swept_def\<close>)
  have body: "hoare ?see (expire_body S) ?post ?err"
    unfolding expire_body_def
  proof (rule hoare_seq [OF hoare_count], rule hoare_bind [OF hoare_Now], rule hoare_bind [OF ListExpired_rule])
    fix u now ids
    assume now: "now = ck n" and ids: "length ids \<le> expireBatchSize \<and>
       mset ids \<subseteq># mset (map cr_ID (filter (is_due now) (t_requests t))) \<and>
        (length ids < expireBatchSize \<longrightarrow> mset ids = mset (map cr_ID (filter (is_due now) (t_requests t))))"
    have "distinct (map cr_ID (filter (is_due now) (t_requests t)))"
      using l by (simp add: ledger_def book_def requests_distinct_def distinct_map_filter)
    with ids have dist: "distinct ids" using distinct_submset by blast
    have due: "\<forall>i \<in> set ids. due now i t"
    proof
      fix i assume "i \<in> set ids"
      then have "i \<in> set (map cr_ID (filter (is_due now) (t_requests t)))"
        using ids by (metis mset_subset_eqD set_mset_mset)
      then show "due now i t" by (auto simp: due_def)
    qed
    have "length ids \<le> expireBatchSize" using ids by simp
    from expire_loop_rule [OF l dist due this]
    show "hoare (sees view inv ((=) t) (ck, Suc n)) (andThen (collect (expire_one S) ids) (\<lambda>ns.
       let n = sum_list ns in andThen (if n > 0 then ignoring (onRedis (cs_InvalidateCapacity (sv_cache S) capacityCacheKey))
              else ret ()) (\<lambda>_. ret n))) ?post ?err"
    proof (rule hoare_andThen)
      fix ns
      show "hoare (\<lambda>w. \<exists>m. sees view inv (\<lambda>t'. ledger bd bq t' \<and> swept now (sum_list ns) t t') (ck, m) w)
       (let n = sum_list ns in andThen (if n > 0 then ignoring (onRedis (cs_InvalidateCapacity (sv_cache S) capacityCacheKey))
              else ret ()) (\<lambda>_. ret n)) ?post ?err"
        unfolding Let_def hoare_ex_pre
      proof (rule allI, rule hoare_andThen)
        fix m
        let ?V = "\<lambda>t'. ledger bd bq t' \<and> swept now (sum_list ns) t t'"
        show "hoare (sees view inv ?V (ck, m)) (if 0 < sum_list ns then ignoring (onRedis (cs_InvalidateCapacity (sv_cache S) capacityCacheKey))
              else ret ()) (\<lambda>_. sees view inv ?V (ck, m)) ?err"
          by (intro hoare_if hoare_ignore_redis hoare_ret)
        show "hoare (sees view inv ?V (ck, m)) (ret (sum_list ns)) ?post ?err"
          by (rule hoare_ret) (use now in blast)
      qed
    qed
  qed (blast | simp)+
  show ?thesis
    unfolding ExpireDue_def
  proof (rule hoare_seq [OF lock], intro hoare_if)
    show "hoare ?see (andThen (count SweeperRuns [''false'']) (\<lambda>_. ret 0)) ?post ?err"
      by (rule hoare_andThen [OF hoare_count], rule hoare_ret, rule none)
    show "hoare ?see (deferring (onRepo (al_Unlock (sv_lock S) sweeperLockKey)) (expire_body S)) ?post ?err"
      by (rule hoare_deferring [OF body]; unfold hoare_ex_pre; intro allI; rule hoare_conseq [OF unlock]; blast)
  qed blast
qed

end

end
