(* ===== verification/Pg_Database.thy ===== *)
theory Pg_Database
  imports Port_Interfaces
begin

text \<open>
  The Postgres side, statement by statement (\<^verbatim>\<open>internal/repository/postgres\<close>,
  \<^verbatim>\<open>migrations/*.up.sql\<close>). The state is what one session sees: the tables with the
  rows in insertion order, the server's clock and id generator, the advisory locks, and the
  statements that are going to fail. A transaction is the stretch between begin and commit; its
  statements see their own writes (\<^verbatim>\<open>DB.Q\<close> hands them the transaction), and a rollback
  restores the tables of its begin.

  A statement either fails, by the fault the environment scheduled for it (a lost connection, the
  statement timeout) or by a constraint of the schema, and then changes nothing, or has the effect
  its SQL text describes: SELECT filters, UPDATE rewrites the rows of its WHERE clause, INSERT
  appends a row. After an error inside a transaction the code issues no further statement, so the
  server's aborted-transaction state is not modelled. Text columns are byte strings, ordered
  bytewise; identifiers that an error text embeds are left out of it.
\<close>

record pg_state =
  pg_tables :: tables
  pg_now :: time
  pg_gen :: "nat \<Rightarrow> uuid"
  pg_drawn :: nat
  pg_faults :: "go_error option list"
  pg_advisory :: "(int \<times> nat) list"
  pg_next_session :: nat
  lk_conn :: "nat option"
  lk_key :: int

subsection \<open>Statements\<close>

definition sql :: "(pg_state \<Rightarrow> go_error + 'a \<times> pg_state) \<Rightarrow> (pg_state, 'a) gor" where
  "sql stmt s =
     (let s1 = s\<lparr>pg_faults := tl (pg_faults s)\<rparr> in
      case pg_faults s of
        Some e # _ \<Rightarrow> (Inl e, s1)
      | _ \<Rightarrow> (case stmt s1 of Inl e \<Rightarrow> (Inl e, s1) | Inr (a, s2) \<Rightarrow> (Inr a, s2)))"

definition sql_select :: "(tables \<Rightarrow> 'a) \<Rightarrow> (pg_state, 'a) gor" where
  "sql_select f = sql (\<lambda>s. Inr (f (pg_tables s), s))"

text \<open>A statement that writes: \<open>Inl\<close> when a constraint of the schema is violated.\<close>

definition sql_exec :: "(time \<Rightarrow> tables \<Rightarrow> go_error + 'a \<times> tables) \<Rightarrow> (pg_state, 'a) gor" where
  "sql_exec f = sql (\<lambda>s. case f (pg_now s) (pg_tables s) of
      Inl e \<Rightarrow> Inl e | Inr (a, t) \<Rightarrow> Inr (a, s\<lparr>pg_tables := t\<rparr>))"

text \<open>
  UPDATE: the rows affected and the new rows; \<open>chk\<close> is the error a new row raises, if any.
\<close>

definition update_rows ::
    "('row \<Rightarrow> bool) \<Rightarrow> ('row \<Rightarrow> 'row) \<Rightarrow> ('row \<Rightarrow> go_error option) \<Rightarrow> 'row list \<Rightarrow> go_error + nat \<times> 'row list" where
  "update_rows w f chk rows =
     (case find (\<lambda>x. w x \<and> chk (f x) \<noteq> None) rows of
        Some x \<Rightarrow> Inl (the (chk (f x)))
      | None \<Rightarrow> Inr (length (filter w rows), mapWhere w f rows))"

definition unique_violation :: go_error where
  "unique_violation = PgError ''23505'' ''duplicate key value violates unique constraint''"

definition fk_violation :: go_error where
  "fk_violation = PgError ''23503'' ''violates foreign key constraint''"

definition check_violation :: go_error where
  "check_violation = PgError ''23514'' ''violates check constraint''"

definition out_of_range :: go_error where
  "out_of_range = PgError ''22003'' ''value out of range''"

fun is_pg_code :: "string \<Rightarrow> go_error \<Rightarrow> bool" where
  "is_pg_code c (PgError d m) = (c = d)"
| "is_pg_code c _ = False"

definition IsUniqueViolation :: "go_error \<Rightarrow> bool" where
  "IsUniqueViolation e = list_ex (is_pg_code ''23505'') (chain e)"

definition in_int4 :: "int \<Rightarrow> bool" where
  "in_int4 x \<longleftrightarrow> - (2 ^ 31) \<le> x \<and> x < 2 ^ 31"

subsection \<open>Transactions and the advisory lock (db.go, locker.go)\<close>

text \<open>
  \<open>BEGIN\<close> and \<open>COMMIT\<close> are round trips that can fail. A failed commit leaves the tables as
  they were until the deferred rollback restores them.
\<close>

definition pg_begin :: "(pg_state, pg_state) gor" where
  "pg_begin = mapErr (Errorf ''begin tx'') (sql (\<lambda>s. Inr (s, s)))"

definition pg_commit :: "(pg_state, unit) gor" where
  "pg_commit = mapErr (Errorf ''commit tx'') (sql (\<lambda>s. Inr ((), s)))"

definition pg_rollback :: "pg_state \<Rightarrow> pg_state \<Rightarrow> pg_state" where
  "pg_rollback h s = s\<lparr>pg_tables := pg_tables h\<rparr>"

definition pg_tx :: "pg_state tx_runner" where
  "pg_tx = \<lparr>tx_Begin = pg_begin, tx_Commit = pg_commit, tx_Rollback = pg_rollback\<rparr>"

definition pg_ping :: "(pg_state, unit) gor" where
  "pg_ping = sql (\<lambda>s. Inr ((), s))"

text \<open>
  \<^verbatim>\<open>pg_try_advisory_lock\<close>: granted unless another session holds the key.
\<close>

definition lock_free :: "int \<Rightarrow> nat \<Rightarrow> (int \<times> nat) list \<Rightarrow> bool" where
  "lock_free k me held \<longleftrightarrow> \<not> list_ex (\<lambda>(k', o'). k' = k \<and> o' \<noteq> me) held"

definition pg_TryLock :: "int \<Rightarrow> (pg_state, bool) gor" where
  "pg_TryLock key = (\<lambda>s.
     if lk_conn s \<noteq> None then ret False s
     else andThen (mapErr (Errorf ''acquire conn for advisory lock'')
                     (sql (\<lambda>s. Inr (pg_next_session s, s\<lparr>pg_next_session := Suc (pg_next_session s)\<rparr>))))
       (\<lambda>conn. andThen (mapErr (Errorf ''try advisory lock'')
                     (sql (\<lambda>s. if lock_free key conn (pg_advisory s)
                               then Inr (True, s\<lparr>pg_advisory := (key, conn) # pg_advisory s\<rparr>)
                               else Inr (False, s))))
       (\<lambda>ok. if \<not> ok then ret False
             else andThen (updating (\<lambda>s. s\<lparr>lk_conn := Some conn, lk_key := key\<rparr>)) (\<lambda>_. ret True))) s)"

text \<open>
  The connection is given back and forgotten whether or not the unlock statement succeeds.
\<close>

definition pg_Unlock :: "int \<Rightarrow> (pg_state, unit) gor" where
  "pg_Unlock key = (\<lambda>s.
     case lk_conn s of
       None \<Rightarrow> ret () s
     | Some conn \<Rightarrow>
         andThen (attempt (sql (\<lambda>s. Inr ((), s\<lparr>pg_advisory := remove1 (key, conn) (pg_advisory s)\<rparr>))))
           (\<lambda>r. andThen (updating (\<lambda>s. s\<lparr>lk_conn := None, lk_key := 0\<rparr>))
           (\<lambda>_. case r of Inl e \<Rightarrow> fail e | Inr _ \<Rightarrow> ret ())) s)"

definition pg_locker :: "pg_state advisory_locker" where
  "pg_locker = \<lparr>al_TryLock = pg_TryLock, al_Unlock = pg_Unlock\<rparr>"

subsection \<open>Pools (pools.go)\<close>

text \<open>
  The WHERE clause of the reserve statement is evaluated in double precision, because
  \<^verbatim>\<open>total * oversubscribe_factor\<close> is.
\<close>

definition reserve_guard :: "uuid \<Rightarrow> int \<Rightarrow> resource_pool \<Rightarrow> bool" where
  "reserve_guard i n p \<longleftrightarrow> rp_ID p = i \<and>
     f64_le (f64_of_int n)
       (f64_sub (f64_sub (f64_floor_f (f64_mul (f64_of_int (rp_Total p)) (rp_OversubscribeFactor p)))
                         (f64_of_int (rp_DedicatedAmount p)))
                (f64_of_int (rp_ReservedAmount p)))"

definition check_pool :: "resource_pool \<Rightarrow> go_error option" where
  "check_pool p =
     (if \<not> in_i64 (rp_ReservedAmount p) \<or> \<not> in_i64 (rp_DedicatedAmount p) then Some out_of_range
      else if rp_ReservedAmount p < 0 \<or> rp_DedicatedAmount p < 0 then Some check_violation
      else None)"

definition update_pools ::
    "(resource_pool \<Rightarrow> bool) \<Rightarrow> (time \<Rightarrow> resource_pool \<Rightarrow> resource_pool) \<Rightarrow> (pg_state, nat) gor" where
  "update_pools w f = sql_exec (\<lambda>now t.
     case update_rows w (f now) check_pool (t_pools t) of
       Inl e \<Rightarrow> Inl e | Inr (n, ps) \<Rightarrow> Inr (n, t\<lparr>t_pools := ps\<rparr>))"

definition PoolRepo_List :: "(pg_state, resource_pool list) gor" where
  "PoolRepo_List = mapErr (Errorf ''list pools'') (sql_select (\<lambda>t. sort_key rp_Kind (t_pools t)))"

definition PoolRepo_GetByKind :: "string \<Rightarrow> (pg_state, resource_pool option) gor" where
  "PoolRepo_GetByKind kind =
     mapErr (Errorf ''get pool'') (sql_select (\<lambda>t. find (\<lambda>p. rp_Kind p = kind) (t_pools t)))"

definition PoolRepo_TryReserve :: "uuid \<Rightarrow> int \<Rightarrow> (pg_state, bool) gor" where
  "PoolRepo_TryReserve poolID amount =
     andThen (mapErr (Errorf ''try reserve pool'')
       (update_pools (reserve_guard poolID amount)
          (\<lambda>now p. p\<lparr>rp_ReservedAmount := rp_ReservedAmount p + amount, rp_UpdatedAt := now\<rparr>)))
     (\<lambda>n. ret (n = 1))"

definition PoolRepo_ReleaseReserved :: "uuid \<Rightarrow> int \<Rightarrow> (pg_state, unit) gor" where
  "PoolRepo_ReleaseReserved poolID amount =
     andThen (mapErr (Errorf ''release reserved pool'')
       (update_pools (\<lambda>p. rp_ID p = poolID \<and> amount \<le> rp_ReservedAmount p)
          (\<lambda>now p. p\<lparr>rp_ReservedAmount := rp_ReservedAmount p - amount, rp_UpdatedAt := now\<rparr>)))
     (\<lambda>_. ret ())"

definition PoolRepo_MoveReservedToDedicated :: "uuid \<Rightarrow> int \<Rightarrow> (pg_state, unit) gor" where
  "PoolRepo_MoveReservedToDedicated poolID amount =
     andThen (mapErr (Errorf ''move reserved to dedicated pool'')
       (update_pools (\<lambda>p. rp_ID p = poolID \<and> amount \<le> rp_ReservedAmount p)
          (\<lambda>now p. p\<lparr>rp_ReservedAmount := rp_ReservedAmount p - amount,
                    rp_DedicatedAmount := rp_DedicatedAmount p + amount, rp_UpdatedAt := now\<rparr>)))
     (\<lambda>_. ret ())"

definition pg_pools :: "pg_state pool_repository" where
  "pg_pools = \<lparr>pr_List = PoolRepo_List, pr_GetByKind = PoolRepo_GetByKind,
     pr_TryReserve = PoolRepo_TryReserve, pr_ReleaseReserved = PoolRepo_ReleaseReserved,
     pr_MoveReservedToDedicated = PoolRepo_MoveReservedToDedicated\<rparr>"

subsection \<open>Products (products.go)\<close>

definition ProductRepo_List :: "(pg_state, product list) gor" where
  "ProductRepo_List = mapErr (Errorf ''list products'') (sql_select (\<lambda>t. sort_key pd_Code (t_products t)))"

definition ProductRepo_GetByCode :: "string \<Rightarrow> (pg_state, product option) gor" where
  "ProductRepo_GetByCode code =
     mapErr (Errorf ''get product'') (sql_select (\<lambda>t. find (\<lambda>p. pd_Code p = code) (t_products t)))"

definition pg_products :: "pg_state product_repository" where
  "pg_products = \<lparr>pd_List = ProductRepo_List, pd_GetByCode = ProductRepo_GetByCode\<rparr>"

subsection \<open>Quotas (quotas.go)\<close>

definition check_quota :: "customer_quota \<Rightarrow> go_error option" where
  "check_quota q =
     (if \<not> in_i64 (cq_UsedAmount q) \<or> \<not> in_i64 (cq_Limit q) then Some out_of_range
      else if cq_Limit q < 0 \<or> cq_UsedAmount q < 0 \<or> cq_Limit q < cq_UsedAmount q
      then Some check_violation else None)"

definition update_quotas ::
    "(customer_quota \<Rightarrow> bool) \<Rightarrow> (time \<Rightarrow> customer_quota \<Rightarrow> customer_quota) \<Rightarrow> (pg_state, nat) gor" where
  "update_quotas w f = sql_exec (\<lambda>now t.
     case update_rows w (f now) check_quota (t_quotas t) of
       Inl e \<Rightarrow> Inl e | Inr (n, qs) \<Rightarrow> Inr (n, t\<lparr>t_quotas := qs\<rparr>))"

definition QuotaRepo_Get :: "string \<Rightarrow> string \<Rightarrow> (pg_state, customer_quota option) gor" where
  "QuotaRepo_Get c k =
     mapErr (Errorf ''get quota'') (sql_select (\<lambda>t. find (\<lambda>q. quota_key q = (c, k)) (t_quotas t)))"

definition QuotaRepo_ListByCustomer :: "string \<Rightarrow> (pg_state, customer_quota list) gor" where
  "QuotaRepo_ListByCustomer c =
     mapErr (Errorf ''list quotas'')
       (sql_select (\<lambda>t. sort_key cq_ResourceKind (filter (\<lambda>q. cq_CustomerID q = c) (t_quotas t))))"

definition QuotaRepo_TryConsume :: "string \<Rightarrow> string \<Rightarrow> int \<Rightarrow> (pg_state, bool) gor" where
  "QuotaRepo_TryConsume c k amount =
     andThen (mapErr (Errorf ''try consume quota'')
       (update_quotas (\<lambda>q. quota_key q = (c, k) \<and> amount \<le> cq_Limit q - cq_UsedAmount q)
          (\<lambda>now q. q\<lparr>cq_UsedAmount := cq_UsedAmount q + amount, cq_UpdatedAt := now\<rparr>)))
     (\<lambda>n. ret (n = 1))"

text \<open>\<^verbatim>\<open>INSERT ... ON CONFLICT (customer_id, resource_kind) DO NOTHING\<close>\<close>

definition insert_quota :: "string \<Rightarrow> string \<Rightarrow> int \<Rightarrow> (pg_state, unit) gor" where
  "insert_quota c k limit = sql (\<lambda>s.
     let t = pg_tables s;
         q = \<lparr>cq_ID = pg_gen s (pg_drawn s), cq_CustomerID = c, cq_ResourceKind = k,
              cq_Limit = limit, cq_UsedAmount = 0, cq_CreatedAt = pg_now s, cq_UpdatedAt = pg_now s\<rparr>
     in case check_quota q of
          Some e \<Rightarrow> Inl e
        | None \<Rightarrow>
            if list_ex (\<lambda>q. quota_key q = (c, k)) (t_quotas t)
            then Inr ((), s\<lparr>pg_drawn := Suc (pg_drawn s)\<rparr>)
            else Inr ((), s\<lparr>pg_drawn := Suc (pg_drawn s),
                            pg_tables := t\<lparr>t_quotas := t_quotas t @ [q]\<rparr>\<rparr>))"

definition QuotaRepo_EnsureAndTryConsume :: "string \<Rightarrow> string \<Rightarrow> int \<Rightarrow> int \<Rightarrow> (pg_state, bool) gor" where
  "QuotaRepo_EnsureAndTryConsume c k amount defaultLimit =
     andThen (mapErr (Errorf ''ensure quota'') (insert_quota c k defaultLimit))
       (\<lambda>_. QuotaRepo_TryConsume c k amount)"

definition QuotaRepo_Release :: "string \<Rightarrow> string \<Rightarrow> int \<Rightarrow> (pg_state, unit) gor" where
  "QuotaRepo_Release c k amount =
     andThen (mapErr (Errorf ''release quota'')
       (update_quotas (\<lambda>q. quota_key q = (c, k))
          (\<lambda>now q. q\<lparr>cq_UsedAmount := max (cq_UsedAmount q - amount) 0, cq_UpdatedAt := now\<rparr>)))
     (\<lambda>_. ret ())"

definition pg_quotas :: "pg_state quota_repository" where
  "pg_quotas = \<lparr>qr_Get = QuotaRepo_Get, qr_ListByCustomer = QuotaRepo_ListByCustomer,
     qr_TryConsume = QuotaRepo_TryConsume, qr_Release = QuotaRepo_Release,
     qr_EnsureAndTryConsume = QuotaRepo_EnsureAndTryConsume\<rparr>"

subsection \<open>Requests (requests.go)\<close>

definition RequestRepo_FindByIdempotency :: "string \<Rightarrow> string \<Rightarrow> (pg_state, capacity_request option) gor" where
  "RequestRepo_FindByIdempotency c k =
     mapErr (Errorf ''find by idempotency'') (sql_select (find_idem c k))"

definition RequestRepo_Get :: "uuid \<Rightarrow> (pg_state, capacity_request option) gor" where
  "RequestRepo_Get i = mapErr (Errorf ''get request'') (sql_select (find_request i))"

definition RequestRepo_ListByCustomer :: "string \<Rightarrow> string option \<Rightarrow> (pg_state, capacity_request list) gor" where
  "RequestRepo_ListByCustomer c st =
     mapErr (Errorf ''list requests'') (sql_select (\<lambda>t. sort_key (\<lambda>r. - cr_CreatedAt r)
       (case st of
          Some x \<Rightarrow> filter (\<lambda>r. cr_CustomerID r = c \<and> status_string (cr_Status r) = x) (t_requests t)
        | None \<Rightarrow> filter (\<lambda>r. cr_CustomerID r = c) (t_requests t))))"

text \<open>
  INSERT into \<^verbatim>\<open>capacity_requests\<close>: the columns are INT for the quantity and the extension
  count, the quantity is positive, the primary key and \<^verbatim>\<open>(customer_id, idempotency_key)\<close>
  are unique, the product exists.
\<close>

definition insert_request :: "capacity_request \<Rightarrow> tables \<Rightarrow> go_error + unit \<times> tables" where
  "insert_request r t =
     (if \<not> in_int4 (cr_Quantity r) \<or> \<not> in_int4 (cr_ExtensionCount r) then Inl out_of_range
      else if cr_Quantity r \<le> 0 \<or> cr_ExtensionCount r < 0 then Inl check_violation
      else if list_ex (\<lambda>x. cr_ID x = cr_ID r) (t_requests t) then Inl unique_violation
      else if find_idem (cr_CustomerID r) (cr_IdempotencyKey r) t \<noteq> None then Inl unique_violation
      else if (case cr_ProductID r of None \<Rightarrow> False | Some p \<Rightarrow> \<not> list_ex (\<lambda>d. pd_ID d = p) (t_products t))
      then Inl fk_violation
      else Inr ((), t\<lparr>t_requests := t_requests t @ [r]\<rparr>))"

definition refers :: "uuid \<Rightarrow> uuid \<Rightarrow> tables \<Rightarrow> bool" where
  "refers req pool t \<longleftrightarrow>
     list_ex (\<lambda>r. cr_ID r = req) (t_requests t) \<and> list_ex (\<lambda>p. rp_ID p = pool) (t_pools t)"

definition insert_line :: "request_line \<Rightarrow> tables \<Rightarrow> go_error + unit \<times> tables" where
  "insert_line l t =
     (if \<not> in_i64 (ln_Amount l) then Inl out_of_range
      else if ln_Amount l \<le> 0 then Inl check_violation
      else if list_ex (\<lambda>x. ln_ID x = ln_ID l) (t_lines t) then Inl unique_violation
      else if \<not> refers (ln_RequestID l) (ln_PoolID l) t then Inl fk_violation
      else Inr ((), t\<lparr>t_lines := t_lines t @ [l]\<rparr>))"

definition insert_hold :: "hold \<Rightarrow> tables \<Rightarrow> go_error + unit \<times> tables" where
  "insert_hold h t =
     (if \<not> in_i64 (hd_Amount h) then Inl out_of_range
      else if hd_Amount h \<le> 0 then Inl check_violation
      else if list_ex (\<lambda>x. hd_ID x = hd_ID h) (t_holds t) then Inl unique_violation
      else if \<not> refers (hd_RequestID h) (hd_PoolID h) t then Inl fk_violation
      else Inr ((), t\<lparr>t_holds := t_holds t @ [h]\<rparr>))"

definition insert_dedication :: "dedication \<Rightarrow> tables \<Rightarrow> go_error + unit \<times> tables" where
  "insert_dedication d t =
     (if \<not> in_i64 (dd_Amount d) then Inl out_of_range
      else if dd_Amount d \<le> 0 then Inl check_violation
      else if list_ex (\<lambda>x. dd_ID x = dd_ID d) (t_dedications t) then Inl unique_violation
      else if \<not> refers (dd_RequestID d) (dd_PoolID d) t \<or> \<not> list_ex (\<lambda>h. hd_ID h = dd_HoldID d) (t_holds t)
      then Inl fk_violation
      else Inr ((), t\<lparr>t_dedications := t_dedications t @ [d]\<rparr>))"

definition insert_event_row :: "request_event \<Rightarrow> tables \<Rightarrow> go_error + unit \<times> tables" where
  "insert_event_row e t =
     (if list_ex (\<lambda>x. ev_ID x = ev_ID e) (t_events t) then Inl unique_violation
      else if \<not> list_ex (\<lambda>r. cr_ID r = ev_RequestID e) (t_requests t) then Inl fk_violation
      else Inr ((), t\<lparr>t_events := t_events t @ [e]\<rparr>))"

definition insertLines :: "request_line list \<Rightarrow> (pg_state, unit) gor" where
  "insertLines ls = forEach (\<lambda>l. mapErr (Errorf ''insert line'') (sql_exec (\<lambda>_. insert_line l))) ls"

definition insertEvent :: "request_event \<Rightarrow> (pg_state, unit) gor" where
  "insertEvent ev = mapErr (Errorf ''insert event'') (sql_exec (\<lambda>_. insert_event_row ev))"

text \<open>A unique violation is reported as \<^verbatim>\<open>domain.ErrDuplicateRequest\<close>.\<close>

definition duplicate_or :: "string \<Rightarrow> go_error \<Rightarrow> go_error" where
  "duplicate_or m e = (if IsUniqueViolation e then Errorf m ErrDuplicateRequest else Errorf m e)"

definition RequestRepo_CreateReserved ::
    "capacity_request \<Rightarrow> request_line list \<Rightarrow> hold list \<Rightarrow> request_event \<Rightarrow> (pg_state, unit) gor" where
  "RequestRepo_CreateReserved req ls hs ev =
     andThen (mapErr (duplicate_or ''insert reserved request'')
                (sql_exec (\<lambda>_. insert_request (req\<lparr>cr_RejectReason := None\<rparr>))))
     (\<lambda>_. andThen (insertLines ls)
     (\<lambda>_. andThen (forEach (\<lambda>h. mapErr (Errorf ''insert hold'') (sql_exec (\<lambda>_. insert_hold h))) hs)
     (\<lambda>_. insertEvent ev)))"

definition RequestRepo_CreateRejected ::
    "capacity_request \<Rightarrow> request_line list \<Rightarrow> request_event \<Rightarrow> (pg_state, unit) gor" where
  "RequestRepo_CreateRejected req ls ev =
     andThen (mapErr (duplicate_or ''insert rejected request'')
                (sql_exec (\<lambda>_. insert_request (req\<lparr>cr_ExpiresAt := None\<rparr>))))
     (\<lambda>_. andThen (insertLines ls) (\<lambda>_. insertEvent ev))"

definition update_requests ::
    "uuid \<Rightarrow> (time \<Rightarrow> capacity_request \<Rightarrow> capacity_request) \<Rightarrow> (pg_state, nat) gor" where
  "update_requests i f = sql_exec (\<lambda>now t.
     case update_rows (\<lambda>r. cr_ID r = i \<and> cr_Status r = StatusReserved) (f now)
            (\<lambda>r. if \<not> in_int4 (cr_ExtensionCount r) then Some out_of_range
                 else if cr_ExtensionCount r < 0 then Some check_violation else None)
            (t_requests t) of
       Inl e \<Rightarrow> Inl e | Inr (n, rs) \<Rightarrow> Inr (n, t\<lparr>t_requests := rs\<rparr>))"

definition RequestRepo_Confirm :: "uuid \<Rightarrow> dedication list \<Rightarrow> request_event \<Rightarrow> (pg_state, bool) gor" where
  "RequestRepo_Confirm i ds ev =
     andThen (mapErr (Errorf ''confirm request'')
       (update_requests i (\<lambda>now r. r\<lparr>cr_Status := StatusCompleted, cr_UpdatedAt := now\<rparr>)))
     (\<lambda>n. if n = 0 then ret False
          else andThen (forEach (\<lambda>d. mapErr (Errorf ''insert dedication'') (sql_exec (\<lambda>_. insert_dedication d))) ds)
               (\<lambda>_. andThen (insertEvent ev) (\<lambda>_. ret True)))"

definition RequestRepo_markTerminal :: "uuid \<Rightarrow> request_status \<Rightarrow> request_event \<Rightarrow> (pg_state, bool) gor" where
  "RequestRepo_markTerminal i st ev =
     andThen (mapErr (Errorf (''mark '' @ status_string st))
       (update_requests i (\<lambda>now r. r\<lparr>cr_Status := st, cr_UpdatedAt := now\<rparr>)))
     (\<lambda>n. if n = 0 then ret False else andThen (insertEvent ev) (\<lambda>_. ret True))"

definition RequestRepo_MarkCancelled :: "uuid \<Rightarrow> request_event \<Rightarrow> (pg_state, bool) gor" where
  "RequestRepo_MarkCancelled i ev = RequestRepo_markTerminal i StatusCancelled ev"

definition RequestRepo_MarkExpired :: "uuid \<Rightarrow> request_event \<Rightarrow> (pg_state, bool) gor" where
  "RequestRepo_MarkExpired i ev = RequestRepo_markTerminal i StatusExpired ev"

definition RequestRepo_Extend :: "uuid \<Rightarrow> time \<Rightarrow> int \<Rightarrow> request_event \<Rightarrow> (pg_state, bool) gor" where
  "RequestRepo_Extend i expiresAt extensionCount ev =
     andThen (mapErr (Errorf ''extend request'')
       (update_requests i (\<lambda>now r. r\<lparr>cr_ExpiresAt := Some expiresAt, cr_ExtensionCount := extensionCount,
                                     cr_UpdatedAt := now\<rparr>)))
     (\<lambda>n. if n = 0 then ret False else andThen (insertEvent ev) (\<lambda>_. ret True))"

definition expiry_key :: "capacity_request \<Rightarrow> time" where
  "expiry_key r = (case cr_ExpiresAt r of None \<Rightarrow> 0 | Some e \<Rightarrow> e)"

definition RequestRepo_ListExpiredIDs :: "time \<Rightarrow> nat \<Rightarrow> (pg_state, uuid list) gor" where
  "RequestRepo_ListExpiredIDs before limit =
     mapErr (Errorf ''list expired'') (sql_select (\<lambda>t.
       map cr_ID (take limit (sort_key expiry_key (filter (is_due before) (t_requests t))))))"

definition RequestRepo_ListEvents :: "uuid \<Rightarrow> (pg_state, request_event list) gor" where
  "RequestRepo_ListEvents i =
     mapErr (Errorf ''list events'') (sql_select (\<lambda>t. sort_key ev_At (events_of i t)))"

definition RequestRepo_ListLines :: "uuid \<Rightarrow> (pg_state, request_line list) gor" where
  "RequestRepo_ListLines i = mapErr (Errorf ''list lines'') (sql_select (lines_of i))"

definition RequestRepo_ListActiveHolds :: "uuid \<Rightarrow> (pg_state, hold list) gor" where
  "RequestRepo_ListActiveHolds i =
     mapErr (Errorf ''list holds'') (sql_select (\<lambda>t. sort_key hd_PoolID (active_holds i t)))"

definition RequestRepo_UpdateHoldStatus :: "uuid \<Rightarrow> hold_status \<Rightarrow> hold_status \<Rightarrow> (pg_state, bool) gor" where
  "RequestRepo_UpdateHoldStatus i src dst =
     andThen (mapErr (Errorf ''update hold status'') (sql_exec (\<lambda>now t.
       case update_rows (\<lambda>h. hd_ID h = i \<and> hd_Status h = src)
              (\<lambda>h. h\<lparr>hd_Status := dst, hd_UpdatedAt := now\<rparr>) (\<lambda>_. None) (t_holds t) of
         Inl e \<Rightarrow> Inl e | Inr (n, hs) \<Rightarrow> Inr (n, t\<lparr>t_holds := hs\<rparr>))))
     (\<lambda>n. ret (n = 1))"

definition RequestRepo_CountActiveHoldsByCustomer :: "string \<Rightarrow> (pg_state, int) gor" where
  "RequestRepo_CountActiveHoldsByCustomer c =
     mapErr (Errorf ''count active holds by customer'') (sql_select (\<lambda>t.
       int (length (remdups (map fst (filter
         (\<lambda>(i, h). hd_Status h = HoldActive)
         (concat (map (\<lambda>r. map (\<lambda>h. (cr_ID r, h)) (filter (\<lambda>h. hd_RequestID h = cr_ID r) (t_holds t)))
           (filter (\<lambda>r. cr_CustomerID r = c \<and> cr_Status r = StatusReserved) (t_requests t))))))))))"

definition pg_requests :: "pg_state request_repository" where
  "pg_requests = \<lparr>
     rr_FindByIdempotency = RequestRepo_FindByIdempotency, rr_Get = RequestRepo_Get,
     rr_ListByCustomer = RequestRepo_ListByCustomer, rr_CreateReserved = RequestRepo_CreateReserved,
     rr_CreateRejected = RequestRepo_CreateRejected, rr_Confirm = RequestRepo_Confirm,
     rr_MarkCancelled = RequestRepo_MarkCancelled, rr_MarkExpired = RequestRepo_MarkExpired,
     rr_Extend = RequestRepo_Extend, rr_ListExpiredIDs = RequestRepo_ListExpiredIDs,
     rr_ListEvents = RequestRepo_ListEvents, rr_ListLines = RequestRepo_ListLines,
     rr_ListActiveHolds = RequestRepo_ListActiveHolds,
     rr_UpdateHoldStatus = RequestRepo_UpdateHoldStatus,
     rr_CountActiveHoldsByCustomer = RequestRepo_CountActiveHoldsByCustomer\<rparr>"

end
