(* ===== verification/Pg_Laws.thy ===== *)
theory Pg_Laws
  imports Pg_Database
begin

text \<open>
  The Postgres repositories keep the promises of the interfaces: the representation invariant is
  what the primary keys and unique constraints of the schema guarantee, the abstract store is the
  tables without the columns the server stamps.
\<close>

subsection \<open>Runs of statements\<close>

text \<open>A statement consumes one entry of the fault schedule, then fails or runs.\<close>

lemma sql_cases:
  assumes "sql f s = (r, s')"
  obtains (fails) e where "r = Inl e" and "s' = s\<lparr>pg_faults := tl (pg_faults s)\<rparr>"
        | (runs) a where "r = Inr a" and "f (s\<lparr>pg_faults := tl (pg_faults s)\<rparr>) = Inr (a, s')"
  using assms
  by (auto simp: sql_def Let_def split: list.splits option.splits sum.splits)

lemma sql_select_cases:
  assumes "sql_select f s = (r, s')"
  shows "pg_tables s' = pg_tables s \<and> (\<forall>a. r = Inr a \<longrightarrow> a = f (pg_tables s))"
  using assms
  by (auto simp: sql_select_def sql_def Let_def split: list.splits option.splits)

lemma mapErr_select_cases:
  assumes "mapErr g (sql_select f) s = (r, s')"
  shows "pg_tables s' = pg_tables s \<and> (\<forall>a. r = Inr a \<longrightarrow> a = f (pg_tables s))"
  using assms sql_select_cases [of f s]
  by (auto simp: mapErr_def split: prod.splits sum.splits)

lemma sql_exec_cases:
  assumes "sql_exec f s = (r, s')"
  shows "(\<exists>e. r = Inl e \<and> pg_tables s' = pg_tables s) \<or>
         (\<exists>a t. r = Inr a \<and> f (pg_now s) (pg_tables s) = Inr (a, t) \<and> pg_tables s' = t)"
  using assms
  by (auto simp: sql_exec_def sql_def Let_def split: list.splits option.splits sum.splits prod.splits)

lemma mapErr_exec_cases:
  assumes "mapErr g (sql_exec f) s = (r, s')"
  shows "(\<exists>e. r = Inl e \<and> pg_tables s' = pg_tables s) \<or>
         (\<exists>a t. r = Inr a \<and> f (pg_now s) (pg_tables s) = Inr (a, t) \<and> pg_tables s' = t)"
  using assms sql_exec_cases [of f s]
  by (auto simp: mapErr_def split: prod.splits sum.splits)

lemma update_rows_Inr:
  "update_rows w f chk rows = Inr (n, rs) \<Longrightarrow> n = length (filter w rows) \<and> rs = mapWhere w f rows"
  by (auto simp: update_rows_def split: option.splits)

lemma length_filter_distinct:
  "distinct (map k xs) \<Longrightarrow> length (filter (\<lambda>x. k x = i \<and> p x) xs) = (if list_ex (\<lambda>x. k x = i \<and> p x) xs then 1 else 0)"
proof (induction xs)
  case Nil
  then show ?case by simp
next
  case (Cons x xs)
  show ?case
  proof (cases "k x = i")
    case True
    with Cons.prems have "\<And>y. y \<in> set xs \<Longrightarrow> k y \<noteq> i" by (auto simp: image_iff)
    then have "filter (\<lambda>x. k x = i \<and> p x) xs = []" by (auto simp: filter_empty_conv)
    with True Cons show ?thesis by (auto simp: list_ex_iff filter_empty_conv)
  next
    case False
    with Cons show ?thesis by simp
  qed
qed

subsection \<open>The schema\<close>

definition schema_ok :: "tables \<Rightarrow> bool" where
  "schema_ok t \<longleftrightarrow> distinct (map rp_ID (t_pools t)) \<and> distinct (map rp_Kind (t_pools t)) \<and>
     distinct (map quota_key (t_quotas t)) \<and> distinct (map cr_ID (t_requests t)) \<and>
     distinct (map (\<lambda>r. (cr_CustomerID r, cr_IdempotencyKey r)) (t_requests t)) \<and>
     distinct (map hd_ID (t_holds t))"

definition pg_inv :: "pg_state \<Rightarrow> bool" where
  "pg_inv s \<longleftrightarrow> schema_ok (pg_tables s)"

definition pg_view :: "pg_state \<Rightarrow> tables" where
  "pg_view s = unstamp (pg_tables s)"

lemma pg_inv_cong: "pg_tables s' = pg_tables s \<Longrightarrow> pg_inv s' = pg_inv s"
  by (simp add: pg_inv_def)

lemma pg_view_cong: "pg_tables s' = pg_tables s \<Longrightarrow> pg_view s' = pg_view s"
  by (simp add: pg_view_def)

lemma map_unstamp_keys [simp]:
  "map (rp_ID \<circ> unstamp_pool) ps = map rp_ID ps" "map (rp_Kind \<circ> unstamp_pool) ps = map rp_Kind ps"
  "map (quota_key \<circ> unstamp_quota) qs = map quota_key qs"
  "map (cr_ID \<circ> unstamp_request) rs = map cr_ID rs"
  "map (hd_ID \<circ> unstamp_hold) hs = map hd_ID hs"
  by (simp_all add: comp_def)

lemma list_ex_map_comp: "list_ex p (map f xs) = list_ex (p \<circ> f) xs"
  by (induction xs) auto

subsection \<open>Pools\<close>

lemma pool_ok_unstamp [simp]: "pool_ok (unstamp_pool p) = pool_ok p"
  by (simp add: pool_ok_def)

lemma reserve_guard_iff:
  assumes "pool_ok p" and "0 < n" and "n \<le> maxAmount"
  shows "reserve_guard i n p \<longleftrightarrow> rp_ID p = i \<and> n \<le> effective p - rp_DedicatedAmount p - rp_ReservedAmount p"
proof -
  have "f64_floor_f (f64_mul (f64_of_int (rp_Total p)) (rp_OversubscribeFactor p)) = f64_of_int (effective p)"
    by (simp add: f64_floor_f_def effective_def)
  moreover have "f64_le (f64_of_int n) (f64_sub (f64_sub (f64_of_int (effective p))
        (f64_of_int (rp_DedicatedAmount p))) (f64_of_int (rp_ReservedAmount p)))
      \<longleftrightarrow> n \<le> effective p - rp_DedicatedAmount p - rp_ReservedAmount p"
    using assms by (intro f64_guard_exact) (auto simp: pool_ok_def maxAmount_def)
  ultimately show ?thesis by (simp add: reserve_guard_def)
qed

text \<open>An UPDATE of one pool, seen on the abstract store.\<close>

lemma shift_where:
  assumes "distinct (map rp_ID ps)"
    and "\<And>p. unstamp_pool (f p) = (unstamp_pool p)\<lparr>rp_ReservedAmount := rp_ReservedAmount p + a,
                                          rp_DedicatedAmount := rp_DedicatedAmount p + b\<rparr>"
  shows "map unstamp_pool (mapWhere (\<lambda>p. rp_ID p = i \<and> c p) f ps) =
     (if list_ex (\<lambda>p. rp_ID p = i \<and> c p) ps
      then shift_pools (at i a) (at i b) (map unstamp_pool ps) else map unstamp_pool ps)"
proof (cases "list_ex (\<lambda>p. rp_ID p = i \<and> c p) ps")
  case True
  then obtain p where p: "p \<in> set ps" "rp_ID p = i" "c p" by (auto simp: list_ex_iff)
  have "\<And>q. q \<in> set ps \<Longrightarrow> rp_ID q = i \<Longrightarrow> q = p"
    using distinct_key_inj [OF assms(1) _ p(1)] p(2) by simp
  with p have "mapWhere (\<lambda>p. rp_ID p = i \<and> c p) f ps = mapWhere (\<lambda>p. rp_ID p = i) f ps"
    by (intro mapWhere_cong) blast
  then show ?thesis using True by (simp add: mapWhere_def shift_pools_def assms(2) at_def)
next
  case False
  then show ?thesis by (auto simp: list_ex_iff mapWhere_none)
qed

lemma pools_unstamp_ok:
  "pools_ok (unstamp t) \<longleftrightarrow> distinct (map rp_ID (t_pools t)) \<and> distinct (map rp_Kind (t_pools t)) \<and>
     list_all pool_ok (t_pools t)"
  by (simp add: pools_ok_def list_all_iff)

lemma schema_ok_pools:
  "schema_ok t \<Longrightarrow> map rp_ID ps = map rp_ID (t_pools t) \<Longrightarrow> map rp_Kind ps = map rp_Kind (t_pools t) \<Longrightarrow>
   schema_ok (t\<lparr>t_pools := ps\<rparr>)"
  by (simp add: schema_ok_def)

lemma update_pools_cases:
  assumes "mapErr g (update_pools w f) s = (r, s')"
    and "\<And>now p. rp_ID (f now p) = rp_ID p \<and> rp_Kind (f now p) = rp_Kind p"
    and "pg_inv s"
  shows "pg_inv s' \<and> ((\<exists>e. r = Inl e \<and> pg_tables s' = pg_tables s) \<or>
     (r = Inr (length (filter w (t_pools (pg_tables s)))) \<and>
      pg_tables s' = (pg_tables s)\<lparr>t_pools := mapWhere w (f (pg_now s)) (t_pools (pg_tables s))\<rparr>))"
proof -
  let ?t = "pg_tables s"
  let ?u = "?t\<lparr>t_pools := mapWhere w (f (pg_now s)) (t_pools ?t)\<rparr>"
  have keep: "map rp_ID (mapWhere w (f (pg_now s)) (t_pools ?t)) = map rp_ID (t_pools ?t)"
    "map rp_Kind (mapWhere w (f (pg_now s)) (t_pools ?t)) = map rp_Kind (t_pools ?t)"
    using assms(2) by (simp_all add: map_mapWhere_same)
  have "schema_ok ?u" using assms(3) keep by (intro schema_ok_pools) (simp_all add: pg_inv_def)
  moreover have "(\<exists>e. r = Inl e \<and> pg_tables s' = ?t) \<or>
     (r = Inr (length (filter w (t_pools ?t))) \<and> pg_tables s' = ?u)"
    using mapErr_exec_cases [OF assms(1) [unfolded update_pools_def]]
    by (auto dest!: update_rows_Inr split: sum.splits prod.splits)
  ultimately show ?thesis using assms(3) by (auto simp: pg_inv_def)
qed

text \<open>One conditional UPDATE on a pool by its id, with a guard \<open>c\<close>.\<close>

lemma pool_update_view:
  assumes inv: "pg_inv s" and run: "mapErr g (update_pools w f) s = (r, s')"
    and w: "\<And>p. p \<in> set (t_pools (pg_tables s)) \<Longrightarrow> w p = (rp_ID p = i \<and> c p)"
    and f: "\<And>now p. unstamp_pool (f now p) = (unstamp_pool p)\<lparr>rp_ReservedAmount := rp_ReservedAmount p + a,
                                          rp_DedicatedAmount := rp_DedicatedAmount p + b\<rparr>"
    and c: "hit = list_ex (\<lambda>p. rp_ID p = i \<and> c p) (t_pools (pg_tables s))"
  shows "pg_inv s' \<and> (\<forall>n. r = Inr n \<longrightarrow> n = (if hit then 1 else 0)) \<and>
     pg_view s' = (if isl r \<or> \<not> hit then pg_view s
       else (pg_view s)\<lparr>t_pools := shift_pools (at i a) (at i b) (t_pools (pg_view s))\<rparr>)"
proof -
  let ?ps = "t_pools (pg_tables s)"
  have ids: "distinct (map rp_ID ?ps)" using inv by (simp add: pg_inv_def schema_ok_def)
  have keep: "\<And>now p. rp_ID (f now p) = rp_ID p \<and> rp_Kind (f now p) = rp_Kind p"
  proof -
    fix now p
    have "rp_ID (unstamp_pool (f now p)) = rp_ID p" "rp_Kind (unstamp_pool (f now p)) = rp_Kind p"
      by (simp_all only: f) simp_all
    then show "rp_ID (f now p) = rp_ID p \<and> rp_Kind (f now p) = rp_Kind p" by simp
  qed
  have "length (filter w ?ps) = (if hit then 1 else 0)"
    using length_filter_distinct [OF ids, of i c] filter_cong [OF refl w, of ?ps] c by simp
  moreover have "map unstamp_pool (mapWhere w (f (pg_now s)) ?ps) =
      (if hit then shift_pools (at i a) (at i b) (map unstamp_pool ?ps) else map unstamp_pool ?ps)"
    using shift_where [OF ids, where f = "f (pg_now s)" and a = a and b = b and i = i and c = c]
      f c mapWhere_cong [of ?ps w "\<lambda>p. rp_ID p = i \<and> c p" "f (pg_now s)"] w by simp
  ultimately show ?thesis
    using update_pools_cases [OF run keep inv] by (auto simp: pg_view_def unstamp_def)
qed

lemma pg_TryReserve:
  assumes inv: "pg_inv s" and ok: "pools_ok (pg_view s)" and n: "0 < n" "n \<le> maxAmount"
    and run: "PoolRepo_TryReserve i n s = (r, s')"
  shows "pg_inv s' \<and> (\<forall>b. r = Inr b \<longrightarrow> b = admits i n (pg_view s)) \<and>
       pg_view s' = (if r = Inr True then spec_reserve i n (pg_view s) else pg_view s)"
proof -
  let ?c = "\<lambda>p. n \<le> effective p - rp_DedicatedAmount p - rp_ReservedAmount p"
  have guard: "\<And>p. p \<in> set (t_pools (pg_tables s)) \<Longrightarrow> reserve_guard i n p = (rp_ID p = i \<and> ?c p)"
    using ok n by (intro reserve_guard_iff) (auto simp: pg_view_def pools_unstamp_ok list_all_iff)
  have hit: "admits i n (pg_view s) = list_ex (\<lambda>p. rp_ID p = i \<and> ?c p) (t_pools (pg_tables s))"
    by (auto simp: admits_def pg_view_def list_ex_iff)
  note upd = pool_update_view [OF inv _ guard _ hit, where a = n and b = 0]
  show ?thesis
    using run unfolding PoolRepo_TryReserve_def
  proof (cases rule: andThen_split)
    case (failed e)
    from upd [OF failed(1)] failed(2) show ?thesis by (auto simp: unstamp_pool_def)
  next
    case (went_on m s1)
    from upd [OF went_on(1)] went_on(2) show ?thesis by (auto simp: unstamp_pool_def spec_reserve_def)
  qed
qed

lemma pg_ReleaseReserved:
  assumes inv: "pg_inv s" and run: "PoolRepo_ReleaseReserved i n s = (r, s')"
  shows "pg_inv s' \<and> pg_view s' = (if r = Inr () then spec_release i n (pg_view s) else pg_view s)"
proof -
  have hit: "reserves_at_least i n (pg_view s) =
      list_ex (\<lambda>p. rp_ID p = i \<and> n \<le> rp_ReservedAmount p) (t_pools (pg_tables s))"
    by (auto simp: reserves_at_least_def pg_view_def list_ex_iff)
  note upd = pool_update_view [OF inv _ refl _ hit, where a = "- n" and b = 0]
  show ?thesis
    using run unfolding PoolRepo_ReleaseReserved_def
  proof (cases rule: andThen_split)
    case (failed e)
    from upd [OF failed(1)] failed(2) show ?thesis by (auto simp: unstamp_pool_def)
  next
    case (went_on m s1)
    from upd [OF went_on(1)] went_on(2) show ?thesis by (auto simp: unstamp_pool_def spec_release_def)
  qed
qed

lemma pg_MoveReservedToDedicated:
  assumes inv: "pg_inv s" and run: "PoolRepo_MoveReservedToDedicated i n s = (r, s')"
  shows "pg_inv s' \<and> pg_view s' = (if r = Inr () then spec_dedicate i n (pg_view s) else pg_view s)"
proof -
  have hit: "reserves_at_least i n (pg_view s) =
      list_ex (\<lambda>p. rp_ID p = i \<and> n \<le> rp_ReservedAmount p) (t_pools (pg_tables s))"
    by (auto simp: reserves_at_least_def pg_view_def list_ex_iff)
  note upd = pool_update_view [OF inv _ refl _ hit, where a = "- n" and b = n]
  show ?thesis
    using run unfolding PoolRepo_MoveReservedToDedicated_def
  proof (cases rule: andThen_split)
    case (failed e)
    from upd [OF failed(1)] failed(2) show ?thesis by (auto simp: unstamp_pool_def)
  next
    case (went_on m s1)
    from upd [OF went_on(1)] went_on(2) show ?thesis by (auto simp: unstamp_pool_def spec_dedicate_def)
  qed
qed

lemma pg_GetByKind:
  assumes "pg_inv s" and "PoolRepo_GetByKind k s = (r, s')"
  shows "pg_inv s' \<and> pg_view s' = pg_view s \<and>
      (\<forall>q. r = Inr q \<longrightarrow> map_option unstamp_pool q = find (\<lambda>p. rp_Kind p = k) (t_pools (pg_view s)))"
  using mapErr_select_cases [OF assms(2) [unfolded PoolRepo_GetByKind_def]] assms(1)
  by (auto simp: pg_inv_def pg_view_def find_map_key)

lemma pg_pools_sel:
  "pr_List pg_pools = PoolRepo_List" "pr_GetByKind pg_pools = PoolRepo_GetByKind"
  "pr_TryReserve pg_pools = PoolRepo_TryReserve"
  "pr_ReleaseReserved pg_pools = PoolRepo_ReleaseReserved"
  "pr_MoveReservedToDedicated pg_pools = PoolRepo_MoveReservedToDedicated"
  by (simp_all add: pg_pools_def)

lemma pg_ListPools:
  assumes "pg_inv s" and "PoolRepo_List s = (r, s')"
  shows "pg_inv s' \<and> pg_view s' = pg_view s \<and>
      (\<forall>ps. r = Inr ps \<longrightarrow> mset (map unstamp_pool ps) = mset (t_pools (pg_view s)))"
  using mapErr_select_cases [OF assms(2) [unfolded PoolRepo_List_def]] assms(1)
  by (auto simp: pg_inv_def pg_view_def)

interpretation pg_pool: pool_port pg_pools pg_view pg_inv
proof (unfold_locales, goal_cases)
  case 1
  then show ?case unfolding pg_pools_sel by (rule pg_ListPools)
next
  case 2
  then show ?case unfolding pg_pools_sel by (rule pg_GetByKind)
next
  case 3
  from 3(1-4,6) show ?case unfolding pg_pools_sel by (rule pg_TryReserve)
next
  case 4
  from 4(1,6) show ?case unfolding pg_pools_sel by (rule pg_ReleaseReserved)
next
  case 5
  from 5(1,6) show ?case unfolding pg_pools_sel by (rule pg_MoveReservedToDedicated)
qed

subsection \<open>Quotas\<close>

lemma schema_ok_quotas:
  "schema_ok t \<Longrightarrow> distinct (map quota_key qs) \<Longrightarrow> schema_ok (t\<lparr>t_quotas := qs\<rparr>)"
  by (simp add: schema_ok_def)

lemma update_quotas_cases:
  assumes "mapErr g (update_quotas w f) s = (r, s')"
    and "\<And>now q. quota_key (f now q) = quota_key q"
    and "pg_inv s"
  shows "pg_inv s' \<and> ((\<exists>e. r = Inl e \<and> pg_tables s' = pg_tables s) \<or>
     (r = Inr (length (filter w (t_quotas (pg_tables s)))) \<and>
      pg_tables s' = (pg_tables s)\<lparr>t_quotas := mapWhere w (f (pg_now s)) (t_quotas (pg_tables s))\<rparr>))"
proof -
  let ?t = "pg_tables s"
  let ?u = "?t\<lparr>t_quotas := mapWhere w (f (pg_now s)) (t_quotas ?t)\<rparr>"
  have keep: "map quota_key (mapWhere w (f (pg_now s)) (t_quotas ?t)) = map quota_key (t_quotas ?t)"
    using assms(2) by (simp add: map_mapWhere_same)
  have "schema_ok ?u" using assms(3) keep
    by (intro schema_ok_quotas) (auto simp: pg_inv_def schema_ok_def)
  moreover have "(\<exists>e. r = Inl e \<and> pg_tables s' = ?t) \<or>
     (r = Inr (length (filter w (t_quotas ?t))) \<and> pg_tables s' = ?u)"
    using mapErr_exec_cases [OF assms(1) [unfolded update_quotas_def]]
    by (auto dest!: update_rows_Inr split: sum.splits prod.splits)
  ultimately show ?thesis using assms(3) by (auto simp: pg_inv_def)
qed

lemma shift_quotas_where:
  assumes "distinct (map quota_key qs)"
    and "\<And>q. unstamp_quota (f q) = (unstamp_quota q)\<lparr>cq_UsedAmount := cq_UsedAmount q + n\<rparr>"
  shows "map unstamp_quota (mapWhere (\<lambda>q. quota_key q = ck \<and> c q) f qs) =
     (if list_ex (\<lambda>q. quota_key q = ck \<and> c q) qs
      then shift_quotas (at ck n) (map unstamp_quota qs) else map unstamp_quota qs)"
proof (cases "list_ex (\<lambda>q. quota_key q = ck \<and> c q) qs")
  case True
  then obtain p where p: "p \<in> set qs" "quota_key p = ck" "c p" by (auto simp: list_ex_iff)
  have "\<And>q. q \<in> set qs \<Longrightarrow> quota_key q = ck \<Longrightarrow> q = p"
    using distinct_key_inj [OF assms(1) _ p(1)] p(2) by simp
  with p have "mapWhere (\<lambda>q. quota_key q = ck \<and> c q) f qs = mapWhere (\<lambda>q. quota_key q = ck) f qs"
    by (intro mapWhere_cong) blast
  then show ?thesis using True by (simp add: mapWhere_def shift_quotas_def assms(2) at_def)
next
  case False
  then show ?thesis by (auto simp: list_ex_iff mapWhere_none)
qed

lemma pg_TryConsume:
  assumes inv: "pg_inv s" and run: "QuotaRepo_TryConsume c k n s = (r, s')"
  shows "pg_inv s' \<and> (\<forall>b. r = Inr b \<longrightarrow> b = quota_admits c k n (pg_view s)) \<and>
       pg_view s' = (if r = Inr True then spec_consume c k n (pg_view s) else pg_view s)"
proof -
  let ?qs = "t_quotas (pg_tables s)"
  let ?c = "\<lambda>q. n \<le> cq_Limit q - cq_UsedAmount q"
  let ?f = "\<lambda>now q. q\<lparr>cq_UsedAmount := cq_UsedAmount q + n, cq_UpdatedAt := now\<rparr>"
  have keys: "distinct (map quota_key ?qs)" using inv by (simp add: pg_inv_def schema_ok_def)
  have hit: "quota_admits c k n (pg_view s) = list_ex (\<lambda>q. quota_key q = (c, k) \<and> ?c q) ?qs"
    by (auto simp: quota_admits_def pg_view_def list_ex_iff)
  have view: "map unstamp_quota (mapWhere (\<lambda>q. quota_key q = (c, k) \<and> ?c q) (?f (pg_now s)) ?qs) =
      (if quota_admits c k n (pg_view s) then shift_quotas (at (c, k) n) (map unstamp_quota ?qs)
       else map unstamp_quota ?qs)"
    unfolding hit by (rule shift_quotas_where [OF keys]) (simp add: unstamp_quota_def)
  have keep: "\<And>now q. quota_key (?f now q) = quota_key q" by (simp add: quota_key_def)
  show ?thesis
    using run unfolding QuotaRepo_TryConsume_def
  proof (cases rule: andThen_split)
    case (failed e)
    from update_quotas_cases [OF failed(1) keep inv] failed(2) show ?thesis by (auto simp: pg_view_def)
  next
    case (went_on m s1)
    from update_quotas_cases [OF went_on(1) keep inv] went_on(2) view
      length_filter_distinct [OF keys, of "(c, k)" ?c] hit
    show ?thesis by (auto simp: pg_view_def spec_consume_def unstamp_def)
  qed
qed

lemma unstamp_new_quota:
  "unstamp_quota \<lparr>cq_ID = i, cq_CustomerID = c, cq_ResourceKind = k, cq_Limit = l, cq_UsedAmount = 0,
     cq_CreatedAt = a, cq_UpdatedAt = b\<rparr> = new_quota c k l"
  by (simp add: unstamp_quota_def new_quota_def)

lemma pg_insert_quota:
  assumes inv: "pg_inv s" and run: "mapErr g (insert_quota c k limit) s = (r, s')"
    and lim: "0 \<le> limit" "limit \<le> maxAmount"
  shows "pg_inv s' \<and> pg_view s' = (if isl r then pg_view s else spec_ensure c k limit (pg_view s))"
proof -
  have ex: "list_ex (\<lambda>q. quota_key q = (c, k)) (t_quotas (pg_view s)) =
      list_ex (\<lambda>q. quota_key q = (c, k)) (t_quotas (pg_tables s))"
    by (auto simp: pg_view_def list_ex_iff)
  have rng: "in_i64 limit" "in_i64 0" using lim by (simp_all add: in_i64_def maxAmount_def)
  show ?thesis
    using run inv lim rng ex
    by (auto simp: mapErr_def insert_quota_def sql_def Let_def check_quota_def pg_view_def pg_inv_def
        spec_ensure_def unstamp_def unstamp_new_quota schema_ok_def list_ex_iff quota_key_def
        split: list.splits option.splits if_splits sum.splits prod.splits)
qed

lemma pg_EnsureAndTryConsume:
  assumes inv: "pg_inv s" and lim: "0 \<le> limit" "limit \<le> maxAmount"
    and run: "QuotaRepo_EnsureAndTryConsume c k n limit s = (r, s')"
  shows "pg_inv s' \<and> (\<forall>b. r = Inr b \<longrightarrow>
         b = quota_admits c k n (spec_ensure c k limit (pg_view s)) \<and>
         pg_view s' = (if b then spec_consume c k n (spec_ensure c k limit (pg_view s))
                    else spec_ensure c k limit (pg_view s))) \<and>
       (\<forall>e. r = Inl e \<longrightarrow> pg_view s' = pg_view s \<or> pg_view s' = spec_ensure c k limit (pg_view s))"
  using run unfolding QuotaRepo_EnsureAndTryConsume_def
proof (cases rule: andThen_split)
  case (failed e)
  from pg_insert_quota [OF inv failed(1) lim] failed(2) show ?thesis by simp
next
  case (went_on u s1)
  from pg_insert_quota [OF inv went_on(1) lim]
  have s1: "pg_inv s1" "pg_view s1 = spec_ensure c k limit (pg_view s)" by simp_all
  from pg_TryConsume [OF s1(1) went_on(2)] s1(2) show ?thesis by (cases r) auto
qed

lemma map_mapWhere_commute:
  "(\<And>x. x \<in> set xs \<Longrightarrow> w' (u x) = w x) \<Longrightarrow> (\<And>x. x \<in> set xs \<Longrightarrow> w x \<Longrightarrow> u (f x) = f' (u x)) \<Longrightarrow>
   map u (mapWhere w f xs) = mapWhere w' f' (map u xs)"
  by (induction xs) auto

lemma pg_ReleaseQuota:
  assumes inv: "pg_inv s" and run: "QuotaRepo_Release c k n s = (r, s')"
  shows "pg_inv s' \<and> pg_view s' = (if r = Inr () then spec_unconsume c k n (pg_view s) else pg_view s)"
proof -
  let ?w = "\<lambda>q. quota_key q = (c, k)"
  let ?f = "\<lambda>now q. q\<lparr>cq_UsedAmount := max (cq_UsedAmount q - n) 0, cq_UpdatedAt := now\<rparr>"
  have keep: "\<And>now q. quota_key (?f now q) = quota_key q" by (simp add: quota_key_def)
  have view: "\<And>now qs. map unstamp_quota (mapWhere ?w (?f now) qs) =
      mapWhere ?w (\<lambda>q. q\<lparr>cq_UsedAmount := max (cq_UsedAmount q - n) 0\<rparr>) (map unstamp_quota qs)"
    by (intro map_mapWhere_commute) (simp, simp add: unstamp_quota_def)
  show ?thesis
    using run unfolding QuotaRepo_Release_def
  proof (cases rule: andThen_split)
    case (failed e)
    from update_quotas_cases [OF failed(1) keep inv] failed(2) show ?thesis by (auto simp: pg_view_def)
  next
    case (went_on m s1)
    from update_quotas_cases [OF went_on(1) keep inv] went_on(2) view
    show ?thesis by (auto simp: pg_view_def spec_unconsume_def unstamp_def)
  qed
qed

lemma pg_quotas_sel:
  "qr_Get pg_quotas = QuotaRepo_Get" "qr_ListByCustomer pg_quotas = QuotaRepo_ListByCustomer"
  "qr_TryConsume pg_quotas = QuotaRepo_TryConsume" "qr_Release pg_quotas = QuotaRepo_Release"
  "qr_EnsureAndTryConsume pg_quotas = QuotaRepo_EnsureAndTryConsume"
  by (simp_all add: pg_quotas_def)

lemma filter_quotas_unstamp:
  "filter (\<lambda>q. cq_CustomerID q = c) (map unstamp_quota qs) = map unstamp_quota (filter (\<lambda>q. cq_CustomerID q = c) qs)"
  by (induction qs) auto

lemma pg_ListQuotas:
  assumes "pg_inv s" and "QuotaRepo_ListByCustomer c s = (r, s')"
  shows "pg_inv s' \<and> pg_view s' = pg_view s \<and>
      (\<forall>qs. r = Inr qs \<longrightarrow>
        mset (map unstamp_quota qs) = mset (filter (\<lambda>q. cq_CustomerID q = c) (t_quotas (pg_view s))))"
  using mapErr_select_cases [OF assms(2) [unfolded QuotaRepo_ListByCustomer_def]] assms(1)
  by (auto simp: pg_inv_def pg_view_def filter_quotas_unstamp)

interpretation pg_quota: quota_port pg_quotas pg_view pg_inv
proof (unfold_locales, goal_cases)
  case 1
  then show ?case unfolding pg_quotas_sel by (rule pg_ListQuotas)
next
  case 2
  from 2(1,5-7) show ?case unfolding pg_quotas_sel by (rule pg_EnsureAndTryConsume)
next
  case 3
  from 3(1,5) show ?case unfolding pg_quotas_sel by (rule pg_ReleaseQuota)
qed

subsection \<open>Transactions, the lock, the products\<close>

lemma sql_frame:
  assumes "sql f s = (r, s')" and "\<And>t a t'. f t = Inr (a, t') \<Longrightarrow> pg_tables t' = pg_tables t"
  shows "pg_tables s' = pg_tables s"
  using assms(1)
proof (cases rule: sql_cases)
  case (fails e)
  then show ?thesis by simp
next
  case (runs a)
  from assms(2) [OF runs(2)] show ?thesis by simp
qed

lemma mapErr_run: "mapErr g m s = (r, s') \<Longrightarrow> \<exists>q. m s = (q, s')"
  by (auto simp: mapErr_def split: prod.splits sum.splits)

lemma mapErr_sql_frame:
  assumes "mapErr g (sql f) s = (r, s')" and "\<And>t a t'. f t = Inr (a, t') \<Longrightarrow> pg_tables t' = pg_tables t"
  shows "pg_tables s' = pg_tables s"
proof -
  from mapErr_run [OF assms(1)] obtain q where "sql f s = (q, s')" by blast
  from sql_frame [OF this assms(2)] show ?thesis .
qed

lemma pg_begin_cases:
  assumes "pg_begin s = (r, s')"
  shows "pg_tables s' = pg_tables s \<and> (\<forall>h. r = Inr h \<longrightarrow> pg_tables h = pg_tables s)"
proof -
  obtain q where q: "sql (\<lambda>s. Inr (s, s)) s = (q, s')" and r: "\<forall>h. r = Inr h \<longrightarrow> q = Inr h"
    using assms by (auto simp: pg_begin_def mapErr_def split: prod.splits sum.splits)
  from q show ?thesis
    by (cases rule: sql_cases) (use r in auto)
qed

lemma pg_commit_frame: "pg_commit s = (r, s') \<Longrightarrow> pg_tables s' = pg_tables s"
  unfolding pg_commit_def by (erule mapErr_sql_frame) blast

lemma pg_tx_sel:
  "tx_Begin pg_tx = pg_begin" "tx_Commit pg_tx = pg_commit" "tx_Rollback pg_tx = pg_rollback"
  by (simp_all add: pg_tx_def)

interpretation pg_atomic: atomic_tx_port pg_tx pg_view pg_inv
proof (unfold_locales, goal_cases)
  case (1 s r s')
  from 1(2) have run: "pg_begin s = (r, s')" unfolding pg_tx_sel .
  have eq: "pg_tables s' = pg_tables s" and h: "\<And>h. r = Inr h \<Longrightarrow> pg_tables h = pg_tables s"
    using pg_begin_cases [OF run] by blast+
  show ?case
    using pg_inv_cong [OF eq] pg_view_cong [OF eq] pg_inv_cong [OF h] pg_view_cong [OF h] 1(1) by blast
next
  case (2 s r s')
  from 2(2) have "pg_commit s = (r, s')" unfolding pg_tx_sel .
  from pg_commit_frame [OF this] 2(1) show ?case by (simp add: pg_inv_def pg_view_def)
next
  case (3 h s)
  then show ?case by (simp add: pg_tx_sel pg_rollback_def pg_inv_def pg_view_def)
qed

lemma andThen_frame:
  assumes "andThen m f s = (r, s')" and "\<And>r s s'. m s = (r, s') \<Longrightarrow> g s' = g s"
    and "\<And>a r s s'. f a s = (r, s') \<Longrightarrow> g s' = g s"
  shows "g s' = g s"
  using assms(1)
proof (cases rule: andThen_split)
  case (failed e)
  from assms(2) [OF failed(1)] show ?thesis .
next
  case (went_on a s1)
  from assms(2) [OF went_on(1)] assms(3) [OF went_on(2)] show ?thesis by simp
qed

lemma pg_TryLock_frame:
  assumes "pg_TryLock k s = (r, s')"
  shows "pg_tables s' = pg_tables s"
proof (cases "lk_conn s = None")
  case False
  with assms show ?thesis by (simp add: pg_TryLock_def)
next
  case True
  with assms show ?thesis
    unfolding pg_TryLock_def
    by simp (erule andThen_frame, erule mapErr_sql_frame, force, erule andThen_frame,
       erule mapErr_sql_frame, auto split: if_splits elim!: andThen_frame)
qed

lemma pg_Unlock_frame:
  assumes "pg_Unlock k s = (r, s')"
  shows "pg_tables s' = pg_tables s"
proof (cases "lk_conn s")
  case None
  with assms show ?thesis by (simp add: pg_Unlock_def)
next
  case (Some conn)
  let ?stmt = "sql (\<lambda>s. Inr ((), s\<lparr>pg_advisory := remove1 (k, conn) (pg_advisory s)\<rparr>))"
  have stmt: "\<And>r s s'. attempt ?stmt s = (r, s') \<Longrightarrow> pg_tables s' = pg_tables s"
    by (auto simp: attempt_iff elim!: sql_frame)
  from assms Some show ?thesis
    unfolding pg_Unlock_def
    by simp (erule andThen_frame, erule stmt, auto split: sum.splits elim!: andThen_frame)
qed

interpretation pg_lock: lock_port pg_locker pg_view pg_inv
proof (unfold_locales, goal_cases)
  case (1 s k r s')
  then have "pg_TryLock k s = (r, s')" by (simp add: pg_locker_def)
  from pg_TryLock_frame [OF this] 1(1) show ?case by (simp add: pg_inv_def pg_view_def)
next
  case (2 s k r s')
  then have "pg_Unlock k s = (r, s')" by (simp add: pg_locker_def)
  from pg_Unlock_frame [OF this] 2(1) show ?case by (simp add: pg_inv_def pg_view_def)
qed

interpretation pg_product: product_port pg_products pg_view pg_inv
proof (unfold_locales, goal_cases)
  case (1 s r s')
  then have "mapErr (Errorf ''list products'') (sql_select (\<lambda>t. sort_key pd_Code (t_products t))) s = (r, s')"
    by (simp add: pg_products_def ProductRepo_List_def)
  from mapErr_select_cases [OF this] 1(1) show ?case by (auto simp: pg_inv_def pg_view_def)
next
  case (2 s c r s')
  then have "mapErr (Errorf ''get product'') (sql_select (\<lambda>t. find (\<lambda>p. pd_Code p = c) (t_products t))) s = (r, s')"
    by (simp add: pg_products_def ProductRepo_GetByCode_def)
  from mapErr_select_cases [OF this] 2(1) show ?case by (simp add: pg_inv_def pg_view_def)
qed

end
