(* ===== verification/Pg_Request_Laws.thy ===== *)
theory Pg_Request_Laws
  imports Pg_Laws
begin

text \<open>The request repository on Postgres keeps the promises of its interface.\<close>

subsection \<open>Queries\<close>

lemma find_request_unstamp: "find_request i (unstamp t) = map_option unstamp_request (find_request i t)"
  by (simp add: find_request_def find_map_key)

lemma find_map: "find p (map f xs) = map_option f (find (p \<circ> f) xs)"
  by (induction xs) auto

lemma find_idem_unstamp: "find_idem c k (unstamp t) = map_option unstamp_request (find_idem c k t)"
  by (simp add: find_idem_def find_map comp_def)

lemma is_reserved_unstamp [simp]: "is_reserved i (unstamp t) = is_reserved i t"
  by (simp add: is_reserved_def list_ex_map_comp comp_def)

lemma filter_map_unstamp_holds:
  "(\<And>h. p (unstamp_hold h) = p h) \<Longrightarrow> filter p (map unstamp_hold hs) = map unstamp_hold (filter p hs)"
  by (induction hs) auto

lemma active_holds_unstamp: "active_holds i (unstamp t) = map unstamp_hold (active_holds i t)"
  by (simp add: active_holds_def filter_map_unstamp_holds)

lemma is_due_unstamp [simp]: "is_due now (unstamp_request r) = is_due now r"
  by (simp add: is_due_def)

lemma due_ids_unstamp:
  "map cr_ID (filter (is_due now) (map unstamp_request rs)) = map cr_ID (filter (is_due now) rs)"
  by (induction rs) auto

lemma count_reserved_unstamp: "count_reserved c (unstamp t) = count_reserved c t"
  by (simp add: count_reserved_def filter_map comp_def list_ex_map_comp)

lemma length_filter_card:
  "distinct (map k xs) \<Longrightarrow> length (filter p xs) = card (k ` {x \<in> set xs. p x})"
proof (induction xs)
  case Nil
  then show ?case by simp
next
  case (Cons x xs)
  have fin: "finite (k ` {y \<in> set xs. p y})" by simp
  have "{y \<in> set (x # xs). p y} = (if p x then insert x {y \<in> set xs. p y} else {y \<in> set xs. p y})"
    by auto
  moreover have "k x \<notin> k ` {y \<in> set xs. p y}" using Cons.prems by auto
  ultimately show ?case using Cons fin by (simp add: card_insert_if)
qed

text \<open>\<^verbatim>\<open>COUNT(DISTINCT r.id)\<close> over the join counts the requests.\<close>

lemma count_distinct_join:
  assumes "distinct (map cr_ID (t_requests t))"
  shows "length (remdups (map fst (filter (\<lambda>(i, h). hd_Status h = HoldActive)
         (concat (map (\<lambda>r. map (\<lambda>h. (cr_ID r, h)) (filter (\<lambda>h. hd_RequestID h = cr_ID r) (t_holds t)))
           (filter (\<lambda>r. cr_CustomerID r = c \<and> cr_Status r = StatusReserved) (t_requests t)))))))
    = count_reserved c t" (is "length (remdups ?ids) = _")
proof -
  have "set ?ids = cr_ID ` {r \<in> set (t_requests t). cr_CustomerID r = c \<and> cr_Status r = StatusReserved \<and>
      list_ex (\<lambda>h. hd_RequestID h = cr_ID r \<and> hd_Status h = HoldActive) (t_holds t)}"
    by (force simp: list_ex_iff)
  then show ?thesis
    using length_filter_card [OF assms] by (simp add: length_remdups_card_conv count_reserved_def)
qed

lemma pg_FindByIdempotency:
  assumes "pg_inv s" and "RequestRepo_FindByIdempotency c k s = (r, s')"
  shows "pg_inv s' \<and> pg_view s' = pg_view s \<and>
       (\<forall>q. r = Inr q \<longrightarrow> map_option unstamp_request q = find_idem c k (pg_view s))"
  using mapErr_select_cases [OF assms(2) [unfolded RequestRepo_FindByIdempotency_def]] assms(1)
  by (simp add: pg_inv_def pg_view_def find_idem_unstamp)

lemma pg_Get:
  assumes "pg_inv s" and "RequestRepo_Get i s = (r, s')"
  shows "pg_inv s' \<and> pg_view s' = pg_view s \<and>
       (\<forall>q. r = Inr q \<longrightarrow> map_option unstamp_request q = find_request i (pg_view s))"
  using mapErr_select_cases [OF assms(2) [unfolded RequestRepo_Get_def]] assms(1)
  by (simp add: pg_inv_def pg_view_def find_request_unstamp)

lemma pg_Count:
  assumes "pg_inv s" and "RequestRepo_CountActiveHoldsByCustomer c s = (r, s')"
  shows "pg_inv s' \<and> pg_view s' = pg_view s \<and> (\<forall>n. r = Inr n \<longrightarrow> n = int (count_reserved c (pg_view s)))"
proof -
  have "distinct (map cr_ID (t_requests (pg_tables s)))"
    using assms(1) by (simp add: pg_inv_def schema_ok_def)
  from count_distinct_join [OF this, of c]
    mapErr_select_cases [OF assms(2) [unfolded RequestRepo_CountActiveHoldsByCustomer_def]] assms(1)
  show ?thesis by (simp add: pg_inv_def pg_view_def count_reserved_unstamp)
qed

lemma mset_take_subset: "mset (take n xs) \<subseteq># mset xs"
  by (metis append_take_drop_id mset_append mset_subset_eq_add_left)

lemma pg_ListExpiredIDs:
  assumes "pg_inv s" and "RequestRepo_ListExpiredIDs now lim s = (r, s')"
  shows "pg_inv s' \<and> pg_view s' = pg_view s \<and>
       (\<forall>is. r = Inr is \<longrightarrow> length is \<le> lim \<and>
         mset is \<subseteq># mset (map cr_ID (filter (is_due now) (t_requests (pg_view s)))) \<and>
         (length is < lim \<longrightarrow>
           mset is = mset (map cr_ID (filter (is_due now) (t_requests (pg_view s))))))"
proof -
  let ?due = "filter (is_due now) (t_requests (pg_tables s))"
  let ?out = "map cr_ID (take lim (sort_key expiry_key ?due))"
  have "mset ?out \<subseteq># mset (map cr_ID ?due)"
  proof -
    have "mset (take lim (sort_key expiry_key ?due)) \<subseteq># mset ?due"
      using mset_take_subset [of lim "sort_key expiry_key ?due"] by simp
    then show ?thesis by (simp add: image_mset_subseteq_mono)
  qed
  moreover have "length ?out < lim \<Longrightarrow> mset ?out = mset (map cr_ID ?due)" by simp
  moreover have "length ?out \<le> lim" by simp
  moreover have "map cr_ID (filter (is_due now) (t_requests (pg_view s))) = map cr_ID ?due"
    by (simp add: pg_view_def due_ids_unstamp)
  moreover from mapErr_select_cases [OF assms(2) [unfolded RequestRepo_ListExpiredIDs_def]] assms(1)
  have "pg_inv s'" "pg_view s' = pg_view s" "\<And>is. r = Inr is \<Longrightarrow> is = ?out"
    by (auto simp: pg_inv_def pg_view_def)
  ultimately show ?thesis by metis
qed

lemma pg_ListLines:
  assumes "pg_inv s" and "RequestRepo_ListLines i s = (r, s')"
  shows "pg_inv s' \<and> pg_view s' = pg_view s \<and> (\<forall>ls. r = Inr ls \<longrightarrow> ls = lines_of i (pg_view s))"
  using mapErr_select_cases [OF assms(2) [unfolded RequestRepo_ListLines_def]] assms(1)
  by (simp add: pg_inv_def pg_view_def lines_of_def)

lemma pg_ListEvents:
  assumes "pg_inv s" and "RequestRepo_ListEvents i s = (r, s')"
  shows "pg_inv s' \<and> pg_view s' = pg_view s \<and> (\<forall>es. r = Inr es \<longrightarrow> mset es = mset (events_of i (pg_view s)))"
  using mapErr_select_cases [OF assms(2) [unfolded RequestRepo_ListEvents_def]] assms(1)
  by (auto simp: pg_inv_def pg_view_def events_of_def)

lemma filter_map_unstamp_requests:
  "(\<And>r. p (unstamp_request r) = p r) \<Longrightarrow> filter p (map unstamp_request rs) = map unstamp_request (filter p rs)"
  by (induction rs) auto

lemma pg_ListByCustomer:
  assumes "pg_inv s" and "RequestRepo_ListByCustomer c st s = (r, s')"
  shows "pg_inv s' \<and> pg_view s' = pg_view s \<and>
       (\<forall>rs. r = Inr rs \<longrightarrow> mset (map unstamp_request rs) =
          mset (filter (\<lambda>r. cr_CustomerID r = c \<and>
            (case st of None \<Rightarrow> True | Some x \<Rightarrow> status_string (cr_Status r) = x)) (t_requests (pg_view s))))"
proof -
  let ?ok = "\<lambda>r. cr_CustomerID r = c \<and> (case st of None \<Rightarrow> True | Some x \<Rightarrow> status_string (cr_Status r) = x)"
  let ?out = "sort_key (\<lambda>r. - cr_CreatedAt r) (filter ?ok (t_requests (pg_tables s)))"
  have "filter ?ok (t_requests (pg_view s)) = map unstamp_request (filter ?ok (t_requests (pg_tables s)))"
    unfolding pg_view_def unstamp_sel by (rule filter_map_unstamp_requests) (simp split: option.split)
  then have same: "mset (map unstamp_request ?out) = mset (filter ?ok (t_requests (pg_view s)))"
    by (simp only: mset_map mset_sort)
  have "RequestRepo_ListByCustomer c st = mapErr (Errorf ''list requests'') (sql_select (\<lambda>t. sort_key (\<lambda>r. - cr_CreatedAt r)
      (filter ?ok (t_requests t))))"
    by (cases st) (simp_all add: RequestRepo_ListByCustomer_def)
  from mapErr_select_cases [OF assms(2) [unfolded this]] assms(1)
  have keeps: "pg_inv s'" "pg_view s' = pg_view s" and out: "\<And>rs. r = Inr rs \<Longrightarrow> rs = ?out"
    by (auto simp: pg_inv_def pg_view_def)
  show ?thesis by (intro conjI allI impI keeps) (drule out, simp only: same)
qed

lemma pg_ListActiveHolds:
  assumes "pg_inv s" and "RequestRepo_ListActiveHolds i s = (r, s')"
  shows "pg_inv s' \<and> pg_view s' = pg_view s \<and>
       (\<forall>hs. r = Inr hs \<longrightarrow> mset (map unstamp_hold hs) = mset (active_holds i (pg_view s)))"
  using mapErr_select_cases [OF assms(2) [unfolded RequestRepo_ListActiveHolds_def]] assms(1)
  by (auto simp: pg_inv_def pg_view_def active_holds_unstamp)

subsection \<open>Updates\<close>

lemma update_requests_cases:
  assumes "mapErr g (update_requests i f) s = (r, s')"
    and "\<And>now q. cr_ID (f now q) = cr_ID q \<and> cr_CustomerID (f now q) = cr_CustomerID q \<and>
           cr_IdempotencyKey (f now q) = cr_IdempotencyKey q"
    and "pg_inv s"
  shows "pg_inv s' \<and> ((\<exists>e. r = Inl e \<and> pg_tables s' = pg_tables s) \<or>
     (r = Inr (if is_reserved i (pg_tables s) then 1 else 0) \<and>
      pg_tables s' = (pg_tables s)\<lparr>t_requests :=
        mapWhere (\<lambda>r. cr_ID r = i \<and> cr_Status r = StatusReserved) (f (pg_now s)) (t_requests (pg_tables s))\<rparr>))"
proof -
  let ?t = "pg_tables s"
  let ?w = "\<lambda>r. cr_ID r = i \<and> cr_Status r = StatusReserved"
  let ?rs = "mapWhere ?w (f (pg_now s)) (t_requests ?t)"
  let ?u = "?t\<lparr>t_requests := ?rs\<rparr>"
  have keep: "map cr_ID ?rs = map cr_ID (t_requests ?t)"
    "map (\<lambda>r. (cr_CustomerID r, cr_IdempotencyKey r)) ?rs =
     map (\<lambda>r. (cr_CustomerID r, cr_IdempotencyKey r)) (t_requests ?t)"
    using assms(2) by (simp_all add: map_mapWhere_same)
  have ids: "distinct (map cr_ID (t_requests ?t))" using assms(3) by (simp add: pg_inv_def schema_ok_def)
  have "schema_ok ?u" using assms(3) keep by (simp add: pg_inv_def schema_ok_def)
  moreover have "length (filter ?w (t_requests ?t)) = (if is_reserved i ?t then 1 else 0)"
    using length_filter_distinct [OF ids, of i "\<lambda>r. cr_Status r = StatusReserved"]
    by (simp add: is_reserved_def)
  then have "(\<exists>e. r = Inl e \<and> pg_tables s' = ?t) \<or>
     (r = Inr (if is_reserved i ?t then 1 else 0) \<and> pg_tables s' = ?u)"
    using mapErr_exec_cases [OF assms(1) [unfolded update_requests_def]]
    by (auto dest!: update_rows_Inr split: sum.splits prod.splits)
  ultimately show ?thesis using assms(3) by (auto simp: pg_inv_def)
qed

lemma schema_ok_free [simp]:
  "schema_ok (t\<lparr>t_events := es\<rparr>) = schema_ok t" "schema_ok (t\<lparr>t_lines := ls\<rparr>) = schema_ok t"
  "schema_ok (t\<lparr>t_dedications := ds\<rparr>) = schema_ok t"
  by (simp_all add: schema_ok_def)

lemma insertEvent_cases:
  assumes "insertEvent ev s = (r, s')" and "pg_inv s"
  shows "pg_inv s' \<and> ((\<exists>e. r = Inl e \<and> pg_tables s' = pg_tables s) \<or>
     (r = Inr () \<and> pg_tables s' = (pg_tables s)\<lparr>t_events := t_events (pg_tables s) @ [ev]\<rparr>))"
proof -
  have "(\<exists>e. r = Inl e \<and> pg_tables s' = pg_tables s) \<or>
     (r = Inr () \<and> pg_tables s' = (pg_tables s)\<lparr>t_events := t_events (pg_tables s) @ [ev]\<rparr>)"
    using mapErr_exec_cases [OF assms(1) [unfolded insertEvent_def]]
    by (auto simp: insert_event_row_def split: if_splits)
  with assms(2) show ?thesis by (auto simp: pg_inv_def)
qed

lemma not_reserved_unchanged:
  "\<not> is_reserved i t \<Longrightarrow>
   mapWhere (\<lambda>r. cr_ID r = i \<and> cr_Status r = StatusReserved) f (t_requests t) = t_requests t"
  by (auto simp: is_reserved_def list_ex_iff intro!: mapWhere_none)

lemma set_status_unstamp:
  "map unstamp_request (mapWhere (\<lambda>r. cr_ID r = i \<and> cr_Status r = StatusReserved)
      (\<lambda>r. r\<lparr>cr_Status := st, cr_UpdatedAt := now\<rparr>) rs) = set_status i st (map unstamp_request rs)"
  unfolding set_status_def by (intro map_mapWhere_commute) (simp, simp add: unstamp_request_def)

lemma extend_unstamp:
  "map unstamp_request (mapWhere (\<lambda>r. cr_ID r = i \<and> cr_Status r = StatusReserved)
      (\<lambda>r. r\<lparr>cr_ExpiresAt := Some e, cr_ExtensionCount := n, cr_UpdatedAt := now\<rparr>) rs) =
   mapWhere (\<lambda>r. cr_ID r = i \<and> cr_Status r = StatusReserved)
      (\<lambda>r. r\<lparr>cr_ExpiresAt := Some e, cr_ExtensionCount := n\<rparr>) (map unstamp_request rs)"
  by (intro map_mapWhere_commute) (simp, simp add: unstamp_request_def)

lemma pg_markTerminal:
  assumes inv: "pg_inv s" and run: "RequestRepo_markTerminal i st ev s = (r, s')"
  shows "pg_inv s' \<and> (\<forall>b. r = Inr b \<longrightarrow>
         b = is_reserved i (pg_view s) \<and> pg_view s' = spec_finish i st [] ev (pg_view s))"
  using run unfolding RequestRepo_markTerminal_def
proof (cases rule: andThen_split)
  case (failed e)
  from update_requests_cases [OF failed(1) _ inv] failed(2) show ?thesis by auto
next
  case (went_on m s1)
  let ?f = "\<lambda>now r. r\<lparr>cr_Status := st, cr_UpdatedAt := now\<rparr>"
  from update_requests_cases [OF went_on(1) _ inv]
  have s1: "pg_inv s1" "m = (if is_reserved i (pg_tables s) then 1 else 0)"
    "pg_tables s1 = (pg_tables s)\<lparr>t_requests := mapWhere (\<lambda>r. cr_ID r = i \<and> cr_Status r = StatusReserved)
       (?f (pg_now s)) (t_requests (pg_tables s))\<rparr>" by auto
  show ?thesis
  proof (cases "is_reserved i (pg_tables s)")
    case True
    with s1(2) went_on(2) have "andThen (insertEvent ev) (\<lambda>_. ret True) s1 = (r, s')" by simp
    then show ?thesis
    proof (cases rule: andThen_split)
      case (failed e)
      from insertEvent_cases [OF failed(1) s1(1)] failed(2) show ?thesis by auto
    next
      case (went_on u s2)
      from insertEvent_cases [OF went_on(1) s1(1)] went_on(2) s1(3) True set_status_unstamp
      show ?thesis by (auto simp: pg_view_def spec_finish_def)
    qed
  next
    case False
    with s1 went_on(2) show ?thesis
      by (auto simp: pg_view_def spec_finish_def not_reserved_unchanged)
  qed
qed

lemma pg_Extend:
  assumes inv: "pg_inv s" and run: "RequestRepo_Extend i e n ev s = (r, s')"
  shows "pg_inv s' \<and> (\<forall>b. r = Inr b \<longrightarrow>
         b = is_reserved i (pg_view s) \<and> pg_view s' = spec_extend i e n ev (pg_view s)) \<and>
       (\<forall>x. r = Inl x \<longrightarrow> pg_view s' = pg_view s \<or>
         pg_view s' = (spec_extend i e n ev (pg_view s))\<lparr>t_events := t_events (pg_view s)\<rparr>)"
  using run unfolding RequestRepo_Extend_def
proof (cases rule: andThen_split)
  case (failed x)
  from update_requests_cases [OF failed(1) _ inv] failed(2) show ?thesis by (auto simp: pg_view_def)
next
  case (went_on m s1)
  let ?f = "\<lambda>now r. r\<lparr>cr_ExpiresAt := Some e, cr_ExtensionCount := n, cr_UpdatedAt := now\<rparr>"
  from update_requests_cases [OF went_on(1) _ inv]
  have s1: "pg_inv s1" "m = (if is_reserved i (pg_tables s) then 1 else 0)"
    "pg_tables s1 = (pg_tables s)\<lparr>t_requests := mapWhere (\<lambda>r. cr_ID r = i \<and> cr_Status r = StatusReserved)
       (?f (pg_now s)) (t_requests (pg_tables s))\<rparr>" by auto
  show ?thesis
  proof (cases "is_reserved i (pg_tables s)")
    case True
    with s1(2) went_on(2) have "andThen (insertEvent ev) (\<lambda>_. ret True) s1 = (r, s')" by simp
    then show ?thesis
    proof (cases rule: andThen_split)
      case (failed x)
      from insertEvent_cases [OF failed(1) s1(1)] failed(2) s1(3) True extend_unstamp
      show ?thesis by (auto simp: pg_view_def spec_extend_def)
    next
      case (went_on u s2)
      from insertEvent_cases [OF went_on(1) s1(1)] went_on(2) s1(3) True extend_unstamp
      show ?thesis by (auto simp: pg_view_def spec_extend_def)
    qed
  next
    case False
    with s1 went_on(2) show ?thesis
      by (auto simp: pg_view_def spec_extend_def not_reserved_unchanged)
  qed
qed

lemma pg_UpdateHoldStatus:
  assumes inv: "pg_inv s" and run: "RequestRepo_UpdateHoldStatus i src dst s = (r, s')"
  shows "pg_inv s' \<and> (\<forall>b. r = Inr b \<longrightarrow>
         b = list_ex (\<lambda>h. hd_ID h = i \<and> hd_Status h = src) (t_holds (pg_view s)) \<and>
         pg_view s' = spec_hold i src dst (pg_view s)) \<and>
       (\<forall>e. r = Inl e \<longrightarrow> pg_view s' = pg_view s)"
proof -
  let ?w = "\<lambda>h. hd_ID h = i \<and> hd_Status h = src"
  let ?f = "\<lambda>now h. h\<lparr>hd_Status := dst, hd_UpdatedAt := now\<rparr>"
  let ?hs = "t_holds (pg_tables s)"
  have ids: "distinct (map hd_ID ?hs)" using inv by (simp add: pg_inv_def schema_ok_def)
  have len: "length (filter ?w ?hs) = (if list_ex ?w (t_holds (pg_view s)) then 1 else 0)"
    using length_filter_distinct [OF ids, of i "\<lambda>h. hd_Status h = src"]
    by (simp add: pg_view_def list_ex_map_comp comp_def)
  have keep: "\<And>now. map hd_ID (mapWhere ?w (?f now) ?hs) = map hd_ID ?hs" by (simp add: map_mapWhere_same)
  have view: "\<And>now hs. map unstamp_hold (mapWhere ?w (?f now) hs) =
      mapWhere ?w (\<lambda>h. h\<lparr>hd_Status := dst\<rparr>) (map unstamp_hold hs)"
    by (intro map_mapWhere_commute) (simp, simp add: unstamp_hold_def)
  show ?thesis
    using run unfolding RequestRepo_UpdateHoldStatus_def
  proof (cases rule: andThen_split)
    case (failed e)
    from mapErr_exec_cases [OF failed(1)] failed(2) inv show ?thesis by (auto simp: pg_inv_def pg_view_def)
  next
    case (went_on m s1)
    from mapErr_exec_cases [OF went_on(1)]
    have "m = length (filter ?w ?hs)" "pg_tables s1 = (pg_tables s)\<lparr>t_holds := mapWhere ?w (?f (pg_now s)) ?hs\<rparr>"
      by (auto dest!: update_rows_Inr split: sum.splits prod.splits)
    with went_on(2) len keep view inv show ?thesis
      by (auto simp: pg_inv_def schema_ok_def pg_view_def spec_hold_def)
  qed
qed

subsection \<open>Inserts\<close>

text \<open>
  A batch of INSERTs stops at the first error; what was inserted before it is a prefix of the
  batch.
\<close>

lemma insert_batch:
  assumes "forEach (\<lambda>x. mapErr g (sql_exec (\<lambda>_. ins x))) xs s = (r, s')"
    and "\<And>x t u t'. ins x t = Inr (u, t') \<Longrightarrow> t' = put [x] t"
    and "\<And>t. put [] t = t" and "\<And>xs ys t. put ys (put xs t) = put (xs @ ys) t"
  shows "\<exists>done rest. xs = done @ rest \<and> pg_tables s' = put done (pg_tables s) \<and> (r = Inr () \<longrightarrow> rest = [])"
  using assms(1)
proof (induction xs arbitrary: s)
  case Nil
  then show ?case using assms(3) by simp
next
  case (Cons x xs)
  from Cons.prems have "andThen (mapErr g (sql_exec (\<lambda>_. ins x)))
      (\<lambda>_. forEach (\<lambda>x. mapErr g (sql_exec (\<lambda>_. ins x))) xs) s = (r, s')" by simp
  then show ?case
  proof (cases rule: andThen_split)
    case (failed e)
    from mapErr_exec_cases [OF failed(1)] failed(2) assms(3) show ?thesis
      by (intro exI [of _ "[]"] exI [of _ "x # xs"]) auto
  next
    case (went_on u s1)
    from mapErr_exec_cases [OF went_on(1)] assms(2) have s1: "pg_tables s1 = put [x] (pg_tables s)" by auto
    from Cons.IH [OF went_on(2)] obtain dn rest where
      "xs = dn @ rest" "pg_tables s' = put dn (pg_tables s1)" "r = Inr () \<longrightarrow> rest = []" by blast
    with s1 assms(4) show ?thesis by (intro exI [of _ "x # dn"] exI [of _ rest]) simp
  qed
qed

lemma insertLines_cases:
  assumes "insertLines ls s = (r, s')" and "pg_inv s"
  shows "pg_inv s' \<and> (\<exists>done rest. ls = done @ rest \<and> (r = Inr () \<longrightarrow> rest = []) \<and>
     pg_tables s' = (pg_tables s)\<lparr>t_lines := t_lines (pg_tables s) @ done\<rparr>)"
proof -
  have put: "\<And>x t u t'. insert_line x t = Inr (u, t') \<Longrightarrow> t' = t\<lparr>t_lines := t_lines t @ [x]\<rparr>"
    by (auto simp: insert_line_def split: if_splits)
  obtain dn rest where "ls = dn @ rest" "r = Inr () \<longrightarrow> rest = []"
    and t: "pg_tables s' = (pg_tables s)\<lparr>t_lines := t_lines (pg_tables s) @ dn\<rparr>"
    using insert_batch [where put = "\<lambda>xs t. t\<lparr>t_lines := t_lines t @ xs\<rparr>", OF assms(1) [unfolded insertLines_def] put]
    by auto
  moreover from t assms(2) have "pg_inv s'" by (simp add: pg_inv_def)
  ultimately show ?thesis by blast
qed

lemma insertDedications_cases:
  assumes "forEach (\<lambda>d. mapErr g (sql_exec (\<lambda>_. insert_dedication d))) ds s = (r, s')" and "pg_inv s"
  shows "pg_inv s' \<and> (\<exists>done rest. ds = done @ rest \<and> (r = Inr () \<longrightarrow> rest = []) \<and>
     pg_tables s' = (pg_tables s)\<lparr>t_dedications := t_dedications (pg_tables s) @ done\<rparr>)"
proof -
  have put: "\<And>x t u t'. insert_dedication x t = Inr (u, t') \<Longrightarrow> t' = t\<lparr>t_dedications := t_dedications t @ [x]\<rparr>"
    by (auto simp: insert_dedication_def split: if_splits)
  obtain dn rest where "ds = dn @ rest" "r = Inr () \<longrightarrow> rest = []"
    and t: "pg_tables s' = (pg_tables s)\<lparr>t_dedications := t_dedications (pg_tables s) @ dn\<rparr>"
    using insert_batch [where put = "\<lambda>xs t. t\<lparr>t_dedications := t_dedications t @ xs\<rparr>", OF assms(1) put]
    by auto
  moreover from t assms(2) have "pg_inv s'" by (simp add: pg_inv_def)
  ultimately show ?thesis by blast
qed

lemma insert_hold_schema: "insert_hold h t = Inr (u, t') \<Longrightarrow> schema_ok t \<Longrightarrow> schema_ok t'"
  by (auto simp: insert_hold_def schema_ok_def list_ex_iff image_iff split: if_splits; metis)

lemma insertHolds_cases:
  assumes "forEach (\<lambda>h. mapErr g (sql_exec (\<lambda>_. insert_hold h))) hs s = (r, s')" and "pg_inv s"
  shows "pg_inv s' \<and> (\<exists>done rest. hs = done @ rest \<and> (r = Inr () \<longrightarrow> rest = []) \<and>
     pg_tables s' = (pg_tables s)\<lparr>t_holds := t_holds (pg_tables s) @ done\<rparr>)"
proof -
  have put: "\<And>x t u t'. insert_hold x t = Inr (u, t') \<Longrightarrow> t' = t\<lparr>t_holds := t_holds t @ [x]\<rparr>"
    by (auto simp: insert_hold_def split: if_splits)
  obtain dn rest where "hs = dn @ rest" "r = Inr () \<longrightarrow> rest = []"
    and t: "pg_tables s' = (pg_tables s)\<lparr>t_holds := t_holds (pg_tables s) @ dn\<rparr>"
    using insert_batch [where put = "\<lambda>xs t. t\<lparr>t_holds := t_holds t @ xs\<rparr>", OF assms(1) put]
    by auto
  moreover have "pg_inv s'"
  proof (rule forEach_invariant [where I = pg_inv, OF assms])
    fix h s r s'
    assume inv: "pg_inv s" and run: "mapErr g (sql_exec (\<lambda>_. insert_hold h)) s = (r, s')"
    from mapErr_exec_cases [OF run] inv insert_hold_schema [of h "pg_tables s"]
    show "pg_inv s'" by (auto simp: pg_inv_def)
  qed
  ultimately show ?thesis by blast
qed

lemma find_idem_None_iff:
  "find_idem c k t = None \<longleftrightarrow>
     (c, k) \<notin> (\<lambda>r. (cr_CustomerID r, cr_IdempotencyKey r)) ` set (t_requests t)"
  by (auto simp: find_idem_def find_None_iff)

lemma insert_request_Inr:
  assumes "insert_request req t = Inr (u, t')"
  shows "t' = t\<lparr>t_requests := t_requests t @ [req]\<rparr> \<and>
     find_idem (cr_CustomerID req) (cr_IdempotencyKey req) t = None \<and>
     (schema_ok t \<longrightarrow> schema_ok (t\<lparr>t_requests := t_requests t @ [req]\<rparr>))"
  using assms
  by (auto simp: insert_request_def schema_ok_def list_ex_iff find_idem_None_iff split: if_splits)

lemma insert_request_cases:
  assumes "mapErr g (sql_exec (\<lambda>_. insert_request req)) s = (r, s')" and "pg_inv s"
  shows "pg_inv s' \<and> ((\<exists>e. r = Inl e \<and> pg_tables s' = pg_tables s) \<or>
     (r = Inr () \<and> find_idem (cr_CustomerID req) (cr_IdempotencyKey req) (pg_tables s) = None \<and>
      pg_tables s' = (pg_tables s)\<lparr>t_requests := t_requests (pg_tables s) @ [req]\<rparr>))"
  using mapErr_exec_cases [OF assms(1)] insert_request_Inr [of req "pg_tables s"] assms(2)
  by (auto simp: pg_inv_def)

lemma find_idem_view: "find_idem c k (pg_view s) = None \<longleftrightarrow> find_idem c k (pg_tables s) = None"
  by (simp add: pg_view_def find_idem_unstamp)

lemma pg_CreateReserved:
  assumes inv: "pg_inv s" and req: "cr_RejectReason req = None"
    and run: "RequestRepo_CreateReserved req ls hs ev s = (r, s')"
  shows "pg_inv s' \<and> (r = Inr () \<longrightarrow>
         find_idem (cr_CustomerID req) (cr_IdempotencyKey req) (pg_view s) = None \<and>
         pg_view s' = spec_insert_reserved req ls hs ev (pg_view s))"
proof -
  have same: "req\<lparr>cr_RejectReason := None\<rparr> = req" using req by simp
  show ?thesis
    using run unfolding RequestRepo_CreateReserved_def same
  proof (cases rule: andThen_split)
    case (failed e)
    from insert_request_cases [OF failed(1) inv] failed(2) show ?thesis by simp
  next
    case (went_on u s1)
    note s1 = insert_request_cases [OF went_on(1) inv]
    from went_on(2) show ?thesis
    proof (cases rule: andThen_split)
      case (failed e)
      from insertLines_cases [OF failed(1)] s1 failed(2) show ?thesis by simp
    next
      case (went_on u2 s2)
      note s2 = insertLines_cases [OF went_on(1)]
      from went_on(2) show ?thesis
      proof (cases rule: andThen_split)
        case (failed e)
        from insertHolds_cases [OF failed(1)] s2 s1 failed(2) show ?thesis by simp
      next
        case (went_on u3 s3)
        from insertHolds_cases [OF went_on(1)] insertEvent_cases [OF went_on(2)] s2 s1
        show ?thesis by (auto simp: find_idem_view) (auto simp: pg_view_def spec_insert_reserved_def)
      qed
    qed
  qed
qed

lemma pg_CreateRejected:
  assumes inv: "pg_inv s" and req: "cr_ExpiresAt req = None"
    and run: "RequestRepo_CreateRejected req ls ev s = (r, s')"
  shows "pg_inv s' \<and> (r = Inr () \<longrightarrow>
         find_idem (cr_CustomerID req) (cr_IdempotencyKey req) (pg_view s) = None \<and>
         pg_view s' = spec_insert_rejected req ls ev (pg_view s)) \<and>
       (\<forall>e. r = Inl e \<longrightarrow>
         (\<exists>reqs lns. pg_view s' = pg_view s\<lparr>t_requests := t_requests (pg_view s) @ reqs,
                                      t_lines := t_lines (pg_view s) @ lns\<rparr> \<and>
            (reqs = [] \<and> lns = [] \<or> reqs = [unstamp_request req] \<and> (\<exists>rest. ls = lns @ rest) \<and>
             find_idem (cr_CustomerID req) (cr_IdempotencyKey req) (pg_view s) = None)))"
proof -
  have same: "req\<lparr>cr_ExpiresAt := None\<rparr> = req" using req by simp
  show ?thesis
    using run unfolding RequestRepo_CreateRejected_def same
  proof (cases rule: andThen_split)
    case (failed e)
    from insert_request_cases [OF failed(1) inv] failed(2) have "pg_inv s'" "pg_view s' = pg_view s"
      by (auto simp: pg_view_def)
    then show ?thesis using failed(2) by (intro conjI impI allI exI [of _ "[]"]) simp_all
  next
    case (went_on u s1)
    note s1 = insert_request_cases [OF went_on(1) inv]
    from went_on(2) show ?thesis
    proof (cases rule: andThen_split)
      case (failed e)
      from insertLines_cases [OF failed(1)] s1 failed(2) show ?thesis
        by (auto simp: find_idem_view) (auto simp: pg_view_def)
    next
      case (went_on u2 s2)
      from insertLines_cases [OF went_on(1)] insertEvent_cases [OF went_on(2)] s1
      have free: "find_idem (cr_CustomerID req) (cr_IdempotencyKey req) (pg_view s) = None" "pg_inv s'"
        and written: "r = Inr () \<Longrightarrow> pg_view s' = spec_insert_rejected req ls ev (pg_view s)"
        and lost: "r \<noteq> Inr () \<Longrightarrow> pg_view s' = pg_view s\<lparr>t_requests := t_requests (pg_view s) @
            [unstamp_request req], t_lines := t_lines (pg_view s) @ ls\<rparr>"
        by (auto simp: find_idem_view) (auto simp: pg_view_def spec_insert_rejected_def)
      show ?thesis
      proof (intro conjI impI allI)
        fix e
        assume "r = Inl e"
        with lost free show "\<exists>reqs lns. pg_view s' = pg_view s\<lparr>t_requests := t_requests (pg_view s) @ reqs,
            t_lines := t_lines (pg_view s) @ lns\<rparr> \<and>
            (reqs = [] \<and> lns = [] \<or> reqs = [unstamp_request req] \<and> (\<exists>rest. ls = lns @ rest) \<and>
             find_idem (cr_CustomerID req) (cr_IdempotencyKey req) (pg_view s) = None)"
          by (intro exI [of _ "[unstamp_request req]"] exI [of _ ls]) simp
      qed (use free written in simp_all)
    qed
  qed
qed

lemma pg_Confirm:
  assumes inv: "pg_inv s" and run: "RequestRepo_Confirm i ds ev s = (r, s')"
  shows "pg_inv s' \<and> (\<forall>b. r = Inr b \<longrightarrow>
         b = is_reserved i (pg_view s) \<and> pg_view s' = spec_finish i StatusCompleted ds ev (pg_view s))"
  using run unfolding RequestRepo_Confirm_def
proof (cases rule: andThen_split)
  case (failed e)
  from update_requests_cases [OF failed(1) _ inv] failed(2) show ?thesis by auto
next
  case (went_on m s1)
  let ?f = "\<lambda>now r. r\<lparr>cr_Status := StatusCompleted, cr_UpdatedAt := now\<rparr>"
  from update_requests_cases [OF went_on(1) _ inv]
  have s1: "pg_inv s1" "m = (if is_reserved i (pg_tables s) then 1 else 0)"
    "pg_tables s1 = (pg_tables s)\<lparr>t_requests := mapWhere (\<lambda>r. cr_ID r = i \<and> cr_Status r = StatusReserved)
       (?f (pg_now s)) (t_requests (pg_tables s))\<rparr>" by auto
  show ?thesis
  proof (cases "is_reserved i (pg_tables s)")
    case True
    let ?ins = "forEach (\<lambda>d. mapErr (Errorf ''insert dedication'') (sql_exec (\<lambda>_. insert_dedication d))) ds"
    from True s1(2) went_on(2)
    have "andThen ?ins (\<lambda>_. andThen (insertEvent ev) (\<lambda>_. ret True)) s1 = (r, s')" by simp
    then show ?thesis
    proof (cases rule: andThen_split)
      case (failed e)
      from insertDedications_cases [OF failed(1) s1(1)] failed(2) show ?thesis by auto
    next
      case (went_on u s2)
      from insertDedications_cases [OF went_on(1) s1(1)] s1(3)
      have s2: "pg_inv s2" "pg_tables s2 = (pg_tables s1)\<lparr>t_dedications := t_dedications (pg_tables s) @ ds\<rparr>"
        by auto
      from went_on(2) show ?thesis
      proof (cases rule: andThen_split)
        case (failed e)
        from insertEvent_cases [OF failed(1) s2(1)] failed(2) show ?thesis by auto
      next
        case (went_on v s3)
        from insertEvent_cases [OF went_on(1) s2(1)] went_on(2) s1(3) s2(2) True set_status_unstamp
        show ?thesis by (auto simp: pg_view_def spec_finish_def)
      qed
    qed
  next
    case False
    with s1 went_on(2) show ?thesis
      by (auto simp: pg_view_def spec_finish_def not_reserved_unchanged)
  qed
qed

lemma pg_requests_sel:
  "rr_FindByIdempotency pg_requests = RequestRepo_FindByIdempotency"
  "rr_Get pg_requests = RequestRepo_Get"
  "rr_ListByCustomer pg_requests = RequestRepo_ListByCustomer"
  "rr_CreateReserved pg_requests = RequestRepo_CreateReserved"
  "rr_CreateRejected pg_requests = RequestRepo_CreateRejected"
  "rr_Confirm pg_requests = RequestRepo_Confirm"
  "rr_MarkCancelled pg_requests i ev = RequestRepo_markTerminal i StatusCancelled ev"
  "rr_MarkExpired pg_requests i ev = RequestRepo_markTerminal i StatusExpired ev"
  "rr_Extend pg_requests = RequestRepo_Extend"
  "rr_ListExpiredIDs pg_requests = RequestRepo_ListExpiredIDs"
  "rr_ListEvents pg_requests = RequestRepo_ListEvents"
  "rr_ListLines pg_requests = RequestRepo_ListLines"
  "rr_ListActiveHolds pg_requests = RequestRepo_ListActiveHolds"
  "rr_UpdateHoldStatus pg_requests = RequestRepo_UpdateHoldStatus"
  "rr_CountActiveHoldsByCustomer pg_requests = RequestRepo_CountActiveHoldsByCustomer"
  by (simp_all add: pg_requests_def RequestRepo_MarkCancelled_def RequestRepo_MarkExpired_def)

lemma pg_keys_unique: "pg_inv s \<Longrightarrow> requests_distinct (pg_view s) \<and> holds_distinct (pg_view s)"
  by (simp add: pg_inv_def schema_ok_def pg_view_def requests_distinct_def holds_distinct_def comp_def)

interpretation pg_request: request_port pg_requests pg_view pg_inv
proof (unfold_locales, goal_cases)
  case 1 then show ?case by (rule pg_keys_unique)
next
  case 2 then show ?case unfolding pg_requests_sel by (rule pg_FindByIdempotency)
next
  case 3 then show ?case unfolding pg_requests_sel by (rule pg_Get)
next
  case 4 then show ?case unfolding pg_requests_sel by (rule pg_Count)
next
  case 5 then show ?case unfolding pg_requests_sel by (rule pg_CreateReserved)
next
  case 6 then show ?case unfolding pg_requests_sel by (rule pg_CreateRejected)
next
  case 7 then show ?case unfolding pg_requests_sel by (rule pg_Confirm)
next
  case 8 then show ?case unfolding pg_requests_sel by (rule pg_markTerminal)
next
  case 9 then show ?case unfolding pg_requests_sel by (rule pg_markTerminal)
next
  case 10 then show ?case unfolding pg_requests_sel by (rule pg_Extend)
next
  case 11 then show ?case unfolding pg_requests_sel by (rule pg_ListExpiredIDs)
next
  case 12 then show ?case unfolding pg_requests_sel by (rule pg_ListLines)
next
  case 13 then show ?case unfolding pg_requests_sel by (rule pg_ListEvents)
next
  case 14 then show ?case unfolding pg_requests_sel by (rule pg_ListByCustomer)
next
  case 15 then show ?case unfolding pg_requests_sel by (rule pg_ListActiveHolds)
next
  case 16 from 16(1,3) show ?case unfolding pg_requests_sel by (rule pg_UpdateHoldStatus)
qed

end
