(* ===== verification/Pg_Service.thy ===== *)
theory Pg_Service
  imports Create_Laws Lifecycle_Laws Pg_Request_Laws
begin

text \<open>
  The capacity service on Postgres, as \<^verbatim>\<open>internal/fxmodules\<close> wires it: the repositories, the
  transaction runner and the lock are those of the database; the cache and the idempotency store stay
  parameters. It meets the contract of \<open>capacity_client\<close>, so every fact proved there holds of it.
  The last section runs arbitrary sequences of calls.
\<close>

definition pg_service ::
    "'c cache_store \<Rightarrow> 'c idempotency_store \<Rightarrow> config \<Rightarrow> environment \<Rightarrow> (pg_state, 'c) capacity_service" where
  "pg_service cache idem cfg E =
     \<lparr>sv_pools = pg_pools, sv_quotas = pg_quotas, sv_products = pg_products, sv_requests = pg_requests,
      sv_tx = pg_tx, sv_lock = pg_locker, sv_cache = cache, sv_idem = idem, sv_cfg = cfg, sv_env = E\<rparr>"

lemma pg_service_sel [simp]:
  "sv_pools (pg_service cache idem cfg E) = pg_pools" "sv_quotas (pg_service cache idem cfg E) = pg_quotas"
  "sv_products (pg_service cache idem cfg E) = pg_products" "sv_requests (pg_service cache idem cfg E) = pg_requests"
  "sv_tx (pg_service cache idem cfg E) = pg_tx" "sv_lock (pg_service cache idem cfg E) = pg_locker"
  "sv_cache (pg_service cache idem cfg E) = cache" "sv_idem (pg_service cache idem cfg E) = idem"
  "sv_cfg (pg_service cache idem cfg E) = cfg" "sv_env (pg_service cache idem cfg E) = E"
  by (simp_all add: pg_service_def)

interpretation pg: capacity_client "pg_service cache idem cfg E" pg_view pg_inv
  for cache idem cfg E
  unfolding capacity_client_def pg_service_sel
  by (intro conjI pg_pool.pool_port_axioms pg_quota.quota_port_axioms pg_product.product_port_axioms
      pg_request.request_port_axioms pg_atomic.atomic_tx_port_axioms pg_lock.lock_port_axioms)

text \<open>The store of a world, without the columns only the database's clock writes.\<close>

definition store :: "(pg_state, 'c) world \<Rightarrow> tables" where
  "store w = pg_view (w_repo w)"

definition sound :: "(uuid \<Rightarrow> int) \<Rightarrow> (string \<times> string \<Rightarrow> int) \<Rightarrow> (pg_state, 'c) world \<Rightarrow> bool" where
  "sound bd bq w \<longleftrightarrow> pg_inv (w_repo w) \<and> ledger bd bq (store w) \<and> catalog_ok (store w)"

definition permutes_maps :: "environment \<Rightarrow> bool" where
  "permutes_maps E \<longleftrightarrow> (\<forall>xs. mset (en_range E xs) = mset xs)"

lemma sound_sees: "sound bd bq w \<Longrightarrow> sees pg_view pg_inv ((=) (store w)) (w_clock w, w_tick w) w"
  by (simp add: sound_def sees_def store_def)

lemma sees_store: "sees pg_view pg_inv V j w \<longleftrightarrow> pg_inv (w_repo w) \<and> V (store w) \<and> j = (w_clock w, w_tick w)"
  by (auto simp: sees_def store_def)

abbreviation time_of :: "('r, 'c) world \<Rightarrow> time" where
  "time_of w \<equiv> w_clock w (w_tick w)"

subsection \<open>Runs of the service\<close>

lemma pg_create:
  assumes "sound bd bq w" and "permutes_maps E"
    and "CreateRequest (pg_service cache idem cfg E) inp w = (r, w')"
  shows "pg_inv (w_repo w') \<and> ledger bd bq (store w') \<and>
     (\<exists>cor. case r of
        Inr req \<Rightarrow> created E cfg (inp\<lparr>ci_CorrelationID := cor\<rparr>) (computeBodyHash E inp) (time_of w) (store w) req (store w')
      | Inl e \<Rightarrow> refused E (inp\<lparr>ci_CorrelationID := cor\<rparr>) (computeBodyHash E inp) (time_of w) (store w) (store w'))"
proof -
  have l: "ledger bd bq (store w)" and cat: "catalog_ok (store w)" using assms(1) by (simp_all add: sound_def)
  have perm: "\<And>xs. mset (en_range (sv_env (pg_service cache idem cfg E)) xs) = mset xs"
    using assms(2) by (simp add: permutes_maps_def)
  from hoareD [OF pg.CreateRequest_rule [OF perm cat l] assms(3) sound_sees [OF assms(1)]]
  show ?thesis by (cases r) (auto simp: sees_store)
qed

lemma pg_confirm:
  assumes "sound bd bq w" and "Confirm (pg_service cache idem cfg E) i w = (r, w')"
  shows "pg_inv (w_repo w') \<and> ledger bd bq (store w') \<and>
     (case r of
        Inr q \<Rightarrow> map_option unstamp_request q = find_request i (store w') \<and>
          (store w' = store w \<and> has_status i StatusCompleted (store w) \<or>
           confirm_effect i (time_of w) (store w) (store w') \<and>
           (\<forall>r. find_request i (store w) = Some r \<longrightarrow> \<not> expired_at (time_of w) r))
      | Inl e \<Rightarrow> store w' = store w \<or> confirm_effect i (time_of w) (store w) (store w') \<and>
          (\<forall>r. find_request i (store w) = Some r \<longrightarrow> \<not> expired_at (time_of w) r))"
proof -
  have l: "ledger bd bq (store w)" using assms(1) by (simp add: sound_def)
  from hoareD [OF pg.Confirm_service [OF l] assms(2) sound_sees [OF assms(1)]]
  show ?thesis by (cases r) (auto simp: sees_store)
qed

lemma pg_cancel:
  assumes "sound bd bq w" and "Cancel (pg_service cache idem cfg E) i w = (r, w')"
  shows "pg_inv (w_repo w') \<and> ledger bd bq (store w') \<and>
     (case r of
        Inr q \<Rightarrow> map_option unstamp_request q = find_request i (store w') \<and>
          (store w' = store w \<and> has_status i StatusCancelled (store w) \<or>
           release_effect i StatusCancelled (time_of w) (store w) (store w'))
      | Inl e \<Rightarrow> store w' = store w \<or> release_effect i StatusCancelled (time_of w) (store w) (store w'))"
proof -
  have l: "ledger bd bq (store w)" using assms(1) by (simp add: sound_def)
  from hoareD [OF pg.Cancel_service [OF l] assms(2) sound_sees [OF assms(1)]]
  show ?thesis by (cases r) (auto simp: sees_store)
qed

lemma pg_extend:
  assumes "sound bd bq w" and "Extend (pg_service cache idem cfg E) i w = (r, w')"
  shows "pg_inv (w_repo w') \<and> ledger bd bq (store w') \<and>
     (case r of
        Inr q \<Rightarrow> map_option unstamp_request q = find_request i (store w') \<and>
          extend_effect cfg i (time_of w) (store w) (store w')
      | Inl e \<Rightarrow> store w' = store w \<or> extend_effect cfg i (time_of w) (store w) (store w') \<or>
          extend_debris cfg i (time_of w) (store w) (store w'))"
proof -
  have l: "ledger bd bq (store w)" using assms(1) by (simp add: sound_def)
  from hoareD [OF pg.Extend_service [OF l] assms(2) sound_sees [OF assms(1)]]
  show ?thesis by (cases r) (auto simp: sees_store)
qed

lemma pg_expire:
  assumes "sound bd bq w" and "ExpireDue (pg_service cache idem cfg E) w = (r, w')"
  shows "pg_inv (w_repo w') \<and> ledger bd bq (store w') \<and>
     (case r of
        Inr n \<Rightarrow> swept (time_of w) n (store w) (store w')
      | Inl e \<Rightarrow> store w' = store w)"
proof -
  have l: "ledger bd bq (store w)" using assms(1) by (simp add: sound_def)
  from hoareD [OF pg.ExpireDue_service [OF l] assms(2) sound_sees [OF assms(1)]] l
  show ?thesis by (cases r) (auto simp: sees_store)
qed

end
