(* ===== verification/Effect_Facts.thy ===== *)
theory Effect_Facts
  imports Create_Laws Lifecycle_Laws
begin

text \<open>
  What the effects say in detail: which counters move by how much, that the catalog stays, and how
  statuses and events change.
\<close>

subsection \<open>The catalog stays\<close>

lemma pool_shell_kinds: "pool_kinds t = rp_Kind ` set (pool_shell t)"
  by (simp add: pool_kinds_def pool_shell_def image_image)

lemma catalog_ok_shell:
  "pool_shell t' = pool_shell t \<Longrightarrow> t_products t' = t_products t \<Longrightarrow> catalog_ok t' = catalog_ok t"
  by (simp add: catalog_ok_def pool_shell_kinds)

definition same_catalog :: "tables \<Rightarrow> tables \<Rightarrow> bool" where
  "same_catalog t t' \<longleftrightarrow> pool_shell t' = pool_shell t \<and> t_products t' = t_products t"

lemma same_catalog_refl [simp]: "same_catalog t t"
  by (simp add: same_catalog_def)

lemma same_catalog_trans: "same_catalog t u \<Longrightarrow> same_catalog u v \<Longrightarrow> same_catalog t v"
  by (simp add: same_catalog_def)

lemma same_catalog_free [simp]:
  "same_catalog t (u\<lparr>t_requests := a\<rparr>) = same_catalog t u" "same_catalog t (u\<lparr>t_lines := b\<rparr>) = same_catalog t u"
  "same_catalog t (u\<lparr>t_holds := c\<rparr>) = same_catalog t u" "same_catalog t (u\<lparr>t_dedications := d\<rparr>) = same_catalog t u"
  "same_catalog t (u\<lparr>t_events := e\<rparr>) = same_catalog t u"
  by (simp_all add: same_catalog_def pool_shell_def)

lemma created_catalog: "created E cfg inp hash now t req t' \<Longrightarrow> same_catalog t t'"
  unfolding created_def reserved_effect_def rejected_effect_def rejection_debris_def
  by (auto simp: spec_insert_reserved_def spec_insert_rejected_def) (simp_all add: same_catalog_def)

lemma refused_catalog: "refused E inp hash now t t' \<Longrightarrow> same_catalog t t'"
  by (auto simp: refused_def rejection_debris_def)

lemma spec_finish_catalog: "same_catalog t u \<Longrightarrow> same_catalog t (spec_finish i st ds ev u)"
  by (simp add: spec_finish_def)

lemma confirm_effect_catalog: "confirm_effect i now t t' \<Longrightarrow> same_catalog t t'"
  unfolding confirm_effect_def by (auto intro!: spec_finish_catalog simp: moved_def) (simp add: same_catalog_def)

lemma release_effect_catalog: "release_effect i st now t t' \<Longrightarrow> same_catalog t t'"
  unfolding release_effect_def by (auto intro!: spec_finish_catalog simp: moved_def) (simp_all add: same_catalog_def)

lemma extend_effect_catalog: "extend_effect cfg i now t t' \<Longrightarrow> same_catalog t t'"
  by (auto simp: extend_effect_def spec_extend_def)

lemma extend_debris_catalog: "extend_debris cfg i now t t' \<Longrightarrow> same_catalog t t'"
  by (auto simp: extend_debris_def dest: extend_effect_catalog)

lemma expire_chain_catalog: "expire_chain is t t' \<Longrightarrow> same_catalog t t'"
  by (induction "is" arbitrary: t) (auto dest: release_effect_catalog intro: same_catalog_trans)

lemma swept_catalog: "swept now n t t' \<Longrightarrow> same_catalog t t'"
  by (auto simp: swept_def dest: expire_chain_catalog)

subsection \<open>Counters from the books\<close>

lemma pools_from_books:
  assumes b: "book (\<lambda>_. 0) bd bq t" "book (\<lambda>_. 0) bd bq t'" and shell: "pool_shell t' = pool_shell t"
  shows "t_pools t' = shift_pools (\<lambda>i. on_pool HoldActive i (t_holds t') - on_pool HoldActive i (t_holds t))
     (\<lambda>i. on_pool HoldDedicated i (t_holds t') - on_pool HoldDedicated i (t_holds t)) (t_pools t)"
proof (rule nth_equalityI)
  show len: "length (t_pools t') = length (shift_pools (\<lambda>i. on_pool HoldActive i (t_holds t') - on_pool HoldActive i (t_holds t))
     (\<lambda>i. on_pool HoldDedicated i (t_holds t') - on_pool HoldDedicated i (t_holds t)) (t_pools t))"
    using arg_cong [OF shell, of length] by (simp add: pool_shell_def shift_pools_def)
  fix j assume "j < length (t_pools t')"
  with len have j: "j < length (t_pools t')" "j < length (t_pools t)" by (simp_all add: shift_pools_def)
  let ?p = "t_pools t ! j" and ?q = "t_pools t' ! j"
  have "pool_shell t' ! j = pool_shell t ! j" by (simp add: shell)
  then have eq: "?q\<lparr>rp_ReservedAmount := 0, rp_DedicatedAmount := 0\<rparr> = ?p\<lparr>rp_ReservedAmount := 0, rp_DedicatedAmount := 0\<rparr>"
    using j by (simp add: pool_shell_def)
  have mem: "?p \<in> set (t_pools t)" "?q \<in> set (t_pools t')" using j by simp_all
  have ids: "rp_ID ?q = rp_ID ?p" using arg_cong [OF eq, of rp_ID] by simp
  have c: "rp_ReservedAmount ?q = rp_ReservedAmount ?p + (on_pool HoldActive (rp_ID ?p) (t_holds t') - on_pool HoldActive (rp_ID ?p) (t_holds t))"
    "rp_DedicatedAmount ?q = rp_DedicatedAmount ?p + (on_pool HoldDedicated (rp_ID ?p) (t_holds t') - on_pool HoldDedicated (rp_ID ?p) (t_holds t))"
    using b mem ids by (simp_all add: book_def tally_def)
  have "?q = ?p\<lparr>rp_ReservedAmount := rp_ReservedAmount ?q, rp_DedicatedAmount := rp_DedicatedAmount ?q\<rparr>"
    using eq by (cases ?p; cases ?q) simp
  then show "t_pools t' ! j = shift_pools (\<lambda>i. on_pool HoldActive i (t_holds t') - on_pool HoldActive i (t_holds t))
     (\<lambda>i. on_pool HoldDedicated i (t_holds t') - on_pool HoldDedicated i (t_holds t)) (t_pools t) ! j"
    using c j by (simp add: shift_pools_def)
qed

lemma quotas_from_books:
  assumes b: "book (\<lambda>_. 0) bd bq t" "book (\<lambda>_. 0) bd bq t'" and shell: "quota_shell t' = quota_shell t"
  shows "t_quotas t' = shift_quotas (\<lambda>ck. used_in t' ck - used_in t ck) (t_quotas t)"
proof (rule nth_equalityI)
  show len: "length (t_quotas t') = length (shift_quotas (\<lambda>ck. used_in t' ck - used_in t ck) (t_quotas t))"
    using arg_cong [OF shell, of length] by (simp add: quota_shell_def shift_quotas_def)
  fix j assume "j < length (t_quotas t')"
  with len have j: "j < length (t_quotas t')" "j < length (t_quotas t)" by (simp_all add: shift_quotas_def)
  let ?p = "t_quotas t ! j" and ?q = "t_quotas t' ! j"
  have "quota_shell t' ! j = quota_shell t ! j" by (simp add: shell)
  then have eq: "?q\<lparr>cq_UsedAmount := 0\<rparr> = ?p\<lparr>cq_UsedAmount := 0\<rparr>" using j by (simp add: quota_shell_def)
  have mem: "?p \<in> set (t_quotas t)" "?q \<in> set (t_quotas t')" using j by simp_all
  have ids: "quota_key ?q = quota_key ?p" using arg_cong [OF eq, of quota_key] by simp
  have c: "cq_UsedAmount ?q = cq_UsedAmount ?p + (used_in t' (quota_key ?p) - used_in t (quota_key ?p))"
    using b mem ids by (simp add: book_def tally_def)
  have "?q = ?p\<lparr>cq_UsedAmount := cq_UsedAmount ?q\<rparr>" using eq by (cases ?p; cases ?q) simp
  then show "t_quotas t' ! j = shift_quotas (\<lambda>ck. used_in t' ck - used_in t ck) (t_quotas t) ! j"
    using c j by (simp add: shift_quotas_def)
qed

text \<open>What a request holds on a pool, and of a quota.\<close>

definition held :: "uuid \<Rightarrow> tables \<Rightarrow> uuid \<Rightarrow> int" where
  "held i t p = on_pool HoldActive p (active_holds i t)"

definition held_quota :: "uuid \<Rightarrow> tables \<Rightarrow> string \<times> string \<Rightarrow> int" where
  "held_quota i t ck = used_by (customer_of t) (kind_of t) ck (active_holds i t)"

lemma on_pool_flip_request:
  assumes "dst \<noteq> HoldActive"
  shows "on_pool st p (flip_holds (\<lambda>h. hd_RequestID h = i) dst hs) = on_pool st p hs +
     ((if st = dst then 1 else 0) - (if st = HoldActive then 1 else 0)) *
       on_pool HoldActive p (filter (\<lambda>h. hd_RequestID h = i \<and> hd_Status h = HoldActive) hs)"
  using assms by (induction hs) (auto simp: flip_holds_def)

lemma used_by_flip_request:
  assumes "dst \<noteq> HoldActive"
  shows "used_by own kind ck (flip_holds (\<lambda>h. hd_RequestID h = i) dst hs) = used_by own kind ck hs -
     (if dst = HoldDedicated then 0 else
       used_by own kind ck (filter (\<lambda>h. hd_RequestID h = i \<and> hd_Status h = HoldActive) hs))"
  using assms by (induction hs) (auto simp: flip_holds_def live_def)

text \<open>The counters after the holds of a request moved.\<close>

lemma moved_counters:
  assumes l: "ledger bd bq t" and m: "moved (\<lambda>h. hd_RequestID h = i) dst t u" and l': "ledger bd bq t'"
    and t': "t' = spec_finish i st ds ev u" and dst: "dst \<noteq> HoldActive"
  shows "t_pools t' = shift_pools (\<lambda>p. - held i t p) (\<lambda>p. if dst = HoldDedicated then held i t p else 0) (t_pools t)"
    and "t_quotas t' = shift_quotas (\<lambda>ck. if dst = HoldDedicated then 0 else - held_quota i t ck) (t_quotas t)"
proof -
  have b: "book (\<lambda>_. 0) bd bq t" "book (\<lambda>_. 0) bd bq t'" using l l' by (simp_all add: ledger_def)
  have h: "t_holds t' = flip_holds (\<lambda>h. hd_RequestID h = i) dst (t_holds t)"
    using m t' by (simp add: moved_def spec_finish_def)
  have ps: "pool_shell t' = pool_shell t" "quota_shell t' = quota_shell t"
    using m t' by (simp_all add: moved_def spec_finish_def pool_shell_def quota_shell_def)
  have "customer_of (spec_finish i st ds ev u) = customer_of u"
    using customer_of_mapWhere [where f = "\<lambda>r. r\<lparr>cr_Status := st\<rparr>" and t = u]
    by (simp add: spec_finish_def set_status_def)
  then have own: "customer_of t' = customer_of t" "kind_of t' = kind_of t"
    using moved_frame [OF m] pool_shell_kind_of [OF ps(1)] t' by simp_all
  show "t_pools t' = shift_pools (\<lambda>p. - held i t p) (\<lambda>p. if dst = HoldDedicated then held i t p else 0) (t_pools t)"
    unfolding pools_from_books [OF b ps(1)]
    by (rule shift_pools_cong) (auto simp: h on_pool_flip_request [OF dst] held_def active_holds_def dst)
  show "t_quotas t' = shift_quotas (\<lambda>ck. if dst = HoldDedicated then 0 else - held_quota i t ck) (t_quotas t)"
    unfolding quotas_from_books [OF b ps(2)] shift_quotas_def
    by (rule map_cong [OF refl]) (simp add: used_in_def own h used_by_flip_request [OF dst] held_quota_def active_holds_def)
qed

subsection \<open>How a stored request may change\<close>

text \<open>
  Nobody removes a request; its status changes only along the transitions of the domain, and what
  identifies it never changes.
\<close>

definition evolved :: "capacity_request \<Rightarrow> capacity_request \<Rightarrow> bool" where
  "evolved r r' \<longleftrightarrow> (cr_Status r' = cr_Status r \<or> transition_ok (cr_Status r) (cr_Status r')) \<and>
     cr_ID r' = cr_ID r \<and> cr_CustomerID r' = cr_CustomerID r \<and> cr_IdempotencyKey r' = cr_IdempotencyKey r \<and>
     cr_BodyHash r' = cr_BodyHash r \<and> cr_CreatedAt r' = cr_CreatedAt r \<and>
     (cr_Status r \<noteq> StatusReserved \<longrightarrow> r' = r)"

definition evolves :: "tables \<Rightarrow> tables \<Rightarrow> bool" where
  "evolves t t' \<longleftrightarrow> (\<forall>i r. find_request i t = Some r \<longrightarrow> (\<exists>r'. find_request i t' = Some r' \<and> evolved r r'))"

lemma evolved_refl [simp]: "evolved r r"
  by (simp add: evolved_def)

lemma evolved_trans: "evolved r s \<Longrightarrow> evolved s u \<Longrightarrow> evolved r u"
  by (auto simp: evolved_def transition_ok_iff)

lemma evolves_refl [simp]: "evolves t t"
  by (simp add: evolves_def)

lemma evolves_trans: "evolves t u \<Longrightarrow> evolves u v \<Longrightarrow> evolves t v"
  unfolding evolves_def using evolved_trans by blast

lemma evolves_requests: "t_requests u = t_requests u' \<Longrightarrow> evolves t u = evolves t u'"
  by (simp add: evolves_def find_request_def)

lemma evolves_append: "t_requests t' = t_requests t @ rs \<Longrightarrow> evolves t t'"
  by (simp add: evolves_def find_request_def find_append)

lemma evolves_mapWhere:
  assumes "t_requests t' = mapWhere p f (t_requests t)"
    and "\<And>r. p r \<Longrightarrow> evolved r (f r)"
  shows "evolves t t'"
proof -
  have "\<exists>r'. find (\<lambda>r. cr_ID r = i) (mapWhere p f rs) = Some r' \<and> evolved r r'"
    if "find (\<lambda>r. cr_ID r = i) rs = Some r" for i r rs
    using that
  proof (induction rs)
    case (Cons x xs)
    have "cr_ID (f x) = cr_ID x" if "p x" using assms(2) [OF that] by (simp add: evolved_def)
    with Cons assms(2) [of x] show ?case by (auto split: if_splits)
  qed simp
  with assms(1) show ?thesis by (simp add: evolves_def find_request_def)
qed

lemma created_evolves: "created E cfg inp hash now t req t' \<Longrightarrow> evolves t t'"
  unfolding created_def reserved_effect_def rejected_effect_def rejection_debris_def
  by (elim disjE exE conjE)
    (auto intro: evolves_append [of _ _ "[unstamp_request req]"] evolves_append [of _ _ "[]"] evolves_append
      simp: spec_insert_reserved_def spec_insert_rejected_def)

lemma refused_evolves: "refused E inp hash now t t' \<Longrightarrow> evolves t t'"
  by (auto simp: refused_def rejection_debris_def intro: evolves_append)

lemma spec_finish_evolves:
  assumes "t_requests u = t_requests t" and "st \<noteq> StatusRejected"
  shows "evolves t (spec_finish i st ds ev u)"
proof (cases "is_reserved i u")
  case True
  then show ?thesis
    by (intro evolves_mapWhere [where p = "\<lambda>r. cr_ID r = i \<and> cr_Status r = StatusReserved" and f = "\<lambda>r. r\<lparr>cr_Status := st\<rparr>"])
      (use assms in \<open>auto simp: spec_finish_def set_status_def evolved_def transition_ok_iff\<close>)
next
  case False
  with assms(1) show ?thesis using evolves_requests [of u t t] by (simp add: spec_finish_def)
qed

lemma confirm_effect_evolves: "confirm_effect i now t t' \<Longrightarrow> evolves t t'"
  by (auto simp: confirm_effect_def moved_def intro!: spec_finish_evolves)

lemma release_effect_evolves: "release_effect i st now t t' \<Longrightarrow> st \<noteq> StatusRejected \<Longrightarrow> evolves t t'"
  by (auto simp: release_effect_def moved_def intro!: spec_finish_evolves)

lemma spec_extend_evolves: "evolves t (spec_extend i e n ev t)"
proof (cases "is_reserved i t")
  case True
  then show ?thesis
    by (intro evolves_mapWhere [where p = "\<lambda>r. cr_ID r = i \<and> cr_Status r = StatusReserved" and
        f = "\<lambda>r. r\<lparr>cr_ExpiresAt := Some e, cr_ExtensionCount := n\<rparr>"])
      (auto simp: spec_extend_def evolved_def)
qed (simp add: spec_extend_def)

lemma extend_effect_evolves: "extend_effect cfg i now t t' \<Longrightarrow> evolves t t'"
  by (auto simp: extend_effect_def spec_extend_evolves)

lemma extend_debris_evolves: "extend_debris cfg i now t t' \<Longrightarrow> evolves t t'"
  unfolding extend_debris_def using evolves_requests [of "u\<lparr>t_events := es\<rparr>" u for u es]
  by (auto dest: extend_effect_evolves)

lemma swept_evolves: "swept now n t t' \<Longrightarrow> evolves t t'"
proof -
  have "expire_chain is t t' \<Longrightarrow> evolves t t'" for "is"
    by (induction "is" arbitrary: t) (auto dest!: release_effect_evolves intro: evolves_trans)
  then show "swept now n t t' \<Longrightarrow> evolves t t'" by (auto simp: swept_def)
qed

subsection \<open>The counters of a new reservation\<close>

lemma reserve_all_pools: "t_pools (reserve_all c plans t) = shift_pools (plan_on plans) (\<lambda>_. 0) (t_pools t)"
proof (induction plans rule: rev_induct)
  case Nil
  then show ?case by (simp add: reserve_all_def plan_sums_nil)
next
  case (snoc p ps)
  have "t_pools (reserve_step c p u) = shift_pools (at (pl_poolID p) (pl_amount p)) (\<lambda>_. 0) (t_pools u)" for u
    by (simp add: reserve_step_def spec_consume_def spec_ensure_def spec_reserve_def)
  with snoc show ?case
    by (simp add: reserve_all_def shift_pools_shift plan_sums_snoc add.commute)
qed

text \<open>A rejection, a replay or a failure leaves every counter and every hold alone.\<close>

definition same_capacity :: "tables \<Rightarrow> tables \<Rightarrow> bool" where
  "same_capacity t t' \<longleftrightarrow> t_pools t' = t_pools t \<and> t_quotas t' = t_quotas t \<and> t_holds t' = t_holds t \<and>
     t_dedications t' = t_dedications t"

lemma same_capacity_refl [simp]: "same_capacity t t"
  by (simp add: same_capacity_def)

lemma rejected_same_capacity: "rejected_effect E inp hash now t req t' \<Longrightarrow> same_capacity t t'"
  by (auto simp: rejected_effect_def same_capacity_def spec_insert_rejected_def)

lemma debris_same_capacity: "rejection_debris E inp hash now t t' \<Longrightarrow> same_capacity t t'"
  by (auto simp: rejection_debris_def same_capacity_def)

definition quota_used :: "tables \<Rightarrow> string \<times> string \<Rightarrow> int" where
  "quota_used t ck = (case find (\<lambda>q. quota_key q = ck) (t_quotas t) of None \<Rightarrow> 0 | Some q \<Rightarrow> cq_UsedAmount q)"

lemma find_shift_quotas:
  "find (\<lambda>q. quota_key q = ck) (shift_quotas f qs) =
    map_option (\<lambda>q. q\<lparr>cq_UsedAmount := cq_UsedAmount q + f ck\<rparr>) (find (\<lambda>q. quota_key q = ck) qs)"
  by (induction qs) (auto simp: shift_quotas_def)

lemma quota_used_ensure: "quota_used (spec_ensure c k limit t) ck = quota_used t ck"
  by (simp add: quota_used_def spec_ensure_def find_append split: option.split) (simp add: new_quota_def)

lemma ensure_present: "find (\<lambda>q. quota_key q = (c, k)) (t_quotas (spec_ensure c k limit t)) \<noteq> None"
proof (cases "list_ex (\<lambda>q. quota_key q = (c, k)) (t_quotas t)")
  case True
  then show ?thesis by (auto simp: spec_ensure_def find_None_iff list_ex_iff)
next
  case False
  then show ?thesis
    by (simp add: spec_ensure_def find_append quota_key_def new_quota_def split: option.split)
qed

lemma quota_used_consume:
  assumes "find (\<lambda>q. quota_key q = (c, k)) (t_quotas t) \<noteq> None"
  shows "quota_used (spec_consume c k n t) ck = quota_used t ck + at (c, k) n ck"
proof -
  have eq: "find (\<lambda>q. quota_key q = ck) (t_quotas (spec_consume c k n t)) =
      map_option (\<lambda>q. q\<lparr>cq_UsedAmount := cq_UsedAmount q + at (c, k) n ck\<rparr>) (find (\<lambda>q. quota_key q = ck) (t_quotas t))"
    by (simp add: spec_consume_def find_shift_quotas)
  show ?thesis
  proof (cases "find (\<lambda>q. quota_key q = ck) (t_quotas t)")
    case None
    with assms have "ck \<noteq> (c, k)" by auto
    then show ?thesis unfolding quota_used_def eq None by simp
  next
    case (Some q)
    then show ?thesis unfolding quota_used_def eq Some by simp
  qed
qed

lemma quota_used_reserve: "quota_used (reserve_step c p t) ck = quota_used t ck + at (c, pl_kind p) (pl_amount p) ck"
  unfolding reserve_step_def quota_used_consume [OF ensure_present] quota_used_ensure
  by (simp add: quota_used_def spec_reserve_def)

lemma reserve_all_quotas: "quota_used (reserve_all c plans t) ck = quota_used t ck + plan_used c plans ck"
proof (induction plans rule: rev_induct)
  case Nil
  then show ?case by (simp add: reserve_all_def plan_sums_nil)
next
  case (snoc p ps)
  then show ?case by (simp add: reserve_all_def plan_sums_snoc quota_used_reserve)
qed

text \<open>What a reservation adds, per pool and per quota, is what was asked for.\<close>

lemma planned_sum:
  fixes f :: "string \<times> int \<Rightarrow> int"
  assumes "planned E t inp product plans"
  shows "sum_list (map f (map (\<lambda>p. (pl_kind p, pl_amount p)) plans)) = sum_list (map f (wanted inp product))"
proof -
  have eq: "mset (map (\<lambda>p. (pl_kind p, pl_amount p)) plans) = mset (wanted inp product)"
    using assms by (simp add: planned_def)
  have "mset (map f (map (\<lambda>p. (pl_kind p, pl_amount p)) plans)) = mset (map f (wanted inp product))"
    unfolding mset_map [of f] eq ..
  then show ?thesis by (metis sum_mset_sum_list)
qed

lemma plan_on_wanted:
  assumes "planned E t inp product plans" and "pools_ok t"
  shows "plan_on plans i = sum_list (map (\<lambda>(k, n). if pool_of t k = i then n else 0) (wanted inp product))"
proof -
  let ?f = "\<lambda>(k, n). if pool_of t k = i then n else (0::int)"
  have "plan_on plans i = sum_list (map ?f (map (\<lambda>p. (pl_kind p, pl_amount p)) plans))"
    unfolding plan_on_def map_map
  proof (intro arg_cong [where f = sum_list] map_cong refl)
    fix p assume "p \<in> set plans"
    then have "kind_of t (pl_poolID p) = Some (pl_kind p)" using assms(1) by (simp add: planned_def plan_ok_def)
    from pool_of_kind [OF assms(2) this]
    show "(if pl_poolID p = i then pl_amount p else 0) = (?f \<circ> (\<lambda>p. (pl_kind p, pl_amount p))) p" by simp
  qed
  also have "\<dots> = sum_list (map ?f (wanted inp product))" by (rule planned_sum [OF assms(1)])
  finally show ?thesis .
qed

lemma plan_used_wanted:
  assumes "planned E t inp product plans"
  shows "plan_used c plans ck = sum_list (map (\<lambda>(k, n). if ck = (c, k) then n else 0) (wanted inp product))"
proof -
  let ?f = "\<lambda>(k, n). if ck = (c, k) then n else (0::int)"
  have "plan_used c plans ck = sum_list (map ?f (map (\<lambda>p. (pl_kind p, pl_amount p)) plans))"
    by (simp add: plan_used_def comp_def)
  also have "\<dots> = sum_list (map ?f (wanted inp product))" by (rule planned_sum [OF assms])
  finally show ?thesis .
qed

end
