(* ===== verification/Reachable_States.thy ===== *)
theory Reachable_States
  imports Pg_Service Effect_Facts
begin

text \<open>
  The service as a system that takes calls one after the other: the calls, the world after each, the
  worlds a start world can lead to, and the invariants of all of them. Between two calls everything
  outside the tables may change: the clocks, the content of Redis, the faults that are scheduled, the
  advisory locks other sessions hold.
\<close>

subsection \<open>Calls that only read\<close>

text \<open>What a store outside the repositories answered.\<close>

lemma hoare_redis_answer:
  "hoare (sees view I V k) (attempt (onRedis m)) (\<lambda>g w. (\<exists>s. g = fst (m s)) \<and> sees view I V k w) E"
proof (rule hoareI)
  fix w a w' assume "sees view I V k w" and "attempt (onRedis m) w = (Inr a, w')"
  then show "(\<exists>s. a = fst (m s)) \<and> sees view I V k w'"
    by (auto simp: attempt_def onRedis_def split: prod.splits intro: exI [of _ "w_redis w"])
qed (auto simp: attempt_def split: prod.splits)

definition listed :: "tables \<Rightarrow> string \<Rightarrow> capacity_view list \<Rightarrow> bool" where
  "listed t c vs \<longleftrightarrow> (\<exists>ps qs. mset (map unstamp_pool ps) = mset (t_pools t) \<and>
     (if c = '''' then qs = [] else
        mset (map unstamp_quota qs) = mset (filter (\<lambda>q. cq_CustomerID q = c) (t_quotas t))) \<and>
     vs = map (capacity_view_of (fold (\<lambda>q. AList.update (cq_ResourceKind q) q) qs [])) ps)"

lemma listedI:
  "mset (map unstamp_pool ps) = mset (t_pools t) \<Longrightarrow>
   if c = '''' then qs = [] else mset (map unstamp_quota qs) = mset (filter (\<lambda>q. cq_CustomerID q = c) (t_quotas t)) \<Longrightarrow>
   listed t c (map (capacity_view_of (fold (\<lambda>q. AList.update (cq_ResourceKind q) q) qs [])) ps)"
  unfolding listed_def by (intro exI conjI) (assumption | rule refl)+

context capacity_client
begin

lemma ListPools_rule:
  "hoare (sees view inv ((=) t) k) (onRepo (pr_List (sv_pools S)))
     (\<lambda>ps w. mset (map unstamp_pool ps) = mset (t_pools t) \<and> sees view inv ((=) t) k w)
     (\<lambda>_. sees view inv ((=) t) k)"
  by (rule hoare_read) (use list_pools in blast)

lemma ListQuotas_rule:
  "hoare (sees view inv ((=) t) k) (onRepo (qr_ListByCustomer (sv_quotas S) c))
     (\<lambda>qs w. mset (map unstamp_quota qs) = mset (filter (\<lambda>q. cq_CustomerID q = c) (t_quotas t)) \<and>
        sees view inv ((=) t) k w)
     (\<lambda>_. sees view inv ((=) t) k)"
  by (rule hoare_read) (use list_quotas in blast)

lemma ListRequests_rule:
  "hoare (sees view inv ((=) t) k) (ListRequests S c st)
     (\<lambda>rs w. mset (map unstamp_request rs) = mset (filter (\<lambda>r. cr_CustomerID r = c \<and>
            (case st of None \<Rightarrow> True | Some x \<Rightarrow> status_string (cr_Status r) = x)) (t_requests t)) \<and>
        sees view inv ((=) t) k w)
     (\<lambda>_. sees view inv ((=) t) k)"
  unfolding ListRequests_def by (rule hoare_read) (use list_by_customer in blast)

lemma ListProducts_rule:
  "hoare (sees view inv ((=) t) k) (ListProducts S)
     (\<lambda>ps w. mset ps = mset (t_products t) \<and> sees view inv ((=) t) k w) (\<lambda>_. sees view inv ((=) t) k)"
  unfolding ListProducts_def by (rule hoare_read) (use list_products in blast)

lemma GetRequest_rule:
  "hoare (sees view inv ((=) t) k) (GetRequest S i)
     (\<lambda>(r, ls, es) w. find_request i t = Some (unstamp_request r) \<and> ls = lines_of i t \<and>
        mset es = mset (events_of i t) \<and> sees view inv ((=) t) k w)
     (\<lambda>_. sees view inv ((=) t) k)"
  unfolding GetRequest_def
  apply (rule hoare_bind [OF Get_rule])
   apply (rule hoare_option)
    apply (rule hoare_fail, assumption)
   apply (rule hoare_bind [OF ListLines_rule])
    apply (rule hoare_bind [OF ListEvents_rule])
     apply (rule hoare_ret)
     apply auto
  done

text \<open>
  A listing of capacity is what the cache holds for the key, or is computed from the pools and, for a
  known customer, from that customer's quotas.
\<close>

lemma ListCapacity_rule:
  "hoare (sees view inv ((=) t) k) (ListCapacity S c)
     (\<lambda>vs w. ((\<exists>b key s. fst (cs_GetCapacity (sv_cache S) key s) = Inr (Some b) \<and> en_unmarshal_views (sv_env S) b = Some vs) \<or>
        listed t c vs) \<and> sees view inv ((=) t) k w)
     (\<lambda>_. sees view inv ((=) t) k)" (is "hoare ?P _ ?Q ?E")
proof -
  let ?m = "\<lambda>qs. fold (\<lambda>q. AList.update (cq_ResourceKind q) q) qs ([] :: (string \<times> customer_quota) list)"
  have gauges: "hoare ?P (forEach (\<lambda>p. gauge PoolAvailableRatio [rp_Kind p]
      (AvailableRatio (rp_Total p) (rp_DedicatedAmount p) (rp_ReservedAmount p) (rp_OversubscribeFactor p))) ps)
      (\<lambda>_. ?P) ?E" for ps
    by (rule hoare_forEach_inv) (rule hoare_gauge)
  have cached: "hoare ?P (case en_marshal_views (sv_env S) vs of None \<Rightarrow> ret ()
      | Some b \<Rightarrow> ignoring (onRedis (cs_SetCapacity (sv_cache S) key b (cfg_CapacityCacheTTL (sv_cfg S)))))
      (\<lambda>_. ?P) ?E" for vs key
    by (rule hoare_option) (rule hoare_ret, assumption, rule hoare_ignore_redis)
  have quotas: "hoare ?P (if c \<noteq> '''' then onRepo (qr_ListByCustomer (sv_quotas S) c) else ret [])
      (\<lambda>qs w. (if c = '''' then qs = [] else
         mset (map unstamp_quota qs) = mset (filter (\<lambda>q. cq_CustomerID q = c) (t_quotas t))) \<and> ?P w) ?E"
    by (cases "c = ''''") (auto intro: hoare_ret hoare_post [OF ListQuotas_rule])
  show ?thesis
    unfolding ListCapacity_def Let_def
    apply (rule hoare_bind [OF hoare_redis_answer])
     apply (rule hoare_option)
      apply (rule hoare_bind [OF ListPools_rule])
       apply (rule hoare_bind [OF quotas])
        apply (rule hoare_seq [OF gauges])
         apply (rule hoare_seq [OF cached])
          apply (rule hoare_ret)
          apply (intro conjI disjI2, erule (1) listedI, assumption)
         apply assumption+
     apply (rule hoare_ret)
     apply (auto split: sum.splits option.splits intro: sym)
    done
qed

end

subsection \<open>Calls\<close>

datatype call =
    CallCreate create_input | CallConfirm uuid | CallCancel uuid | CallExtend uuid | CallExpireDue
  | CallListCapacity string | CallListProducts | CallGet uuid | CallList string "string option"

fun after :: "('r, 'c) capacity_service \<Rightarrow> call \<Rightarrow> ('r, 'c) world \<Rightarrow> ('r, 'c) world" where
  "after S (CallCreate inp) w = snd (CreateRequest S inp w)"
| "after S (CallConfirm i) w = snd (Confirm S i w)"
| "after S (CallCancel i) w = snd (Cancel S i w)"
| "after S (CallExtend i) w = snd (Extend S i w)"
| "after S CallExpireDue w = snd (ExpireDue S w)"
| "after S (CallListCapacity c) w = snd (ListCapacity S c w)"
| "after S CallListProducts w = snd (ListProducts S w)"
| "after S (CallGet i) w = snd (GetRequest S i w)"
| "after S (CallList c st) w = snd (ListRequests S c st w)"

definition same_data :: "(pg_state, 'c) world \<Rightarrow> (pg_state, 'c) world \<Rightarrow> bool" where
  "same_data w w' \<longleftrightarrow> pg_tables (w_repo w') = pg_tables (w_repo w)"

inductive reachable :: "(pg_state, 'c) capacity_service \<Rightarrow> (pg_state, 'c) world \<Rightarrow> (pg_state, 'c) world \<Rightarrow> bool"
  for S w0 where
  start: "reachable S w0 w0"
| call: "reachable S w0 w \<Longrightarrow> reachable S w0 (after S c w)"
| meanwhile: "reachable S w0 w \<Longrightarrow> same_data w w' \<Longrightarrow> reachable S w0 w'"

lemma reachable_trans: "reachable S w1 w2 \<Longrightarrow> reachable S w0 w1 \<Longrightarrow> reachable S w0 w2"
  by (induction rule: reachable.induct) (auto intro: reachable.intros)

subsection \<open>What every call keeps\<close>

definition steady :: "(uuid \<Rightarrow> int) \<Rightarrow> (string \<times> string \<Rightarrow> int) \<Rightarrow> tables \<Rightarrow> (pg_state, 'c) world \<Rightarrow> bool" where
  "steady bd bq t w \<longleftrightarrow> pg_inv (w_repo w) \<and> ledger bd bq (store w) \<and> same_catalog t (store w) \<and> evolves t (store w)"

lemma sees_steady:
  "sound bd bq w \<Longrightarrow> sees pg_view pg_inv ((=) (store w)) k w' \<Longrightarrow> steady bd bq (store w) w'"
  by (auto simp: sees_store steady_def sound_def)

lemma steady_same: "steady bd bq t w \<Longrightarrow> same_data w w' \<Longrightarrow> steady bd bq t w'"
  by (simp add: steady_def same_data_def store_def pg_inv_def pg_view_def)

lemma steady_sound:
  assumes "sound bd bq w0" and "steady bd bq (store w0) w"
  shows "sound bd bq w"
  using assms catalog_ok_shell [of "store w" "store w0"]
  by (simp add: steady_def sound_def same_catalog_def)

lemma steady_refl: "sound bd bq w \<Longrightarrow> steady bd bq (store w) w"
  by (simp add: steady_def sound_def)

lemma steady_trans:
  "steady bd bq t w1 \<Longrightarrow> steady bd bq (store w1) w2 \<Longrightarrow> steady bd bq t w2"
  unfolding steady_def using same_catalog_trans evolves_trans by blast

lemma quiet_sees:
  assumes "sound bd bq w" and "hoare (sees pg_view pg_inv ((=) (store w)) (w_clock w, w_tick w)) m Q E"
    and "\<And>a v. Q a v \<Longrightarrow> sees pg_view pg_inv ((=) (store w)) k v" and "\<And>e v. E e v \<Longrightarrow> sees pg_view pg_inv ((=) (store w)) k v"
  shows "sees pg_view pg_inv ((=) (store w)) k (snd (m w))"
proof (cases "m w")
  case (Pair r w')
  then show ?thesis
    using hoareD [OF assms(2) Pair sound_sees [OF assms(1)]] assms(3,4) by (cases r) auto
qed

lemmas quiet_steady = sees_steady [OF _ quiet_sees]

lemma quiet_store:
  assumes "sound bd bq w" and "hoare (sees pg_view pg_inv ((=) (store w)) (w_clock w, w_tick w)) m Q E"
    and "\<And>a v. Q a v \<Longrightarrow> sees pg_view pg_inv ((=) (store w)) k v" and "\<And>e v. E e v \<Longrightarrow> sees pg_view pg_inv ((=) (store w)) k v"
  shows "store (snd (m w)) = store w"
  using quiet_sees [OF assms] by (simp add: sees_store)

lemma after_steady:
  assumes "sound bd bq w" and "permutes_maps E"
  shows "steady bd bq (store w) (after (pg_service cache idem cfg E) c w)"
proof (cases c)
  case (CallCreate inp)
  obtain r w' where run: "CreateRequest (pg_service cache idem cfg E) inp w = (r, w')" by (cases "CreateRequest (pg_service cache idem cfg E) inp w")
  from pg_create [OF assms this] show ?thesis
    using CallCreate run by (cases r) (auto simp: steady_def
      intro: created_catalog refused_catalog created_evolves refused_evolves)
next
  case (CallConfirm i)
  obtain r w' where run: "Confirm (pg_service cache idem cfg E) i w = (r, w')" by (cases "Confirm (pg_service cache idem cfg E) i w")
  from pg_confirm [OF assms(1) this] show ?thesis
    using CallConfirm run by (auto simp: steady_def split: sum.splits intro: confirm_effect_catalog confirm_effect_evolves)
next
  case (CallCancel i)
  obtain r w' where run: "Cancel (pg_service cache idem cfg E) i w = (r, w')" by (cases "Cancel (pg_service cache idem cfg E) i w")
  from pg_cancel [OF assms(1) this] show ?thesis
    using CallCancel run by (auto simp: steady_def split: sum.splits intro: release_effect_catalog release_effect_evolves)
next
  case (CallExtend i)
  obtain r w' where run: "Extend (pg_service cache idem cfg E) i w = (r, w')" by (cases "Extend (pg_service cache idem cfg E) i w")
  from pg_extend [OF assms(1) this] show ?thesis
    using CallExtend run by (auto simp: steady_def split: sum.splits
      intro: extend_effect_catalog extend_effect_evolves extend_debris_catalog extend_debris_evolves)
next
  case CallExpireDue
  obtain r w' where run: "ExpireDue (pg_service cache idem cfg E) w = (r, w')" by (cases "ExpireDue (pg_service cache idem cfg E) w")
  from pg_expire [OF assms(1) this] show ?thesis
    using CallExpireDue run by (auto simp: steady_def split: sum.splits intro: swept_catalog swept_evolves)
next
  case (CallListCapacity cust)
  show ?thesis unfolding CallListCapacity after.simps
    by (rule quiet_steady [OF assms(1) assms(1) pg.ListCapacity_rule]) auto
next
  case CallListProducts
  show ?thesis unfolding CallListProducts after.simps
    by (rule quiet_steady [OF assms(1) assms(1) pg.ListProducts_rule]) auto
next
  case (CallGet i)
  show ?thesis unfolding CallGet after.simps
    by (rule quiet_steady [OF assms(1) assms(1) pg.GetRequest_rule]) auto
next
  case (CallList cust st)
  show ?thesis unfolding CallList after.simps
    by (rule quiet_steady [OF assms(1) assms(1) pg.ListRequests_rule]) auto
qed

lemma reachable_steady:
  assumes "reachable (pg_service cache idem cfg E) w0 w" and "sound bd bq w0" and "permutes_maps E"
  shows "steady bd bq (store w0) w"
  using assms(1)
proof (induction rule: reachable.induct)
  case start show ?case using assms(2) by (rule steady_refl)
next
  case (call w c)
  then have "sound bd bq w" by (blast intro: steady_sound [OF assms(2)])
  from steady_trans [OF call.IH after_steady [OF this assms(3)]] show ?case .
next
  case (meanwhile w w')
  then show ?case using steady_same by blast
qed

lemmas reachable_sound = steady_sound [OF _ reachable_steady]

end
