(* ===== verification/Sample_World.thy ===== *)
theory Sample_World
  imports Pg_Service Effect_Facts
begin

text \<open>
  A small concrete system on which the theorems are instantiated: two pools, one product, the default
  limits, no Redis. \<open>idle\<close> has no requests yet; in \<open>busy\<close> one request of customer
  \<^verbatim>\<open>acme\<close> holds three cores until time 900.
\<close>

definition sample_env :: environment where
  "sample_env = \<lparr>en_uuid_String = (\<lambda>u. decimal (uuid_num u)), en_uuid_Parse = (\<lambda>_. None), en_sha256_hex = (\<lambda>s. s),
     en_marshal_views = (\<lambda>_. None), en_unmarshal_views = (\<lambda>_. None), en_range = (\<lambda>xs. xs)\<rparr>"

definition sample_cfg :: config where
  "sample_cfg = snd (Load (\<lambda>_. None) (\<lambda>_. None) (\<lambda>_. ''''))"

definition sample_pools :: "int \<Rightarrow> resource_pool list" where
  "sample_pools reserved =
     [\<lparr>rp_ID = UUID 1, rp_Kind = ''cpu'', rp_Unit = ''core'', rp_Total = 10, rp_OversubscribeFactor = F64 1 0,
       rp_DedicatedAmount = 0, rp_ReservedAmount = reserved,
       rp_Policy = \<lparr>pp_Splittable = True, pp_MinGrain = 1, pp_MaxGrain = 0\<rparr>, rp_CreatedAt = 0, rp_UpdatedAt = 0\<rparr>,
      \<lparr>rp_ID = UUID 2, rp_Kind = ''ram'', rp_Unit = ''gib'', rp_Total = 20, rp_OversubscribeFactor = F64 1 0,
       rp_DedicatedAmount = 0, rp_ReservedAmount = 0,
       rp_Policy = \<lparr>pp_Splittable = True, pp_MinGrain = 1, pp_MaxGrain = 0\<rparr>, rp_CreatedAt = 0, rp_UpdatedAt = 0\<rparr>]"

definition sample_products :: "product list" where
  "sample_products = [\<lparr>pd_ID = UUID 3, pd_Code = ''vm'', pd_Name = ''VM'',
     pd_ResourceTemplate = [(''ram'', 4), (''cpu'', 2)], pd_CreatedAt = 0\<rparr>]"

definition idle_tables :: tables where
  "idle_tables = \<lparr>t_pools = sample_pools 0, t_products = sample_products, t_quotas = [], t_requests = [],
     t_lines = [], t_holds = [], t_dedications = [], t_events = []\<rparr>"

definition busy_request :: capacity_request where
  "busy_request = \<lparr>cr_ID = UUID 10, cr_CustomerID = ''acme'', cr_IdempotencyKey = ''k1'', cr_BodyHash = ''h'',
     cr_ProductID = None, cr_Quantity = 1, cr_Status = StatusReserved, cr_RejectReason = None,
     cr_ExpiresAt = Some (900 * second), cr_ExtensionCount = 0, cr_CorrelationID = ''c'', cr_CreatedAt = 0, cr_UpdatedAt = 0\<rparr>"

definition busy_tables :: tables where
  "busy_tables = \<lparr>t_pools = sample_pools 3, t_products = sample_products,
     t_quotas = [\<lparr>cq_ID = UUID 0, cq_CustomerID = ''acme'', cq_ResourceKind = ''cpu'', cq_Limit = 10000,
       cq_UsedAmount = 3, cq_CreatedAt = 0, cq_UpdatedAt = 0\<rparr>],
     t_requests = [busy_request],
     t_lines = [\<lparr>ln_ID = UUID 11, ln_RequestID = UUID 10, ln_PoolID = UUID 1, ln_Kind = ''cpu'', ln_Amount = 3\<rparr>],
     t_holds = [\<lparr>hd_ID = UUID 12, hd_RequestID = UUID 10, hd_PoolID = UUID 1, hd_Amount = 3, hd_Status = HoldActive,
       hd_CreatedAt = 0, hd_UpdatedAt = 0\<rparr>],
     t_dedications = [],
     t_events = [\<lparr>ev_ID = UUID 13, ev_RequestID = UUID 10, ev_EventType = EventReserved, ev_Reason = '''', ev_At = 0\<rparr>]\<rparr>"

definition world_of :: "tables \<Rightarrow> time \<Rightarrow> (pg_state, unit) world" where
  "world_of t now = \<lparr>w_repo = \<lparr>pg_tables = t, pg_now = now, pg_gen = (\<lambda>n. UUID (1000 + n)), pg_drawn = 0,
       pg_faults = [], pg_advisory = [], pg_next_session = 0, lk_conn = None, lk_key = 0\<rparr>,
     w_redis = (), w_clock = (\<lambda>_. now), w_tick = 0, w_uuids = (\<lambda>n. UUID (100 + n)), w_drawn = 0,
     w_metrics = newMetrics\<rparr>"

definition sample_service :: "(pg_state, unit) capacity_service" where
  "sample_service = pg_service NoopCache NoopIdempotency sample_cfg sample_env"

definition order :: "string \<Rightarrow> string \<Rightarrow> int \<Rightarrow> create_input" where
  "order key kind n = \<lparr>ci_CustomerID = ''acme'', ci_IdempotencyKey = key, ci_ProductCode = '''', ci_Quantity = 0,
     ci_Lines = [\<lparr>li_ResourceKind = kind, li_Amount = n\<rparr>], ci_CorrelationID = ''c''\<rparr>"

definition idle :: "(pg_state, unit) world" where "idle = world_of idle_tables 0"
definition busy :: "(pg_state, unit) world" where "busy = world_of busy_tables 0"
definition late :: "(pg_state, unit) world" where "late = world_of busy_tables (1000 * second)"

lemma sample_range: "permutes_maps sample_env"
  by (simp add: permutes_maps_def sample_env_def)

lemma sample_effective [simp]:
  "map effective (sample_pools n) = [10, 20]"
  by (simp add: sample_pools_def effective_def) code_simp

subsection \<open>The sample worlds are sound\<close>

lemma world_of_sel [simp]:
  "store (world_of t now) = unstamp t" "pg_inv (w_repo (world_of t now)) = schema_ok t"
  "w_clock (world_of t now) = (\<lambda>_. now)" "w_tick (world_of t now) = 0"
  by (simp_all add: world_of_def store_def pg_view_def pg_inv_def)

lemma sample_pools_unstamp [simp]: "map unstamp_pool (sample_pools n) = sample_pools n"
  by (simp add: sample_pools_def unstamp_pool_def)

lemma idle_unstamp [simp]: "unstamp idle_tables = idle_tables"
  by (simp add: unstamp_def idle_tables_def)

lemma busy_unstamp [simp]: "unstamp busy_tables = busy_tables"
  by (simp add: unstamp_def busy_tables_def unstamp_quota_def unstamp_request_def busy_request_def unstamp_hold_def)

lemma sample_pools_ok:
  assumes "0 \<le> n" and "n \<le> 10" and "t_pools t = sample_pools n"
  shows "pools_ok t"
  using assms sample_effective [of n]
  by (simp add: pools_ok_def sample_pools_def pool_ok_def maxAmount_def)

lemma sample_catalog: "t_pools t = sample_pools n \<Longrightarrow> t_products t = sample_products \<Longrightarrow> catalog_ok t"
  by (simp add: catalog_ok_def pool_kinds_def sample_pools_def sample_products_def)

lemma sound_world:
  assumes "unstamp t = t" and "schema_ok t" and "ledger bd bq t" and "catalog_ok t"
  shows "sound bd bq (world_of t now)"
  using assms by (simp add: sound_def)

lemma sound_idle: "sound (\<lambda>_. 0) (\<lambda>_. 0) idle"
  unfolding idle_def
proof (rule sound_world)
  show "ledger (\<lambda>_. 0) (\<lambda>_. 0) idle_tables"
    using sample_pools_ok [of 0 idle_tables]
    by (simp add: ledger_def book_def tally_def refs_ok_def status_ok_def quotas_ok_def requests_distinct_def
        holds_distinct_def used_in_def idle_tables_def sample_pools_def)
next
  show "schema_ok idle_tables" by (simp add: schema_ok_def idle_tables_def sample_pools_def)
next
  show "catalog_ok idle_tables" by (rule sample_catalog [of _ 0]) (simp_all add: idle_tables_def)
qed (rule idle_unstamp)

lemma busy_facts:
  "find_request (UUID 10) busy_tables = Some busy_request" "customer_of busy_tables (UUID 10) = Some ''acme''"
  "kind_of busy_tables (UUID 1) = Some ''cpu''"
  by (simp_all add: find_request_def busy_tables_def customer_of_def busy_request_def kind_of_def sample_pools_def)

lemma ledger_busy: "ledger (\<lambda>_. 0) (\<lambda>_. 0) busy_tables"
proof -
  have "tally (\<lambda>_. 0) (\<lambda>_. 0) (\<lambda>_. 0) busy_tables"
    using busy_facts
    by (auto simp: tally_def used_in_def used_by_def busy_tables_def sample_pools_def quota_key_def live_def quota_keys_def)
  moreover have "pools_ok busy_tables" by (rule sample_pools_ok [of 3]) (simp_all add: busy_tables_def)
  moreover have "refs_ok busy_tables"
    using busy_facts by (simp add: refs_ok_def request_ids_def) (simp add: busy_tables_def busy_request_def)
  moreover have "quotas_ok busy_tables" "requests_distinct busy_tables" "holds_distinct busy_tables" "status_ok busy_tables"
    by (simp_all add: quotas_ok_def requests_distinct_def holds_distinct_def status_ok_def quota_ok_def busy_tables_def
        in_i64_def busy_request_def)
  ultimately show ?thesis by (simp add: ledger_def book_def)
qed

lemma schema_busy: "schema_ok busy_tables"
  by (simp add: schema_ok_def busy_tables_def sample_pools_def)

lemma catalog_busy: "catalog_ok busy_tables"
  by (rule sample_catalog [of _ 3]) (simp_all add: busy_tables_def)

lemmas sound_busy_world = sound_world [OF busy_unstamp schema_busy ledger_busy catalog_busy]

lemma sound_busy: "sound (\<lambda>_. 0) (\<lambda>_. 0) busy" "sound (\<lambda>_. 0) (\<lambda>_. 0) late"
  unfolding busy_def late_def by (rule sound_busy_world)+

lemma idle_store [simp]: "store idle = idle_tables" "store busy = busy_tables" "store late = busy_tables"
  by (simp_all add: idle_def busy_def late_def)

text \<open>A run whose result is known by evaluation.\<close>

lemma run_result: "fst x = r \<Longrightarrow> x = (r, snd x)"
  by (cases x) simp

end
