(* ===== verification/Run_Facts.thy ===== *)
theory Run_Facts
  imports Reachable_States Sample_World
begin

text \<open>
  Consequences of the effects that the properties of the service are stated with: the counters and rows
  of a new reservation, the state of a request after it was confirmed, cancelled, extended or expired,
  and the bounds that hold of every request ever since it was created.
\<close>

subsection \<open>New reservations\<close>

lemma unstamp_request_upd [simp]:
  "cr_ID (unstamp_request r) = cr_ID r" "cr_Status (unstamp_request r) = cr_Status r"
  "cr_ExpiresAt (unstamp_request r) = cr_ExpiresAt r" "cr_CustomerID (unstamp_request r) = cr_CustomerID r"
  "cr_ExtensionCount (unstamp_request r) = cr_ExtensionCount r" "cr_CreatedAt (unstamp_request r) = cr_CreatedAt r"
  "cr_IdempotencyKey (unstamp_request r) = cr_IdempotencyKey r" "cr_BodyHash (unstamp_request r) = cr_BodyHash r"
  by (simp_all add: unstamp_request_def)

text \<open>What is asked of pool \<open>i\<close>, and of the quota \<open>ck\<close>, by customer \<open>c\<close>.\<close>

definition asked_pool :: "tables \<Rightarrow> (string \<times> int) list \<Rightarrow> uuid \<Rightarrow> int" where
  "asked_pool t amounts i = sum_list (map (\<lambda>(k, n). if pool_of t k = i then n else 0) amounts)"

definition asked_quota :: "string \<Rightarrow> (string \<times> int) list \<Rightarrow> string \<times> string \<Rightarrow> int" where
  "asked_quota c amounts ck = sum_list (map (\<lambda>(k, n). if ck = (c, k) then n else 0) amounts)"

lemma unstamp_add_holds [simp]: "map unstamp_hold hs = [] \<longleftrightarrow> hs = []" by simp

lemma spec_insert_reserved_sel [simp]:
  "t_pools (spec_insert_reserved req ls hs ev t) = t_pools t"
  "t_quotas (spec_insert_reserved req ls hs ev t) = t_quotas t"
  "t_requests (spec_insert_reserved req ls hs ev t) = t_requests t @ [unstamp_request req]"
  "t_lines (spec_insert_reserved req ls hs ev t) = t_lines t @ ls"
  "t_holds (spec_insert_reserved req ls hs ev t) = t_holds t @ map unstamp_hold hs"
  "t_events (spec_insert_reserved req ls hs ev t) = t_events t @ [ev]"
  "t_dedications (spec_insert_reserved req ls hs ev t) = t_dedications t"
  "t_products (spec_insert_reserved req ls hs ev t) = t_products t"
  by (simp_all add: spec_insert_reserved_def)

lemma quota_used_insert [simp]:
  "quota_used (spec_insert_reserved req ls hs ev t) ck = quota_used t ck"
  by (simp add: quota_used_def)

text \<open>
  The rows a reservation of \<open>amounts\<close> by request \<open>i\<close> is stored with: one line per amount, tagged with
  the request and with the pool of its kind, in the order of the pool ids; and for every line one ACTIVE
  hold of the same request, pool and amount.
\<close>

definition placed ::
    "environment \<Rightarrow> tables \<Rightarrow> uuid \<Rightarrow> time \<Rightarrow> (string \<times> int) list \<Rightarrow> request_line list \<Rightarrow> hold list \<Rightarrow> bool" where
  "placed E t i now amounts ls hs \<longleftrightarrow>
     mset (map (\<lambda>l. (ln_Kind l, ln_Amount l)) ls) = mset amounts \<and>
     (\<forall>l \<in> set ls. ln_RequestID l = i \<and> ln_PoolID l = pool_of t (ln_Kind l)) \<and>
     sorted (map (\<lambda>l. en_uuid_String E (ln_PoolID l)) ls) \<and>
     map (\<lambda>h. (hd_PoolID h, hd_Amount h)) hs = map (\<lambda>l. (ln_PoolID l, ln_Amount l)) ls \<and>
     (\<forall>h \<in> set hs. hd_RequestID h = i \<and> hd_Status h = HoldActive \<and> hd_CreatedAt h = now)"

lemma lines_for_maps:
  assumes "lines_for i plans ls"
  shows "map (\<lambda>l. (ln_Kind l, ln_Amount l)) ls = map (\<lambda>p. (pl_kind p, pl_amount p)) plans"
    and "map ln_PoolID ls = map pl_poolID plans"
    and "map (\<lambda>l. (ln_PoolID l, ln_Amount l)) ls = map (\<lambda>p. (pl_poolID p, pl_amount p)) plans"
  using assms unfolding lines_for_def by (induction rule: list_all2_induct) auto

lemma unstamp_hold_created [simp]: "hd_CreatedAt (unstamp_hold h) = hd_CreatedAt h"
  by (simp add: unstamp_hold_def)

lemma holds_for_maps:
  assumes "holds_for i now plans hs"
  shows "map (\<lambda>h. (hd_PoolID h, hd_Amount h)) (map unstamp_hold hs) = map (\<lambda>p. (pl_poolID p, pl_amount p)) plans"
    and "\<forall>h \<in> set (map unstamp_hold hs). hd_RequestID h = i \<and> hd_Status h = HoldActive \<and> hd_CreatedAt h = now"
  using assms unfolding holds_for_def list_all2_conv_all_nth
  by (auto simp: list_eq_iff_nth_eq in_set_conv_nth)

lemma placed_rows:
  assumes "planned E t inp product plans" and "pools_ok t" and "lines_for i plans ls" and "holds_for i now plans hs"
  shows "placed E t i now (wanted inp product) ls (map unstamp_hold hs)"
proof -
  have "ln_RequestID l = i \<and> ln_PoolID l = pool_of t (ln_Kind l)" if "l \<in> set ls" for l
  proof -
    from lines_for_member [OF assms(3) that] obtain p where
      p: "p \<in> set plans" "ln_RequestID l = i" "ln_PoolID l = pl_poolID p" "ln_Kind l = pl_kind p" by blast
    with assms(1) have "kind_of t (pl_poolID p) = Some (pl_kind p)" by (simp add: planned_def plan_ok_def)
    from pool_of_kind [OF assms(2) this] p show ?thesis by simp
  qed
  moreover have "map (\<lambda>l. en_uuid_String E (ln_PoolID l)) ls = map (\<lambda>p. en_uuid_String E (pl_poolID p)) plans"
    using arg_cong [OF lines_for_maps(2) [OF assms(3)], of "map (en_uuid_String E)"] by (simp add: comp_def)
  ultimately show ?thesis
    using assms(1) lines_for_maps(1,3) [OF assms(3)] holds_for_maps [OF assms(4)]
    unfolding placed_def planned_def by metis
qed

lemma reserved_effect_facts:
  assumes "reserved_effect E cfg inp hash now t req t'" and "pools_ok t"
  obtains product evID ls hs where
    "ci_ProductCode inp = '''' \<and> product = None \<or>
       find (\<lambda>p. pd_Code p = ci_ProductCode inp) (t_products t) = product \<and> product \<noteq> None"
    "t_pools t' = shift_pools (asked_pool t (wanted inp product)) (\<lambda>_. 0) (t_pools t)"
    "\<And>ck. quota_used t' ck = quota_used t ck + asked_quota (ci_CustomerID inp) (wanted inp product) ck"
    "t_requests t' = t_requests t @ [unstamp_request req]" "cr_Status req = StatusReserved"
    "cr_ExpiresAt req = Some (now + cfg_ReserveTTL cfg)" "cr_CreatedAt req = now" "cr_ExtensionCount req = 0"
    "cr_CustomerID req = ci_CustomerID inp" "cr_IdempotencyKey req = ci_IdempotencyKey inp" "cr_BodyHash req = hash"
    "cr_ProductID req = map_option pd_ID product" "cr_Quantity req = resolvedQuantity inp"
    "t_lines t' = t_lines t @ ls" "t_holds t' = t_holds t @ hs"
    "placed E t (cr_ID req) now (wanted inp product) ls hs"
    "t_events t' = t_events t @ [event_at evID (cr_ID req) EventReserved '''' now]"
    "t_dedications t' = t_dedications t" "t_products t' = t_products t"
proof -
  from assms(1) obtain plans product reqID ls hs evID where p: "planned E t inp product plans"
    and req: "req = reserved_request inp product reqID now (now + cfg_ReserveTTL cfg) hash"
    and rows: "lines_for reqID plans ls" "holds_for reqID now plans hs"
    and t': "t' = spec_insert_reserved req ls hs
          \<lparr>ev_ID = evID, ev_RequestID = reqID, ev_EventType = EventReserved, ev_Reason = '''', ev_At = now\<rparr>
          (reserve_all (ci_CustomerID inp) plans t)"
    unfolding reserved_effect_def by blast
  have on: "plan_on plans = asked_pool t (wanted inp product)"
    using plan_on_wanted [OF p assms(2)] by (auto simp: asked_pool_def fun_eq_iff)
  have used: "plan_used (ci_CustomerID inp) plans = asked_quota (ci_CustomerID inp) (wanted inp product)"
    using plan_used_wanted [OF p] by (auto simp: asked_quota_def fun_eq_iff)
  show thesis
  proof (rule that [of product ls "map unstamp_hold hs" evID])
    show "ci_ProductCode inp = '''' \<and> product = None \<or>
       find (\<lambda>p. pd_Code p = ci_ProductCode inp) (t_products t) = product \<and> product \<noteq> None"
      using p unfolding planned_def by (metis (no_types))
    show "t_pools t' = shift_pools (asked_pool t (wanted inp product)) (\<lambda>_. 0) (t_pools t)"
      by (simp add: t' reserve_all_pools on)
    show "quota_used t' ck = quota_used t ck + asked_quota (ci_CustomerID inp) (wanted inp product) ck" for ck
      by (simp add: t' reserve_all_quotas used)
    show "placed E t (cr_ID req) now (wanted inp product) ls (map unstamp_hold hs)"
      using placed_rows [OF p assms(2) rows] by (simp add: req reserved_request_def)
  qed (simp_all add: t' req reserved_request_def event_at_def)
qed

lemma find_request_append:
  assumes "t_requests t' = t_requests t @ [r]" and "requests_distinct t'"
  shows "find_request (cr_ID r) t = None" "find_request (cr_ID r) t' = Some r"
proof -
  have "cr_ID r \<notin> cr_ID ` set (t_requests t)" using assms by (auto simp: requests_distinct_def)
  then show none: "find_request (cr_ID r) t = None"
    unfolding find_request_def find_None_iff_key .
  then show "find_request (cr_ID r) t' = Some r"
    unfolding find_request_def assms(1) find_append by simp
qed

lemma find_request_member: "find_request i t = Some r \<Longrightarrow> r \<in> set (t_requests t) \<and> cr_ID r = i"
  unfolding find_request_def by (rule find_SomeD)

lemma replays_known:
  assumes "replays t hash req"
  shows "find_request (cr_ID req) t \<noteq> None"
  using assms imageI [of "unstamp_request req" "set (t_requests t)" cr_ID]
  unfolding replays_def find_request_def find_None_iff_key by simp

lemma debris_rejected:
  assumes "rejection_debris E inp hash now t t'" and "replays_own t' inp hash req" and "find_request (cr_ID req) t = None"
  shows "cr_Status req = StatusRejected"
proof -
  have mem: "unstamp_request req \<in> set (t_requests t')" using assms(2) by (simp add: replays_own_def replays_def)
  have "unstamp_request req \<notin> set (t_requests t)"
    using assms(3) imageI [of "unstamp_request req" "set (t_requests t)" cr_ID]
    unfolding find_request_def find_None_iff_key by auto
  then obtain r where "unstamp_request req = unstamp_request r" "cr_Status r = StatusRejected"
    using mem assms(1) by (auto simp: rejection_debris_def rejected_request_def)
  then show ?thesis by (metis unstamp_request_upd(2))
qed

text \<open>The four outcomes of a creation, told apart by what is returned.\<close>

lemma created_new_reserved:
  assumes "created E cfg inp hash now t req t'" and "cr_Status req = StatusReserved"
    and "find_request (cr_ID req) t = None"
  shows "reserved_effect E cfg inp hash now t req t' \<and> under_limit cfg (ci_CustomerID inp) t"
  using assms debris_rejected replays_known
  by (fastforce simp: created_def rejected_effect_def rejected_request_def)

lemma created_otherwise:
  assumes "created E cfg inp hash now t req t'" and "requests_distinct t'"
    and "cr_Status req \<noteq> StatusReserved \<or> find_request (cr_ID req) t \<noteq> None"
  shows "same_capacity t t'"
proof -
  have "\<not> reserved_effect E cfg inp hash now t req t'"
  proof
    assume r: "reserved_effect E cfg inp hash now t req t'"
    then have rq: "t_requests t' = t_requests t @ [unstamp_request req]" "cr_Status req = StatusReserved"
      by (auto simp: reserved_effect_def reserved_request_def)
    from find_request_append(1) [OF rq(1) assms(2)] rq(2) assms(3) show False by simp
  qed
  with assms(1) show ?thesis
    by (auto simp: created_def dest: rejected_same_capacity debris_same_capacity)
qed

lemma refused_same_capacity: "refused E inp hash now t t' \<Longrightarrow> same_capacity t t'"
  by (auto simp: refused_def dest: debris_same_capacity)

subsection \<open>Finished requests\<close>

lemma is_reserved_frame: "t_requests u = t_requests t \<Longrightarrow> is_reserved i u = is_reserved i t"
  by (simp add: is_reserved_def)

lemma active_holds_moved:
  assumes "moved (\<lambda>h. hd_RequestID h = i) dst t u" and "dst \<noteq> HoldActive"
  shows "active_holds i u = []"
proof -
  have "filter (\<lambda>h. hd_RequestID h = i \<and> hd_Status h = HoldActive)
      (flip_holds (\<lambda>h. hd_RequestID h = i) dst hs) = []" for hs
    using assms(2) by (induction hs) (auto simp: flip_holds_def)
  then show ?thesis using assms(1) by (simp only: moved_def active_holds_def)
qed

lemma spec_finish_sel:
  assumes "is_reserved i u"
  shows "t_requests (spec_finish i st ds ev u) = set_status i st (t_requests u)"
    "t_holds (spec_finish i st ds ev u) = t_holds u" "t_lines (spec_finish i st ds ev u) = t_lines u"
    "t_dedications (spec_finish i st ds ev u) = t_dedications u @ ds"
    "t_events (spec_finish i st ds ev u) = t_events u @ [ev]"
  using assms by (simp_all add: spec_finish_def)

lemma find_set_status:
  assumes "requests_distinct t" and "find_request i t = Some r" and "cr_Status r = StatusReserved"
    and "t_requests t' = set_status i st (t_requests t)"
  shows "find_request i t' = Some (r\<lparr>cr_Status := st\<rparr>)"
proof -
  have keys: "map cr_ID (t_requests t') = map cr_ID (t_requests t)"
    unfolding assms(4) set_status_def by (rule map_mapWhere_same) simp
  have d: "distinct (map cr_ID (t_requests t'))" using assms(1) keys by (simp add: requests_distinct_def)
  have "r\<lparr>cr_Status := st\<rparr> \<in> set (t_requests t')"
    using find_request_member [OF assms(2)] assms(3) unfolding assms(4) set_status_member by force
  with d find_request_member [OF assms(2)] show ?thesis
    unfolding find_request_def by (simp add: find_Some_iff_distinct)
qed

text \<open>
  \<open>finished\<close>: request \<open>i\<close> went from RESERVED to \<open>st\<close>, its holds from ACTIVE to \<open>dst\<close>, one
  event of type \<open>et\<close> was recorded, and every other row but the counters and dedications stayed.
\<close>

definition finished ::
    "uuid \<Rightarrow> request_status \<Rightarrow> hold_status \<Rightarrow> event_type \<Rightarrow> string \<Rightarrow> time \<Rightarrow> tables \<Rightarrow> tables \<Rightarrow> bool" where
  "finished i st dst et reason now t t' \<longleftrightarrow>
     (\<exists>r. find_request i t = Some r \<and> cr_Status r = StatusReserved \<and>
        find_request i t' = Some (r\<lparr>cr_Status := st\<rparr>)) \<and>
     t_requests t' = set_status i st (t_requests t) \<and>
     t_holds t' = flip_holds (\<lambda>h. hd_RequestID h = i) dst (t_holds t) \<and> active_holds i t' = [] \<and>
     (\<exists>evID. t_events t' = t_events t @ [event_at evID i et reason now]) \<and>
     t_lines t' = t_lines t \<and> t_products t' = t_products t"

lemma moved_finished:
  assumes l: "ledger bd bq t" and res: "is_reserved i t" and m: "moved (\<lambda>h. hd_RequestID h = i) dst t u"
    and dst: "dst \<noteq> HoldActive" and t': "t' = spec_finish i st ds (event_at evID i et reason now) u"
  shows "finished i st dst et reason now t t'" and "t_dedications t' = t_dedications t @ ds"
proof -
  have d: "requests_distinct t" using l by (simp add: ledger_def book_def)
  obtain r where r: "find_request i t = Some r" "cr_Status r = StatusReserved"
    using res unfolding is_reserved_has_status [OF d] has_status_def by blast
  have u: "t_requests u = t_requests t" "t_holds u = flip_holds (\<lambda>h. hd_RequestID h = i) dst (t_holds t)"
    "t_events u = t_events t" "t_lines u = t_lines t" "t_products u = t_products t" "t_dedications u = t_dedications t"
    using m by (simp_all add: moved_def)
  note sel = spec_finish_sel [of i u st ds "event_at evID i et reason now", unfolded is_reserved_frame [OF u(1)], OF res]
  have rq: "t_requests t' = set_status i st (t_requests t)" using sel u by (simp add: t')
  have "active_holds i t' = []" using active_holds_moved [OF m dst] sel(2) by (simp add: t' active_holds_def)
  moreover have "t_products t' = t_products t" using u(5) by (simp add: t' spec_finish_def)
  moreover note find_set_status [OF d r rq]
  ultimately show "finished i st dst et reason now t t'"
    using r rq sel u by (auto simp: finished_def t')
  show "t_dedications t' = t_dedications t @ ds" using sel u by (simp add: t')
qed

lemma confirm_facts:
  assumes "ledger bd bq t" and "ledger bd bq t'" and "confirm_effect i now t t'"
  shows "finished i StatusCompleted HoldDedicated EventConfirmed '''' now t t'"
    and "t_pools t' = shift_pools (\<lambda>p. - held i t p) (held i t) (t_pools t)"
    and "t_quotas t' = t_quotas t"
    and "\<exists>hs ds. lists_active i t hs \<and> dedications_for i now hs ds \<and> t_dedications t' = t_dedications t @ ds"
proof -
  from assms(3) obtain u hs ds evID where res: "is_reserved i t"
    and m: "moved (\<lambda>h. hd_RequestID h = i) HoldDedicated t u" and hs: "lists_active i t hs" "dedications_for i now hs ds"
    and t': "t' = spec_finish i StatusCompleted ds (event_at evID i EventConfirmed '''' now) u"
    unfolding confirm_effect_def by blast
  show "finished i StatusCompleted HoldDedicated EventConfirmed '''' now t t'"
    by (rule moved_finished [OF assms(1) res m _ t']) simp
  show "t_pools t' = shift_pools (\<lambda>p. - held i t p) (held i t) (t_pools t)" "t_quotas t' = t_quotas t"
    using moved_counters [OF assms(1) m assms(2) t'] by simp_all
  show "\<exists>hs ds. lists_active i t hs \<and> dedications_for i now hs ds \<and> t_dedications t' = t_dedications t @ ds"
    using hs moved_finished(2) [OF assms(1) res m _ t'] by auto
qed

lemma release_facts:
  assumes "ledger bd bq t" and "ledger bd bq t'" and "release_effect i st now t t'"
  shows "finished i st (if st = StatusExpired then HoldExpired else HoldReleased)
      (if st = StatusExpired then EventExpired else EventCancelled) (status_string st) now t t'"
    and "t_pools t' = shift_pools (\<lambda>p. - held i t p) (\<lambda>_. 0) (t_pools t)"
    and "t_quotas t' = shift_quotas (\<lambda>ck. - held_quota i t ck) (t_quotas t)"
    and "t_dedications t' = t_dedications t"
proof -
  let ?dst = "if st = StatusExpired then HoldExpired else HoldReleased"
  from assms(3) obtain u evID where res: "is_reserved i t" and m: "moved (\<lambda>h. hd_RequestID h = i) ?dst t u"
    and t': "t' = spec_finish i st [] (event_at evID i (if st = StatusExpired then EventExpired else EventCancelled)
               (status_string st) now) u"
    unfolding release_effect_def by blast
  have dst: "?dst \<noteq> HoldActive" "?dst \<noteq> HoldDedicated" by simp_all
  show "finished i st ?dst (if st = StatusExpired then EventExpired else EventCancelled) (status_string st) now t t'"
    by (rule moved_finished(1) [OF assms(1) res m dst(1) t'])
  show "t_pools t' = shift_pools (\<lambda>p. - held i t p) (\<lambda>_. 0) (t_pools t)"
    "t_quotas t' = shift_quotas (\<lambda>ck. - held_quota i t ck) (t_quotas t)"
    using moved_counters [OF assms(1) m assms(2) t' dst(1)] dst(2) by simp_all
  show "t_dedications t' = t_dedications t" using moved_finished(2) [OF assms(1) res m dst(1) t'] by simp
qed

lemma set_status_other: "j \<noteq> i \<Longrightarrow> find (\<lambda>r. cr_ID r = j) (set_status i st rs) = find (\<lambda>r. cr_ID r = j) rs"
  by (induction rs) (auto simp: set_status_def)

lemma finished_others:
  "finished i st dst et reason now t t' \<Longrightarrow> j \<noteq> i \<Longrightarrow> find_request j t' = find_request j t"
  by (simp add: finished_def find_request_def set_status_other)

lemma distinct_set_status:
  "requests_distinct t \<Longrightarrow> t_requests t' = set_status i st (t_requests t) \<Longrightarrow> requests_distinct t'"
  by (simp add: requests_distinct_def set_status_def map_mapWhere_same)

subsection \<open>Sweeps\<close>

lemma flip_flip:
  assumes "dst \<noteq> HoldActive" and "\<And>h. v (h\<lparr>hd_Status := dst\<rparr>) = v h"
  shows "flip_holds v dst (flip_holds w dst hs) = flip_holds (\<lambda>h. w h \<or> v h) dst hs"
  using assms by (induction hs) (auto simp: flip_holds_def)

lemma release_requests:
  assumes "release_effect i StatusExpired now t t'"
  shows "t_requests t' = set_status i StatusExpired (t_requests t)"
    "t_holds t' = flip_holds (\<lambda>h. hd_RequestID h = i) HoldExpired (t_holds t)"
    "\<exists>e. t_events t' = t_events t @ [e] \<and> ev_RequestID e = i \<and> ev_EventType e = EventExpired"
    "t_lines t' = t_lines t" "t_dedications t' = t_dedications t"
proof -
  from assms obtain u evID where res: "is_reserved i t" and m: "moved (\<lambda>h. hd_RequestID h = i) HoldExpired t u"
    and t': "t' = spec_finish i StatusExpired [] (event_at evID i EventExpired (status_string StatusExpired) now) u"
    unfolding release_effect_def by auto
  have u: "t_requests u = t_requests t" "t_holds u = flip_holds (\<lambda>h. hd_RequestID h = i) HoldExpired (t_holds t)"
    "t_events u = t_events t" "t_lines u = t_lines t" "t_dedications u = t_dedications t"
    using m by (simp_all add: moved_def)
  note sel = spec_finish_sel [OF res [folded is_reserved_frame [OF u(1)]]]
  show "t_requests t' = set_status i StatusExpired (t_requests t)"
    "t_holds t' = flip_holds (\<lambda>h. hd_RequestID h = i) HoldExpired (t_holds t)"
    "\<exists>e. t_events t' = t_events t @ [e] \<and> ev_RequestID e = i \<and> ev_EventType e = EventExpired"
    "t_lines t' = t_lines t" "t_dedications t' = t_dedications t"
    by (simp_all add: t' sel u event_at_def)
qed

lemma chain_facts:
  assumes "expire_chain is t t'" and "distinct is" and "requests_distinct t"
  shows "j \<notin> set is \<Longrightarrow> find_request j t' = find_request j t"
    and "j \<in> set is \<Longrightarrow> find_request j t = Some r \<Longrightarrow> cr_Status r = StatusReserved \<Longrightarrow>
      find_request j t' = Some (r\<lparr>cr_Status := StatusExpired\<rparr>)"
    and "t_holds t' = flip_holds (\<lambda>h. hd_RequestID h \<in> set is) HoldExpired (t_holds t)"
    and "length (t_events t') = length (t_events t) + length is"
  using assms
proof (induction "is" arbitrary: t)
  case Nil
  {
    case 1 then show ?case by simp
  next
    case 2 then show ?case by simp
  next
    case 3 then show ?case by (simp add: flip_holds_def mapWhere_none)
  next
    case 4 then show ?case by simp
  }
next
  case (Cons i "is")
  {
    case 1
    then obtain u now where u: "release_effect i StatusExpired now t u" "expire_chain is u t'" by auto
    have "find_request j u = find_request j t"
      using 1(1) by (simp add: find_request_def release_requests(1) [OF u(1)] set_status_other)
    with Cons.IH(1) [OF _ u(2)] 1 distinct_set_status [OF 1(4) release_requests(1) [OF u(1)]] show ?case by simp
  next
    case 2
    then obtain u now where u: "release_effect i StatusExpired now t u" "expire_chain is u t'" by auto
    note rq = release_requests(1) [OF u(1)]
    note d = distinct_set_status [OF 2(6) rq]
    show ?case
    proof (cases "j = i")
      case True
      with 2 have "find_request j u = Some (r\<lparr>cr_Status := StatusExpired\<rparr>)"
        using find_set_status [OF 2(6)] rq by simp
      with Cons.IH(1) [OF _ u(2) _ d] 2 True show ?thesis by simp
    next
      case False
      then have "find_request j u = find_request j t" by (simp add: find_request_def rq set_status_other)
      with Cons.IH(2) [OF _ _ _ u(2) _ d] 2 False show ?thesis by simp
    qed
  next
    case 3
    then obtain u now where u: "release_effect i StatusExpired now t u" "expire_chain is u t'" by auto
    from Cons.IH(3) [OF u(2) _ distinct_set_status [OF 3(3) release_requests(1) [OF u(1)]]] 3
    show ?case by (simp add: release_requests(2) [OF u(1)] flip_flip)
  next
    case 4
    then obtain u now where u: "release_effect i StatusExpired now t u" "expire_chain is u t'" by auto
    from Cons.IH(4) [OF u(2) _ distinct_set_status [OF 4(3) release_requests(1) [OF u(1)]]] 4 release_requests(3) [OF u(1)]
    show ?case by auto
  }
qed

lemma sum_pick:
  "distinct is \<Longrightarrow> sum_list (map (\<lambda>i. if x = i then a else 0) is) = (if x \<in> set is then a else (0 :: int))"
  by (induction "is") auto

lemma on_pool_flip_set:
  assumes "distinct is"
  shows "on_pool HoldActive p (flip_holds (\<lambda>h. hd_RequestID h \<in> set is) HoldExpired hs) = on_pool HoldActive p hs -
     sum_list (map (\<lambda>i. on_pool HoldActive p (filter (\<lambda>h. hd_RequestID h = i \<and> hd_Status h = HoldActive) hs)) is)"
proof (induction hs)
  case Nil
  have "sum_list (map (\<lambda>_. 0) is) = (0 :: int)" by (induction "is") auto
  then show ?case by (simp add: flip_holds_def)
next
  case (Cons h hs)
  let ?a = "if hd_PoolID h = p \<and> hd_Status h = HoldActive then hd_Amount h else 0"
  have "(\<lambda>i. on_pool HoldActive p (filter (\<lambda>h. hd_RequestID h = i \<and> hd_Status h = HoldActive) (h # hs))) =
     (\<lambda>i. (if hd_RequestID h = i then ?a else 0) +
        on_pool HoldActive p (filter (\<lambda>h. hd_RequestID h = i \<and> hd_Status h = HoldActive) hs))"
    by (auto simp: fun_eq_iff)
  then have "sum_list (map (\<lambda>i. on_pool HoldActive p (filter (\<lambda>h. hd_RequestID h = i \<and> hd_Status h = HoldActive) (h # hs))) is) =
     (if hd_RequestID h \<in> set is then ?a else 0) +
     sum_list (map (\<lambda>i. on_pool HoldActive p (filter (\<lambda>h. hd_RequestID h = i \<and> hd_Status h = HoldActive) hs)) is)"
    by (simp only: sum_list_addf sum_pick [OF assms])
  then show ?case using Cons by (auto simp: flip_holds_def simp del: filter.simps)
qed

lemma swept_pools:
  assumes "ledger bd bq t" and "ledger bd bq t'" and "expire_chain is t t'" and "distinct is"
  shows "t_pools t' = shift_pools (\<lambda>p. - sum_list (map (\<lambda>i. held i t p) is)) (\<lambda>_. 0) (t_pools t)"
proof -
  have b: "book (\<lambda>_. 0) bd bq t" "book (\<lambda>_. 0) bd bq t'" and d: "requests_distinct t"
    using assms(1,2) by (simp_all add: ledger_def book_def)
  have shell: "pool_shell t' = pool_shell t" using expire_chain_catalog [OF assms(3)] by (simp add: same_catalog_def)
  note h = chain_facts(3) [OF assms(3,4) d]
  have ded: "on_pool HoldDedicated p (flip_holds w HoldExpired hs) = on_pool HoldDedicated p hs" for p w hs
    by (induction hs) (auto simp: flip_holds_def)
  show ?thesis
    unfolding pools_from_books [OF b shell] h on_pool_flip_set [OF assms(4)] ded
    by (simp add: held_def active_holds_def)
qed

end
