(* ===== verification/Abstract_Steps.thy ===== *)
theory Abstract_Steps
  imports Run_Facts
begin

text \<open>
  The service as a transition system on the abstract store: one step reserves, rejects, confirms,
  releases or extends one request. Every call of the service on Postgres is a sequence of such steps,
  whatever faults hit it, so an invariant of the steps is an invariant of the service.
\<close>

inductive step :: "environment \<Rightarrow> config \<Rightarrow> tables \<Rightarrow> tables \<Rightarrow> bool" for E cfg where
  reserve: "reserved_effect E cfg inp hash now t req t' \<Longrightarrow> under_limit cfg (ci_CustomerID inp) t \<Longrightarrow>
     requests_distinct t' \<Longrightarrow> step E cfg t t'"
| reject: "rejected_effect E inp hash now t req t' \<Longrightarrow> requests_distinct t' \<Longrightarrow> step E cfg t t'"
| reject_partly: "rejection_debris E inp hash now t t' \<Longrightarrow> requests_distinct t' \<Longrightarrow> step E cfg t t'"
| confirm: "confirm_effect i now t t' \<Longrightarrow> (\<And>r. find_request i t = Some r \<Longrightarrow> \<not> expired_at now r) \<Longrightarrow> step E cfg t t'"
| cancel: "release_effect i StatusCancelled now t t' \<Longrightarrow> step E cfg t t'"
| expire: "release_effect i StatusExpired now t t' \<Longrightarrow> step E cfg t t'"
| extend: "extend_effect cfg i now t t' \<Longrightarrow> step E cfg t t'"
| extend_partly: "extend_debris cfg i now t t' \<Longrightarrow> step E cfg t t'"

abbreviation steps :: "environment \<Rightarrow> config \<Rightarrow> tables \<Rightarrow> tables \<Rightarrow> bool" where
  "steps E cfg \<equiv> (step E cfg)\<^sup>*\<^sup>*"

lemma created_steps: "created E cfg inp hash now t req t' \<Longrightarrow> requests_distinct t' \<Longrightarrow> steps E cfg t t'"
  unfolding created_def by (blast intro: step.intros r_into_rtranclp)

lemma refused_steps: "refused E inp hash now t t' \<Longrightarrow> requests_distinct t' \<Longrightarrow> steps E cfg t t'"
  unfolding refused_def by (blast intro: step.intros r_into_rtranclp)

lemma chain_steps: "expire_chain is t t' \<Longrightarrow> steps E cfg t t'"
  by (induction "is" arbitrary: t) (auto intro: step.expire converse_rtranclp_into_rtranclp)

lemma after_steps:
  assumes "sound bd bq w" and "permutes_maps E"
  shows "steps E cfg (store w) (store (after (pg_service cache idem cfg E) c w))"
proof (cases "\<exists>cust st i. c \<in> {CallListCapacity cust, CallListProducts, CallGet i, CallList cust st}")
  case True
  have "store (after (pg_service cache idem cfg E) c w) = store w"
    using True
    by (auto intro: quiet_store [OF assms(1) pg.ListCapacity_rule]
        quiet_store [OF assms(1) pg.ListProducts_rule] quiet_store [OF assms(1) pg.GetRequest_rule]
        quiet_store [OF assms(1) pg.ListRequests_rule])
  then show ?thesis by simp
next
  case False
  obtain inp i where c: "c \<in> {CallCreate inp, CallConfirm i, CallCancel i, CallExtend i, CallExpireDue}"
    using False by (cases c) auto
  show ?thesis
    using c
  proof (elim insertE emptyE)
    assume c: "c = CallCreate inp"
    obtain r w' where run: "CreateRequest (pg_service cache idem cfg E) inp w = (r, w')" by fastforce
    from pg_create [OF assms this] show ?thesis
      using run c by (cases r) (auto simp: ledger_def book_def dest: created_steps refused_steps)
  next
    assume c: "c = CallConfirm i"
    obtain r w' where run: "Confirm (pg_service cache idem cfg E) i w = (r, w')" by fastforce
    from pg_confirm [OF assms(1) this] show ?thesis
      using run c by (cases r) (auto intro: step.confirm)
  next
    assume c: "c = CallCancel i"
    obtain r w' where run: "Cancel (pg_service cache idem cfg E) i w = (r, w')" by fastforce
    from pg_cancel [OF assms(1) this] show ?thesis
      using run c by (cases r) (auto intro: step.cancel)
  next
    assume c: "c = CallExtend i"
    obtain r w' where run: "Extend (pg_service cache idem cfg E) i w = (r, w')" by fastforce
    from pg_extend [OF assms(1) this] show ?thesis
      using run c by (cases r) (auto intro: step.extend step.extend_partly)
  next
    assume c: "c = CallExpireDue"
    obtain r w' where run: "ExpireDue (pg_service cache idem cfg E) w = (r, w')" by fastforce
    from pg_expire [OF assms(1) this] show ?thesis
      using run c by (cases r) (auto simp: swept_def intro: chain_steps)
  qed
qed

lemma reachable_steps:
  assumes "reachable (pg_service cache idem cfg E) w0 w" and "sound bd bq w0" and "permutes_maps E"
  shows "steps E cfg (store w0) (store w)"
  using assms(1)
proof (induction rule: reachable.induct)
  case (call w c)
  have "sound bd bq w" by (rule reachable_sound [OF assms(2) call.hyps assms(2,3)])
  from rtranclp_trans [OF call.IH after_steps [OF this assms(3)]] show ?case .
next
  case (meanwhile w w')
  then show ?case by (simp add: same_data_def store_def pg_view_def)
qed simp

subsection \<open>The terms of a request\<close>

text \<open>
  No request was extended more often than allowed, and none is kept beyond its first time to live or the
  wall time, whichever is longer.
\<close>

definition within_terms :: "config \<Rightarrow> capacity_request \<Rightarrow> bool" where
  "within_terms cfg r \<longleftrightarrow> cr_ExtensionCount r \<le> cfg_MaxExtensions cfg \<and>
     (\<forall>e. cr_ExpiresAt r = Some e \<longrightarrow>
        e \<le> cr_CreatedAt r + max (cfg_ReserveTTL cfg) (cfg_MaxReserveWallTime cfg))"

definition terms_ok :: "config \<Rightarrow> tables \<Rightarrow> bool" where
  "terms_ok cfg t \<longleftrightarrow> (\<forall>r \<in> set (t_requests t). within_terms cfg r)"

text \<open>The requests after finishing one of them, or after trying to.\<close>

lemma spec_finish_requests:
  assumes "moved w dst t u"
  shows "t_requests (spec_finish i st ds ev u) = (if is_reserved i t then set_status i st (t_requests t) else t_requests t)"
proof -
  have u: "t_requests u = t_requests t" using assms by (simp add: moved_def)
  show ?thesis
    using spec_finish_sel(1) [of i u st ds ev] is_reserved_frame [OF u, of i] u by (simp add: spec_finish_def)
qed

lemma step_requests:
  assumes "step E cfg t t'"
  obtains (added) req hs where "t_requests t' = t_requests t @ [req]" "cr_Status req = StatusReserved"
      "cr_ExpiresAt req = Some (cr_CreatedAt req + cfg_ReserveTTL cfg)" "cr_ExtensionCount req = 0"
      "under_limit cfg (cr_CustomerID req) t" "requests_distinct t'"
      "t_holds t' = t_holds t @ hs" "\<And>h. h \<in> set hs \<Longrightarrow> hd_RequestID h = cr_ID req"
    | (rejected) rs where "t_requests t' = t_requests t @ rs" "requests_distinct t'"
      "\<And>r. r \<in> set rs \<Longrightarrow> cr_Status r = StatusRejected \<and> cr_ExpiresAt r = None \<and> cr_ExtensionCount r = 0"
      "t_holds t' = t_holds t"
    | (finished) i st dst where "st \<noteq> StatusReserved" "t_requests t' = set_status i st (t_requests t)"
      "dst \<noteq> HoldActive" "t_holds t' = flip_holds (\<lambda>h. hd_RequestID h = i) dst (t_holds t)"
    | (extended) i now where "extend_effect cfg i now t t' \<or> extend_debris cfg i now t t'"
  using assms
proof cases
  case (reserve inp hash now req)
  from reserve(1) obtain plans product reqID ls hs ev where req: "req = reserved_request inp product reqID now
      (now + cfg_ReserveTTL cfg) hash" and hs: "holds_for reqID now plans hs"
    and t': "t' = spec_insert_reserved req ls hs ev (reserve_all (ci_CustomerID inp) plans t)"
    unfolding reserved_effect_def by blast
  show thesis
  proof (rule added [of "unstamp_request req" "map unstamp_hold hs"])
    fix h assume "h \<in> set (map unstamp_hold hs)"
    then show "hd_RequestID h = cr_ID (unstamp_request req)"
      using holds_for_member [OF hs] by (auto simp: req reserved_request_def)
  qed (use reserve(2,3) in \<open>simp_all add: t' req reserved_request_def\<close>)
next
  case (reject inp hash now req)
  then show thesis
    by (intro rejected [of "[unstamp_request req]"])
      (auto simp: rejected_effect_def rejected_request_def spec_insert_rejected_def)
next
  case (reject_partly inp hash now)
  then obtain reqs lns where "t' = t\<lparr>t_requests := t_requests t @ reqs, t_lines := t_lines t @ lns\<rparr>"
      "\<forall>r \<in> set reqs. \<exists>p q i e. r = unstamp_request (rejected_request inp p i now e hash)"
    unfolding rejection_debris_def by fastforce
  then show thesis
    using reject_partly(2) by (intro rejected [of reqs]) (auto simp: rejected_request_def)
next
  case (confirm i now)
  then obtain u ds ev where res: "is_reserved i t" and m: "moved (\<lambda>h. hd_RequestID h = i) HoldDedicated t u"
      and t': "t' = spec_finish i StatusCompleted ds ev u"
    unfolding confirm_effect_def by blast
  have "t_holds t' = t_holds u" by (simp add: t' spec_finish_def)
  then show thesis
    using m res spec_finish_requests [OF m, of i StatusCompleted ds ev]
    by (intro finished [of StatusCompleted i HoldDedicated]) (simp_all add: t' moved_def)
next
  case (cancel i now)
  then obtain u ev where res: "is_reserved i t" and m: "moved (\<lambda>h. hd_RequestID h = i) HoldReleased t u"
      and t': "t' = spec_finish i StatusCancelled [] ev u"
    unfolding release_effect_def by auto
  have "t_holds t' = t_holds u" by (simp add: t' spec_finish_def)
  then show thesis
    using m res spec_finish_requests [OF m, of i StatusCancelled "[]" ev]
    by (intro finished [of StatusCancelled i HoldReleased]) (simp_all add: t' moved_def)
next
  case (expire i now)
  then obtain u ev where res: "is_reserved i t" and m: "moved (\<lambda>h. hd_RequestID h = i) HoldExpired t u"
      and t': "t' = spec_finish i StatusExpired [] ev u"
    unfolding release_effect_def by auto
  have "t_holds t' = t_holds u" by (simp add: t' spec_finish_def)
  then show thesis
    using m res spec_finish_requests [OF m, of i StatusExpired "[]" ev]
    by (intro finished [of StatusExpired i HoldExpired]) (simp_all add: t' moved_def)
qed (use extended in blast)+

lemma extend_requests:
  assumes "extend_effect cfg i now t t' \<or> extend_debris cfg i now t t'"
  shows "\<exists>p e n. t_requests t' = mapWhere p (\<lambda>r. r\<lparr>cr_ExpiresAt := Some e, cr_ExtensionCount := n\<rparr>) (t_requests t) \<and>
    t_holds t' = t_holds t"
proof -
  have "mapWhere (\<lambda>_. False) f xs = xs" for f and xs :: "capacity_request list" by (simp add: mapWhere_none)
  then have "\<exists>p. t_requests (spec_extend i e n ev t) =
      mapWhere p (\<lambda>r. r\<lparr>cr_ExpiresAt := Some e, cr_ExtensionCount := n\<rparr>) (t_requests t) \<and>
      t_holds (spec_extend i e n ev t) = t_holds t" for e n ev
    by (auto simp: spec_extend_def) metis
  then show ?thesis using assms unfolding extend_effect_def extend_debris_def by fastforce
qed

lemma step_distinct:
  assumes "step E cfg t t'" and "requests_distinct t"
  shows "requests_distinct t'"
  using assms(1)
proof (cases rule: step_requests)
  case (extended i now)
  then show ?thesis
    using extend_requests [OF extended] assms(2) by (auto simp: requests_distinct_def map_mapWhere_same)
qed (use assms(2) distinct_set_status in auto)

lemma steps_invariant:
  assumes "steps E cfg t t'" and "requests_distinct t" and "P t"
    and "\<And>t t'. step E cfg t t' \<Longrightarrow> requests_distinct t \<Longrightarrow> P t \<Longrightarrow> P t'"
  shows "P t'"
proof -
  have "requests_distinct t' \<and> P t'"
    using assms(1) by (induction rule: rtranclp_induct) (use assms(2-4) step_distinct in blast)+
  then show ?thesis by simp
qed

lemma terms_set_status: "terms_ok cfg t \<Longrightarrow> t_requests t' = set_status i st (t_requests t) \<Longrightarrow> terms_ok cfg t'"
  by (auto simp: terms_ok_def within_terms_def set_status_member split: if_splits)

lemma terms_append:
  "terms_ok cfg t \<Longrightarrow> t_requests t' = t_requests t @ rs \<Longrightarrow> (\<And>r. r \<in> set rs \<Longrightarrow> within_terms cfg r) \<Longrightarrow> terms_ok cfg t'"
  by (auto simp: terms_ok_def)

lemma terms_extend:
  assumes "terms_ok cfg t" and "extend_effect cfg i now t t'" and "requests_distinct t"
  shows "terms_ok cfg t'"
proof -
  from assms(2) obtain r evID where r: "find_request i t = Some r" "cr_ExtensionCount r < cfg_MaxExtensions cfg"
      "extension_base now r + cfg_ReserveTTL cfg \<le> cr_CreatedAt r + cfg_MaxReserveWallTime cfg"
    and t': "t' = spec_extend i (extension_base now r + cfg_ReserveTTL cfg) (cr_ExtensionCount r + 1)
               (event_at evID i EventExtended '''' now) t"
    unfolding extend_effect_def by blast
  have "q = r" if "q \<in> set (t_requests t)" "cr_ID q = i" for q
    using distinct_key_inj [OF assms(3) [unfolded requests_distinct_def] that(1)] find_request_member [OF r(1)] that(2) by simp
  then show ?thesis
    using assms(1) r(2,3) by (auto simp: t' terms_ok_def spec_extend_def set_mapWhere within_terms_def max_def)
qed

lemma terms_step:
  assumes "step E cfg t t'" and "requests_distinct t" and "terms_ok cfg t" and "0 \<le> cfg_MaxExtensions cfg"
  shows "terms_ok cfg t'"
  using assms(1)
proof (cases rule: step_requests)
  case (added req hs)
  then show ?thesis using assms(3,4) by (intro terms_append [OF assms(3) added(1)]) (simp add: within_terms_def)
next
  case (rejected rs)
  then show ?thesis using assms(4) by (intro terms_append [OF assms(3) rejected(1)]) (simp add: within_terms_def)
next
  case (finished i st dst)
  then show ?thesis using terms_set_status [OF assms(3)] by simp
next
  case (extended i now)
  then show ?thesis
    using terms_extend [OF assms(3) _ assms(2)] by (auto simp: extend_debris_def terms_ok_def)
qed

subsection \<open>The limit on active holds\<close>

definition within_limit :: "config \<Rightarrow> tables \<Rightarrow> bool" where
  "within_limit cfg t \<longleftrightarrow> (\<forall>c. 0 < cfg_MaxActiveHoldsPerCustomer cfg \<longrightarrow>
     int (count_reserved c t) \<le> cfg_MaxActiveHoldsPerCustomer cfg)"

text \<open>The rows the count looks at.\<close>

definition counted :: "string \<Rightarrow> hold list \<Rightarrow> capacity_request \<Rightarrow> bool" where
  "counted c hs r \<longleftrightarrow> cr_CustomerID r = c \<and> cr_Status r = StatusReserved \<and>
     list_ex (\<lambda>h. hd_RequestID h = cr_ID r \<and> hd_Status h = HoldActive) hs"

lemma count_reserved_counted: "count_reserved c t = length (filter (counted c (t_holds t)) (t_requests t))"
  by (simp add: count_reserved_def counted_def [abs_def])

lemma length_filter_map_le:
  "(\<And>x. x \<in> set xs \<Longrightarrow> p (f x) \<Longrightarrow> q x) \<Longrightarrow> length (filter p (map f xs)) \<le> length (filter q xs)"
proof (induction xs)
  case (Cons x xs)
  from Cons.IH Cons.prems have "length (filter p (map f xs)) \<le> length (filter q xs)" by simp
  then show ?case using Cons.prems [of x] by auto
qed simp

lemma count_map_le:
  assumes "t_requests t' = map f (t_requests t)"
    and "\<And>r. r \<in> set (t_requests t) \<Longrightarrow> counted c (t_holds t') (f r) \<Longrightarrow> counted c (t_holds t) r"
  shows "count_reserved c t' \<le> count_reserved c t"
  unfolding count_reserved_counted assms(1) by (rule length_filter_map_le) (rule assms(2))

lemma flip_active:
  assumes "dst \<noteq> HoldActive" and "list_ex (\<lambda>h. hd_RequestID h = i \<and> hd_Status h = HoldActive) (flip_holds w dst hs)"
  shows "list_ex (\<lambda>h. hd_RequestID h = i \<and> hd_Status h = HoldActive) hs"
  using assms by (induction hs) (auto simp: flip_holds_def split: if_splits)

lemma count_step:
  assumes "step E cfg t t'"
  shows "count_reserved c t' \<le> count_reserved c t \<or>
    count_reserved c t' \<le> Suc (count_reserved c t) \<and> under_limit cfg c t"
  using assms
proof (cases rule: step_requests)
  case (added req hs)
  have new: "cr_ID req \<noteq> cr_ID r" if "r \<in> set (t_requests t)" for r
    using added(1,6) that by (force simp: requests_distinct_def)
  then have "counted c (t_holds t') r = counted c (t_holds t) r" if "r \<in> set (t_requests t)" for r
    using that added(8) by (auto simp: counted_def added(7) list_ex_iff)
  then have old: "filter (counted c (t_holds t')) (t_requests t) = filter (counted c (t_holds t)) (t_requests t)"
    by (simp cong: filter_cong)
  show ?thesis
    using added(5) unfolding count_reserved_counted added(1) by (auto simp: old counted_def)
next
  case (rejected rs)
  then have "filter (counted c (t_holds t')) rs = []" by (auto simp: filter_empty_conv counted_def)
  then show ?thesis by (simp add: count_reserved_counted rejected(1,4))
next
  case (finished i st dst)
  have "count_reserved c t' \<le> count_reserved c t"
  proof (rule count_map_le)
    show "t_requests t' = map (\<lambda>r. if cr_ID r = i \<and> cr_Status r = StatusReserved then r\<lparr>cr_Status := st\<rparr> else r) (t_requests t)"
      by (simp add: finished(2) set_status_def mapWhere_def)
  qed (use finished flip_active [OF finished(3)] in \<open>auto simp: counted_def split: if_splits\<close>)
  then show ?thesis by simp
next
  case (extended i now)
  from extend_requests [OF this] obtain p e n where
    rq: "t_requests t' = mapWhere p (\<lambda>r. r\<lparr>cr_ExpiresAt := Some e, cr_ExtensionCount := n\<rparr>) (t_requests t)"
      "t_holds t' = t_holds t" by blast
  have "count_reserved c t' \<le> count_reserved c t"
    by (rule count_map_le [OF rq(1) [unfolded mapWhere_def]]) (auto simp: counted_def rq(2) split: if_splits)
  then show ?thesis by simp
qed

lemma limit_step:
  assumes "step E cfg t t'" and "within_limit cfg t"
  shows "within_limit cfg t'"
  unfolding within_limit_def
proof (intro allI impI)
  fix c assume pos: "0 < cfg_MaxActiveHoldsPerCustomer cfg"
  then have old: "int (count_reserved c t) \<le> cfg_MaxActiveHoldsPerCustomer cfg"
    using assms(2) by (simp add: within_limit_def)
  from count_step [OF assms(1), of c] show "int (count_reserved c t') \<le> cfg_MaxActiveHoldsPerCustomer cfg"
  proof
    assume "count_reserved c t' \<le> Suc (count_reserved c t) \<and> under_limit cfg c t"
    then show ?thesis using pos by (simp add: under_limit_def)
  qed (use old in simp)
qed

end
