(* ===== verification/Capacity_Properties.thy ===== *)
theory Capacity_Properties
  imports Abstract_Steps
begin

text \<open>
  The properties of the capacity service on Postgres. \<open>w0\<close> is a world whose books balance when the
  service starts, \<open>w\<close> one it can reach by any calls, whatever faults hit them. The hypotheses of a
  property hold together in the sample worlds, as the theorem named \<open>_witness\<close> after it shows.
\<close>


subsection \<open>Invariants of the running service\<close>

text \<open>
  C1: Never oversubscribed. In every world the service can reach, the reserved counter of a pool is
  what its ACTIVE holds add up to, its dedicated counter what its DEDICATED holds add up to (beyond
  what was dedicated before the first request), and together they stay within the effective capacity.
\<close>

theorem never_oversubscribed:
  assumes "reachable (pg_service cache idem cfg E) w0 w" and "sound bd bq w0" and "permutes_maps E"
    and "p \<in> set (t_pools (store w))"
  shows "rp_ReservedAmount p = on_pool HoldActive (rp_ID p) (t_holds (store w)) \<and>
    rp_DedicatedAmount p = bd (rp_ID p) + on_pool HoldDedicated (rp_ID p) (t_holds (store w)) \<and>
    0 \<le> rp_ReservedAmount p \<and> 0 \<le> rp_DedicatedAmount p \<and>
      rp_DedicatedAmount p + rp_ReservedAmount p \<le> effective p"
proof -
  have "ledger bd bq (store w)"
    using reachable_sound [OF assms(2) assms(1,2,3)] by (simp add: sound_def)
  then have "tally (\<lambda>_. 0) bd bq (store w)" "pools_ok (store w)" by (simp_all add: ledger_def book_def)
  then show ?thesis using assms(4) by (simp add: tally_def pools_ok_def list_all_iff pool_ok_def)
qed

text \<open>A world after two calls: one more reservation, and the confirmation of the first.\<close>

definition traded :: "(pg_state, unit) world" where
  "traded = after sample_service (CallConfirm (UUID 10)) (after sample_service (CallCreate (order ''k2'' ''cpu'' 4)) busy)"

lemma traded_reachable: "reachable sample_service busy traded"
  unfolding traded_def by (intro reachable.call reachable.start)

lemma traded_pool:
  "\<exists>p \<in> set (t_pools (store traded)). rp_ID p = UUID 1 \<and> rp_ReservedAmount p = 4 \<and> rp_DedicatedAmount p = 3 \<and> effective p = 10"
  by code_simp

theorem never_oversubscribed_witness:
  "\<exists>p \<in> set (t_pools (store traded)). rp_ReservedAmount p = 4 \<and>
     on_pool HoldActive (UUID 1) (t_holds (store traded)) = 4 \<and> on_pool HoldDedicated (UUID 1) (t_holds (store traded)) = 3 \<and>
     rp_DedicatedAmount p + rp_ReservedAmount p \<le> effective p"
proof -
  from traded_pool obtain p where p: "p \<in> set (t_pools (store traded))" "rp_ID p = UUID 1" "rp_ReservedAmount p = 4"
    "rp_DedicatedAmount p = 3" by blast
  note facts = never_oversubscribed [OF traded_reachable [unfolded sample_service_def] sound_busy(1) sample_range p(1)]
  show ?thesis using p facts by (intro bexI [OF _ p(1)]) auto
qed

text \<open>
  C2: Quotas hold. In every world the service can reach, what a quota counts as used is what the live
  holds of its customer and kind add up to (beyond what was used at the start), and never exceeds
  the limit of the quota.
\<close>

theorem quota_never_exceeded:
  assumes "reachable (pg_service cache idem cfg E) w0 w" and "sound bd bq w0" and "permutes_maps E"
    and "q \<in> set (t_quotas (store w))"
  shows "cq_UsedAmount q = bq (quota_key q) + used_in (store w) (quota_key q) \<and> 0 \<le> cq_UsedAmount q \<and>
    cq_UsedAmount q \<le> cq_Limit q"
proof -
  have "ledger bd bq (store w)"
    using reachable_sound [OF assms(2) assms(1,2,3)] by (simp add: sound_def)
  then have "tally (\<lambda>_. 0) bd bq (store w)" "quotas_ok (store w)" by (simp_all add: ledger_def book_def)
  then show ?thesis using assms(4) by (simp add: tally_def quotas_ok_def list_all_iff quota_ok_def)
qed

lemma traded_quota: "\<exists>q \<in> set (t_quotas (store traded)). quota_key q = (''acme'', ''cpu'') \<and> cq_UsedAmount q = 7 \<and> cq_Limit q = 10000"
  by code_simp

theorem quota_never_exceeded_witness: "used_in (store traded) (''acme'', ''cpu'') = 7"
proof -
  from traded_quota obtain q where q: "q \<in> set (t_quotas (store traded))" "quota_key q = (''acme'', ''cpu'')"
    "cq_UsedAmount q = 7" by blast
  from quota_never_exceeded [OF traded_reachable [unfolded sample_service_def] sound_busy(1) sample_range q(1)] q(2,3)
  show ?thesis by simp
qed

text \<open>
  C3: Refinement. Every call of the service on Postgres, from a world whose books balance and under
  any scheduled faults, is a sequence of steps of the abstract machine \<open>step\<close>: it reserves, rejects,
  confirms, cancels, expires or extends whole requests, and nothing else happens to the store.
\<close>

theorem calls_refine_steps:
  assumes "sound bd bq w" and "permutes_maps E"
  shows "steps E cfg (store w) (store (after (pg_service cache idem cfg E) c w)) \<and>
    sound bd bq (after (pg_service cache idem cfg E) c w)"
  using after_steps [OF assms] steady_sound [OF assms(1) after_steady [OF assms]] by blast

theorem calls_refine_steps_witness:
  "steps sample_env sample_cfg (store busy) (store (after sample_service CallExpireDue late)) \<and>
    length (t_events (store (after sample_service CallExpireDue late))) = 2"
proof -
  have "store busy = store late" by (simp add: busy_def late_def)
  moreover have "length (t_events (store (after sample_service CallExpireDue late))) = 2" by code_simp
  ultimately show ?thesis
    using calls_refine_steps [OF sound_busy(2) sample_range, of sample_cfg NoopCache NoopIdempotency CallExpireDue]
    by (simp add: sample_service_def)
qed

text \<open>
  C5: Terminal states are final. Whatever the service does later, a request that is stored stays
  stored with its owner, key, body hash and creation time; its status only ever changes along the
  transitions \<^verbatim>\<open>ValidateTransition\<close> allows, and once it has left RESERVED nothing in it
  changes any more.
\<close>

theorem terminal_is_final:
  assumes "reachable (pg_service cache idem cfg E) w0 w" and "sound bd bq w0" and "permutes_maps E"
    and "find_request i (store w0) = Some r"
  shows "\<exists>r'. find_request i (store w) = Some r' \<and>
    (cr_Status r' = cr_Status r \<or> ValidateTransition (cr_Status r) (cr_Status r') = Inr ()) \<and>
    (cr_Status r \<noteq> StatusReserved \<longrightarrow> r' = r) \<and>
    cr_CustomerID r' = cr_CustomerID r \<and> cr_IdempotencyKey r' = cr_IdempotencyKey r \<and>
    cr_BodyHash r' = cr_BodyHash r \<and> cr_CreatedAt r' = cr_CreatedAt r"
  using reachable_steady [OF assms(1-3)] assms(4)
  by (fastforce simp: steady_def evolves_def evolved_def transition_ok_def)

theorem terminal_is_final_witness:
  "\<exists>r'. find_request (UUID 10) (store traded) = Some r' \<and> cr_Status r' = StatusCompleted \<and> cr_BodyHash r' = ''h''"
proof -
  have r: "find_request (UUID 10) (store busy) = Some busy_request" by (simp add: busy_def busy_facts)
  have "case find_request (UUID 10) (store traded) of None \<Rightarrow> False | Some r \<Rightarrow> cr_Status r = StatusCompleted" by code_simp
  with terminal_is_final [OF traded_reachable [unfolded sample_service_def] sound_busy(1) sample_range r]
  show ?thesis by (auto simp: busy_request_def)
qed

text \<open>
  C15: Terms. If no stored request was extended more than \<^verbatim>\<open>MaxExtensions\<close> times or is kept
  longer than the reserve TTL or the wall time after its creation, whichever is longer, then this stays
  so in every world the service can reach.
\<close>

theorem terms_hold:
  assumes "reachable (pg_service cache idem cfg E) w0 w" and "sound bd bq w0" and "permutes_maps E"
    and "terms_ok cfg (store w0)" and "0 \<le> cfg_MaxExtensions cfg"
  shows "\<forall>r \<in> set (t_requests (store w)). cr_ExtensionCount r \<le> cfg_MaxExtensions cfg \<and>
    (\<forall>e. cr_ExpiresAt r = Some e \<longrightarrow> e \<le> cr_CreatedAt r + max (cfg_ReserveTTL cfg) (cfg_MaxReserveWallTime cfg))"
proof -
  have "requests_distinct (store w0)" using assms(2) by (simp add: sound_def ledger_def book_def)
  then have "terms_ok cfg (store w)"
    by (rule steps_invariant [where P = "terms_ok cfg", OF reachable_steps [OF assms(1-3)] _ assms(4)])
      (rule terms_step [OF _ _ _ assms(5)])
  then show ?thesis by (simp add: terms_ok_def within_terms_def)
qed

lemma sample_cfg_sel [simp]:
  "cfg_MaxExtensions sample_cfg = 3" "cfg_ReserveTTL sample_cfg = 900000000" "cfg_MaxReserveWallTime sample_cfg = 3600000000"
  "cfg_MaxActiveHoldsPerCustomer sample_cfg = 10"
  by code_simp+

theorem terms_hold_witness:
  "list_all (\<lambda>r. cr_ExtensionCount r \<le> 3) (t_requests (store (after sample_service (CallExtend (UUID 10)) busy))) \<and>
   map cr_ExtensionCount (t_requests (store (after sample_service (CallExtend (UUID 10)) busy))) = [1]"
proof -
  have "terms_ok sample_cfg (store busy)"
    by (simp add: busy_def terms_ok_def busy_tables_def busy_request_def within_terms_def second_def)
  from terms_hold [OF reachable.call [OF reachable.start, of _ _ "CallExtend (UUID 10)"] sound_busy(1) sample_range this]
  have "list_all (\<lambda>r. cr_ExtensionCount r \<le> 3) (t_requests (store (after sample_service (CallExtend (UUID 10)) busy)))"
    unfolding sample_service_def list_all_iff by simp
  moreover have "map cr_ExtensionCount (t_requests (store (after sample_service (CallExtend (UUID 10)) busy))) = [1]"
    by code_simp
  ultimately show ?thesis by blast
qed

text \<open>
  C16: The limit on active holds. If no customer has more reserved requests with active holds than
  \<^verbatim>\<open>MaxActiveHoldsPerCustomer\<close> (0 means no limit), then none ever has, as long as calls run one at
  a time: two overlapping creations can both pass the count (\<open>Interleavings.limit_is_raced\<close>).
\<close>

theorem active_holds_limited:
  assumes "reachable (pg_service cache idem cfg E) w0 w" and "sound bd bq w0" and "permutes_maps E"
    and "\<And>c. int (count_reserved c (store w0)) \<le> cfg_MaxActiveHoldsPerCustomer cfg"
    and "0 < cfg_MaxActiveHoldsPerCustomer cfg"
  shows "int (count_reserved c (store w)) \<le> cfg_MaxActiveHoldsPerCustomer cfg"
proof -
  have "requests_distinct (store w0)" using assms(2) by (simp add: sound_def ledger_def book_def)
  moreover have "within_limit cfg (store w0)" using assms(4) by (simp add: within_limit_def)
  ultimately have "within_limit cfg (store w)"
    using steps_invariant [where P = "within_limit cfg", OF reachable_steps [OF assms(1-3)]] limit_step by blast
  then show ?thesis using assms(5) by (simp add: within_limit_def)
qed

theorem active_holds_limited_witness:
  "int (count_reserved ''acme'' (store (after sample_service (CallCreate (order ''k2'' ''cpu'' 4)) busy))) \<le> 10 \<and>
   count_reserved ''acme'' (store (after sample_service (CallCreate (order ''k2'' ''cpu'' 4)) busy)) = 2"
proof -
  have "int (count_reserved c (store busy)) \<le> 10" for c
    by (simp add: busy_def count_reserved_def busy_tables_def)
  with active_holds_limited [OF reachable.call [OF reachable.start, of _ _ "CallCreate (order ''k2'' ''cpu'' 4)"]
      sound_busy(1) sample_range, of sample_cfg]
  have "int (count_reserved ''acme'' (store (after sample_service (CallCreate (order ''k2'' ''cpu'' 4)) busy))) \<le> 10"
    by (simp add: sample_service_def)
  moreover have "count_reserved ''acme'' (store (after sample_service (CallCreate (order ''k2'' ''cpu'' 4)) busy)) = 2"
    by code_simp
  ultimately show ?thesis by simp
qed

end
