(* ===== verification/Create_Properties.thy ===== *)
theory Create_Properties
  imports Abstract_Steps
begin

text \<open>
  Properties of creating requests on Postgres: what a reservation adds, that everything else leaves
  the capacity alone, idempotent replay, and the independence of the iteration order of Go's maps.
\<close>

subsection \<open>Runs without faults\<close>

text \<open>A read-only statement of a database that answers.\<close>

lemma onRepo_select:
  "pg_faults (w_repo w) = [] \<Longrightarrow> onRepo (mapErr g (sql_select f)) w = (Inr (f (pg_tables (w_repo w))), w)"
  by (simp add: onRepo_def mapErr_def sql_select_def sql_def)

lemma onRepo_reads:
  assumes "pg_faults (w_repo w) = []"
  shows "onRepo (RequestRepo_Get i) w = (Inr (find_request i (pg_tables (w_repo w))), w)"
    and "onRepo (RequestRepo_FindByIdempotency c k) w = (Inr (find_idem c k (pg_tables (w_repo w))), w)"
  using assms by (simp_all add: RequestRepo_Get_def RequestRepo_FindByIdempotency_def onRepo_select)

lemma pg_ports [simp]:
  "rr_Get pg_requests = RequestRepo_Get" "rr_FindByIdempotency pg_requests = RequestRepo_FindByIdempotency"
  by (simp_all add: pg_requests_def)

subsection \<open>Reserving\<close>

text \<open>
  C6: A reservation takes exactly what was asked for. When \<^verbatim>\<open>CreateRequest\<close> returns a new
  request in status RESERVED, every pool's reserved counter has grown by the amounts asked of it and
  every quota's use by the amounts asked by this customer; the request is stored with its product, its
  quantity and the expiry time \<^verbatim>\<open>now + ReserveTTL\<close>; with one line and one ACTIVE hold per amount, each
  tagged with the request and the pool of its kind (\<open>placed\<close>); one event was recorded; and the customer
  was under the limit.
\<close>

theorem create_reserves_exactly:
  assumes "sound bd bq w" and "permutes_maps E"
    and "CreateRequest (pg_service cache idem cfg E) inp w = (Inr req, w')"
    and "cr_Status req = StatusReserved" and "find_request (cr_ID req) (store w) = None"
  shows "\<exists>product evID ls hs.
    (ci_ProductCode inp = '''' \<and> product = None \<or>
     find (\<lambda>p. pd_Code p = ci_ProductCode inp) (t_products (store w)) = product \<and> product \<noteq> None) \<and>
    t_pools (store w') = shift_pools (asked_pool (store w) (wanted inp product)) (\<lambda>_. 0) (t_pools (store w)) \<and>
    (\<forall>ck. quota_used (store w') ck = quota_used (store w) ck + asked_quota (ci_CustomerID inp) (wanted inp product) ck) \<and>
    t_requests (store w') = t_requests (store w) @ [unstamp_request req] \<and>
    cr_CustomerID req = ci_CustomerID inp \<and> cr_IdempotencyKey req = ci_IdempotencyKey inp \<and>
    cr_BodyHash req = computeBodyHash E inp \<and>
    cr_ProductID req = map_option pd_ID product \<and> cr_Quantity req = resolvedQuantity inp \<and>
    cr_ExpiresAt req = Some (time_of w + cfg_ReserveTTL cfg) \<and> cr_ExtensionCount req = 0 \<and>
    t_lines (store w') = t_lines (store w) @ ls \<and> t_holds (store w') = t_holds (store w) @ hs \<and>
    placed E (store w) (cr_ID req) (time_of w) (wanted inp product) ls hs \<and>
    t_events (store w') = t_events (store w) @ [event_at evID (cr_ID req) EventReserved '''' (time_of w)] \<and>
    t_dedications (store w') = t_dedications (store w) \<and> t_products (store w') = t_products (store w) \<and>
    under_limit cfg (ci_CustomerID inp) (store w)"
proof -
  from pg_create [OF assms(1-3)] obtain cor where
    "created E cfg (inp\<lparr>ci_CorrelationID := cor\<rparr>) (computeBodyHash E inp) (time_of w) (store w) req (store w')" by auto
  from created_new_reserved [OF this assms(4,5)]
  have eff: "reserved_effect E cfg (inp\<lparr>ci_CorrelationID := cor\<rparr>) (computeBodyHash E inp) (time_of w) (store w) req (store w')"
    and lim: "under_limit cfg (ci_CustomerID inp) (store w)" by simp_all
  have pools: "pools_ok (store w)" using assms(1) by (simp add: sound_def ledger_def book_def)
  show ?thesis
  proof (rule reserved_effect_facts [OF eff pools], goal_cases)
    case (1 product evID ls hs)
    then show ?case
      using lim by (intro exI [of _ product] exI [of _ evID] exI [of _ ls] exI [of _ hs])
        (simp add: resolvedQuantity_def)
  qed
qed

text \<open>An order for four cores on the idle system: the request that comes back.\<close>

definition four_cores :: capacity_request where
  "four_cores = \<lparr>cr_ID = UUID 100, cr_CustomerID = ''acme'', cr_IdempotencyKey = ''k2'',
     cr_BodyHash = computeBodyHash sample_env (order ''k2'' ''cpu'' 4), cr_ProductID = None, cr_Quantity = 1,
     cr_Status = StatusReserved, cr_RejectReason = None, cr_ExpiresAt = Some 900000000, cr_ExtensionCount = 0,
     cr_CorrelationID = ''c'', cr_CreatedAt = 0, cr_UpdatedAt = 0\<rparr>"

lemma four_cores_run:
  "fst (CreateRequest sample_service (order ''k2'' ''cpu'' 4) idle) = Inr four_cores"
  by code_simp

theorem create_reserves_exactly_witness:
  "map rp_ReservedAmount (t_pools (store (snd (CreateRequest sample_service (order ''k2'' ''cpu'' 4) idle)))) = [4, 0] \<and>
   t_requests (store (snd (CreateRequest sample_service (order ''k2'' ''cpu'' 4) idle))) = [unstamp_request four_cores]"
proof -
  have fresh: "find_request (cr_ID four_cores) (store idle) = None" "cr_Status four_cores = StatusReserved"
    by (simp_all add: find_request_def idle_tables_def four_cores_def)
  have asked: "asked_pool idle_tables (wanted (order ''k2'' ''cpu'' 4) None) = at (UUID 1) 4"
    by (auto simp: asked_pool_def wanted_def order_def pool_of_def idle_tables_def sample_pools_def fun_eq_iff at_def)
  have "ci_ProductCode (order ''k2'' ''cpu'' 4) = ''''" "find (\<lambda>p. pd_Code p = '''') (t_products idle_tables) = None"
    by (simp_all add: order_def idle_tables_def sample_products_def)
  with create_reserves_exactly [OF sound_idle sample_range run_result [OF four_cores_run, unfolded sample_service_def] fresh(2,1)]
  have "t_pools (store (snd (CreateRequest sample_service (order ''k2'' ''cpu'' 4) idle))) =
      shift_pools (asked_pool idle_tables (wanted (order ''k2'' ''cpu'' 4) None)) (\<lambda>_. 0) (t_pools idle_tables) \<and>
    t_requests (store (snd (CreateRequest sample_service (order ''k2'' ''cpu'' 4) idle))) = t_requests idle_tables @ [unstamp_request four_cores]"
    unfolding sample_service_def idle_store by force
  then show ?thesis unfolding asked by (simp add: idle_tables_def sample_pools_def shift_pools_def)
qed

text \<open>
  C4: All or nothing. Unless \<^verbatim>\<open>CreateRequest\<close> returns a request that is RESERVED and was not
  stored before - so when it is rejected, replayed, or fails anywhere, whatever was reserved or
  consumed before the failure - no pool counter, no quota, no hold and no dedication has changed.
\<close>

theorem create_all_or_nothing:
  assumes "sound bd bq w" and "permutes_maps E"
    and "CreateRequest (pg_service cache idem cfg E) inp w = (r, w')"
    and "\<not> (\<exists>req. r = Inr req \<and> cr_Status req = StatusReserved \<and> find_request (cr_ID req) (store w) = None)"
  shows "same_capacity (store w) (store w')"
proof (cases r)
  case (Inl e)
  with pg_create [OF assms(1-3)] show ?thesis by (auto dest: refused_same_capacity)
next
  case (Inr req)
  with pg_create [OF assms(1-3)] obtain cor where l: "ledger bd bq (store w')" and
    c: "created E cfg (inp\<lparr>ci_CorrelationID := cor\<rparr>) (computeBodyHash E inp) (time_of w) (store w) req (store w')" by auto
  have "requests_distinct (store w')" using l by (simp add: ledger_def book_def)
  from created_otherwise [OF c this] assms(4) Inr show ?thesis by auto
qed

text \<open>Eleven cores are one more than the pool has.\<close>

definition eleven_cores :: "(pg_state, unit) world" where
  "eleven_cores = snd (CreateRequest sample_service (order ''k3'' ''cpu'' 11) idle)"

lemma eleven_cores_run:
  "case fst (CreateRequest sample_service (order ''k3'' ''cpu'' 11) idle) of
     Inl e \<Rightarrow> False | Inr req \<Rightarrow> cr_Status req = StatusRejected \<and> cr_RejectReason req = Some ReasonInsufficientCapacity"
  by code_simp

theorem create_all_or_nothing_witness:
  "t_pools (store eleven_cores) = sample_pools 0 \<and> t_quotas (store eleven_cores) = [] \<and>
   length (t_requests (store eleven_cores)) = 1"
proof -
  have "\<not> (\<exists>req. fst (CreateRequest sample_service (order ''k3'' ''cpu'' 11) idle) = Inr req \<and>
      cr_Status req = StatusReserved \<and> find_request (cr_ID req) (store idle) = None)"
    using eleven_cores_run by auto
  from create_all_or_nothing [where w' = eleven_cores, OF sound_idle sample_range _ this [unfolded sample_service_def]]
  have "same_capacity idle_tables (store eleven_cores)"
    unfolding eleven_cores_def sample_service_def by (simp add: prod_eq_iff)
  moreover have "length (t_requests (store eleven_cores)) = 1" by code_simp
  ultimately show ?thesis by (simp add: same_capacity_def) (simp add: idle_tables_def)
qed

subsection \<open>Replay\<close>

lemma find_idem_member:
  "find_idem c k t = Some r \<Longrightarrow> r \<in> set (t_requests t) \<and> cr_CustomerID r = c \<and> cr_IdempotencyKey r = k"
  unfolding find_idem_def by (drule find_SomeD) simp

lemma keys_once:
  assumes "pg_inv (w_repo w')" and "t_requests (store w') = t_requests t @ [r]"
    and "find_idem (cr_CustomerID r) (cr_IdempotencyKey r) t = Some old"
  shows False
proof -
  let ?key = "\<lambda>r. (cr_CustomerID r, cr_IdempotencyKey r)"
  have "map ?key (t_requests (store w')) = map ?key (t_requests (pg_tables (w_repo w')))"
    by (simp add: store_def pg_view_def)
  then have "distinct (map ?key (t_requests (store w')))"
    using assms(1) by (simp add: pg_inv_def schema_ok_def)
  moreover have "?key old = ?key r" "old \<in> set (t_requests t)" using find_idem_member [OF assms(3)] by auto
  ultimately show False unfolding assms(2) by (auto simp: image_iff)
qed

lemma debris_empty:
  assumes "pg_inv (w_repo w')" and "rejection_debris E inp hash now t (store w')"
    and "find_idem (ci_CustomerID inp) (ci_IdempotencyKey inp) t = Some old"
  shows "store w' = t"
proof -
  from assms(2) obtain product reqID reason reqs lns where
    d: "reqs = [] \<and> lns = [] \<or> reqs = [unstamp_request (rejected_request inp product reqID now reason hash)]"
    and t': "store w' = t\<lparr>t_requests := t_requests t @ reqs, t_lines := t_lines t @ lns\<rparr>"
    unfolding rejection_debris_def by blast
  from d show ?thesis
  proof
    assume "reqs = [unstamp_request (rejected_request inp product reqID now reason hash)]"
    with keys_once [OF assms(1), of t "unstamp_request (rejected_request inp product reqID now reason hash)" old]
    show ?thesis using assms(3) t' by (simp add: rejected_request_def)
  qed (simp add: t')
qed

text \<open>
  C13: A key is used once. If a request of this customer under this idempotency key is stored,
  \<^verbatim>\<open>CreateRequest\<close> leaves every table as it was, whatever the cache and the idempotency store
  answer; and what it returns is a stored request whose body hash matches.
\<close>

theorem replay_changes_nothing:
  assumes "sound bd bq w" and "permutes_maps E"
    and "CreateRequest (pg_service cache idem cfg E) inp w = (r, w')"
    and "find_idem (ci_CustomerID inp) (ci_IdempotencyKey inp) (store w) = Some old"
  shows "store w' = store w \<and> (\<forall>req. r = Inr req \<longrightarrow> replays (store w) (computeBodyHash E inp) req)"
proof (cases r)
  case (Inl e)
  with pg_create [OF assms(1-3)] obtain cor where p: "pg_inv (w_repo w')"
    "refused E (inp\<lparr>ci_CorrelationID := cor\<rparr>) (computeBodyHash E inp) (time_of w) (store w) (store w')" by auto
  then show ?thesis using Inl assms(4) debris_empty [OF p(1)] by (auto simp: refused_def)
next
  case (Inr req)
  with pg_create [OF assms(1-3)] obtain cor where p: "pg_inv (w_repo w')"
    "created E cfg (inp\<lparr>ci_CorrelationID := cor\<rparr>) (computeBodyHash E inp) (time_of w) (store w) req (store w')" by auto
  from p(2) show ?thesis unfolding created_def
  proof (elim disjE conjE)
    assume "rejection_debris E (inp\<lparr>ci_CorrelationID := cor\<rparr>) (computeBodyHash E inp) (time_of w) (store w) (store w')"
      and own: "replays_own (store w') (inp\<lparr>ci_CorrelationID := cor\<rparr>) (computeBodyHash E inp) req"
    with debris_empty [OF p(1)] assms(4) have "store w' = store w" by simp
    then show ?thesis using own Inr by (simp add: replays_own_def)
  qed (use assms(4) Inr in \<open>auto simp: reserved_effect_def rejected_effect_def\<close>)
qed

theorem replay_changes_nothing_witness:
  "store (snd (CreateRequest sample_service (order ''k1'' ''cpu'' 4) busy)) = busy_tables"
proof -
  have "find_idem (ci_CustomerID (order ''k1'' ''cpu'' 4)) (ci_IdempotencyKey (order ''k1'' ''cpu'' 4)) (store busy) = Some busy_request"
    by (simp add: find_idem_def busy_tables_def busy_request_def order_def)
  from replay_changes_nothing [OF sound_busy(1) sample_range surjective_pairing this]
  show ?thesis unfolding sample_service_def by simp
qed

text \<open>
  The request a key already used leads to: the row the idempotency store names, if it answers with the
  id of a stored row, and the row of this customer and key in the table otherwise.
\<close>

definition request_under ::
    "'c idempotency_store \<Rightarrow> environment \<Rightarrow> create_input \<Rightarrow> (pg_state, 'c) world \<Rightarrow> capacity_request option" where
  "request_under idem E inp w =
     (case (case fst (is_Get idem (ci_CustomerID inp) (ci_IdempotencyKey inp) (w_redis w)) of
              Inr (Some i) \<Rightarrow> Option.bind (en_uuid_Parse E i) (\<lambda>uid. find_request uid (pg_tables (w_repo w)))
            | _ \<Rightarrow> None) of
        Some r \<Rightarrow> Some r
      | None \<Rightarrow> find_idem (ci_CustomerID inp) (ci_IdempotencyKey inp) (pg_tables (w_repo w)))"

definition replay_answer :: "environment \<Rightarrow> create_input \<Rightarrow> capacity_request \<Rightarrow> go_error + capacity_request" where
  "replay_answer E inp old =
     (if cr_BodyHash old = '''' \<or> cr_BodyHash old = computeBodyHash E inp then Inr old
      else Inl (NewAppError ReasonIdempotencyKeyReused ''idempotency key reused with different body''
                 (Some [(''request_id'', DStr (en_uuid_String E (cr_ID old)))])))"

lemma request_under_update [simp]:
  "request_under idem E (inp\<lparr>ci_CorrelationID := c\<rparr>) w = request_under idem E inp w"
  "request_under idem E inp (w\<lparr>w_drawn := n\<rparr>) = request_under idem E inp w"
  by (simp_all add: request_under_def cong: sum.case_cong option.case_cong)

lemma matchIdempotentBody_run:
  "matchIdempotentBody E old (computeBodyHash E inp) w = (replay_answer E inp old, w)"
  by (simp add: matchIdempotentBody_def replay_answer_def fail_def ret_def)

text \<open>The fast path only ever moves the state of the store behind it.\<close>

lemma replay_fast_run:
  fixes idem :: "'c idempotency_store"
  assumes "pg_faults (w_repo w) = []"
  obtains redis where "replay_fast (pg_service cache idem cfg E) inp w =
     (Inr (case fst (is_Get idem (ci_CustomerID inp) (ci_IdempotencyKey inp) (w_redis w)) of
         Inr (Some i) \<Rightarrow> Option.bind (en_uuid_Parse E i) (\<lambda>uid. find_request uid (pg_tables (w_repo w)))
       | _ \<Rightarrow> None), w\<lparr>w_redis := redis\<rparr>)"
proof (cases "is_Get idem (ci_CustomerID inp) (ci_IdempotencyKey inp) (w_redis w)")
  case (Pair g s)
  have f: "pg_faults (w_repo (w\<lparr>w_redis := s\<rparr>)) = []" using assms by simp
  show thesis
    by (rule that [of s])
      (simp add: replay_fast_def andThen_def attempt_def onRedis_def ret_def Pair onRepo_reads [OF f]
        split: sum.splits option.splits)
qed

lemma check_replays:
  fixes idem :: "'c idempotency_store"
  assumes "pg_faults (w_repo w) = []" and "request_under idem E inp w = Some old"
  shows "\<exists>redis. checkIdempotentReplay (pg_service cache idem cfg E) inp (computeBodyHash E inp) w =
     (map_sum id Some (replay_answer E inp old), w\<lparr>w_redis := redis\<rparr>)"
proof -
  let ?S = "pg_service cache idem cfg E" and ?t = "pg_tables (w_repo w)"
  let ?hit = "case fst (is_Get idem (ci_CustomerID inp) (ci_IdempotencyKey inp) (w_redis w)) of
         Inr (Some i) \<Rightarrow> Option.bind (en_uuid_Parse E i) (\<lambda>uid. find_request uid ?t) | _ \<Rightarrow> None"
  obtain redis where fast: "replay_fast ?S inp w = (Inr ?hit, w\<lparr>w_redis := redis\<rparr>)"
    by (rule replay_fast_run [OF assms(1)])
  have f: "pg_faults (w_repo (w\<lparr>w_redis := redis\<rparr>)) = []" using assms(1) by simp
  have "\<exists>s. ignoring (onRedis (is_Set idem c k i d)) (w\<lparr>w_redis := redis\<rparr>) = (Inr (), w\<lparr>w_redis := s\<rparr>)" for c k i d
    by (cases "is_Set idem c k i d redis")
      (auto simp: ignoring_def onRedis_def attempt_def andThen_def ret_def intro!: exI)
  then obtain s where s: "ignoring (onRedis (is_Set idem (ci_CustomerID inp) (ci_IdempotencyKey inp)
      (en_uuid_String E (cr_ID old)) (cfg_ReserveTTL cfg * 2))) (w\<lparr>w_redis := redis\<rparr>) = (Inr (), w\<lparr>w_redis := s\<rparr>)"
    by blast
  show ?thesis
  proof (cases ?hit)
    case (Some r)
    with assms(2) have "r = old" by (simp add: request_under_def)
    with fast Some show ?thesis
      by (cases "replay_answer E inp old")
        (auto simp: checkIdempotentReplay_def andThen_def matchIdempotentBody_run ret_def)
  next
    case None
    with assms(2) have found: "find_idem (ci_CustomerID inp) (ci_IdempotencyKey inp) ?t = Some old"
      by (simp add: request_under_def)
    with fast None s show ?thesis
      by (cases "replay_answer E inp old")
        (auto simp: checkIdempotentReplay_def andThen_def matchIdempotentBody_run onRepo_reads [OF f] ret_def)
  qed
qed

text \<open>
  C18: Replay and reuse, to the letter, whatever stores the service is wired with. While the database
  answers, a valid request under a key already used is answered from the request that key leads to
  (\<open>request_under\<close>, the row the idempotency store names before the row in the table): this row if its
  body hash is empty or matches, and \<^verbatim>\<open>IDEMPOTENCY_KEY_REUSED\<close> naming it otherwise. The fast path is
  held to the hash like the table. Nothing moves but the state of the idempotency store and the count
  of UUIDs drawn: no table, no clock, no metric.
\<close>

theorem replay_or_reuse:
  fixes idem :: "'c idempotency_store"
  assumes "pg_faults (w_repo w) = []" and "input_ok inp" and "ci_IdempotencyKey inp \<noteq> ''''"
    and "ci_CustomerID inp \<noteq> ''''" and "request_under idem E inp w = Some old"
  shows "\<exists>redis drawn. CreateRequest (pg_service cache idem cfg E) inp w =
    (replay_answer E inp old, w\<lparr>w_redis := redis, w_drawn := drawn\<rparr>)"
proof -
  let ?S = "pg_service cache idem cfg E"
  let ?inp = "if ci_CorrelationID inp = '''' then inp\<lparr>ci_CorrelationID := en_uuid_String E (w_uuids w (w_drawn w))\<rparr> else inp"
  let ?w = "if ci_CorrelationID inp = '''' then w\<lparr>w_drawn := Suc (w_drawn w)\<rparr> else w"
  have start: "CreateRequest ?S inp w = andThen (checkIdempotentReplay ?S ?inp (computeBodyHash E ?inp))
      (\<lambda>replayed. case replayed of Some existing \<Rightarrow> ret existing
        | None \<Rightarrow> create_new ?S ?inp (computeBodyHash E ?inp)) ?w"
    using assms(2-4) by (simp add: CreateRequest_def validate_None [symmetric] Let_def andThen_def uuid_New_def calling_def ret_def)
  have "pg_faults (w_repo ?w) = []" "request_under idem E ?inp ?w = Some old" "replay_answer E ?inp old = replay_answer E inp old"
    using assms(1,5) by (simp_all add: replay_answer_def)
  from check_replays [OF this(1,2)] this(3) obtain redis where
    "checkIdempotentReplay ?S ?inp (computeBodyHash E ?inp) ?w = (map_sum id Some (replay_answer E inp old), ?w\<lparr>w_redis := redis\<rparr>)"
    by metis
  then have "CreateRequest ?S inp w = (replay_answer E inp old, ?w\<lparr>w_redis := redis\<rparr>)"
    unfolding start andThen_def by (cases "replay_answer E inp old") (simp_all add: ret_def)
  moreover have "?w\<lparr>w_redis := redis\<rparr> = w\<lparr>w_redis := redis, w_drawn := w_drawn ?w\<rparr>" by simp
  ultimately show ?thesis by metis
qed

theorem replay_or_reuse_witness:
  "fst (CreateRequest sample_service (order ''k1'' ''cpu'' 4) busy) =
     Inl (NewAppError ReasonIdempotencyKeyReused ''idempotency key reused with different body''
            (Some [(''request_id'', DStr ''10'')]))"
proof -
  let ?in = "order ''k1'' ''cpu'' 4"
  have h: "pg_faults (w_repo busy) = []" "pg_tables (w_repo busy) = busy_tables" by (simp_all add: busy_def world_of_def)
  have "input_ok ?in" by (simp add: input_ok_def order_def maxLinesPerRequest_def maxAmount_def)
  moreover have "request_under NoopIdempotency sample_env ?in busy = Some busy_request"
    unfolding request_under_def h
    by (simp add: NoopIdempotency_def ret_def find_idem_def busy_tables_def busy_request_def order_def)
  ultimately have "\<exists>redis drawn. CreateRequest sample_service ?in busy =
      (replay_answer sample_env ?in busy_request, busy\<lparr>w_redis := redis, w_drawn := drawn\<rparr>)"
    unfolding sample_service_def by (intro replay_or_reuse h(1)) (simp_all add: order_def)
  moreover have "cr_BodyHash busy_request \<noteq> computeBodyHash sample_env ?in" "en_uuid_String sample_env (UUID 10) = ''10''"
    by code_simp+
  ultimately show ?thesis by (auto simp: replay_answer_def busy_request_def)
qed

subsection \<open>Planning\<close>

lemma planned_order: "planned (E\<lparr>en_range := f\<rparr>) t inp product plans = planned E t inp product plans"
  by (simp add: planned_def)

lemma pg_plan:
  assumes "sound bd bq w" and "permutes_maps E" and "input_ok inp"
    and "buildReservationPlan (pg_service cache idem cfg E) inp w = (Inr (plans, product), w')"
  shows "planned E (store w) inp product plans"
proof -
  have perm: "\<And>xs. mset (en_range (sv_env (pg_service cache idem cfg E)) xs) = mset xs"
    using assms(2) by (simp add: permutes_maps_def)
  have t: "pools_ok (store w)" "catalog_ok (store w)" using assms(1) by (simp_all add: sound_def ledger_def book_def)
  from hoareD [OF pg.buildReservationPlan_rule [OF perm t(2) assms(3) t(1)] assms(4) sound_sees [OF assms(1)]]
  show ?thesis by simp
qed

text \<open>
  C17: The plan does not depend on the iteration order of Go's maps. Whatever order two runs iterate
  the template and the resolved amounts in, they plan the same pools in the same sequence, sorted by
  the text of the pool id: every transaction takes the rows of the pools in one global order.
\<close>

theorem plan_order_independent:
  assumes "sound bd bq w" and "permutes_maps E" and "permutes_maps (E\<lparr>en_range := f\<rparr>)" and "input_ok inp"
    and "inj (en_uuid_String E)"
    and "buildReservationPlan (pg_service cache idem cfg E) inp w = (Inr (plans, product), v)"
    and "buildReservationPlan (pg_service cache' idem' cfg' (E\<lparr>en_range := f\<rparr>)) inp w = (Inr (plans', product'), v')"
  shows "plans' = plans \<and> product' = product \<and> sorted (map (\<lambda>p. en_uuid_String E (pl_poolID p)) plans) \<and>
    distinct (map pl_poolID plans) \<and>
    mset (map (\<lambda>p. (pl_kind p, pl_amount p)) plans) = mset (wanted inp product)"
proof -
  have p: "planned E (store w) inp product plans" by (rule pg_plan [OF assms(1,2,4,6)])
  have p': "planned E (store w) inp product' plans'"
    using pg_plan [OF assms(1,3,4,7)] by (simp add: planned_order)
  have "pools_ok (store w)" using assms(1) by (simp add: sound_def ledger_def book_def)
  then have "plans' = plans" by (rule planned_unique [OF p' p assms(5)])
  moreover have "product' = product" using p p' unfolding planned_def by metis
  moreover note p [unfolded planned_def plan_ok_def]
  ultimately show ?thesis by blast
qed

definition vm_order :: create_input where
  "vm_order = \<lparr>ci_CustomerID = ''acme'', ci_IdempotencyKey = ''k4'', ci_ProductCode = ''vm'', ci_Quantity = 2,
     ci_Lines = [], ci_CorrelationID = ''c''\<rparr>"

definition reversed_service :: "(pg_state, unit) capacity_service" where
  "reversed_service = pg_service NoopCache NoopIdempotency sample_cfg (sample_env\<lparr>en_range := rev\<rparr>)"

definition vm_plan :: "reservation_plan list" where
  "vm_plan = [\<lparr>pl_kind = ''cpu'', pl_poolID = UUID 1, pl_amount = 4\<rparr>, \<lparr>pl_kind = ''ram'', pl_poolID = UUID 2, pl_amount = 8\<rparr>]"

lemma vm_runs:
  "fst (buildReservationPlan sample_service vm_order idle) = Inr (vm_plan, Some (hd sample_products))"
  "case fst (buildReservationPlan reversed_service vm_order idle) of Inl e \<Rightarrow> False | Inr (ps, p) \<Rightarrow> length ps = 2"
  by code_simp+

theorem plan_order_independent_witness:
  "fst (buildReservationPlan reversed_service vm_order idle) = Inr (vm_plan, Some (hd sample_products))"
proof -
  obtain ps p where r: "fst (buildReservationPlan reversed_service vm_order idle) = Inr (ps, p)"
    using vm_runs(2) by (auto split: sum.splits)
  have h: "permutes_maps (sample_env\<lparr>en_range := rev\<rparr>)" "input_ok vm_order" "inj (en_uuid_String sample_env)"
    by (auto simp: permutes_maps_def input_ok_def vm_order_def maxQuantity_def sample_env_def inj_def uuid_num_inject)
  from plan_order_independent [OF sound_idle sample_range h run_result [OF vm_runs(1), unfolded sample_service_def]
      run_result [OF r, unfolded reversed_service_def]]
  show ?thesis using r by simp
qed

subsection \<open>Listing capacity\<close>

lemma map_of_fold_update:
  "map_of (fold (\<lambda>q. AList.update (k q) q) qs m) x = Some q \<Longrightarrow> q \<in> set qs \<and> k q = x \<or> map_of m x = Some q"
proof (induction qs arbitrary: m)
  case (Cons a qs)
  from Cons.IH [of "AList.update (k a) a m"] Cons.prems show ?case
    by (auto simp: update_conv split: if_splits)
qed simp

text \<open>The display helper of a pool within its capacity is exact.\<close>

lemma Available_exact:
  assumes "pool_ok p" and "0 \<le> rp_Total p" and "0 \<le> f64_mant (rp_OversubscribeFactor p)"
  shows "Available p = effective p - rp_DedicatedAmount p - rp_ReservedAmount p"
proof -
  let ?x = "f64_mul (f64_of_int (rp_Total p)) (rp_OversubscribeFactor p)"
  have "0 \<le> f64_mant ?x" by (intro f64_mul_mant_nonneg f64_of_int_mant_nonneg assms(2,3))
  then have tr: "f64_trunc ?x = effective p" unfolding effective_def by (rule f64_trunc_floor)
  have b: "0 \<le> rp_DedicatedAmount p" "0 \<le> rp_ReservedAmount p" "effective p \<le> 2 ^ 53 - 1"
    "rp_DedicatedAmount p + rp_ReservedAmount p \<le> effective p"
    using assms(1) by (simp_all add: pool_ok_def maxAmount_def)
  then have "in_i64 (effective p)" "in_i64 (effective p - rp_DedicatedAmount p)"
    "in_i64 (effective p - rp_DedicatedAmount p - rp_ReservedAmount p)"
    by (simp_all add: in_i64_def)
  then show ?thesis using b(4) by (simp add: Available_def f64_to_int64_def tr Let_def)
qed

lemma Remaining_exact:
  assumes "quota_ok q"
  shows "Remaining q = cq_Limit q - cq_UsedAmount q"
proof -
  have "in_i64 (cq_Limit q - cq_UsedAmount q)" using assms by (auto simp: quota_ok_def in_i64_def)
  then show ?thesis using assms by (simp add: Remaining_def Let_def quota_ok_def)
qed

lemma map_of_fold_present:
  "map_of m x \<noteq> None \<or> (\<exists>q \<in> set qs. k q = x) \<Longrightarrow> map_of (fold (\<lambda>q. AList.update (k q) q) qs m) x \<noteq> None"
proof (induction qs arbitrary: m)
  case (Cons a qs)
  from Cons.prems have "map_of (AList.update (k a) a m) x \<noteq> None \<or> (\<exists>q \<in> set qs. k q = x)"
    by (auto simp: update_conv)
  from Cons.IH [OF this] show ?case by simp
qed simp

lemma Available_nonneg: "0 \<le> Available p" and Remaining_nonneg: "0 \<le> Remaining q"
  by (simp_all add: Available_def Remaining_def Let_def)

lemma unstamp_views [simp]:
  "Available (unstamp_pool p) = Available p" "effective (unstamp_pool p) = effective p" "pool_ok (unstamp_pool p) = pool_ok p"
  "Remaining (unstamp_quota q) = Remaining q" "quota_ok (unstamp_quota q) = quota_ok q"
  by (simp_all add: Available_def effective_def pool_ok_def Remaining_def quota_ok_def)

definition totals_ok :: "tables \<Rightarrow> bool" where
  "totals_ok t \<longleftrightarrow> (\<forall>p \<in> set (t_pools t). 0 \<le> rp_Total p \<and> 0 \<le> f64_mant (rp_OversubscribeFactor p))"

text \<open>The quota a customer's listing looks at.\<close>

lemma listed_quota:
  assumes "mset (map unstamp_quota qs) = mset (filter (\<lambda>q. cq_CustomerID q = c) (t_quotas t))" and "quotas_ok t"
    and "q \<in> set (t_quotas t)" and "quota_key q = (c, k)"
  obtains q' where "map_of (fold (\<lambda>q. AList.update (cq_ResourceKind q) q) qs []) k = Some q'" and "unstamp_quota q' = q"
proof -
  have members: "unstamp_quota ` set qs = {q \<in> set (t_quotas t). cq_CustomerID q = c}"
    using arg_cong [OF assms(1), of set_mset] by (simp add: set_mset_mset)
  have "q \<in> unstamp_quota ` set qs" using assms(3,4) by (simp add: members quota_key_def)
  then have "\<exists>x \<in> set qs. cq_ResourceKind x = k" using assms(4) by (auto simp: quota_key_def unstamp_quota_def)
  with map_of_fold_present [of "[]" k qs cq_ResourceKind] obtain q' where
    m: "map_of (fold (\<lambda>q. AList.update (cq_ResourceKind q) q) qs []) k = Some q'" by blast
  from map_of_fold_update [OF this] have q': "q' \<in> set qs" "cq_ResourceKind q' = k" by auto
  then have "unstamp_quota q' \<in> {q \<in> set (t_quotas t). cq_CustomerID q = c}" using members by blast
  then have "unstamp_quota q' = q"
    using assms(2-4) q'(2) distinct_key_inj [of quota_key "t_quotas t" "unstamp_quota q'" q]
    by (auto simp: quotas_ok_def quota_key_def unstamp_quota_def)
  with m show thesis by (rule that)
qed

text \<open>What a listing shows of a pool: what is free in it, cut down to what the quota has left.\<close>

definition free_in :: "resource_pool \<Rightarrow> int" where
  "free_in p = effective p - rp_DedicatedAmount p - rp_ReservedAmount p"

definition shown :: "tables \<Rightarrow> string \<Rightarrow> resource_pool \<Rightarrow> int option \<times> int" where
  "shown t c p =
     (case find (\<lambda>q. quota_key q = (c, rp_Kind p)) (t_quotas t) of
        Some q \<Rightarrow> if c = '''' then (None, free_in p)
                   else (Some (cq_Limit q - cq_UsedAmount q), min (cq_Limit q - cq_UsedAmount q) (free_in p))
      | None \<Rightarrow> (None, free_in p))"

text \<open>The store has no listing for this customer: nothing under the key, an error, or no JSON of views.\<close>

definition listing_missing :: "'c cache_store \<Rightarrow> environment \<Rightarrow> string \<Rightarrow> (pg_state, 'c) world \<Rightarrow> bool" where
  "listing_missing cache E c w \<longleftrightarrow>
     (case fst (cs_GetCapacity cache (if c \<noteq> '''' then ''cust:'' @ c else capacityCacheKey) (w_redis w)) of
        Inr (Some b) \<Rightarrow> en_unmarshal_views E b = None | _ \<Rightarrow> True)"

text \<open>A listing that is not in the store is computed as if there were none.\<close>

lemma listing_miss_run:
  fixes cache :: "'c cache_store"
  assumes "listing_missing cache E c w"
  obtains redis where "ListCapacity (pg_service cache idem cfg E) c w =
     ListCapacity (pg_service (cache\<lparr>cs_GetCapacity := \<lambda>_. ret None\<rparr>) idem cfg E) c (w\<lparr>w_redis := redis\<rparr>)"
proof (cases "cs_GetCapacity cache (if c \<noteq> '''' then ''cust:'' @ c else capacityCacheKey) (w_redis w)")
  case (Pair g s)
  have miss: "(case g of Inr (Some b) \<Rightarrow> en_unmarshal_views E b | _ \<Rightarrow> None) = None"
    using assms Pair by (auto simp: listing_missing_def split: sum.splits option.splits)
  have asked: "andThen (attempt (onRedis (cs_GetCapacity cache (if c \<noteq> '''' then ''cust:'' @ c else capacityCacheKey)))) f w =
      f g (w\<lparr>w_redis := s\<rparr>)" for f :: "_ \<Rightarrow> (_, capacity_view list) gor"
    unfolding andThen_def attempt_def onRedis_def Pair by simp
  have run: "ListCapacity (pg_service cache idem cfg E) c w = f None (w\<lparr>w_redis := s\<rparr>)"
    if "ListCapacity (pg_service cache idem cfg E) c =
        andThen (attempt (onRedis (cs_GetCapacity cache (if c \<noteq> '''' then ''cust:'' @ c else capacityCacheKey))))
          (\<lambda>g. f (case g of Inr (Some b) \<Rightarrow> en_unmarshal_views E b | _ \<Rightarrow> None))" for f
    unfolding that asked miss by simp
  have other: "cs_SetCapacity (cache\<lparr>cs_GetCapacity := \<lambda>_. ret None\<rparr>) = cs_SetCapacity cache"
    "cs_GetCapacity (cache\<lparr>cs_GetCapacity := \<lambda>_. ret None\<rparr>) = (\<lambda>_. ret None)" by simp_all
  have empty: "andThen (attempt (onRedis (ret None))) f v = f (Inr None) v"
    for f :: "go_error + string option \<Rightarrow> ((pg_state, 'c) world, capacity_view list) gor" and v
    by (simp add: andThen_def attempt_def onRedis_def ret_def)
  show thesis
    apply (rule that [of s])
    apply (rule trans [OF run])
    unfolding ListCapacity_def Let_def pg_service_sel apply (rule refl)
    apply (simp only: other empty sum.case option.case)
    done
qed

lemma unlisted_rule:
  assumes "sound bd bq w" and "ListCapacity (pg_service (cache\<lparr>cs_GetCapacity := \<lambda>_. ret None\<rparr>) idem cfg E) c w = (Inr vs, w')"
  shows "store w' = store w \<and> listed (store w) c vs"
  using hoareD [OF pg.ListCapacity_rule assms(2) sound_sees [OF assms(1)], unfolded sum.case sees_store pg_service_sel]
  by (auto simp: ret_def)

lemma sound_redis [simp]: "sound bd bq (w\<lparr>w_redis := s\<rparr>) = sound bd bq w" "store (w\<lparr>w_redis := s\<rparr>) = store w"
  by (simp_all add: sound_def store_def)

lemma view_shown:
  assumes "quotas_ok t" and "if c = '''' then qs = [] else
      mset (map unstamp_quota qs) = mset (filter (\<lambda>q. cq_CustomerID q = c) (t_quotas t))"
    and "Available p = free_in p"
  defines "v \<equiv> capacity_view_of (fold (\<lambda>q. AList.update (cq_ResourceKind q) q) qs []) p"
  shows "(cv_CustomerRemaining v, cv_Available v) = shown t c p"
proof (cases "find (\<lambda>q. quota_key q = (c, rp_Kind p)) (t_quotas t)")
  case None
  have "map_of (fold (\<lambda>q. AList.update (cq_ResourceKind q) q) qs []) (rp_Kind p) = None"
  proof (rule ccontr)
    assume "\<not> ?thesis"
    then obtain q' where m: "map_of (fold (\<lambda>q. AList.update (cq_ResourceKind q) q) qs []) (rp_Kind p) = Some q'" by blast
    from map_of_fold_update [OF this] have q': "q' \<in> set qs" "cq_ResourceKind q' = rp_Kind p" by auto
    then have "c \<noteq> ''''" using assms(2) by auto
    then have "unstamp_quota ` set qs = {q \<in> set (t_quotas t). cq_CustomerID q = c}"
      using arg_cong [of _ _ set_mset, OF assms(2) [simplified if_not_P [OF \<open>c \<noteq> ''''\<close>]]] by (simp add: set_mset_mset)
    then have "unstamp_quota q' \<in> {q \<in> set (t_quotas t). cq_CustomerID q = c}" using q'(1) by blast
    moreover have "quota_key (unstamp_quota q') = (cq_CustomerID (unstamp_quota q'), rp_Kind p)"
      using q'(2) by (simp add: quota_key_def unstamp_quota_def)
    ultimately show False using None unfolding find_None_iff by auto
  qed
  then show ?thesis using None assms(3) by (simp add: v_def shown_def capacity_view_of_def)
next
  case (Some q)
  then have q: "q \<in> set (t_quotas t)" "quota_key q = (c, rp_Kind p)" by (auto simp: find_Some_iff)
  show ?thesis
  proof (cases "c = ''''")
    case True
    then show ?thesis using Some assms(2,3) by (simp add: v_def shown_def capacity_view_of_def)
  next
    case False
    then have "mset (map unstamp_quota qs) = mset (filter (\<lambda>q. cq_CustomerID q = c) (t_quotas t))" using assms(2) by simp
    from listed_quota [OF this assms(1) q] obtain q' where
      q': "map_of (fold (\<lambda>q. AList.update (cq_ResourceKind q) q) qs []) (rp_Kind p) = Some q'" "unstamp_quota q' = q" .
    have "Remaining q' = cq_Limit q - cq_UsedAmount q"
      using Remaining_exact [of q] assms(1) q(1) q'(2) by (auto simp: quotas_ok_def list_all_iff)
    then show ?thesis using Some False q'(1) assms(3) by (simp add: v_def shown_def capacity_view_of_def)
  qed
qed

text \<open>
  C20: The listing is honest. When the cache has no listing for the customer,
  \<^verbatim>\<open>ListCapacity\<close> changes no table and shows every pool once, with exactly what is free in it, for a
  customer with a quota of that kind cut down to what this quota has left (\<open>shown\<close>). The amount shown as
  available is never negative and the pool would grant it.
\<close>

theorem listing_is_honest:
  fixes cache :: "'c cache_store"
  assumes "sound bd bq w" and "totals_ok (store w)" and "listing_missing cache E c w"
    and "ListCapacity (pg_service cache idem cfg E) c w = (Inr vs, w')"
  shows "store w' = store w \<and> mset (map (\<lambda>v. unstamp_pool (cv_Pool v)) vs) = mset (t_pools (store w)) \<and>
    (\<forall>v \<in> set vs. (cv_CustomerRemaining v, cv_Available v) = shown (store w) c (cv_Pool v) \<and>
       0 \<le> cv_Available v \<and> admits (rp_ID (cv_Pool v)) (cv_Available v) (store w))"
proof -
  let ?m = "\<lambda>qs. fold (\<lambda>q. AList.update (cq_ResourceKind q) q) qs ([] :: (string \<times> customer_quota) list)"
  obtain redis where "ListCapacity (pg_service (cache\<lparr>cs_GetCapacity := \<lambda>_. ret None\<rparr>) idem cfg E) c (w\<lparr>w_redis := redis\<rparr>) = (Inr vs, w')"
    using listing_miss_run [OF assms(3)] assms(4) by metis
  from unlisted_rule [OF _ this] assms(1) have same: "store w' = store w" and "listed (store w) c vs" by simp_all
  then obtain ps qs where ps: "mset (map unstamp_pool ps) = mset (t_pools (store w))"
    and qs: "if c = '''' then qs = [] else
      mset (map unstamp_quota qs) = mset (filter (\<lambda>q. cq_CustomerID q = c) (t_quotas (store w)))"
    and vs: "vs = map (capacity_view_of (?m qs)) ps" unfolding listed_def by (elim exE conjE)
  have pool: "cv_Pool (capacity_view_of m p) = p" for m p by (simp add: capacity_view_of_def split: option.splits)
  have ok: "pools_ok (store w)" "quotas_ok (store w)" using assms(1) by (simp_all add: sound_def ledger_def book_def)
  have each: "(cv_CustomerRemaining v, cv_Available v) = shown (store w) c (cv_Pool v) \<and>
      0 \<le> cv_Available v \<and> admits (rp_ID (cv_Pool v)) (cv_Available v) (store w)" if listed: "v \<in> set vs" for v
  proof -
    obtain p where p: "p \<in> set ps" "v = capacity_view_of (?m qs) p" using listed vs by auto
    then have v: "cv_Pool v = p" "cv_Available v \<le> Available p" "0 \<le> cv_Available v"
      using Available_nonneg Remaining_nonneg by (auto simp: capacity_view_of_def split: option.splits)
    have up: "unstamp_pool p \<in> set (t_pools (store w))"
      using p(1) arg_cong [OF ps, of set_mset] by auto
    then have "pool_ok (unstamp_pool p)" "0 \<le> rp_Total (unstamp_pool p)" "0 \<le> f64_mant (rp_OversubscribeFactor (unstamp_pool p))"
      using ok assms(2) by (auto simp only: pools_ok_def list_all_iff totals_ok_def)
    from Available_exact [OF this] have av: "Available p = free_in p" by (simp add: free_in_def)
    have "admits (rp_ID p) (cv_Available v) (store w)"
      using up v(2) av by (auto simp: admits_def list_ex_iff free_in_def intro!: bexI [of _ "unstamp_pool p"])
    with v view_shown [OF ok(2) qs av] p(2) show ?thesis by simp
  qed
  moreover have "map (\<lambda>v. unstamp_pool (cv_Pool v)) vs = map unstamp_pool ps" by (simp add: vs pool)
  ultimately show ?thesis using same ps by simp
qed

lemma busy_listing:
  "case fst (ListCapacity sample_service ''acme'' busy) of Inl e \<Rightarrow> False
   | Inr vs \<Rightarrow> map (\<lambda>v. (rp_ID (cv_Pool v), cv_Available v)) vs = [(UUID 1, 7), (UUID 2, 20)]"
  by code_simp

theorem listing_is_honest_witness: "admits (UUID 1) 7 busy_tables"
proof -
  obtain vs where vs: "fst (ListCapacity sample_service ''acme'' busy) = Inr vs"
    "map (\<lambda>v. (rp_ID (cv_Pool v), cv_Available v)) vs = [(UUID 1, 7), (UUID 2, 20)]"
    using busy_listing by (auto split: sum.splits)
  then obtain v where v: "v \<in> set vs" "rp_ID (cv_Pool v) = UUID 1" "cv_Available v = 7" by (cases vs) auto
  have "totals_ok (store busy)" by (simp add: totals_ok_def busy_tables_def sample_pools_def)
  moreover have "listing_missing NoopCache sample_env ''acme'' busy" by (simp add: listing_missing_def NoopCache_def ret_def)
  ultimately show ?thesis
    using listing_is_honest [OF sound_busy(1) _ _ run_result [OF vs(1), unfolded sample_service_def]] v by fastforce
qed

text \<open>
  For a customer without a quota row the listing shows the whole pool, although the first order creates
  a quota with the default limit: of 20000 cores shown as available, 15000 are refused.
\<close>

definition wide :: "(pg_state, unit) world" where
  "wide = world_of (idle_tables\<lparr>t_pools := map (\<lambda>p. p\<lparr>rp_Total := 20000\<rparr>) (sample_pools 0)\<rparr>) 0"

lemma newcomer_is_shown_too_much:
  "case fst (ListCapacity sample_service ''acme'' wide) of Inl e \<Rightarrow> False
   | Inr vs \<Rightarrow> map (\<lambda>v. (rp_Kind (cv_Pool v), cv_Available v)) vs = [(''cpu'', 20000), (''ram'', 20000)]"
  "fst (QuotaRepo_EnsureAndTryConsume ''acme'' ''cpu'' 15000 defaultQuotaLimit (w_repo wide)) = Inr False"
  by code_simp+

end
