(* ===== verification/Lifecycle_Properties.thy ===== *)
theory Lifecycle_Properties
  imports Create_Properties
begin

text \<open>
  Properties of confirming, cancelling, extending and sweeping on Postgres: which counters move and
  by how much, which calls are refused and with which error, and what the sweeper may touch.
\<close>

lemma busy_reserved: "has_status (UUID 10) StatusReserved (store busy)"
  by (simp add: has_status_def busy_facts) (simp add: busy_request_def)

lemma sound_ledger: "sound bd bq w \<Longrightarrow> ledger bd bq (store w)"
  by (simp add: sound_def)

lemma find_mapWhere:
  "(\<And>x. p (f x) = p x) \<Longrightarrow> find p (mapWhere q f xs) = map_option (\<lambda>r. if q r then f r else r) (find p xs)"
  by (induction xs) auto

lemma one_status: "has_status i a t \<Longrightarrow> has_status i b t \<Longrightarrow> a = b"
  by (auto simp: has_status_def)

text \<open>
  C9: Confirming. When \<^verbatim>\<open>Confirm\<close> succeeds on a RESERVED request, the request had not expired;
  it is now COMPLETED and has no active holds; each of its holds is DEDICATED and has a dedication of
  the same pool and amount; on every pool exactly the amount it held moved from reserved to dedicated;
  and no quota changed.
\<close>

theorem confirm_dedicates_exactly:
  assumes "sound bd bq w" and "Confirm (pg_service cache idem cfg E) i w = (Inr q, w')"
    and "has_status i StatusReserved (store w)"
  shows "finished i StatusCompleted HoldDedicated EventConfirmed '''' (time_of w) (store w) (store w') \<and>
    map_option unstamp_request q = find_request i (store w') \<and>
    (\<forall>r. find_request i (store w) = Some r \<longrightarrow> \<not> expired_at (time_of w) r) \<and>
    t_pools (store w') = shift_pools (\<lambda>p. - held i (store w) p) (held i (store w)) (t_pools (store w)) \<and>
    t_quotas (store w') = t_quotas (store w) \<and>
    (\<exists>hs ds. lists_active i (store w) hs \<and> dedications_for i (time_of w) hs ds \<and>
       t_dedications (store w') = t_dedications (store w) @ ds)"
proof -
  from pg_confirm [OF assms(1,2)] have l': "ledger bd bq (store w')"
    and q: "map_option unstamp_request q = find_request i (store w')"
    and d: "store w' = store w \<and> has_status i StatusCompleted (store w) \<or>
      confirm_effect i (time_of w) (store w) (store w') \<and>
      (\<forall>r. find_request i (store w) = Some r \<longrightarrow> \<not> expired_at (time_of w) r)" by simp_all
  then have eff: "confirm_effect i (time_of w) (store w) (store w')"
    and fresh: "\<forall>r. find_request i (store w) = Some r \<longrightarrow> \<not> expired_at (time_of w) r"
    using one_status [OF assms(3)] by auto
  note confirm_facts [OF sound_ledger [OF assms(1)] l' eff]
  with q fresh show ?thesis by blast
qed

lemma held_busy: "held (UUID 10) busy_tables = at (UUID 1) 3"
  by (auto simp: held_def active_holds_def busy_tables_def fun_eq_iff at_def)

lemma confirm_busy_run:
  "case fst (Confirm sample_service (UUID 10) busy) of Inl e \<Rightarrow> False | Inr q \<Rightarrow> q \<noteq> None"
  by code_simp

theorem confirm_dedicates_exactly_witness:
  "map rp_DedicatedAmount (t_pools (store (snd (Confirm sample_service (UUID 10) busy)))) = [3, 0] \<and>
   map rp_ReservedAmount (t_pools (store (snd (Confirm sample_service (UUID 10) busy)))) = [0, 0]"
proof -
  obtain q where q: "fst (Confirm sample_service (UUID 10) busy) = Inr q"
    using confirm_busy_run by (auto split: sum.splits)
  from confirm_dedicates_exactly [OF sound_busy(1) run_result [OF q, unfolded sample_service_def] busy_reserved]
  have "t_pools (store (snd (Confirm sample_service (UUID 10) busy))) =
      shift_pools (\<lambda>p. - at (UUID 1) 3 p) (at (UUID 1) 3) (t_pools busy_tables)"
    unfolding sample_service_def by (simp add: held_busy)
  then show ?thesis by (simp add: shift_pools_def busy_tables_def sample_pools_def)
qed

text \<open>
  C10: Cancelling. When \<^verbatim>\<open>Cancel\<close> succeeds on a RESERVED request, the request is CANCELLED and
  has no active holds, its holds are RELEASED; on every pool exactly the amount it held came off the
  reserved counter, on every quota exactly what it used; and nothing was dedicated.
\<close>

theorem cancel_releases_exactly:
  assumes "sound bd bq w" and "Cancel (pg_service cache idem cfg E) i w = (Inr q, w')"
    and "has_status i StatusReserved (store w)"
  shows "finished i StatusCancelled HoldReleased EventCancelled ''CANCELLED'' (time_of w) (store w) (store w') \<and>
    map_option unstamp_request q = find_request i (store w') \<and>
    t_pools (store w') = shift_pools (\<lambda>p. - held i (store w) p) (\<lambda>_. 0) (t_pools (store w)) \<and>
    t_quotas (store w') = shift_quotas (\<lambda>ck. - held_quota i (store w) ck) (t_quotas (store w)) \<and>
    t_dedications (store w') = t_dedications (store w)"
proof -
  from pg_cancel [OF assms(1,2)] have l': "ledger bd bq (store w')"
    and q: "map_option unstamp_request q = find_request i (store w')"
    and d: "store w' = store w \<and> has_status i StatusCancelled (store w) \<or>
      release_effect i StatusCancelled (time_of w) (store w) (store w')" by simp_all
  then have eff: "release_effect i StatusCancelled (time_of w) (store w) (store w')"
    using one_status [OF assms(3)] by auto
  from release_facts [OF sound_ledger [OF assms(1)] l' eff] q show ?thesis by simp
qed

lemma cancel_busy_run:
  "case fst (Cancel sample_service (UUID 10) busy) of Inl e \<Rightarrow> False | Inr q \<Rightarrow> q \<noteq> None"
  by code_simp

theorem cancel_releases_exactly_witness:
  "map rp_ReservedAmount (t_pools (store (snd (Cancel sample_service (UUID 10) busy)))) = [0, 0] \<and>
   active_holds (UUID 10) (store (snd (Cancel sample_service (UUID 10) busy))) = []"
proof -
  obtain q where q: "fst (Cancel sample_service (UUID 10) busy) = Inr q"
    using cancel_busy_run by (auto split: sum.splits)
  from cancel_releases_exactly [OF sound_busy(1) run_result [OF q, unfolded sample_service_def] busy_reserved]
  have "t_pools (store (snd (Cancel sample_service (UUID 10) busy))) =
      shift_pools (\<lambda>p. - at (UUID 1) 3 p) (\<lambda>_. 0) (t_pools busy_tables) \<and>
    active_holds (UUID 10) (store (snd (Cancel sample_service (UUID 10) busy))) = []"
    unfolding sample_service_def by (simp add: held_busy finished_def)
  then show ?thesis by (simp add: shift_pools_def busy_tables_def sample_pools_def)
qed

text \<open>
  C21: Extending. When \<^verbatim>\<open>Extend\<close> succeeds, the request was RESERVED, not expired, and extended
  fewer than \<^verbatim>\<open>MaxExtensions\<close> times; of its row only the expiry time and the extension count
  change: one TTL after the later of now and the old expiry, still within the wall time. No other request
  moves, one EXTENDED event is recorded, and all other tables stay.
\<close>

theorem extend_moves_expiry:
  assumes "sound bd bq w" and "Extend (pg_service cache idem cfg E) i w = (Inr q, w')"
  shows "\<exists>r e evID. find_request i (store w) = Some r \<and> cr_Status r = StatusReserved \<and> \<not> expired_at (time_of w) r \<and>
    e = extension_base (time_of w) r + cfg_ReserveTTL cfg \<and> time_of w + cfg_ReserveTTL cfg \<le> e \<and>
    e \<le> cr_CreatedAt r + cfg_MaxReserveWallTime cfg \<and> cr_ExtensionCount r < cfg_MaxExtensions cfg \<and>
    map_option unstamp_request q = find_request i (store w') \<and>
    find_request i (store w') = Some (r\<lparr>cr_ExpiresAt := Some e, cr_ExtensionCount := cr_ExtensionCount r + 1\<rparr>) \<and>
    map cr_ID (t_requests (store w')) = map cr_ID (t_requests (store w)) \<and>
    (\<forall>j. j \<noteq> i \<longrightarrow> find_request j (store w') = find_request j (store w)) \<and>
    t_events (store w') = t_events (store w) @ [event_at evID i EventExtended '''' (time_of w)] \<and>
    t_lines (store w') = t_lines (store w) \<and> t_products (store w') = t_products (store w) \<and>
    same_capacity (store w) (store w')"
proof -
  from pg_extend [OF assms] obtain r evID where
    q: "map_option unstamp_request q = find_request i (store w')"
    and r: "find_request i (store w) = Some r" "cr_Status r = StatusReserved" "\<not> expired_at (time_of w) r"
      "cr_ExtensionCount r < cfg_MaxExtensions cfg"
      "extension_base (time_of w) r + cfg_ReserveTTL cfg \<le> cr_CreatedAt r + cfg_MaxReserveWallTime cfg"
    and t': "store w' = spec_extend i (extension_base (time_of w) r + cfg_ReserveTTL cfg) (cr_ExtensionCount r + 1)
               (event_at evID i EventExtended '''' (time_of w)) (store w)"
    unfolding extend_effect_def by auto
  have d: "requests_distinct (store w)" using assms(1) by (simp add: sound_def ledger_def book_def)
  have res: "is_reserved i (store w)"
    unfolding is_reserved_has_status [OF d] has_status_def using r(1,2) by blast
  let ?e = "extension_base (time_of w) r + cfg_ReserveTTL cfg"
  have "find_request i (store w') = Some (r\<lparr>cr_ExpiresAt := Some ?e, cr_ExtensionCount := cr_ExtensionCount r + 1\<rparr>)"
    using r(1,2) res find_request_member [OF r(1)] unfolding t' find_request_def spec_extend_def
    by (simp add: find_mapWhere)
  moreover have "time_of w \<le> extension_base (time_of w) r" by (simp add: extension_base_def split: option.split)
  moreover have "same_capacity (store w) (store w')" using res by (simp add: t' spec_extend_def same_capacity_def)
  moreover have "find_request j (store w') = find_request j (store w)" if "j \<noteq> i" for j
    using res that unfolding t' find_request_def spec_extend_def
    by (cases "find (\<lambda>r. cr_ID r = j) (t_requests (store w))") (auto simp: find_mapWhere dest: find_SomeD)
  moreover have "map cr_ID (t_requests (store w')) = map cr_ID (t_requests (store w))"
    using res unfolding t' spec_extend_def by (simp add: map_mapWhere_same)
  moreover have "t_events (store w') = t_events (store w) @ [event_at evID i EventExtended '''' (time_of w)]"
    "t_lines (store w') = t_lines (store w)" "t_products (store w') = t_products (store w)"
    using res by (simp_all add: t' spec_extend_def)
  ultimately show ?thesis using q r by (intro exI [of _ r] exI [of _ ?e] exI [of _ evID]) simp
qed

lemma extend_busy_run:
  "case fst (Extend sample_service (UUID 10) busy) of Inl e \<Rightarrow> False | Inr q \<Rightarrow> map_option cr_ExpiresAt q = Some (Some 1800000000)"
  by code_simp

theorem extend_moves_expiry_witness:
  "map_option cr_ExtensionCount (find_request (UUID 10) (store (snd (Extend sample_service (UUID 10) busy)))) = Some 1"
proof -
  obtain q where q: "fst (Extend sample_service (UUID 10) busy) = Inr q"
    using extend_busy_run by (auto split: sum.splits)
  from extend_moves_expiry [OF sound_busy(1) run_result [OF q, unfolded sample_service_def]]
  show ?thesis unfolding sample_service_def by (auto simp: busy_facts busy_request_def)
qed

subsection \<open>Sweeping\<close>

text \<open>
  C12: The sweeper. When \<^verbatim>\<open>ExpireDue\<close> returns \<open>n\<close>, there are \<open>n\<close> different requests,
  at most a batch, that were RESERVED and overdue; these and no others are now EXPIRED, their holds and
  only theirs are EXPIRED, the pools have exactly what they held back, and each got one event. When
  it fails, nothing has changed at all.
\<close>

theorem sweeper_expires_only_due:
  assumes "sound bd bq w" and "ExpireDue (pg_service cache idem cfg E) w = (r, w')"
  shows "(case r of Inl e \<Rightarrow> store w' = store w
    | Inr n \<Rightarrow> \<exists>is. distinct is \<and> length is = n \<and> n \<le> 100 \<and> (\<forall>i \<in> set is. due (time_of w) i (store w)) \<and>
       (\<forall>j. find_request j (store w') =
          map_option (\<lambda>r. if j \<in> set is then r\<lparr>cr_Status := StatusExpired\<rparr> else r) (find_request j (store w))) \<and>
       t_holds (store w') = flip_holds (\<lambda>h. hd_RequestID h \<in> set is) HoldExpired (t_holds (store w)) \<and>
       t_pools (store w') = shift_pools (\<lambda>p. - sum_list (map (\<lambda>i. held i (store w) p) is)) (\<lambda>_. 0) (t_pools (store w)) \<and>
       length (t_events (store w')) = length (t_events (store w)) + n)"
proof (cases r)
  case (Inl e)
  then show ?thesis using pg_expire [OF assms] by simp
next
  case (Inr n)
  let ?t = "store w" and ?t' = "store w'"
  from pg_expire [OF assms] Inr have l': "ledger bd bq ?t'" and "swept (time_of w) n ?t ?t'" by simp_all
  then obtain "is" where len: "length is = n" "n \<le> expireBatchSize" and d: "distinct is"
    and due: "\<forall>i \<in> set is. due (time_of w) i ?t" and ch: "expire_chain is ?t ?t'"
    unfolding swept_def by blast
  have rd: "requests_distinct ?t" using assms(1) by (simp add: sound_def ledger_def book_def)
  note cf = chain_facts [OF ch d rd]
  have fr: "find_request j ?t' = map_option (\<lambda>r. if j \<in> set is then r\<lparr>cr_Status := StatusExpired\<rparr> else r) (find_request j ?t)" for j
  proof (cases "j \<in> set is")
    case True
    then have "is_reserved j ?t" using due due_reserved by blast
    then obtain r where "find_request j ?t = Some r" "cr_Status r = StatusReserved"
      unfolding is_reserved_has_status [OF rd] has_status_def by blast
    with cf(2) True show ?thesis by simp
  qed (use cf(1) in \<open>simp add: option.map_ident\<close>)
  have "\<exists>is. distinct is \<and> length is = n \<and> n \<le> 100 \<and> (\<forall>i \<in> set is. due (time_of w) i ?t) \<and>
       (\<forall>j. find_request j ?t' = map_option (\<lambda>r. if j \<in> set is then r\<lparr>cr_Status := StatusExpired\<rparr> else r) (find_request j ?t)) \<and>
       t_holds ?t' = flip_holds (\<lambda>h. hd_RequestID h \<in> set is) HoldExpired (t_holds ?t) \<and>
       t_pools ?t' = shift_pools (\<lambda>p. - sum_list (map (\<lambda>i. held i ?t p) is)) (\<lambda>_. 0) (t_pools ?t) \<and>
       length (t_events ?t') = length (t_events ?t) + n"
    by (intro exI [of _ "is"] conjI allI fr swept_pools [OF sound_ledger [OF assms(1)] l' ch d] cf(3) d due)
      (use len cf(4) in \<open>simp_all add: expireBatchSize_def\<close>)
  then show ?thesis using Inr by simp
qed

lemma late_run: "fst (ExpireDue sample_service late) = Inr 1"
  by code_simp

theorem sweeper_expires_only_due_witness:
  "length (t_events (store (snd (ExpireDue sample_service late)))) = Suc (length (t_events busy_tables))"
proof -
  have "store late = busy_tables" by simp
  with sweeper_expires_only_due [OF sound_busy(2) run_result [OF late_run, unfolded sample_service_def]]
  show ?thesis by (auto simp: sample_service_def)
qed

text \<open>
  C24: One sweeper at a time. While another session holds the sweeper's advisory lock,
  \<^verbatim>\<open>ExpireDue\<close> returns 0 and leaves the tables alone.
\<close>

theorem sweeper_needs_the_lock:
  assumes "pg_faults (w_repo w) = []" and "lk_conn (w_repo w) = None"
    and "(sweeperLockKey, other) \<in> set (pg_advisory (w_repo w))" and "other \<noteq> pg_next_session (w_repo w)"
  shows "fst (ExpireDue (pg_service cache idem cfg E) w) = Inr 0 \<and>
    pg_tables (w_repo (snd (ExpireDue (pg_service cache idem cfg E) w))) = pg_tables (w_repo w)"
proof -
  let ?n = "pg_next_session (w_repo w)"
  have busy: "\<not> lock_free sweeperLockKey ?n (pg_advisory (w_repo w))"
    using assms(3,4) by (force simp: lock_free_def list_ex_iff)
  have "onRepo (pg_TryLock sweeperLockKey) w = (Inr False, w\<lparr>w_repo := (w_repo w)\<lparr>pg_next_session := Suc ?n\<rparr>\<rparr>)"
    using assms(1,2) busy
    by (simp add: onRepo_def pg_TryLock_def mapErr_def sql_def andThen_def ret_def)
  then show ?thesis
    by (simp add: ExpireDue_def pg_locker_def andThen_def count_def updating_def ret_def)
qed

definition contended :: "(pg_state, unit) world" where
  "contended = late\<lparr>w_repo := (w_repo late)\<lparr>pg_advisory := [(sweeperLockKey, 7)]\<rparr>\<rparr>"

theorem sweeper_needs_the_lock_witness: "pg_tables (w_repo (snd (ExpireDue sample_service contended))) = busy_tables"
  using sweeper_needs_the_lock [of contended 7 NoopCache NoopIdempotency sample_cfg sample_env]
  by (simp add: contended_def late_def world_of_def sample_service_def)

subsection \<open>Refusals\<close>

text \<open>
  C22: What cannot be confirmed. With a database that answers, \<^verbatim>\<open>Confirm\<close> answers
  \<^verbatim>\<open>NOT_FOUND\<close> for an unknown id, returns a COMPLETED request as it is, answers
  \<^verbatim>\<open>CONFLICT\<close> with the status for any other terminal request, and \<^verbatim>\<open>EXPIRED\<close> for a
  RESERVED one whose time has come, even if the sweeper has not been there yet; in all these cases
  nothing but the clock reading changes.
\<close>

theorem confirm_refusals:
  assumes "pg_faults (w_repo w) = []"
  shows "case find_request i (pg_tables (w_repo w)) of
      None \<Rightarrow> Confirm (pg_service cache idem cfg E) i w = (Inl not_found, w)
    | Some req \<Rightarrow>
        (cr_Status req = StatusCompleted \<longrightarrow> Confirm (pg_service cache idem cfg E) i w = (Inr (Some req), w)) \<and>
        (cr_Status req \<notin> {StatusCompleted, StatusReserved} \<longrightarrow> Confirm (pg_service cache idem cfg E) i w =
           (Inl (NewAppError ReasonConflict ''request is not in RESERVED state''
                   (Some [(''status'', DStr (status_string (cr_Status req)))])), w)) \<and>
        (cr_Status req = StatusReserved \<and> expired_at (time_of w) req \<longrightarrow> Confirm (pg_service cache idem cfg E) i w =
           (Inl (NewAppError ReasonExpired ''reservation expired'' None), w\<lparr>w_tick := Suc (w_tick w)\<rparr>))"
  using assms
  by (auto simp: Confirm_def onRepo_reads andThen_run Now_def calling_def andThen_def fail_def ret_def split: option.split)

theorem confirm_refusals_witness:
  "fst (Confirm sample_service (UUID 10) late) = Inl (NewAppError ReasonExpired ''reservation expired'' None)"
proof -
  have "pg_faults (w_repo late) = []" "pg_tables (w_repo late) = busy_tables" by (simp_all add: late_def world_of_def)
  with confirm_refusals [where w = late and i = "UUID 10" and cache = NoopCache and idem = NoopIdempotency and cfg = sample_cfg and E = sample_env] show ?thesis
    by (simp add: busy_facts sample_service_def)
      (simp add: busy_request_def expired_at_def late_def second_def)
qed

end
