(* ===== verification/Body_Fingerprint.thy ===== *)
theory Body_Fingerprint
  imports Create_Plans Sample_World
begin

text \<open>
  The canonical form of a request body that \<^verbatim>\<open>computeBodyHash\<close> hashes. A decoder for the JSON
  it is written in shows that two valid bodies have the same canonical form exactly when they ask for
  the same product and quantity, or for the same lines in any order: an idempotency key is accepted for
  a different body only where SHA-256 collides.
\<close>

subsection \<open>Reading back strings\<close>

fun unhex :: "char \<Rightarrow> nat" where
  "unhex c = (let n = of_char c :: nat in if n < 58 then n - 48 else n - 87)"

fun unescape :: "string \<Rightarrow> (char \<times> string) option" where
  "unescape [] = None"
| "unescape (c # cs) =
     (if of_char c \<noteq> (92 :: nat) then Some (c, cs)
      else case cs of
        [] \<Rightarrow> None
      | e # r \<Rightarrow>
          (if e = CHR ''b'' then Some (CHR 0x08, r) else if e = CHR ''f'' then Some (CHR 0x0C, r)
           else if e = CHR ''n'' then Some (CHR 0x0A, r) else if e = CHR ''r'' then Some (CHR 0x0D, r)
           else if e = CHR ''t'' then Some (CHR 0x09, r)
           else if e = CHR ''u'' then
             (case r of _ # _ # h # l # r' \<Rightarrow> Some (char_of (16 * unhex h + unhex l), r') | _ \<Rightarrow> None)
           else Some (e, r)))"

lemma escaped_codes:
  "char_of (34 :: nat) = CHR 0x22" "char_of (92 :: nat) = CHR 0x5C" "char_of (8 :: nat) = CHR 0x08"
  "char_of (12 :: nat) = CHR 0x0C" "char_of (10 :: nat) = CHR 0x0A" "char_of (13 :: nat) = CHR 0x0D"
  "char_of (9 :: nat) = CHR 0x09"
  by code_simp+

lemma unhex_digit: "n < 16 \<Longrightarrow> unhex (hex_digit n) = n"
  by (simp add: hex_digit_def Let_def)

lemma unescape_json_char: "unescape (json_char c @ r) = Some (c, r)"
proof -
  obtain n where n_def: "n = (of_char c :: nat)" by simp
  have c: "c = char_of n" by (simp add: n_def)
  have n: "n < 256" by (simp add: n_def)
  have hex: "unhex (hex_digit (n div 16)) = n div 16" "unhex (hex_digit (n mod 16)) = n mod 16"
    using n by (simp_all add: unhex_digit del: unhex.simps)
  consider "n \<in> {34, 92, 8, 12, 10, 13, 9}" | "n \<notin> {34, 92, 8, 12, 10, 13, 9}" "n < 32 \<or> n = 60 \<or> n = 62 \<or> n = 38"
    | "n \<notin> {34, 92, 8, 12, 10, 13, 9}" "\<not> (n < 32 \<or> n = 60 \<or> n = 62 \<or> n = 38)" by blast
  then show ?thesis
  proof cases
    case 1
    then show ?thesis by (elim insertE emptyE) (simp_all add: json_char_def c escaped_codes)
  next
    case 2
    then have "json_char c = [CHR 0x5C, CHR ''u'', CHR ''0'', CHR ''0'', hex_digit (n div 16), hex_digit (n mod 16)]"
      by (simp add: json_char_def n_def [symmetric])
    then show ?thesis using c by (simp add: hex del: unhex.simps)
  next
    case 3
    then have "json_char c = [c]" by (simp add: json_char_def n_def [symmetric])
    then show ?thesis using 3 by (simp add: n_def)
  qed
qed

lemma json_char_prefix: "json_char c @ r = json_char d @ s \<longleftrightarrow> c = d \<and> r = s"
  by (metis unescape_json_char option.inject prod.inject)

lemma json_char_not_quote: "json_char c @ r \<noteq> CHR 0x22 # s"
proof
  assume a: "json_char c @ r = CHR 0x22 # s"
  then have "unescape (CHR 0x22 # s) = Some (c, r)" using unescape_json_char by metis
  then have "c = CHR 0x22" by simp
  then show False using a by (simp add: json_char_def)
qed

lemma json_body_prefix:
  "concat (map json_char s) @ CHR 0x22 # r = concat (map json_char s') @ CHR 0x22 # r' \<longleftrightarrow> s = s' \<and> r = r'"
proof (induction s arbitrary: s')
  case Nil
  then show ?case using json_char_not_quote by (cases s') (auto dest: sym)
next
  case (Cons c s)
  then show ?case
    using json_char_not_quote by (cases s') (auto simp: json_char_prefix)
qed

lemma json_string_prefix: "json_string s @ r = json_string s' @ r' \<longleftrightarrow> s = s' \<and> r = r'"
  using json_body_prefix by (simp add: json_string_def)

subsection \<open>Reading back numbers\<close>

definition ends_number :: "string \<Rightarrow> bool" where
  "ends_number r \<longleftrightarrow> r \<noteq> [] \<and> \<not> (48 \<le> (of_char (hd r) :: nat) \<and> (of_char (hd r) :: nat) \<le> 57)"

lemma digits_prefix:
  assumes "\<forall>c \<in> set xs. P c" and "\<forall>c \<in> set ys. P c" and "r \<noteq> []" "\<not> P (hd r)" and "s \<noteq> []" "\<not> P (hd s)"
    and "xs @ r = ys @ s"
  shows "xs = ys \<and> r = s"
  using assms
proof (induction xs arbitrary: ys)
  case Nil
  then show ?case by (cases ys) auto
next
  case (Cons x xs)
  then show ?case by (cases ys) auto
qed

lemma json_int_prefix:
  assumes "ends_number r" and "ends_number s" and "0 \<le> m" and "0 \<le> n"
  shows "json_int m @ r = json_int n @ s \<longleftrightarrow> m = n \<and> r = s"
proof
  assume eq: "json_int m @ r = json_int n @ s"
  let ?P = "\<lambda>c. 48 \<le> (of_char c :: nat) \<and> (of_char c :: nat) \<le> 57"
  have "decimal (nat m) = decimal (nat n) \<and> r = s"
  proof (rule digits_prefix [where P = ?P])
    show "decimal (nat m) @ r = decimal (nat n) @ s" using eq assms(3,4) by (simp add: json_int_def)
  qed (use decimal_digits assms(1,2) in \<open>auto simp: ends_number_def\<close>)
  then show "m = n \<and> r = s" using assms(3,4) by (simp add: eq_nat_nat_iff)
qed simp

subsection \<open>Reading back bodies\<close>

lemma json_fp_line_text:
  "json_fp_line l = ''{'' @ json_string ''resource_kind'' @ '':'' @ json_string (li_ResourceKind l) @ '','' @
     json_string ''amount'' @ '':'' @ json_int (li_Amount l) @ ''}''"
  by (simp add: json_fp_line_def json_object_def)

lemma json_fp_line_prefix:
  assumes "0 \<le> li_Amount l" and "0 \<le> li_Amount k"
  shows "json_fp_line l @ r = json_fp_line k @ s \<longleftrightarrow> l = k \<and> r = s"
proof -
  have "ends_number (''}'' @ x)" for x by (simp add: ends_number_def)
  with assms show ?thesis
    by (auto simp: json_fp_line_text json_string_prefix json_int_prefix simp del: append_Cons)
qed

lemma json_fp_line_inject:
  "0 \<le> li_Amount l \<Longrightarrow> 0 \<le> li_Amount k \<Longrightarrow> json_fp_line l = json_fp_line k \<longleftrightarrow> l = k"
  using json_fp_line_prefix [of l k "[]" "[]"] by simp

lemma commas_prefix:
  assumes "\<forall>l \<in> set ls. 0 \<le> li_Amount l" and "\<forall>l \<in> set ks. 0 \<le> li_Amount l" and "ls \<noteq> []" and "ks \<noteq> []"
    and "commas (map json_fp_line ls) @ '']}'' = commas (map json_fp_line ks) @ '']}''"
  shows "ls = ks"
  using assms
proof (induction ls arbitrary: ks rule: induct_list012)
  case (2 l)
  then obtain k ks' where ks: "ks = k # ks'" by (cases ks) auto
  show ?case using 2 by (cases ks') (auto simp: ks json_fp_line_prefix json_fp_line_inject)
next
  case (3 l l' ls)
  then obtain k ks' where ks: "ks = k # ks'" by (cases ks) auto
  show ?case
  proof (cases ks')
    case Nil
    then show ?thesis using "3.prems" by (auto simp: ks json_fp_line_prefix json_fp_line_inject)
  next
    case (Cons k' kr)
    then show ?thesis using "3.prems" "3.IH"(2) [of ks'] by (auto simp: ks json_fp_line_prefix json_fp_line_inject)
  qed
qed simp

text \<open>Sorting the lines forgets their order and nothing else.\<close>

lemma line_key_inj: "inj (\<lambda>l :: line_input. (li_ResourceKind l, li_Amount l))"
  by (rule injI) simp

lemma fp_lines_mset: "fp_lines a = fp_lines b \<longleftrightarrow> mset a = mset b"
proof
  assume "fp_lines a = fp_lines b"
  then have "mset (fp_lines a) = mset (fp_lines b)" by simp
  then show "mset a = mset b" by (simp add: fp_lines_def)
next
  assume "mset a = mset b"
  then show "fp_lines a = fp_lines b"
    unfolding fp_lines_def
    by (intro sort_key_inj_key_eq inj_on_subset [OF line_key_inj]) auto
qed

text \<open>
  \<open>same_body\<close>: what two callers mean by sending the same body again.
\<close>

definition same_body :: "create_input \<Rightarrow> create_input \<Rightarrow> bool" where
  "same_body a b \<longleftrightarrow> ci_ProductCode a = ci_ProductCode b \<and>
     (if ci_ProductCode a \<noteq> '''' then effective_quantity a = effective_quantity b
      else mset (ci_Lines a) = mset (ci_Lines b))"

lemma product_text:
  "json_object [(''product_code'', json_string c), (''quantity'', json_int n)] =
   ''{'' @ json_string ''product_code'' @ '':'' @ json_string c @ '','' @ json_string ''quantity'' @ '':'' @ json_int n @ ''}''"
  by (simp add: json_object_def)

lemma lines_text:
  "json_object [(''lines'', json_array xs)] = ''{'' @ json_string ''lines'' @ '':'' @ ''['' @ commas xs @ '']}''"
  by (simp add: json_object_def json_array_def)

lemma product_text_inject:
  assumes "0 \<le> m" and "0 \<le> n"
  shows "json_object [(''product_code'', json_string c), (''quantity'', json_int m)] =
    json_object [(''product_code'', json_string d), (''quantity'', json_int n)] \<longleftrightarrow> c = d \<and> m = n"
proof -
  have "ends_number ''}''" by (simp add: ends_number_def)
  with assms show ?thesis by (simp add: product_text json_string_prefix json_int_prefix del: append_Cons append_Nil)
qed

lemma texts_differ:
  "json_object [(''product_code'', x), (''quantity'', y)] \<noteq> json_object [(''lines'', z)]"
  "json_object [(''product_code'', x), (''quantity'', y)] \<noteq> json_object []" "json_object [(''lines'', z)] \<noteq> json_object []"
  using json_string_prefix [of "''product_code''" _ "''lines''"]
  by (auto simp: json_object_def json_string_def json_char_def)

lemma lines_text_inject:
  assumes "\<forall>l \<in> set ls. 0 \<le> li_Amount l" and "\<forall>l \<in> set ks. 0 \<le> li_Amount l" and "ls \<noteq> []" and "ks \<noteq> []"
  shows "json_object [(''lines'', json_array (map json_fp_line (fp_lines ls)))] =
    json_object [(''lines'', json_array (map json_fp_line (fp_lines ks)))] \<longleftrightarrow> mset ls = mset ks"
proof
  assume "json_object [(''lines'', json_array (map json_fp_line (fp_lines ls)))] =
    json_object [(''lines'', json_array (map json_fp_line (fp_lines ks)))]"
  then have "commas (map json_fp_line (fp_lines ls)) @ '']}'' = commas (map json_fp_line (fp_lines ks)) @ '']}''"
    by (simp add: lines_text)
  moreover have "set (fp_lines xs) = set xs" "fp_lines xs = [] \<longleftrightarrow> xs = []" for xs
    by (simp_all add: fp_lines_def) (metis length_0_conv length_sort)
  ultimately have "fp_lines ls = fp_lines ks" using assms by (intro commas_prefix) simp_all
  then show "mset ls = mset ks" by (simp add: fp_lines_mset)
qed (simp add: fp_lines_mset [symmetric])

lemma fingerprint_same_body:
  assumes "input_ok a" and "input_ok b"
  shows "body_fingerprint a = body_fingerprint b \<longleftrightarrow> same_body a b"
proof -
  have amounts: "0 \<le> li_Amount l" if "input_ok x" "l \<in> set (ci_Lines x)" for x l
    using that by (auto simp: input_ok_def split: if_splits)
  have qty: "0 \<le> effective_quantity x" for x by (simp add: effective_quantity_def)
  have lines: "ci_ProductCode x \<noteq> '''' \<Longrightarrow> ci_Lines x = []" if "input_ok x" for x using that by (simp add: input_ok_def)
  have txt_of: "body_fingerprint x = (if ci_ProductCode x \<noteq> '''' then
        json_object [(''product_code'', json_string (ci_ProductCode x)), (''quantity'', json_int (effective_quantity x))]
      else if ci_Lines x = [] then json_object []
      else json_object [(''lines'', json_array (map json_fp_line (fp_lines (ci_Lines x))))])" for x
    by (simp add: body_fingerprint_def effective_quantity_def Let_def)
  show ?thesis
    using lines_text_inject [of "ci_Lines a" "ci_Lines b"] amounts [OF assms(1)] amounts [OF assms(2)]
    by (auto simp: txt_of same_body_def product_text_inject qty texts_differ texts_differ [symmetric])
qed

text \<open>
  C19: The body hash identifies the body. Two valid bodies get the same hash exactly when they ask for
  the same product and effective quantity, or for the same lines in any order, unless SHA-256 collides
  on their two canonical texts.
\<close>

theorem body_hash_identifies:
  assumes "input_ok a" and "input_ok b"
    and "en_sha256_hex E (body_fingerprint a) = en_sha256_hex E (body_fingerprint b) \<Longrightarrow> body_fingerprint a = body_fingerprint b"
  shows "computeBodyHash E a = computeBodyHash E b \<longleftrightarrow> same_body a b"
  using assms(3) fingerprint_same_body [OF assms(1,2)] by (auto simp: computeBodyHash_def)

theorem body_hash_identifies_witness:
  "computeBodyHash sample_env ((order ''k'' ''cpu'' 4)\<lparr>ci_Lines := [\<lparr>li_ResourceKind = ''cpu'', li_Amount = 4\<rparr>, \<lparr>li_ResourceKind = ''ram'', li_Amount = 1\<rparr>]\<rparr>) =
   computeBodyHash sample_env ((order ''k'' ''cpu'' 4)\<lparr>ci_Lines := [\<lparr>li_ResourceKind = ''ram'', li_Amount = 1\<rparr>, \<lparr>li_ResourceKind = ''cpu'', li_Amount = 4\<rparr>]\<rparr>) \<and>
   computeBodyHash sample_env (order ''k'' ''cpu'' 4) \<noteq> computeBodyHash sample_env (order ''k'' ''cpu'' 5)"
proof -
  have ok: "input_ok (order ''k'' ''cpu'' n \<lparr>ci_Lines := ls\<rparr>) \<longleftrightarrow> length ls \<le> 50 \<and> distinct (map li_ResourceKind ls) \<and>
      (\<forall>l \<in> set ls. li_ResourceKind l \<noteq> '''' \<and> 0 < li_Amount l \<and> li_Amount l \<le> maxAmount)" for n ls
    by (simp add: input_ok_def order_def maxLinesPerRequest_def)
  have inj: "en_sha256_hex sample_env x = en_sha256_hex sample_env y \<Longrightarrow> x = y" for x y by (simp add: sample_env_def)
  have one: "input_ok (order ''k'' ''cpu'' 4)" "input_ok (order ''k'' ''cpu'' 5)"
    by (simp_all add: input_ok_def order_def maxLinesPerRequest_def maxAmount_def)
  show ?thesis
    using body_hash_identifies [OF _ _ inj] one
    by (simp add: ok maxAmount_def) (auto simp: same_body_def order_def)
qed

end
