(* ===== verification/Memory_Store.thy ===== *)
theory Memory_Store
  imports Port_Interfaces
begin

text \<open>
  The in-process fakes of \<^verbatim>\<open>internal/repository/memory\<close> that the unit tests run the service on.
  One state record holds the maps of all the fakes. A Go map is an association list with distinct keys;
  a pointer stored in a map and written through is an entry updated under its key; the copies the
  methods return are values. The mutexes make every method atomic, which is how a method is modelled.
  A \<^verbatim>\<open>range\<close> over a map of \<open>n\<close> entries meets them in the order \<open>mm_order n\<close>, which is left
  open. Errors leave the identifiers out of their text.
\<close>

record mem_state =
  mm_pools :: "(string \<times> resource_pool) list"
  mm_quotas :: "((string \<times> string) \<times> customer_quota) list"
  mm_products :: "(string \<times> product) list"
  mm_requests :: "(uuid \<times> capacity_request) list"
  mm_lines :: "(uuid \<times> request_line list) list"
  mm_holds :: "(uuid \<times> hold list) list"
  mm_dedications :: "(uuid \<times> dedication list) list"
  mm_events :: "(uuid \<times> request_event list) list"
  mm_idemIndex :: "(string \<times> uuid) list"
  mm_uuids :: "nat \<Rightarrow> uuid"
  mm_drawn :: nat
  mm_order :: "nat \<Rightarrow> nat list"

subsection \<open>Maps\<close>

definition ranging :: "(nat \<Rightarrow> nat list) \<Rightarrow> 'a list \<Rightarrow> 'a list" where
  "ranging order xs = List.map ((!) xs) (order (length xs))"

text \<open>\<^verbatim>\<open>m[k]\<close> of a map of slices: the nil slice where the key is missing.\<close>

definition slice_at :: "'k \<Rightarrow> ('k \<times> 'a list) list \<Rightarrow> 'a list" where
  "slice_at k m = (case map_of m k of None \<Rightarrow> [] | Some xs \<Rightarrow> xs)"

text \<open>\<^verbatim>\<open>m[k] = append(m[k], xs...)\<close>\<close>

definition append_at :: "'k \<Rightarrow> 'a list \<Rightarrow> ('k \<times> 'a list) list \<Rightarrow> ('k \<times> 'a list) list" where
  "append_at k xs m = AList.update k (slice_at k m @ xs) m"

subsection \<open>The clock\<close>

definition NewClock :: "time \<Rightarrow> time" where
  "NewClock t = t"

definition Clock_Now :: "time \<Rightarrow> time \<times> time" where
  "Clock_Now c = (c, c)"

definition Clock_Set :: "time \<Rightarrow> time \<Rightarrow> time" where
  "Clock_Set t c = t"

definition Clock_Advance :: "duration \<Rightarrow> time \<Rightarrow> time" where
  "Clock_Advance d c = c + d"

subsection \<open>Pools\<close>

text \<open>Later pools of the same kind replace earlier ones.\<close>

definition NewPools :: "resource_pool list \<Rightarrow> (string \<times> resource_pool) list" where
  "NewPools ps = fold (\<lambda>p. AList.update (rp_Kind p) p) ps []"

definition Pools_List :: "(mem_state, resource_pool list) gor" where
  "Pools_List = asking (\<lambda>s. ranging (mm_order s) (List.map snd (mm_pools s)))"

definition Pools_GetByKind :: "string \<Rightarrow> (mem_state, resource_pool option) gor" where
  "Pools_GetByKind kind = asking (\<lambda>s. map_of (mm_pools s) kind)"

text \<open>The entry \<open>byID\<close> finds: its key and the pool behind the pointer.\<close>

definition byID :: "uuid \<Rightarrow> mem_state \<Rightarrow> (string \<times> resource_pool) option" where
  "byID i s = find (\<lambda>(k, v). rp_ID v = i) (ranging (mm_order s) (mm_pools s))"

definition pool_not_found :: go_error where
  "pool_not_found = Plain ''pool not found''"

definition write_pool :: "string \<Rightarrow> (resource_pool \<Rightarrow> resource_pool) \<Rightarrow> mem_state \<Rightarrow> mem_state" where
  "write_pool k f s = s\<lparr>mm_pools := AList.map_entry k f (mm_pools s)\<rparr>"

definition Pools_TryReserve :: "uuid \<Rightarrow> int \<Rightarrow> (mem_state, bool) gor" where
  "Pools_TryReserve poolID amount = (\<lambda>s.
     case byID poolID s of
       None \<Rightarrow> fail pool_not_found s
     | Some (k, pool) \<Rightarrow>
         let effective = f64_to_int64 (f64_floor_f (f64_mul (f64_of_int (rp_Total pool)) (rp_OversubscribeFactor pool)));
             avail = i64 (i64 (effective - rp_DedicatedAmount pool) - rp_ReservedAmount pool)
         in if avail < amount then ret False s
            else andThen (updating (write_pool k (\<lambda>p. p\<lparr>rp_ReservedAmount := i64 (rp_ReservedAmount p + amount)\<rparr>)))
                   (\<lambda>_. ret True) s)"

definition Pools_ReleaseReserved :: "uuid \<Rightarrow> int \<Rightarrow> (mem_state, unit) gor" where
  "Pools_ReleaseReserved poolID amount = (\<lambda>s.
     case byID poolID s of
       None \<Rightarrow> fail pool_not_found s
     | Some (k, pool) \<Rightarrow>
         if rp_ReservedAmount pool \<ge> amount
         then updating (write_pool k (\<lambda>p. p\<lparr>rp_ReservedAmount := i64 (rp_ReservedAmount p - amount)\<rparr>)) s
         else ret () s)"

definition Pools_MoveReservedToDedicated :: "uuid \<Rightarrow> int \<Rightarrow> (mem_state, unit) gor" where
  "Pools_MoveReservedToDedicated poolID amount = (\<lambda>s.
     case byID poolID s of
       None \<Rightarrow> fail pool_not_found s
     | Some (k, pool) \<Rightarrow>
         if rp_ReservedAmount pool \<ge> amount
         then updating (write_pool k (\<lambda>p. p\<lparr>rp_ReservedAmount := i64 (rp_ReservedAmount p - amount),
                                         rp_DedicatedAmount := i64 (rp_DedicatedAmount p + amount)\<rparr>)) s
         else ret () s)"

definition Pools_ReservedAmount :: "uuid \<Rightarrow> mem_state \<Rightarrow> int" where
  "Pools_ReservedAmount poolID s = (case byID poolID s of Some (k, pool) \<Rightarrow> rp_ReservedAmount pool | None \<Rightarrow> 0)"

definition mem_pools :: "mem_state pool_repository" where
  "mem_pools = \<lparr>pr_List = Pools_List, pr_GetByKind = Pools_GetByKind, pr_TryReserve = Pools_TryReserve,
     pr_ReleaseReserved = Pools_ReleaseReserved, pr_MoveReservedToDedicated = Pools_MoveReservedToDedicated\<rparr>"

subsection \<open>Quotas\<close>

definition NewQuotas :: "customer_quota list \<Rightarrow> ((string \<times> string) \<times> customer_quota) list" where
  "NewQuotas qs = fold (\<lambda>q. AList.update (cq_CustomerID q, cq_ResourceKind q) q) qs []"

definition Quotas_Get :: "string \<Rightarrow> string \<Rightarrow> (mem_state, customer_quota option) gor" where
  "Quotas_Get c k = asking (\<lambda>s. map_of (mm_quotas s) (c, k))"

definition Quotas_ListByCustomer :: "string \<Rightarrow> (mem_state, customer_quota list) gor" where
  "Quotas_ListByCustomer c = asking (\<lambda>s.
     List.map snd (filter (\<lambda>(k, v). fst k = c) (ranging (mm_order s) (mm_quotas s))))"

definition write_quota ::
    "string \<Rightarrow> string \<Rightarrow> (customer_quota \<Rightarrow> customer_quota) \<Rightarrow> mem_state \<Rightarrow> mem_state" where
  "write_quota c k f s = s\<lparr>mm_quotas := AList.map_entry (c, k) f (mm_quotas s)\<rparr>"

definition Quotas_TryConsume :: "string \<Rightarrow> string \<Rightarrow> int \<Rightarrow> (mem_state, bool) gor" where
  "Quotas_TryConsume c k amount = (\<lambda>s.
     case map_of (mm_quotas s) (c, k) of
       None \<Rightarrow> ret False s
     | Some v \<Rightarrow>
         if i64 (cq_Limit v - cq_UsedAmount v) < amount then ret False s
         else andThen (updating (write_quota c k (\<lambda>v. v\<lparr>cq_UsedAmount := i64 (cq_UsedAmount v + amount)\<rparr>)))
                (\<lambda>_. ret True) s)"

definition ensure_quota :: "string \<Rightarrow> string \<Rightarrow> int \<Rightarrow> (mem_state, unit) gor" where
  "ensure_quota c k defaultLimit = updating (\<lambda>s.
     if map_of (mm_quotas s) (c, k) = None
     then s\<lparr>mm_quotas := AList.update (c, k)
              \<lparr>cq_ID = mm_uuids s (mm_drawn s), cq_CustomerID = c, cq_ResourceKind = k, cq_Limit = defaultLimit,
               cq_UsedAmount = 0, cq_CreatedAt = 0, cq_UpdatedAt = 0\<rparr> (mm_quotas s),
            mm_drawn := Suc (mm_drawn s)\<rparr>
     else s)"

text \<open>After the insert the method goes on as \<^verbatim>\<open>TryConsume\<close> does, under the same lock.\<close>

definition Quotas_EnsureAndTryConsume :: "string \<Rightarrow> string \<Rightarrow> int \<Rightarrow> int \<Rightarrow> (mem_state, bool) gor" where
  "Quotas_EnsureAndTryConsume c k amount defaultLimit =
     andThen (ensure_quota c k defaultLimit) (\<lambda>_. Quotas_TryConsume c k amount)"

definition Quotas_Release :: "string \<Rightarrow> string \<Rightarrow> int \<Rightarrow> (mem_state, unit) gor" where
  "Quotas_Release c k amount = (\<lambda>s.
     case map_of (mm_quotas s) (c, k) of
       None \<Rightarrow> ret () s
     | Some v \<Rightarrow>
         updating (write_quota c k (\<lambda>v. v\<lparr>cq_UsedAmount :=
           (if cq_UsedAmount v \<ge> amount then i64 (cq_UsedAmount v - amount) else 0)\<rparr>)) s)"

definition mem_quotas :: "mem_state quota_repository" where
  "mem_quotas = \<lparr>qr_Get = Quotas_Get, qr_ListByCustomer = Quotas_ListByCustomer, qr_TryConsume = Quotas_TryConsume,
     qr_Release = Quotas_Release, qr_EnsureAndTryConsume = Quotas_EnsureAndTryConsume\<rparr>"

subsection \<open>Products\<close>

definition NewProducts :: "product list \<Rightarrow> (string \<times> product) list" where
  "NewProducts ps = fold (\<lambda>p. AList.update (pd_Code p) p) ps []"

definition Products_List :: "(mem_state, product list) gor" where
  "Products_List = asking (\<lambda>s. ranging (mm_order s) (List.map snd (mm_products s)))"

definition Products_GetByCode :: "string \<Rightarrow> (mem_state, product option) gor" where
  "Products_GetByCode code = asking (\<lambda>s. map_of (mm_products s) code)"

definition mem_products :: "mem_state product_repository" where
  "mem_products = \<lparr>pd_List = Products_List, pd_GetByCode = Products_GetByCode\<rparr>"

subsection \<open>Requests\<close>

definition idemIndexKey :: "string \<Rightarrow> string \<Rightarrow> string" where
  "idemIndexKey customerID key = customerID @ '':'' @ key"

definition Requests_FindByIdempotency :: "string \<Rightarrow> string \<Rightarrow> (mem_state, capacity_request option) gor" where
  "Requests_FindByIdempotency c k = asking (\<lambda>s.
     case map_of (mm_idemIndex s) (idemIndexKey c k) of
       None \<Rightarrow> None
     | Some i \<Rightarrow> map_of (mm_requests s) i)"

definition Requests_Get :: "uuid \<Rightarrow> (mem_state, capacity_request option) gor" where
  "Requests_Get i = asking (\<lambda>s. map_of (mm_requests s) i)"

definition Requests_ListByCustomer :: "string \<Rightarrow> string option \<Rightarrow> (mem_state, capacity_request list) gor" where
  "Requests_ListByCustomer c st = asking (\<lambda>s.
     filter (\<lambda>r. cr_CustomerID r = c \<and> (case st of None \<Rightarrow> True | Some x \<Rightarrow> status_string (cr_Status r) = x))
       (ranging (mm_order s) (List.map snd (mm_requests s))))"

definition put_request :: "string \<Rightarrow> capacity_request \<Rightarrow> request_line list \<Rightarrow> hold list \<Rightarrow> request_event \<Rightarrow> mem_state \<Rightarrow> mem_state" where
  "put_request ik req ls hs ev s =
     s\<lparr>mm_requests := AList.update (cr_ID req) req (mm_requests s),
       mm_idemIndex := AList.update ik (cr_ID req) (mm_idemIndex s),
       mm_lines := append_at (cr_ID req) ls (mm_lines s),
       mm_holds := append_at (cr_ID req) hs (mm_holds s),
       mm_events := append_at (cr_ID req) [ev] (mm_events s)\<rparr>"

definition Requests_CreateReserved ::
    "capacity_request \<Rightarrow> request_line list \<Rightarrow> hold list \<Rightarrow> request_event \<Rightarrow> (mem_state, unit) gor" where
  "Requests_CreateReserved req ls hs ev = (\<lambda>s.
     let ik = idemIndexKey (cr_CustomerID req) (cr_IdempotencyKey req) in
     if map_of (mm_idemIndex s) ik \<noteq> None then fail (Errorf ''create reserved'' ErrDuplicateRequest) s
     else updating (put_request ik req ls hs ev) s)"

text \<open>\<^verbatim>\<open>CreateRejected\<close> has no holds to append; its map of holds stays as it is.\<close>

definition put_rejected :: "string \<Rightarrow> capacity_request \<Rightarrow> request_line list \<Rightarrow> request_event \<Rightarrow> mem_state \<Rightarrow> mem_state" where
  "put_rejected ik req ls ev s =
     s\<lparr>mm_requests := AList.update (cr_ID req) req (mm_requests s),
       mm_idemIndex := AList.update ik (cr_ID req) (mm_idemIndex s),
       mm_lines := append_at (cr_ID req) ls (mm_lines s),
       mm_events := append_at (cr_ID req) [ev] (mm_events s)\<rparr>"

definition Requests_CreateRejected ::
    "capacity_request \<Rightarrow> request_line list \<Rightarrow> request_event \<Rightarrow> (mem_state, unit) gor" where
  "Requests_CreateRejected req ls ev = (\<lambda>s.
     let ik = idemIndexKey (cr_CustomerID req) (cr_IdempotencyKey req) in
     if map_of (mm_idemIndex s) ik \<noteq> None then fail (Errorf ''create rejected'' ErrDuplicateRequest) s
     else updating (put_rejected ik req ls ev) s)"

text \<open>The request the state-changing methods work on: stored and RESERVED.\<close>

definition reserved_at :: "uuid \<Rightarrow> mem_state \<Rightarrow> bool" where
  "reserved_at i s =
     (case map_of (mm_requests s) i of None \<Rightarrow> False | Some r \<Rightarrow> cr_Status r = StatusReserved)"

definition write_request :: "uuid \<Rightarrow> (capacity_request \<Rightarrow> capacity_request) \<Rightarrow> mem_state \<Rightarrow> mem_state" where
  "write_request i f s = s\<lparr>mm_requests := AList.map_entry i f (mm_requests s)\<rparr>"

definition log_event :: "uuid \<Rightarrow> request_event \<Rightarrow> mem_state \<Rightarrow> mem_state" where
  "log_event i ev s = s\<lparr>mm_events := append_at i [ev] (mm_events s)\<rparr>"

definition Requests_Confirm :: "uuid \<Rightarrow> dedication list \<Rightarrow> request_event \<Rightarrow> (mem_state, bool) gor" where
  "Requests_Confirm i ds ev = (\<lambda>s.
     if \<not> reserved_at i s then ret False s
     else andThen (updating (write_request i (\<lambda>r. r\<lparr>cr_Status := StatusCompleted\<rparr>)))
       (\<lambda>_. andThen (updating (\<lambda>s. s\<lparr>mm_dedications := append_at i ds (mm_dedications s)\<rparr>))
       (\<lambda>_. andThen (updating (log_event i ev)) (\<lambda>_. ret True))) s)"

definition Requests_markTerminal :: "uuid \<Rightarrow> request_status \<Rightarrow> request_event \<Rightarrow> (mem_state, bool) gor" where
  "Requests_markTerminal i status ev = (\<lambda>s.
     if \<not> reserved_at i s then ret False s
     else andThen (updating (write_request i (\<lambda>r. r\<lparr>cr_Status := status\<rparr>)))
       (\<lambda>_. andThen (updating (log_event i ev)) (\<lambda>_. ret True)) s)"

definition Requests_MarkCancelled :: "uuid \<Rightarrow> request_event \<Rightarrow> (mem_state, bool) gor" where
  "Requests_MarkCancelled i ev = Requests_markTerminal i StatusCancelled ev"

definition Requests_MarkExpired :: "uuid \<Rightarrow> request_event \<Rightarrow> (mem_state, bool) gor" where
  "Requests_MarkExpired i ev = Requests_markTerminal i StatusExpired ev"

definition Requests_Extend :: "uuid \<Rightarrow> time \<Rightarrow> int \<Rightarrow> request_event \<Rightarrow> (mem_state, bool) gor" where
  "Requests_Extend i expiresAt extensionCount ev = (\<lambda>s.
     if \<not> reserved_at i s then ret False s
     else andThen (updating (write_request i (\<lambda>r. r\<lparr>cr_ExpiresAt := Some expiresAt, cr_ExtensionCount := extensionCount\<rparr>)))
       (\<lambda>_. andThen (updating (log_event i ev)) (\<lambda>_. ret True)) s)"

text \<open>The loop of \<^verbatim>\<open>ListExpiredIDs\<close>: \<open>out\<close> so far, stop when it has reached the limit.\<close>

fun collect_expired :: "time \<Rightarrow> nat \<Rightarrow> uuid list \<Rightarrow> capacity_request list \<Rightarrow> uuid list" where
  "collect_expired before limit out [] = out"
| "collect_expired before limit out (r # rs) =
     (if is_due before r then
        let out' = out @ [cr_ID r] in if length out' \<ge> limit then out' else collect_expired before limit out' rs
      else collect_expired before limit out rs)"

definition Requests_ListExpiredIDs :: "time \<Rightarrow> nat \<Rightarrow> (mem_state, uuid list) gor" where
  "Requests_ListExpiredIDs before limit = asking (\<lambda>s.
     collect_expired before limit [] (ranging (mm_order s) (List.map snd (mm_requests s))))"

definition Requests_ListEvents :: "uuid \<Rightarrow> (mem_state, request_event list) gor" where
  "Requests_ListEvents i = asking (\<lambda>s. slice_at i (mm_events s))"

definition Requests_ListLines :: "uuid \<Rightarrow> (mem_state, request_line list) gor" where
  "Requests_ListLines i = asking (\<lambda>s. slice_at i (mm_lines s))"

definition Requests_ListActiveHolds :: "uuid \<Rightarrow> (mem_state, hold list) gor" where
  "Requests_ListActiveHolds i = asking (\<lambda>s. filter (\<lambda>h. hd_Status h = HoldActive) (slice_at i (mm_holds s)))"

text \<open>The first slice, in the order of the range, with a hold of that id; its first such hold.\<close>

fun set_first_hold :: "uuid \<Rightarrow> hold_status \<Rightarrow> hold list \<Rightarrow> hold list" where
  "set_first_hold i to [] = []"
| "set_first_hold i to (h # hs) = (if hd_ID h = i then h\<lparr>hd_Status := to\<rparr> # hs else h # set_first_hold i to hs)"

definition Requests_UpdateHoldStatus :: "uuid \<Rightarrow> hold_status \<Rightarrow> hold_status \<Rightarrow> (mem_state, bool) gor" where
  "Requests_UpdateHoldStatus holdID src dst = (\<lambda>s.
     case find (\<lambda>(reqID, hs). list_ex (\<lambda>h. hd_ID h = holdID) hs) (ranging (mm_order s) (mm_holds s)) of
       None \<Rightarrow> ret False s
     | Some (reqID, hs) \<Rightarrow>
         (case find (\<lambda>h. hd_ID h = holdID) hs of
            None \<Rightarrow> ret False s
          | Some h \<Rightarrow>
              if hd_Status h \<noteq> src then ret False s
              else andThen (updating (\<lambda>s. s\<lparr>mm_holds := AList.map_entry reqID (set_first_hold holdID dst) (mm_holds s)\<rparr>))
                     (\<lambda>_. ret True) s))"

definition Requests_CountActiveHoldsByCustomer :: "string \<Rightarrow> (mem_state, int) gor" where
  "Requests_CountActiveHoldsByCustomer c = asking (\<lambda>s.
     int (length (filter (\<lambda>(i, req). cr_CustomerID req = c \<and> cr_Status req = StatusReserved \<and>
                                    list_ex (\<lambda>h. hd_Status h = HoldActive) (slice_at i (mm_holds s)))
                   (ranging (mm_order s) (mm_requests s)))))"

definition mem_requests :: "mem_state request_repository" where
  "mem_requests = \<lparr>
     rr_FindByIdempotency = Requests_FindByIdempotency, rr_Get = Requests_Get,
     rr_ListByCustomer = Requests_ListByCustomer, rr_CreateReserved = Requests_CreateReserved,
     rr_CreateRejected = Requests_CreateRejected, rr_Confirm = Requests_Confirm,
     rr_MarkCancelled = Requests_MarkCancelled, rr_MarkExpired = Requests_MarkExpired,
     rr_Extend = Requests_Extend, rr_ListExpiredIDs = Requests_ListExpiredIDs,
     rr_ListEvents = Requests_ListEvents, rr_ListLines = Requests_ListLines,
     rr_ListActiveHolds = Requests_ListActiveHolds, rr_UpdateHoldStatus = Requests_UpdateHoldStatus,
     rr_CountActiveHoldsByCustomer = Requests_CountActiveHoldsByCustomer\<rparr>"

subsection \<open>Transactions and locks\<close>

text \<open>
  \<^verbatim>\<open>Tx.WithinTx\<close> just calls the function: there is nothing to begin, to commit or to roll back.
\<close>

definition mem_tx :: "mem_state tx_runner" where
  "mem_tx = \<lparr>tx_Begin = (\<lambda>s. (Inr s, s)), tx_Commit = ret (), tx_Rollback = (\<lambda>h s. s)\<rparr>"

definition mem_Locker :: "mem_state advisory_locker" where
  "mem_Locker = \<lparr>al_TryLock = (\<lambda>_. ret True), al_Unlock = (\<lambda>_. ret ())\<rparr>"

definition LockerThatFails :: "mem_state advisory_locker" where
  "LockerThatFails = \<lparr>al_TryLock = (\<lambda>_. ret False), al_Unlock = (\<lambda>_. ret ())\<rparr>"

definition NewRequests :: "mem_state \<Rightarrow> mem_state" where
  "NewRequests s = s\<lparr>mm_requests := [], mm_lines := [], mm_holds := [], mm_dedications := [], mm_events := [],
     mm_idemIndex := []\<rparr>"

end
