(* ===== verification/Memory_Laws.thy ===== *)
theory Memory_Laws
  imports Memory_Store Pg_Laws Ledger
begin

text \<open>
  The fakes keep the promises of the interfaces: pools, quotas and products as they stand, the lock
  and the transaction runner up to the rollback they do not have. A map of the fakes is a list of rows
  filed under a key of the row; whatever order a \<^verbatim>\<open>range\<close> meets them in, the answers are the
  same up to order.
\<close>

subsection \<open>Rows filed under a key\<close>

definition keyed :: "('a \<Rightarrow> 'k) \<Rightarrow> ('k \<times> 'a) list \<Rightarrow> bool" where
  "keyed kf m \<longleftrightarrow> m = List.map (\<lambda>x. (kf x, x)) (List.map snd m) \<and> distinct (List.map kf (List.map snd m))"

lemma keyedE:
  assumes "keyed kf m"
  obtains xs where "m = List.map (\<lambda>x. (kf x, x)) xs" and "distinct (List.map kf xs)" and "List.map snd m = xs"
  using assms unfolding keyed_def by blast

lemma map_snd_key: "List.map snd (List.map (\<lambda>x. (kf x, x)) xs) = xs"
  by (induction xs) simp_all

lemma keyedI: "m = List.map (\<lambda>x. (kf x, x)) xs \<Longrightarrow> distinct (List.map kf xs) \<Longrightarrow> keyed kf m"
  by (simp only: keyed_def map_snd_key)

lemma keyed_nil [simp]: "keyed kf []"
  by (simp add: keyed_def)

lemma map_of_key: "map_of (List.map (\<lambda>x. (kf x, x)) xs) k = find (\<lambda>x. kf x = k) xs"
  by (induction xs) auto

lemma keyed_map_of: "keyed kf m \<Longrightarrow> map_of m k = find (\<lambda>x. kf x = k) (List.map snd m)"
  by (elim keyedE) (simp only: map_of_key)

lemma keyed_distinct: "keyed kf m \<Longrightarrow> distinct (List.map kf (List.map snd m))"
  by (simp add: keyed_def)

lemma map_entry_key:
  "distinct (List.map kf xs) \<Longrightarrow> (\<And>x. kf (f x) = kf x) \<Longrightarrow>
   AList.map_entry k f (List.map (\<lambda>x. (kf x, x)) xs) = List.map (\<lambda>x. (kf x, x)) (mapWhere (\<lambda>x. kf x = k) f xs)"
proof (induction xs)
  case (Cons y ys)
  have "kf y = k \<Longrightarrow> mapWhere (\<lambda>x. kf x = k) f ys = ys"
    using Cons.prems(1) by (intro mapWhere_none) (auto simp: image_iff)
  with Cons show ?case by auto
qed simp

lemma keyed_entry:
  assumes "keyed kf m" and "\<And>x. kf (f x) = kf x"
  shows "keyed kf (AList.map_entry k f m)"
    and "List.map snd (AList.map_entry k f m) = mapWhere (\<lambda>x. kf x = k) f (List.map snd m)"
proof -
  from assms(1) obtain xs where m: "m = List.map (\<lambda>x. (kf x, x)) xs" "distinct (List.map kf xs)" "List.map snd m = xs"
    by (rule keyedE)
  have e: "AList.map_entry k f m = List.map (\<lambda>x. (kf x, x)) (mapWhere (\<lambda>x. kf x = k) f xs)"
    unfolding m(1) by (rule map_entry_key [OF m(2) assms(2)])
  have "List.map kf (mapWhere (\<lambda>x. kf x = k) f xs) = List.map kf xs"
    by (rule map_mapWhere_same) (rule assms(2))
  with m(2) show "keyed kf (AList.map_entry k f m)" by (intro keyedI [OF e]) simp
  show "List.map snd (AList.map_entry k f m) = mapWhere (\<lambda>x. kf x = k) f (List.map snd m)"
    unfolding e m(3) by (rule map_snd_key)
qed

lemma keyed_insert:
  assumes "keyed kf m" and "map_of m (kf v) = None"
  shows "AList.update (kf v) v m = m @ [(kf v, v)]" and "keyed kf (m @ [(kf v, v)])"
proof -
  have "kf v \<notin> fst ` set m" using assms(2) by (simp add: map_of_eq_None_iff)
  then show "AList.update (kf v) v m = m @ [(kf v, v)]" by (induction m) auto
  from assms(1) obtain xs where m: "m = List.map (\<lambda>x. (kf x, x)) xs" "distinct (List.map kf xs)" by (rule keyedE)
  show "keyed kf (m @ [(kf v, v)])"
    using assms(2) m by (intro keyedI [of _ kf "xs @ [v]"]) (auto simp: map_of_eq_None_iff image_iff)
qed

subsection \<open>Ranging over maps\<close>

definition any_order :: "(nat \<Rightarrow> nat list) \<Rightarrow> bool" where
  "any_order order \<longleftrightarrow> (\<forall>n. mset (order n) = mset [0..<n])"

lemma mset_ranging [simp]: "any_order order \<Longrightarrow> mset (ranging order xs) = mset xs"
proof -
  assume "any_order order"
  then have "mset (ranging order xs) = image_mset ((!) xs) (mset [0..<length xs])"
    by (simp add: ranging_def any_order_def)
  also have "\<dots> = mset (List.map ((!) xs) [0..<length xs])" by simp
  also have "\<dots> = mset xs" by (simp only: map_nth)
  finally show ?thesis .
qed

lemma ranging_map: "ranging order (List.map f xs) = List.map f (ranging order xs)" if "any_order order"
proof -
  have "i \<in> set (order (length xs)) \<Longrightarrow> i < length xs" for i
    using that mset_eq_setD [of "order (length xs)" "[0..<length xs]"] by (simp add: any_order_def)
  then show ?thesis by (simp add: ranging_def)
qed

lemma find_same_rows:
  assumes "mset xs = mset ys" and "distinct (List.map k ys)"
  shows "find (\<lambda>x. k x = i) xs = find (\<lambda>x. k x = i) ys"
proof -
  have d: "distinct (List.map k xs)"
    using assms by (metis mset_eq_imp_distinct_iff mset_map)
  have s: "set xs = set ys" using assms(1) by (rule mset_eq_setD)
  show ?thesis
  proof (cases "find (\<lambda>x. k x = i) ys")
    case None
    then have "find (\<lambda>x. k x = i) xs = None" using s by (metis find_None_iff_key)
    with None show ?thesis by simp
  next
    case (Some y)
    then have "find (\<lambda>x. k x = i) xs = Some y"
      using s by (simp only: find_Some_iff_distinct [OF d] find_Some_iff_distinct [OF assms(2)])
    with Some show ?thesis by simp
  qed
qed

subsection \<open>The abstract store of the fakes\<close>

definition mem_view :: "mem_state \<Rightarrow> tables" where
  "mem_view s = \<lparr>t_pools = List.map unstamp_pool (List.map snd (mm_pools s)), t_products = List.map snd (mm_products s),
     t_quotas = List.map unstamp_quota (List.map snd (mm_quotas s)),
     t_requests = List.map unstamp_request (List.map snd (mm_requests s)),
     t_lines = concat (List.map snd (mm_lines s)), t_holds = List.map unstamp_hold (concat (List.map snd (mm_holds s))),
     t_dedications = concat (List.map snd (mm_dedications s)), t_events = concat (List.map snd (mm_events s))\<rparr>"

definition mem_inv :: "mem_state \<Rightarrow> bool" where
  "mem_inv s \<longleftrightarrow> any_order (mm_order s) \<and> keyed rp_Kind (mm_pools s) \<and> keyed quota_key (mm_quotas s) \<and>
     keyed pd_Code (mm_products s) \<and> keyed cr_ID (mm_requests s) \<and> distinct (List.map fst (mm_holds s))"

lemma mem_view_sel [simp]:
  "t_pools (mem_view s) = List.map unstamp_pool (List.map snd (mm_pools s))"
  "t_products (mem_view s) = List.map snd (mm_products s)"
  "t_quotas (mem_view s) = List.map unstamp_quota (List.map snd (mm_quotas s))"
  "t_requests (mem_view s) = List.map unstamp_request (List.map snd (mm_requests s))"
  by (simp_all add: mem_view_def)

subsection \<open>Pools\<close>

lemma find_filed: "find (\<lambda>(k, v). c v) (List.map (\<lambda>x. (kf x, x)) xs) = map_option (\<lambda>x. (kf x, x)) (find c xs)"
  by (induction xs) simp_all

lemma byID_row:
  assumes "mem_inv s" and "pools_ok (mem_view s)"
  shows "byID i s = map_option (\<lambda>p. (rp_Kind p, p)) (find (\<lambda>p. rp_ID p = i) (List.map snd (mm_pools s)))"
proof -
  from assms(1) have sh: "any_order (mm_order s)" and "keyed rp_Kind (mm_pools s)" by (simp_all add: mem_inv_def)
  then obtain ps where m: "mm_pools s = List.map (\<lambda>x. (rp_Kind x, x)) ps" "List.map snd (mm_pools s) = ps"
    by (elim keyedE)
  have d: "distinct (List.map rp_ID ps)" using assms(2) m(2) by (simp add: pools_ok_def comp_def)
  have "byID i s = map_option (\<lambda>p. (rp_Kind p, p)) (find (\<lambda>p. rp_ID p = i) (ranging (mm_order s) ps))"
    unfolding byID_def m(1) ranging_map [OF sh] by (rule find_filed)
  also have "find (\<lambda>p. rp_ID p = i) (ranging (mm_order s) ps) = find (\<lambda>p. rp_ID p = i) ps"
    by (rule find_same_rows [OF mset_ranging [OF sh] d])
  finally show ?thesis by (simp only: m(2))
qed

lemma shift_hit:
  assumes "distinct (List.map rp_ID ps)" and "find (\<lambda>q. rp_ID q = i) ps = Some p"
    and "unstamp_pool (f p) = (unstamp_pool p)\<lparr>rp_ReservedAmount := rp_ReservedAmount p + a,
                                          rp_DedicatedAmount := rp_DedicatedAmount p + b\<rparr>"
  shows "List.map unstamp_pool (mapWhere (\<lambda>q. rp_ID q = i) f ps) = shift_pools (at i a) (at i b) (List.map unstamp_pool ps)"
  unfolding shift_pools_def mapWhere_def List.map_map
proof (rule map_cong [OF refl])
  fix q assume q: "q \<in> set ps"
  from find_SomeD [OF assms(2)] have p: "p \<in> set ps" "rp_ID p = i" by simp_all
  have "rp_ID q = i \<Longrightarrow> q = p" using distinct_key_inj [OF assms(1) q p(1)] p(2) by simp
  then show "(unstamp_pool \<circ> (\<lambda>x. if rp_ID x = i then f x else x)) q =
      ((\<lambda>p. p\<lparr>rp_ReservedAmount := rp_ReservedAmount p + at i a (rp_ID p),
              rp_DedicatedAmount := rp_DedicatedAmount p + at i b (rp_ID p)\<rparr>) \<circ> unstamp_pool) q"
    using assms(3) by (cases "rp_ID q = i") simp_all
qed

lemma list_ex_hit:
  assumes "distinct (List.map k ps)" and "find (\<lambda>q. k q = i) ps = Some p"
  shows "list_ex (\<lambda>q. k q = i \<and> c q) ps \<longleftrightarrow> c p"
  using find_SomeD [OF assms(2)] distinct_key_inj [OF assms(1)] by (fastforce simp: list_ex_iff)

text \<open>Writing through the pointer \<open>byID\<close> returns.\<close>

lemma write_pool_view:
  assumes inv: "mem_inv s" and ok: "pools_ok (mem_view s)"
    and p: "find (\<lambda>q. rp_ID q = i) (List.map snd (mm_pools s)) = Some p"
    and keys: "\<And>q. rp_ID (f q) = rp_ID q \<and> rp_Kind (f q) = rp_Kind q"
    and f: "unstamp_pool (f p) = (unstamp_pool p)\<lparr>rp_ReservedAmount := rp_ReservedAmount p + a,
                                          rp_DedicatedAmount := rp_DedicatedAmount p + b\<rparr>"
  shows "mem_inv (write_pool (rp_Kind p) f s)"
    and "mem_view (write_pool (rp_Kind p) f s) =
      (mem_view s)\<lparr>t_pools := shift_pools (at i a) (at i b) (t_pools (mem_view s))\<rparr>"
proof -
  let ?ps = "List.map snd (mm_pools s)"
  from inv have k: "keyed rp_Kind (mm_pools s)" by (simp add: mem_inv_def)
  note e = keyed_entry [OF k, of f "rp_Kind p"]
  show "mem_inv (write_pool (rp_Kind p) f s)"
    using inv e(1) keys by (simp add: mem_inv_def write_pool_def)
  have d: "distinct (List.map rp_ID ?ps)" "distinct (List.map rp_Kind ?ps)"
    using ok by (simp_all add: pools_ok_def comp_def)
  from find_SomeD [OF p] have "p \<in> set ?ps" "rp_ID p = i" by simp_all
  then have "mapWhere (\<lambda>q. rp_Kind q = rp_Kind p) f ?ps = mapWhere (\<lambda>q. rp_ID q = i) f ?ps"
    using distinct_key_inj [OF d(1)] distinct_key_inj [OF d(2)] by (intro mapWhere_cong) blast
  with shift_hit [where f = f and a = a and b = b, OF d(1) p f] e(2) keys
  show "mem_view (write_pool (rp_Kind p) f s) =
      (mem_view s)\<lparr>t_pools := shift_pools (at i a) (at i b) (t_pools (mem_view s))\<rparr>"
    by (simp add: mem_view_def write_pool_def)
qed

lemma pool_row:
  assumes "pools_ok (mem_view s)" and "i \<in> pool_ids (mem_view s)"
  obtains p where "find (\<lambda>q. rp_ID q = i) (List.map snd (mm_pools s)) = Some p" and "pool_ok p" and "rp_ID p = i"
    and "\<forall>c. list_ex (\<lambda>q. rp_ID q = i \<and> c q) (List.map snd (mm_pools s)) \<longleftrightarrow> c p"
proof -
  let ?ps = "List.map snd (mm_pools s)"
  have d: "distinct (List.map rp_ID ?ps)" using assms(1) by (simp add: pools_ok_def comp_def)
  have "i \<in> rp_ID ` set ?ps" using assms(2) by (auto simp: pool_ids_def image_iff)
  then obtain p where p: "find (\<lambda>q. rp_ID q = i) ?ps = Some p"
    by (metis find_None_iff_key not_None_eq)
  from find_SomeD [OF p] have m: "p \<in> set ?ps" "rp_ID p = i" by simp_all
  have "pool_ok p" using assms(1) m(1) by (auto simp: pools_ok_def list_all_iff)
  show thesis by (rule that [OF p \<open>pool_ok p\<close> m(2)]) (intro allI list_ex_hit [OF d p])
qed

lemma mem_effective:
  assumes "pool_ok p"
  shows "f64_to_int64 (f64_floor_f (f64_mul (f64_of_int (rp_Total p)) (rp_OversubscribeFactor p))) = effective p"
proof -
  have "0 \<le> effective p" "effective p < 2 ^ 53" using assms by (auto simp: pool_ok_def maxAmount_def)
  then have "f64_floor_f (f64_mul (f64_of_int (rp_Total p)) (rp_OversubscribeFactor p)) = F64 (effective p) 0"
    by (simp add: f64_floor_f_def f64_of_int_exact flip: effective_def)
  with \<open>0 \<le> effective p\<close> \<open>effective p < 2 ^ 53\<close> show ?thesis by (simp add: f64_to_int64_def in_i64_def)
qed

lemma mem_TryReserve:
  assumes inv: "mem_inv s" and ok: "pools_ok (mem_view s)" and n: "0 < n" "n \<le> maxAmount"
    and i: "i \<in> pool_ids (mem_view s)" and run: "Pools_TryReserve i n s = (r, s')"
  shows "mem_inv s' \<and> r = Inr (admits i n (mem_view s)) \<and>
       mem_view s' = (if admits i n (mem_view s) then spec_reserve i n (mem_view s) else mem_view s)"
proof -
  from ok i obtain p where p: "find (\<lambda>q. rp_ID q = i) (List.map snd (mm_pools s)) = Some p" "pool_ok p" "rp_ID p = i"
    and ex: "\<forall>c. list_ex (\<lambda>q. rp_ID q = i \<and> c q) (List.map snd (mm_pools s)) \<longleftrightarrow> c p"
    by (rule pool_row)
  let ?f = "\<lambda>q. q\<lparr>rp_ReservedAmount := i64 (rp_ReservedAmount q + n)\<rparr>"
  have adm: "admits i n (mem_view s) \<longleftrightarrow> n \<le> effective p - rp_DedicatedAmount p - rp_ReservedAmount p"
    using spec [OF ex, of "\<lambda>q. n \<le> effective q - rp_DedicatedAmount q - rp_ReservedAmount q"]
    by (simp add: admits_def list_ex_map_comp comp_def)
  have avail: "i64 (i64 (effective p - rp_DedicatedAmount p) - rp_ReservedAmount p) =
      effective p - rp_DedicatedAmount p - rp_ReservedAmount p"
    using p(2) by (simp add: pool_ok_def maxAmount_def in_i64_def)
  have byID: "byID i s = Some (rp_Kind p, p)" by (simp add: byID_row [OF inv ok] p(1))
  show ?thesis
  proof (cases "admits i n (mem_view s)")
    case True
    have "unstamp_pool (?f p) = (unstamp_pool p)\<lparr>rp_ReservedAmount := rp_ReservedAmount p + n,
                                          rp_DedicatedAmount := rp_DedicatedAmount p + 0\<rparr>"
      using p(2) n True adm by (simp add: pool_ok_def maxAmount_def in_i64_def unstamp_pool_def)
    note w = write_pool_view [OF inv ok p(1), of ?f, OF _ this]
    have "r = Inr True" "s' = write_pool (rp_Kind p) ?f s"
      using run True adm by (auto simp: Pools_TryReserve_def byID mem_effective [OF p(2)] avail andThen_def updating_def ret_def)
    with w True show ?thesis by (simp add: spec_reserve_def)
  next
    case False
    then have "r = Inr False" "s' = s"
      using run adm by (auto simp: Pools_TryReserve_def byID mem_effective [OF p(2)] avail ret_def)
    with False inv show ?thesis by simp
  qed
qed

lemma mem_reserves_at_least:
  assumes "\<forall>c. list_ex (\<lambda>q. rp_ID q = i \<and> c q) (List.map snd (mm_pools s)) \<longleftrightarrow> c p"
  shows "reserves_at_least i n (mem_view s) \<longleftrightarrow> n \<le> rp_ReservedAmount p"
  using spec [OF assms, of "\<lambda>q. n \<le> rp_ReservedAmount q"] by (simp add: reserves_at_least_def list_ex_map_comp comp_def)

lemma mem_ReleaseReserved:
  assumes inv: "mem_inv s" and ok: "pools_ok (mem_view s)" and n: "0 < n" "n \<le> maxAmount"
    and i: "i \<in> pool_ids (mem_view s)" and run: "Pools_ReleaseReserved i n s = (r, s')"
  shows "mem_inv s' \<and> r = Inr () \<and> mem_view s' = spec_release i n (mem_view s)"
proof -
  from ok i obtain p where p: "find (\<lambda>q. rp_ID q = i) (List.map snd (mm_pools s)) = Some p" "pool_ok p" "rp_ID p = i"
    and ex: "\<forall>c. list_ex (\<lambda>q. rp_ID q = i \<and> c q) (List.map snd (mm_pools s)) \<longleftrightarrow> c p"
    by (rule pool_row)
  let ?f = "\<lambda>q. q\<lparr>rp_ReservedAmount := i64 (rp_ReservedAmount q - n)\<rparr>"
  have byID: "byID i s = Some (rp_Kind p, p)" by (simp add: byID_row [OF inv ok] p(1))
  show ?thesis
  proof (cases "n \<le> rp_ReservedAmount p")
    case True
    have "unstamp_pool (?f p) = (unstamp_pool p)\<lparr>rp_ReservedAmount := rp_ReservedAmount p + - n,
                                          rp_DedicatedAmount := rp_DedicatedAmount p + 0\<rparr>"
      using p(2) n True by (simp add: pool_ok_def maxAmount_def in_i64_def unstamp_pool_def)
    note w = write_pool_view [OF inv ok p(1), of ?f, OF _ this]
    have "r = Inr ()" "s' = write_pool (rp_Kind p) ?f s"
      using run True by (auto simp: Pools_ReleaseReserved_def byID updating_def)
    with w True show ?thesis by (simp add: spec_release_def mem_reserves_at_least [OF ex])
  next
    case False
    then have "r = Inr ()" "s' = s" using run by (auto simp: Pools_ReleaseReserved_def byID ret_def)
    with False inv show ?thesis by (simp add: spec_release_def mem_reserves_at_least [OF ex])
  qed
qed

lemma mem_MoveReservedToDedicated:
  assumes inv: "mem_inv s" and ok: "pools_ok (mem_view s)" and n: "0 < n" "n \<le> maxAmount"
    and i: "i \<in> pool_ids (mem_view s)" and run: "Pools_MoveReservedToDedicated i n s = (r, s')"
  shows "mem_inv s' \<and> r = Inr () \<and> mem_view s' = spec_dedicate i n (mem_view s)"
proof -
  from ok i obtain p where p: "find (\<lambda>q. rp_ID q = i) (List.map snd (mm_pools s)) = Some p" "pool_ok p" "rp_ID p = i"
    and ex: "\<forall>c. list_ex (\<lambda>q. rp_ID q = i \<and> c q) (List.map snd (mm_pools s)) \<longleftrightarrow> c p"
    by (rule pool_row)
  let ?f = "\<lambda>q. q\<lparr>rp_ReservedAmount := i64 (rp_ReservedAmount q - n), rp_DedicatedAmount := i64 (rp_DedicatedAmount q + n)\<rparr>"
  have byID: "byID i s = Some (rp_Kind p, p)" by (simp add: byID_row [OF inv ok] p(1))
  show ?thesis
  proof (cases "n \<le> rp_ReservedAmount p")
    case True
    have "unstamp_pool (?f p) = (unstamp_pool p)\<lparr>rp_ReservedAmount := rp_ReservedAmount p + - n,
                                          rp_DedicatedAmount := rp_DedicatedAmount p + n\<rparr>"
      using p(2) n True by (simp add: pool_ok_def maxAmount_def in_i64_def unstamp_pool_def)
    note w = write_pool_view [OF inv ok p(1), of ?f, OF _ this]
    have "r = Inr ()" "s' = write_pool (rp_Kind p) ?f s"
      using run True by (auto simp: Pools_MoveReservedToDedicated_def byID updating_def)
    with w True show ?thesis by (simp add: spec_dedicate_def mem_reserves_at_least [OF ex])
  next
    case False
    then have "r = Inr ()" "s' = s" using run by (auto simp: Pools_MoveReservedToDedicated_def byID ret_def)
    with False inv show ?thesis by (simp add: spec_dedicate_def mem_reserves_at_least [OF ex])
  qed
qed

lemma mset_map_eq: "mset xs = mset ys \<Longrightarrow> mset (List.map f xs) = mset (List.map f ys)"
  by simp

lemma mem_ListPools:
  assumes "mem_inv s" and "Pools_List s = (r, s')"
  shows "s' = s \<and> (\<forall>ps. r = Inr ps \<longrightarrow> mset (List.map unstamp_pool ps) = mset (t_pools (mem_view s)))"
proof -
  have "any_order (mm_order s)" using assms(1) by (simp add: mem_inv_def)
  from mset_map_eq [OF mset_ranging [OF this]] assms(2) show ?thesis
    by (auto simp only: Pools_List_def asking_iff mem_view_sel sum.inject)
qed

lemma mem_GetByKind:
  assumes "mem_inv s" and "Pools_GetByKind k s = (r, s')"
  shows "s' = s \<and> (\<forall>q. r = Inr q \<longrightarrow> map_option unstamp_pool q = find (\<lambda>p. rp_Kind p = k) (t_pools (mem_view s)))"
proof -
  have "keyed rp_Kind (mm_pools s)" using assms(1) by (simp add: mem_inv_def)
  from keyed_map_of [OF this] assms(2) show ?thesis
    by (simp add: Pools_GetByKind_def find_map_key del: map_map)
qed

lemma mem_pools_sel:
  "pr_List mem_pools = Pools_List" "pr_GetByKind mem_pools = Pools_GetByKind"
  "pr_TryReserve mem_pools = Pools_TryReserve" "pr_ReleaseReserved mem_pools = Pools_ReleaseReserved"
  "pr_MoveReservedToDedicated mem_pools = Pools_MoveReservedToDedicated"
  by (simp_all add: mem_pools_def)

interpretation mem_pool: pool_port mem_pools mem_view mem_inv
proof (unfold_locales, goal_cases)
  case 1
  from mem_ListPools [OF 1(1) 1(2) [unfolded mem_pools_sel]] 1(1) show ?case by blast
next
  case 2
  from mem_GetByKind [OF 2(1) 2(2) [unfolded mem_pools_sel]] 2(1) show ?case by blast
next
  case 3
  from mem_TryReserve [OF 3(1-5) 3(6) [unfolded mem_pools_sel]] show ?case by simp
next
  case 4
  from mem_ReleaseReserved [OF 4(1-5) 4(6) [unfolded mem_pools_sel]] show ?case by simp
next
  case 5
  from mem_MoveReservedToDedicated [OF 5(1-5) 5(6) [unfolded mem_pools_sel]] show ?case by simp
qed

subsection \<open>Quotas\<close>

lemma quota_row:
  assumes "mem_inv s"
  shows "map_of (mm_quotas s) ck = find (\<lambda>q. quota_key q = ck) (List.map snd (mm_quotas s))"
  using assms by (simp only: mem_inv_def keyed_map_of)

lemma quota_present:
  "list_ex (\<lambda>q. quota_key q = ck) (t_quotas (mem_view s)) \<longleftrightarrow> find (\<lambda>q. quota_key q = ck) (List.map snd (mm_quotas s)) \<noteq> None"
  by (auto simp: list_ex_iff find_None_iff)

text \<open>Writing a row of the quotas.\<close>

lemma write_quota_view:
  assumes inv: "mem_inv s" and q: "find (\<lambda>q. quota_key q = (c, k)) (List.map snd (mm_quotas s)) = Some q"
    and keys: "\<And>q. quota_key (f q) = quota_key q"
    and f: "unstamp_quota (f q) = g (unstamp_quota q)"
  shows "mem_inv (write_quota c k f s)"
    and "mem_view (write_quota c k f s) =
      (mem_view s)\<lparr>t_quotas := mapWhere (\<lambda>q. quota_key q = (c, k)) g (t_quotas (mem_view s))\<rparr>"
proof -
  let ?qs = "List.map snd (mm_quotas s)"
  from inv have k: "keyed quota_key (mm_quotas s)" by (simp add: mem_inv_def)
  note e = keyed_entry [OF k, of f "(c, k)", OF keys]
  show "mem_inv (write_quota c k f s)" using inv e(1) by (simp add: mem_inv_def write_quota_def)
  from find_SomeD [OF q] have m: "q \<in> set ?qs" "quota_key q = (c, k)" by simp_all
  have "List.map unstamp_quota (mapWhere (\<lambda>q. quota_key q = (c, k)) f ?qs) =
      mapWhere (\<lambda>q. quota_key q = (c, k)) g (List.map unstamp_quota ?qs)"
  proof (rule map_mapWhere_commute)
    fix x assume "x \<in> set ?qs" and "quota_key x = (c, k)"
    then have "x = q" using distinct_key_inj [OF keyed_distinct [OF k] _ m(1)] m(2) by simp
    then show "unstamp_quota (f x) = g (unstamp_quota x)" using f by simp
  qed simp
  with e(2) show "mem_view (write_quota c k f s) =
      (mem_view s)\<lparr>t_quotas := mapWhere (\<lambda>q. quota_key q = (c, k)) g (t_quotas (mem_view s))\<rparr>"
    by (simp add: mem_view_def write_quota_def)
qed

lemma mem_TryConsume:
  assumes inv: "mem_inv s" and ok: "quotas_ok (mem_view s)" and n: "0 < n" "n \<le> maxAmount"
    and run: "Quotas_TryConsume c k n s = (r, s')"
  shows "mem_inv s' \<and> r = Inr (quota_admits c k n (mem_view s)) \<and>
    mem_view s' = (if quota_admits c k n (mem_view s) then spec_consume c k n (mem_view s) else mem_view s)"
proof (cases "find (\<lambda>q. quota_key q = (c, k)) (List.map snd (mm_quotas s))")
  case None
  then have "\<not> quota_admits c k n (mem_view s)" by (auto simp: quota_admits_def list_ex_iff find_None_iff)
  with None run inv show ?thesis by (simp add: Quotas_TryConsume_def quota_row [OF inv])
next
  case (Some q)
  let ?qs = "List.map snd (mm_quotas s)"
  let ?f = "\<lambda>q. q\<lparr>cq_UsedAmount := i64 (cq_UsedAmount q + n)\<rparr>"
  from inv have "keyed quota_key (mm_quotas s)" by (simp add: mem_inv_def)
  note d = keyed_distinct [OF this]
  from find_SomeD [OF Some] have m: "q \<in> set ?qs" "quota_key q = (c, k)" by simp_all
  have qok: "quota_ok q" using ok m(1) by (fastforce simp: quotas_ok_def list_all_iff quota_ok_def)
  have rem: "i64 (cq_Limit q - cq_UsedAmount q) = cq_Limit q - cq_UsedAmount q"
    using qok by (simp add: quota_ok_def in_i64_def)
  have adm: "quota_admits c k n (mem_view s) \<longleftrightarrow> n \<le> cq_Limit q - cq_UsedAmount q"
    using list_ex_hit [OF d Some, of "\<lambda>q. n \<le> cq_Limit q - cq_UsedAmount q"]
    by (simp add: quota_admits_def list_ex_map_comp comp_def)
  show ?thesis
  proof (cases "quota_admits c k n (mem_view s)")
    case True
    have "unstamp_quota (?f q) = (\<lambda>q. q\<lparr>cq_UsedAmount := cq_UsedAmount q + n\<rparr>) (unstamp_quota q)"
      using qok n True adm by (simp add: quota_ok_def maxAmount_def in_i64_def unstamp_quota_def)
    note w = write_quota_view [where f = ?f and g = "\<lambda>q. q\<lparr>cq_UsedAmount := cq_UsedAmount q + n\<rparr>", OF inv Some _ this]
    have "r = Inr True" "s' = write_quota c k ?f s"
      using run True adm by (auto simp: Quotas_TryConsume_def quota_row [OF inv] Some rem andThen_def updating_def ret_def)
    moreover have "mapWhere (\<lambda>q. quota_key q = (c, k)) (\<lambda>q. q\<lparr>cq_UsedAmount := cq_UsedAmount q + n\<rparr>) xs =
        shift_quotas (at (c, k) n) xs" for xs
      by (simp add: mapWhere_def shift_quotas_def)
    ultimately show ?thesis using w True by (simp add: spec_consume_def)
  next
    case False
    then have "r = Inr False" "s' = s"
      using run adm by (auto simp: Quotas_TryConsume_def quota_row [OF inv] Some rem ret_def)
    with False inv show ?thesis by simp
  qed
qed

lemma mem_ensure_quota:
  assumes inv: "mem_inv s" and run: "ensure_quota c k limit s = (r, s')"
  shows "mem_inv s' \<and> r = Inr () \<and> mem_view s' = spec_ensure c k limit (mem_view s)"
proof (cases "find (\<lambda>q. quota_key q = (c, k)) (List.map snd (mm_quotas s))")
  case None
  let ?q = "\<lparr>cq_ID = mm_uuids s (mm_drawn s), cq_CustomerID = c, cq_ResourceKind = k, cq_Limit = limit,
               cq_UsedAmount = 0, cq_CreatedAt = 0, cq_UpdatedAt = 0\<rparr>"
  from inv have k: "keyed quota_key (mm_quotas s)" by (simp add: mem_inv_def)
  have key: "quota_key ?q = (c, k)" by (simp add: quota_key_def)
  have "map_of (mm_quotas s) (quota_key ?q) = None" by (simp only: key quota_row [OF inv] None)
  note new = keyed_insert [OF k this, unfolded key]
  have s': "s' = s\<lparr>mm_quotas := mm_quotas s @ [((c, k), ?q)], mm_drawn := Suc (mm_drawn s)\<rparr>" and r: "r = Inr ()"
    using run by (simp_all only: ensure_quota_def updating_iff quota_row [OF inv] None new(1)) simp
  have "spec_ensure c k limit (mem_view s) = (mem_view s)\<lparr>t_quotas := t_quotas (mem_view s) @ [new_quota c k limit]\<rparr>"
    using quota_present [of "(c, k)" s] None by (simp add: spec_ensure_def)
  then have "mem_view s' = spec_ensure c k limit (mem_view s)"
    unfolding s' by (simp add: mem_view_def unstamp_new_quota)
  moreover have "mem_inv s'" using new(2) inv unfolding s' by (simp add: mem_inv_def)
  ultimately show ?thesis using r by simp
next
  case (Some q)
  with run inv quota_present [of "(c, k)" s] show ?thesis
    by (simp add: ensure_quota_def quota_row [OF inv] spec_ensure_def)
qed

lemma mem_EnsureAndTryConsume:
  assumes inv: "mem_inv s" and ok: "quotas_ok (mem_view s)" and n: "0 < n" "n \<le> maxAmount"
    and lim: "0 \<le> limit" "limit \<le> maxAmount" and run: "Quotas_EnsureAndTryConsume c k n limit s = (r, s')"
  shows "mem_inv s' \<and> r = Inr (quota_admits c k n (spec_ensure c k limit (mem_view s))) \<and>
    mem_view s' = (if quota_admits c k n (spec_ensure c k limit (mem_view s))
      then spec_consume c k n (spec_ensure c k limit (mem_view s)) else spec_ensure c k limit (mem_view s))"
proof -
  obtain q s1 where e: "ensure_quota c k limit s = (q, s1)" by (rule prod.exhaust)
  from mem_ensure_quota [OF inv e] have s1: "mem_inv s1" "q = Inr ()" "mem_view s1 = spec_ensure c k limit (mem_view s)" by simp_all
  with e run have "Quotas_TryConsume c k n s1 = (r, s')" by (simp add: Quotas_EnsureAndTryConsume_def)
  from mem_TryConsume [OF s1(1) _ n this] quotas_ok_ensure [OF ok lim] s1(3) show ?thesis by simp
qed

lemma mem_ReleaseQuota:
  assumes inv: "mem_inv s" and ok: "quotas_ok (mem_view s)" and n: "0 < n" "n \<le> maxAmount"
    and run: "Quotas_Release c k n s = (r, s')"
  shows "mem_inv s' \<and> r = Inr () \<and> mem_view s' = spec_unconsume c k n (mem_view s)"
proof (cases "find (\<lambda>q. quota_key q = (c, k)) (List.map snd (mm_quotas s))")
  case None
  then have "mapWhere (\<lambda>q. quota_key q = (c, k)) g (t_quotas (mem_view s)) = t_quotas (mem_view s)" for g
    by (intro mapWhere_none) (auto simp: find_None_iff)
  with None run inv show ?thesis by (simp add: Quotas_Release_def quota_row [OF inv] spec_unconsume_def)
next
  case (Some q)
  let ?f = "\<lambda>v. v\<lparr>cq_UsedAmount := (if cq_UsedAmount v \<ge> n then i64 (cq_UsedAmount v - n) else 0)\<rparr>"
  let ?g = "\<lambda>q. q\<lparr>cq_UsedAmount := max (cq_UsedAmount q - n) 0\<rparr>"
  from find_SomeD [OF Some] have "q \<in> set (List.map snd (mm_quotas s))" by simp
  then have "quota_ok q" using ok by (fastforce simp: quotas_ok_def list_all_iff quota_ok_def)
  then have "unstamp_quota (?f q) = ?g (unstamp_quota q)"
    using n by (auto simp: quota_ok_def maxAmount_def in_i64_def unstamp_quota_def)
  note w = write_quota_view [where f = ?f and g = ?g, OF inv Some _ this]
  have "r = Inr ()" "s' = write_quota c k ?f s"
    using run by (simp_all add: Quotas_Release_def quota_row [OF inv] Some)
  with w show ?thesis by (simp add: spec_unconsume_def)
qed

lemma filter_entries:
  "m = List.map (\<lambda>x. (kf x, x)) xs \<Longrightarrow> List.map snd (filter (\<lambda>(k, v). c k) m) = filter (\<lambda>x. c (kf x)) xs"
  by (simp add: filter_map comp_def)

lemma mem_ListQuotas:
  assumes "mem_inv s" and "Quotas_ListByCustomer c s = (r, s')"
  shows "s' = s \<and> (\<forall>qs. r = Inr qs \<longrightarrow>
    mset (List.map unstamp_quota qs) = mset (filter (\<lambda>q. cq_CustomerID q = c) (t_quotas (mem_view s))))"
proof -
  from assms(1) have sh: "any_order (mm_order s)" and "keyed quota_key (mm_quotas s)" by (simp_all add: mem_inv_def)
  then obtain qs where m: "mm_quotas s = List.map (\<lambda>x. (quota_key x, x)) qs" "List.map snd (mm_quotas s) = qs"
    by (elim keyedE)
  have "List.map snd (filter (\<lambda>(k, v). fst k = c) (ranging (mm_order s) (mm_quotas s))) =
      filter (\<lambda>q. cq_CustomerID q = c) (ranging (mm_order s) qs)"
    unfolding m(1) ranging_map [OF sh] by (subst filter_entries [OF refl]) (simp add: quota_key_def)
  moreover have "mset (List.map unstamp_quota (filter (\<lambda>q. cq_CustomerID q = c) (ranging (mm_order s) qs))) =
      mset (List.map unstamp_quota (filter (\<lambda>q. cq_CustomerID q = c) qs))"
    using mset_ranging [OF sh, of qs] by (intro mset_map_eq) simp
  ultimately show ?thesis using assms(2)
    by (auto simp only: Quotas_ListByCustomer_def asking_iff mem_view_sel sum.inject filter_quotas_unstamp m(2))
qed

lemma mem_quotas_sel:
  "qr_Get mem_quotas = Quotas_Get" "qr_ListByCustomer mem_quotas = Quotas_ListByCustomer"
  "qr_TryConsume mem_quotas = Quotas_TryConsume" "qr_Release mem_quotas = Quotas_Release"
  "qr_EnsureAndTryConsume mem_quotas = Quotas_EnsureAndTryConsume"
  by (simp_all add: mem_quotas_def)

interpretation mem_quota: quota_port mem_quotas mem_view mem_inv
proof (unfold_locales, goal_cases)
  case 1
  from mem_ListQuotas [OF 1(1) 1(2) [unfolded mem_quotas_sel]] 1(1) show ?case by blast
next
  case 2
  from mem_EnsureAndTryConsume [OF 2(1-6) 2(7) [unfolded mem_quotas_sel]] show ?case by simp
next
  case 3
  from mem_ReleaseQuota [OF 3(1-4) 3(5) [unfolded mem_quotas_sel]] show ?case by simp
qed

subsection \<open>Products, transactions, locks\<close>

interpretation mem_product: product_port mem_products mem_view mem_inv
proof (unfold_locales, goal_cases)
  case (1 s r s')
  then have "any_order (mm_order s)" by (simp add: mem_inv_def)
  with 1 show ?case by (auto simp: mem_products_def Products_List_def)
next
  case (2 s c r s')
  then have "keyed pd_Code (mm_products s)" by (simp add: mem_inv_def)
  from keyed_map_of [OF this] 2 show ?case by (auto simp: mem_products_def Products_GetByCode_def)
qed

interpretation mem_runner: tx_port mem_tx mem_view mem_inv
  by unfold_locales (auto simp: mem_tx_def)

interpretation mem_lock: lock_port mem_Locker mem_view mem_inv
  by unfold_locales (auto simp: mem_Locker_def)

interpretation mem_no_lock: lock_port LockerThatFails mem_view mem_inv
  by unfold_locales (auto simp: LockerThatFails_def)

end
