(* ===== verification/Repository_Calls.thy ===== *)
theory Repository_Calls
  imports Pg_Request_Laws Ledger
begin

text \<open>
  Sequences of calls on the repositories, as the service issues them, and what the abstract store
  answers. A \<open>backend\<close> is a set of repositories that keeps the promises of all four interfaces; every
  call it answers has the answer and the effect of the abstract store. Answers leave out what only the
  server stamps, and the order of lists that are not ordered by what they hold.
\<close>

subsection \<open>Calls and answers\<close>

datatype repo_call =
    ListPools | GetByKind string | TryReserve uuid int | ReleaseReserved uuid int | MoveReservedToDedicated uuid int
  | ListQuotas string | EnsureAndTryConsume string string int int | ReleaseQuota string string int
  | ListCatalog | GetByCode string
  | FindByIdempotency string string | GetRequestRow uuid | ListByCustomer string "string option"
  | CreateReserved capacity_request "request_line list" "hold list" request_event
  | CreateRejected capacity_request "request_line list" request_event
  | ConfirmRow uuid "dedication list" request_event | MarkCancelled uuid request_event | MarkExpired uuid request_event
  | ExtendRow uuid time int request_event | ListExpiredIDs time nat | ListEvents uuid | ListLines uuid
  | ListActiveHolds uuid | UpdateHoldStatus uuid hold_status hold_status | CountActiveHolds string

datatype answer =
    Finished | Flag bool | Number int | Pools "resource_pool multiset" | Pool "resource_pool option"
  | Quotas "customer_quota multiset" | Products "product multiset" | Product "product option"
  | Request "capacity_request option" | Requests "capacity_request multiset" | Ids "uuid multiset"
  | Events "request_event multiset" | Lines "request_line list" | Holds "hold multiset"

definition answering :: "('a \<Rightarrow> answer) \<Rightarrow> ('r, 'a) gor \<Rightarrow> ('r, answer) gor" where
  "answering f m = andThen m (\<lambda>a. ret (f a))"

lemma answering_iff: "answering f m s = (Inr b, s') \<longleftrightarrow> (\<exists>a. m s = (Inr a, s') \<and> b = f a)"
  by (auto simp: answering_def andThen_Inr_iff)

fun run_call :: "'r pool_repository \<Rightarrow> 'r quota_repository \<Rightarrow> 'r product_repository \<Rightarrow> 'r request_repository \<Rightarrow>
    repo_call \<Rightarrow> ('r, answer) gor" where
  "run_call P Q D R ListPools = answering (\<lambda>ps. Pools (mset (map unstamp_pool ps))) (pr_List P)"
| "run_call P Q D R (GetByKind k) = answering (\<lambda>p. Pool (map_option unstamp_pool p)) (pr_GetByKind P k)"
| "run_call P Q D R (TryReserve i n) = answering Flag (pr_TryReserve P i n)"
| "run_call P Q D R (ReleaseReserved i n) = answering (\<lambda>_. Finished) (pr_ReleaseReserved P i n)"
| "run_call P Q D R (MoveReservedToDedicated i n) = answering (\<lambda>_. Finished) (pr_MoveReservedToDedicated P i n)"
| "run_call P Q D R (ListQuotas c) = answering (\<lambda>qs. Quotas (mset (map unstamp_quota qs))) (qr_ListByCustomer Q c)"
| "run_call P Q D R (EnsureAndTryConsume c k n l) = answering Flag (qr_EnsureAndTryConsume Q c k n l)"
| "run_call P Q D R (ReleaseQuota c k n) = answering (\<lambda>_. Finished) (qr_Release Q c k n)"
| "run_call P Q D R ListCatalog = answering (\<lambda>ps. Products (mset ps)) (pd_List D)"
| "run_call P Q D R (GetByCode c) = answering Product (pd_GetByCode D c)"
| "run_call P Q D R (FindByIdempotency c k) =
     answering (\<lambda>q. Request (map_option unstamp_request q)) (rr_FindByIdempotency R c k)"
| "run_call P Q D R (GetRequestRow i) = answering (\<lambda>q. Request (map_option unstamp_request q)) (rr_Get R i)"
| "run_call P Q D R (ListByCustomer c st) =
     answering (\<lambda>rs. Requests (mset (map unstamp_request rs))) (rr_ListByCustomer R c st)"
| "run_call P Q D R (CreateReserved req ls hs ev) = answering (\<lambda>_. Finished) (rr_CreateReserved R req ls hs ev)"
| "run_call P Q D R (CreateRejected req ls ev) = answering (\<lambda>_. Finished) (rr_CreateRejected R req ls ev)"
| "run_call P Q D R (ConfirmRow i ds ev) = answering Flag (rr_Confirm R i ds ev)"
| "run_call P Q D R (MarkCancelled i ev) = answering Flag (rr_MarkCancelled R i ev)"
| "run_call P Q D R (MarkExpired i ev) = answering Flag (rr_MarkExpired R i ev)"
| "run_call P Q D R (ExtendRow i e n ev) = answering Flag (rr_Extend R i e n ev)"
| "run_call P Q D R (ListExpiredIDs now lim) = answering (\<lambda>is. Ids (mset is)) (rr_ListExpiredIDs R now lim)"
| "run_call P Q D R (ListEvents i) = answering (\<lambda>es. Events (mset es)) (rr_ListEvents R i)"
| "run_call P Q D R (ListLines i) = answering Lines (rr_ListLines R i)"
| "run_call P Q D R (ListActiveHolds i) = answering (\<lambda>hs. Holds (mset (map unstamp_hold hs))) (rr_ListActiveHolds R i)"
| "run_call P Q D R (UpdateHoldStatus i a b) = answering Flag (rr_UpdateHoldStatus R i a b)"
| "run_call P Q D R (CountActiveHolds c) = answering Number (rr_CountActiveHoldsByCustomer R c)"

fun run_calls :: "(repo_call \<Rightarrow> ('r, answer) gor) \<Rightarrow> repo_call list \<Rightarrow> ('r, answer list) gor" where
  "run_calls run [] = ret []"
| "run_calls run (c # cs) = andThen (run c) (\<lambda>a. andThen (run_calls run cs) (\<lambda>as. ret (a # as)))"

subsection \<open>The abstract store\<close>

text \<open>What a call answers and leaves behind; \<open>None\<close> for a create that finds the key or the id taken.\<close>

fun spec_call :: "repo_call \<Rightarrow> tables \<Rightarrow> (answer \<times> tables) option" where
  "spec_call ListPools t = Some (Pools (mset (t_pools t)), t)"
| "spec_call (GetByKind k) t = Some (Pool (find (\<lambda>p. rp_Kind p = k) (t_pools t)), t)"
| "spec_call (TryReserve i n) t = Some (Flag (admits i n t), if admits i n t then spec_reserve i n t else t)"
| "spec_call (ReleaseReserved i n) t = Some (Finished, spec_release i n t)"
| "spec_call (MoveReservedToDedicated i n) t = Some (Finished, spec_dedicate i n t)"
| "spec_call (ListQuotas c) t = Some (Quotas (mset (filter (\<lambda>q. cq_CustomerID q = c) (t_quotas t))), t)"
| "spec_call (EnsureAndTryConsume c k n l) t =
     (let u = spec_ensure c k l t in
      Some (Flag (quota_admits c k n u), if quota_admits c k n u then spec_consume c k n u else u))"
| "spec_call (ReleaseQuota c k n) t = Some (Finished, spec_unconsume c k n t)"
| "spec_call ListCatalog t = Some (Products (mset (t_products t)), t)"
| "spec_call (GetByCode c) t = Some (Product (find (\<lambda>p. pd_Code p = c) (t_products t)), t)"
| "spec_call (FindByIdempotency c k) t = Some (Request (find_idem c k t), t)"
| "spec_call (GetRequestRow i) t = Some (Request (find_request i t), t)"
| "spec_call (ListByCustomer c st) t = Some (Requests (mset (filter (\<lambda>r. cr_CustomerID r = c \<and>
     (case st of None \<Rightarrow> True | Some x \<Rightarrow> status_string (cr_Status r) = x)) (t_requests t))), t)"
| "spec_call (CreateReserved req ls hs ev) t =
     (if find_idem (cr_CustomerID req) (cr_IdempotencyKey req) t \<noteq> None \<or> find_request (cr_ID req) t \<noteq> None then None
      else Some (Finished, spec_insert_reserved req ls hs ev t))"
| "spec_call (CreateRejected req ls ev) t =
     (if find_idem (cr_CustomerID req) (cr_IdempotencyKey req) t \<noteq> None \<or> find_request (cr_ID req) t \<noteq> None then None
      else Some (Finished, spec_insert_rejected req ls ev t))"
| "spec_call (ConfirmRow i ds ev) t = Some (Flag (is_reserved i t), spec_finish i StatusCompleted ds ev t)"
| "spec_call (MarkCancelled i ev) t = Some (Flag (is_reserved i t), spec_finish i StatusCancelled [] ev t)"
| "spec_call (MarkExpired i ev) t = Some (Flag (is_reserved i t), spec_finish i StatusExpired [] ev t)"
| "spec_call (ExtendRow i e n ev) t = Some (Flag (is_reserved i t), spec_extend i e n ev t)"
| "spec_call (ListExpiredIDs now lim) t = Some (Ids (mset (map cr_ID (filter (is_due now) (t_requests t)))), t)"
| "spec_call (ListEvents i) t = Some (Events (mset (events_of i t)), t)"
| "spec_call (ListLines i) t = Some (Lines (lines_of i t), t)"
| "spec_call (ListActiveHolds i) t = Some (Holds (mset (active_holds i t)), t)"
| "spec_call (UpdateHoldStatus i a b) t =
     Some (Flag (list_ex (\<lambda>h. hd_ID h = i \<and> hd_Status h = a) (t_holds t)), spec_hold i a b t)"
| "spec_call (CountActiveHolds c) t = Some (Number (int (count_reserved c t)), t)"

text \<open>
  What the service sees to before it calls: amounts within the bounds it validates, pools that exist,
  rows that belong to the request they are written with. A batch of expired requests is compared where
  it takes in all that are due.
\<close>

definition amount_ok :: "int \<Rightarrow> bool" where
  "amount_ok n \<longleftrightarrow> 0 < n \<and> n \<le> maxAmount"

fun sensible :: "repo_call \<Rightarrow> tables \<Rightarrow> bool" where
  "sensible (TryReserve i n) t \<longleftrightarrow> amount_ok n \<and> i \<in> pool_ids t"
| "sensible (ReleaseReserved i n) t \<longleftrightarrow> amount_ok n \<and> i \<in> pool_ids t"
| "sensible (MoveReservedToDedicated i n) t \<longleftrightarrow> amount_ok n \<and> i \<in> pool_ids t"
| "sensible (EnsureAndTryConsume c k n l) t \<longleftrightarrow> amount_ok n \<and> 0 \<le> l \<and> l \<le> maxAmount"
| "sensible (ReleaseQuota c k n) t \<longleftrightarrow> amount_ok n"
| "sensible (FindByIdempotency c k) t \<longleftrightarrow> CHR 0x3A \<notin> set c"
| "sensible (CreateReserved req ls hs ev) t \<longleftrightarrow> cr_RejectReason req = None \<and> CHR 0x3A \<notin> set (cr_CustomerID req) \<and>
     list_all (\<lambda>l. ln_RequestID l = cr_ID req) ls \<and> list_all (\<lambda>h. hd_RequestID h = cr_ID req) hs \<and>
     ev_RequestID ev = cr_ID req"
| "sensible (CreateRejected req ls ev) t \<longleftrightarrow> cr_ExpiresAt req = None \<and> CHR 0x3A \<notin> set (cr_CustomerID req) \<and>
     list_all (\<lambda>l. ln_RequestID l = cr_ID req) ls \<and> ev_RequestID ev = cr_ID req"
| "sensible (ConfirmRow i ds ev) t \<longleftrightarrow> list_all (\<lambda>d. dd_RequestID d = i) ds \<and> ev_RequestID ev = i"
| "sensible (MarkCancelled i ev) t \<longleftrightarrow> ev_RequestID ev = i"
| "sensible (MarkExpired i ev) t \<longleftrightarrow> ev_RequestID ev = i"
| "sensible (ExtendRow i e n ev) t \<longleftrightarrow> ev_RequestID ev = i"
| "sensible (ListExpiredIDs now lim) t \<longleftrightarrow> length (filter (is_due now) (t_requests t)) < lim"
| "sensible _ t \<longleftrightarrow> True"

fun sensible_run :: "repo_call list \<Rightarrow> tables \<Rightarrow> bool" where
  "sensible_run [] t \<longleftrightarrow> True"
| "sensible_run (c # cs) t \<longleftrightarrow> sensible c t \<and>
     (case spec_call c t of None \<Rightarrow> True | Some (a, u) \<Rightarrow> sensible_run cs u)"

text \<open>A run of the abstract store.\<close>

fun spec_calls :: "repo_call list \<Rightarrow> tables \<Rightarrow> (answer list \<times> tables) option" where
  "spec_calls [] t = Some ([], t)"
| "spec_calls (c # cs) t =
     (case spec_call c t of None \<Rightarrow> None
      | Some (a, u) \<Rightarrow> (case spec_calls cs u of None \<Rightarrow> None | Some (as, v) \<Rightarrow> Some (a # as, v)))"

datatype call_group = PoolPort | QuotaPort | ProductPort | RequestReads | RequestWrites

fun group_of :: "repo_call \<Rightarrow> call_group" where
  "group_of ListPools = PoolPort"
| "group_of (GetByKind _) = PoolPort"
| "group_of (TryReserve _ _) = PoolPort"
| "group_of (ReleaseReserved _ _) = PoolPort"
| "group_of (MoveReservedToDedicated _ _) = PoolPort"
| "group_of (ListQuotas _) = QuotaPort"
| "group_of (EnsureAndTryConsume _ _ _ _) = QuotaPort"
| "group_of (ReleaseQuota _ _ _) = QuotaPort"
| "group_of ListCatalog = ProductPort"
| "group_of (GetByCode _) = ProductPort"
| "group_of (FindByIdempotency _ _) = RequestReads"
| "group_of (GetRequestRow _) = RequestReads"
| "group_of (ListByCustomer _ _) = RequestReads"
| "group_of (ListExpiredIDs _ _) = RequestReads"
| "group_of (ListEvents _) = RequestReads"
| "group_of (ListLines _) = RequestReads"
| "group_of (ListActiveHolds _) = RequestReads"
| "group_of (CountActiveHolds _) = RequestReads"
| "group_of (CreateReserved _ _ _ _) = RequestWrites"
| "group_of (CreateRejected _ _ _) = RequestWrites"
| "group_of (ConfirmRow _ _ _) = RequestWrites"
| "group_of (MarkCancelled _ _) = RequestWrites"
| "group_of (MarkExpired _ _) = RequestWrites"
| "group_of (ExtendRow _ _ _ _) = RequestWrites"
| "group_of (UpdateHoldStatus _ _ _) = RequestWrites"

definition counters_ok :: "tables \<Rightarrow> bool" where
  "counters_ok t \<longleftrightarrow> pools_ok t \<and> quotas_ok t"

lemma counters_ok_same [simp]:
  "counters_ok (t\<lparr>t_requests := rs\<rparr>) = counters_ok t" "counters_ok (t\<lparr>t_lines := ls\<rparr>) = counters_ok t"
  "counters_ok (t\<lparr>t_holds := hs\<rparr>) = counters_ok t" "counters_ok (t\<lparr>t_dedications := ds\<rparr>) = counters_ok t"
  "counters_ok (t\<lparr>t_events := es\<rparr>) = counters_ok t"
  by (simp_all add: counters_ok_def pools_ok_def quotas_ok_def)

lemma quotas_ok_pools [simp]:
  "quotas_ok (spec_reserve i n t) = quotas_ok t" "quotas_ok (spec_release i n t) = quotas_ok t"
  "quotas_ok (spec_dedicate i n t) = quotas_ok t"
  by (simp_all add: spec_reserve_def spec_release_def spec_dedicate_def quotas_ok_def)

lemma pools_ok_quotas [simp]:
  "pools_ok (spec_ensure c k l t) = pools_ok t" "pools_ok (spec_consume c k n t) = pools_ok t"
  "pools_ok (spec_unconsume c k n t) = pools_ok t"
  by (simp_all add: spec_ensure_def spec_consume_def spec_unconsume_def pools_ok_def)

lemma counters_kept:
  assumes "counters_ok t" and "sensible c t" and "spec_call c t = Some (a, u)"
  shows "counters_ok u"
  using assms
proof (cases c)
  case (TryReserve i n)
  with assms show ?thesis using pools_ok_reserve [of t i n] by (auto simp: counters_ok_def amount_ok_def)
next
  case (ReleaseReserved i n)
  with assms show ?thesis using pools_ok_release [of t n i] by (auto simp: counters_ok_def amount_ok_def)
next
  case (MoveReservedToDedicated i n)
  with assms show ?thesis using pools_ok_release [of t n i] by (auto simp: counters_ok_def amount_ok_def)
next
  case (EnsureAndTryConsume cu k n l)
  with assms have e: "quotas_ok (spec_ensure cu k l t)" by (intro quotas_ok_ensure) (simp_all add: counters_ok_def)
  with assms EnsureAndTryConsume show ?thesis
    using quotas_ok_consume [OF e, of cu k n] by (auto simp: counters_ok_def amount_ok_def Let_def)
next
  case (ReleaseQuota cu k n)
  with assms show ?thesis using quotas_ok_unconsume [of t n cu k] by (auto simp: counters_ok_def amount_ok_def)
qed (auto simp: spec_insert_reserved_def spec_insert_rejected_def spec_finish_def spec_extend_def spec_hold_def split: if_splits)

subsection \<open>Backends\<close>

locale backend = pool_port P view inv + quota_port Q view inv + product_port D view inv + request_port R view inv
  for P :: "'r pool_repository" and Q :: "'r quota_repository" and D :: "'r product_repository"
    and R :: "'r request_repository" and view :: "'r \<Rightarrow> tables" and inv :: "'r \<Rightarrow> bool"
begin

abbreviation "run \<equiv> run_call P Q D R"

lemma id_unused:
  assumes "inv s'" and "t_requests (view s') = t_requests (view s) @ [unstamp_request req]"
  shows "find_request (cr_ID req) (view s) = None"
proof -
  have "distinct (map cr_ID (t_requests (view s')))" using keys_unique [OF assms(1)] by (simp add: requests_distinct_def)
  with assms(2) show ?thesis by (auto simp: find_request_def find_None_iff image_iff)
qed

lemma due_all:
  assumes "length is \<le> lim" and "mset is \<subseteq># mset xs" and "length is < lim \<longrightarrow> mset is = mset xs" and "length xs < lim"
  shows "mset is = mset xs"
proof -
  have "length is \<le> length xs" using size_mset_mono [OF assms(2)] by simp
  with assms show ?thesis by simp
qed

text \<open>Every answered call is a call on the abstract store: one lemma for each group of methods.\<close>

lemma pools_refine:
  assumes i: "inv s" and ok: "counters_ok (view s)" and c: "sensible c (view s)" and run: "run c s = (Inr a, s')"
    and port: "group_of c = PoolPort"
  shows "inv s' \<and> spec_call c (view s) = Some (a, view s')"
proof (cases c)
  case ListPools
  with run obtain ps where "pr_List P s = (Inr ps, s')" "a = Pools (mset (map unstamp_pool ps))"
    by (auto simp: answering_iff)
  with list_pools [OF i] ListPools show ?thesis by fastforce
next
  case (GetByKind k)
  with run obtain p where "pr_GetByKind P k s = (Inr p, s')" "a = Pool (map_option unstamp_pool p)"
    by (auto simp: answering_iff)
  with get_by_kind [OF i] GetByKind show ?thesis by fastforce
next
  case (TryReserve p n)
  with run obtain b where r: "pr_TryReserve P p n s = (Inr b, s')" "a = Flag b" by (auto simp: answering_iff)
  from c ok TryReserve have "pools_ok (view s)" "0 < n" "n \<le> maxAmount" "p \<in> pool_ids (view s)"
    by (simp_all add: counters_ok_def amount_ok_def)
  from try_reserve [OF i this r(1)] r(2) TryReserve show ?thesis by auto
next
  case (ReleaseReserved p n)
  with run have r: "pr_ReleaseReserved P p n s = (Inr (), s')" "a = Finished" by (auto simp: answering_iff)
  from c ok ReleaseReserved have "pools_ok (view s)" "0 < n" "n \<le> maxAmount" "p \<in> pool_ids (view s)"
    by (simp_all add: counters_ok_def amount_ok_def)
  from release_reserved [OF i this r(1)] r(2) ReleaseReserved show ?thesis by simp
next
  case (MoveReservedToDedicated p n)
  with run have r: "pr_MoveReservedToDedicated P p n s = (Inr (), s')" "a = Finished" by (auto simp: answering_iff)
  from c ok MoveReservedToDedicated have "pools_ok (view s)" "0 < n" "n \<le> maxAmount" "p \<in> pool_ids (view s)"
    by (simp_all add: counters_ok_def amount_ok_def)
  from move_reserved [OF i this r(1)] r(2) MoveReservedToDedicated show ?thesis by simp
qed (use port in simp_all)

lemma quotas_refine:
  assumes i: "inv s" and ok: "counters_ok (view s)" and c: "sensible c (view s)" and run: "run c s = (Inr a, s')"
    and port: "group_of c = QuotaPort"
  shows "inv s' \<and> spec_call c (view s) = Some (a, view s')"
proof (cases c)
  case (ListQuotas cu)
  with run obtain qs where "qr_ListByCustomer Q cu s = (Inr qs, s')" "a = Quotas (mset (map unstamp_quota qs))"
    by (auto simp: answering_iff)
  with list_quotas [OF i] ListQuotas show ?thesis by fastforce
next
  case (EnsureAndTryConsume cu k n l)
  with run obtain b where r: "qr_EnsureAndTryConsume Q cu k n l s = (Inr b, s')" "a = Flag b" by (auto simp: answering_iff)
  from c ok EnsureAndTryConsume have "quotas_ok (view s)" "0 < n" "n \<le> maxAmount" "0 \<le> l" "l \<le> maxAmount"
    by (simp_all add: counters_ok_def amount_ok_def)
  from ensure_and_try_consume [OF i this r(1)] r(2) EnsureAndTryConsume show ?thesis by (simp add: Let_def)
next
  case (ReleaseQuota cu k n)
  with run have r: "qr_Release Q cu k n s = (Inr (), s')" "a = Finished" by (auto simp: answering_iff)
  from c ok ReleaseQuota have "quotas_ok (view s)" "0 < n" "n \<le> maxAmount" by (simp_all add: counters_ok_def amount_ok_def)
  from release_quota [OF i this r(1)] r(2) ReleaseQuota show ?thesis by simp
qed (use port in simp_all)

lemma products_refine:
  assumes i: "inv s" and ok: "counters_ok (view s)" and c: "sensible c (view s)" and run: "run c s = (Inr a, s')"
    and port: "group_of c = ProductPort"
  shows "inv s' \<and> spec_call c (view s) = Some (a, view s')"
proof (cases c)
  case ListCatalog
  with run obtain ps where "pd_List D s = (Inr ps, s')" "a = Products (mset ps)" by (auto simp: answering_iff)
  with list_products [OF i] ListCatalog show ?thesis by fastforce
next
  case (GetByCode co)
  with run obtain p where "pd_GetByCode D co s = (Inr p, s')" "a = Product p" by (auto simp: answering_iff)
  with get_by_code [OF i] GetByCode show ?thesis by fastforce
qed (use port in simp_all)

lemma reads_refine:
  assumes i: "inv s" and ok: "counters_ok (view s)" and c: "sensible c (view s)" and run: "run c s = (Inr a, s')"
    and port: "group_of c = RequestReads"
  shows "inv s' \<and> spec_call c (view s) = Some (a, view s')"
proof (cases c)
  case (FindByIdempotency cu k)
  with run obtain q where "rr_FindByIdempotency R cu k s = (Inr q, s')" "a = Request (map_option unstamp_request q)"
    by (auto simp: answering_iff)
  with find_by_idempotency [OF i] FindByIdempotency show ?thesis by fastforce
next
  case (GetRequestRow j)
  with run obtain q where "rr_Get R j s = (Inr q, s')" "a = Request (map_option unstamp_request q)"
    by (auto simp: answering_iff)
  with get_request [OF i] GetRequestRow show ?thesis by fastforce
next
  case (ListByCustomer cu st)
  with run obtain rs where r: "rr_ListByCustomer R cu st s = (Inr rs, s')" "a = Requests (mset (map unstamp_request rs))"
    by (auto simp: answering_iff)
  from list_by_customer [OF i r(1)] r(2) ListByCustomer show ?thesis by simp
next
  case (ListExpiredIDs now lim)
  with run obtain "is" where r: "rr_ListExpiredIDs R now lim s = (Inr is, s')" "a = Ids (mset is)" by (auto simp: answering_iff)
  let ?due = "map cr_ID (filter (is_due now) (t_requests (view s)))"
  from list_expired [OF i r(1)] have l: "inv s'" "view s' = view s" "length is \<le> lim" "mset is \<subseteq># mset ?due"
    "length is < lim \<longrightarrow> mset is = mset ?due" by simp_all
  have "mset is = mset ?due" using c ListExpiredIDs by (intro due_all [OF l(3-5)]) simp
  with l r(2) ListExpiredIDs show ?thesis by simp
next
  case (ListEvents j)
  with run obtain es where "rr_ListEvents R j s = (Inr es, s')" "a = Events (mset es)" by (auto simp: answering_iff)
  with list_events [OF i] ListEvents show ?thesis by fastforce
next
  case (ListLines j)
  with run obtain ls where "rr_ListLines R j s = (Inr ls, s')" "a = Lines ls" by (auto simp: answering_iff)
  with list_lines [OF i] ListLines show ?thesis by fastforce
next
  case (ListActiveHolds j)
  with run obtain hs where "rr_ListActiveHolds R j s = (Inr hs, s')" "a = Holds (mset (map unstamp_hold hs))"
    by (auto simp: answering_iff)
  with list_active_holds [OF i] ListActiveHolds show ?thesis by fastforce
next
  case (CountActiveHolds cu)
  with run obtain n where r: "rr_CountActiveHoldsByCustomer R cu s = (Inr n, s')" "a = Number n" by (auto simp: answering_iff)
  from count_active [OF i r(1)] r(2) CountActiveHolds show ?thesis by simp
qed (use port in simp_all)

lemma writes_refine:
  assumes i: "inv s" and ok: "counters_ok (view s)" and c: "sensible c (view s)" and run: "run c s = (Inr a, s')"
    and port: "group_of c = RequestWrites"
  shows "inv s' \<and> spec_call c (view s) = Some (a, view s')"
proof (cases c)
  case (CreateReserved req ls hs ev)
  with run have r: "rr_CreateReserved R req ls hs ev s = (Inr (), s')" "a = Finished" by (auto simp: answering_iff)
  from c CreateReserved have "cr_RejectReason req = None" by simp
  from create_reserved [OF i this r(1)]
  have l: "inv s'" "find_idem (cr_CustomerID req) (cr_IdempotencyKey req) (view s) = None"
    "view s' = spec_insert_reserved req ls hs ev (view s)" by simp_all
  from id_unused [OF l(1), of s req] l(3) have "find_request (cr_ID req) (view s) = None"
    by (simp add: spec_insert_reserved_def)
  with l r(2) CreateReserved show ?thesis by simp
next
  case (CreateRejected req ls ev)
  with run have r: "rr_CreateRejected R req ls ev s = (Inr (), s')" "a = Finished" by (auto simp: answering_iff)
  from c CreateRejected have "cr_ExpiresAt req = None" by simp
  from create_rejected [OF i this r(1)]
  have l: "inv s'" "find_idem (cr_CustomerID req) (cr_IdempotencyKey req) (view s) = None"
    "view s' = spec_insert_rejected req ls ev (view s)" by simp_all
  from id_unused [OF l(1), of s req] l(3) have "find_request (cr_ID req) (view s) = None"
    by (simp add: spec_insert_rejected_def)
  with l r(2) CreateRejected show ?thesis by simp
next
  case (ConfirmRow j ds ev)
  with run obtain b where r: "rr_Confirm R j ds ev s = (Inr b, s')" "a = Flag b" by (auto simp: answering_iff)
  from confirm [OF i r(1)] r(2) ConfirmRow show ?thesis by simp
next
  case (MarkCancelled j ev)
  with run obtain b where r: "rr_MarkCancelled R j ev s = (Inr b, s')" "a = Flag b" by (auto simp: answering_iff)
  from mark_cancelled [OF i r(1)] r(2) MarkCancelled show ?thesis by simp
next
  case (MarkExpired j ev)
  with run obtain b where r: "rr_MarkExpired R j ev s = (Inr b, s')" "a = Flag b" by (auto simp: answering_iff)
  from mark_expired [OF i r(1)] r(2) MarkExpired show ?thesis by simp
next
  case (ExtendRow j e n ev)
  with run obtain b where r: "rr_Extend R j e n ev s = (Inr b, s')" "a = Flag b" by (auto simp: answering_iff)
  from extend [OF i r(1)] r(2) ExtendRow show ?thesis by simp
next
  case (UpdateHoldStatus j x y)
  with run obtain b where r: "rr_UpdateHoldStatus R j x y s = (Inr b, s')" "a = Flag b" by (auto simp: answering_iff)
  from keys_unique [OF i] have "holds_distinct (view s)" by simp
  from update_hold_status [OF i this r(1)] r(2) UpdateHoldStatus show ?thesis by simp
qed (use port in simp_all)

lemma call_refines:
  assumes "inv s" and "counters_ok (view s)" and "sensible c (view s)" and "run c s = (Inr a, s')"
  shows "inv s' \<and> spec_call c (view s) = Some (a, view s')"
  using pools_refine [OF assms] quotas_refine [OF assms] products_refine [OF assms] reads_refine [OF assms]
    writes_refine [OF assms]
  by (cases "group_of c") auto

lemma calls_refine:
  assumes "inv s" and "counters_ok (view s)" and "sensible_run cs (view s)" and "run_calls run cs s = (Inr as, s')"
  shows "inv s' \<and> spec_calls cs (view s) = Some (as, view s')"
  using assms
proof (induction cs arbitrary: s as)
  case (Cons c cs)
  from Cons.prems(4) obtain a s1 bs where r: "run c s = (Inr a, s1)" "run_calls run cs s1 = (Inr bs, s')" "as = a # bs"
    by (auto simp: andThen_Inr_iff)
  from Cons.prems(3) have c: "sensible c (view s)" by simp
  from call_refines [OF Cons.prems(1,2) c r(1)] have 1: "inv s1" "spec_call c (view s) = Some (a, view s1)" by simp_all
  from counters_kept [OF Cons.prems(2) c 1(2)] Cons.prems(3) 1(2)
  have "counters_ok (view s1)" "sensible_run cs (view s1)" by simp_all
  from Cons.IH [OF 1(1) this r(2)] 1(2) r(3) show ?case by simp
qed simp

end

interpretation pg_backend: backend pg_pools pg_quotas pg_products pg_requests pg_view pg_inv
  by unfold_locales

end
