(* ===== verification/Memory_Agreement.thy ===== *)
theory Memory_Agreement
  imports Memory_Laws Repository_Calls
begin

text \<open>
  The fakes answer as the database does. \<open>agrees\<close> relates a state of the fakes to an abstract store:
  the rows are the same, and the slices filed under a request are the rows of the store that belong to
  it. Every call that the abstract store answers is answered alike by the fakes, and the relation is kept.
  The index of the idempotency keys joins customer and key with a colon, so the relation asks that no
  customer id has one.
\<close>

subsection \<open>The relation\<close>

definition index_of :: "capacity_request list \<Rightarrow> (string \<times> uuid) list" where
  "index_of rs = map (\<lambda>r. (idemIndexKey (cr_CustomerID r) (cr_IdempotencyKey r), cr_ID r)) rs"

definition rows_agree :: "mem_state \<Rightarrow> tables \<Rightarrow> bool" where
  "rows_agree m t \<longleftrightarrow> t_pools (mem_view m) = t_pools t \<and> t_products (mem_view m) = t_products t \<and>
     t_quotas (mem_view m) = t_quotas t \<and> t_requests (mem_view m) = t_requests t"

definition logs_agree :: "mem_state \<Rightarrow> tables \<Rightarrow> bool" where
  "logs_agree m t \<longleftrightarrow> mm_idemIndex m = index_of (t_requests t) \<and>
     (\<forall>r \<in> set (t_requests t). colon_free (cr_CustomerID r)) \<and>
     (\<forall>i. slice_at i (mm_lines m) = lines_of i t) \<and>
     (\<forall>i. map unstamp_hold (slice_at i (mm_holds m)) = filter (\<lambda>h. hd_RequestID h = i) (t_holds t)) \<and>
     (\<forall>i. slice_at i (mm_dedications m) = filter (\<lambda>d. dd_RequestID d = i) (t_dedications t)) \<and>
     (\<forall>i. slice_at i (mm_events m) = events_of i t)"

definition agrees :: "mem_state \<Rightarrow> tables \<Rightarrow> bool" where
  "agrees m t \<longleftrightarrow> mem_inv m \<and> rows_agree m t \<and> logs_agree m t"

definition keys_ok :: "tables \<Rightarrow> bool" where
  "keys_ok t \<longleftrightarrow> requests_distinct t \<and> holds_distinct t"

abbreviation "mem_call \<equiv> run_call mem_pools mem_quotas mem_products mem_requests"

subsection \<open>Slices\<close>

lemma slice_append [simp]: "slice_at j (append_at i xs m) = (if j = i then slice_at i m @ xs else slice_at j m)"
  by (simp add: slice_at_def append_at_def update_conv')

lemma distinct_append_at: "distinct (map fst m) \<Longrightarrow> distinct (map fst (append_at i xs m))"
  by (simp add: append_at_def distinct_update)

lemma slice_entry:
  assumes "map_of m i = Some ys"
  shows "slice_at j (AList.map_entry i f m) = (if j = i then f ys else slice_at j m)"
proof (cases "j = i")
  case True
  with assms show ?thesis by (simp add: slice_at_def map_of_map_entry)
next
  case False
  then show ?thesis by (simp add: slice_at_def map_of_map_entry fun_upd_def split: option.split)
qed

subsection \<open>Pools, quotas, products\<close>

text \<open>These calls leave the maps of the requests alone.\<close>

definition request_maps where
  "request_maps m = (mm_idemIndex m, mm_lines m, mm_holds m, mm_dedications m, mm_events m)"

lemma logs_agree_cong:
  "request_maps m' = request_maps m \<Longrightarrow> t_requests u = t_requests t \<Longrightarrow> t_lines u = t_lines t \<Longrightarrow>
   t_holds u = t_holds t \<Longrightarrow> t_dedications u = t_dedications t \<Longrightarrow> t_events u = t_events t \<Longrightarrow>
   logs_agree m' u = logs_agree m t"
  by (simp add: logs_agree_def request_maps_def lines_of_def events_of_def)

lemma pool_frame:
  "Pools_TryReserve i n s = (r2, s') \<Longrightarrow> request_maps s' = request_maps s"
  "Pools_ReleaseReserved i n s = (r3, s') \<Longrightarrow> request_maps s' = request_maps s"
  "Pools_MoveReservedToDedicated i n s = (r3, s') \<Longrightarrow> request_maps s' = request_maps s"
  by (auto simp: Pools_TryReserve_def Pools_ReleaseReserved_def Pools_MoveReservedToDedicated_def Let_def
      andThen_def updating_def ret_def fail_def write_pool_def request_maps_def split: option.splits if_splits)

lemma quota_frame:
  "Quotas_TryConsume c k n s = (r2, s') \<Longrightarrow> request_maps s' = request_maps s"
  "ensure_quota c k l s = (r3, s') \<Longrightarrow> request_maps s' = request_maps s"
  "Quotas_Release c k n s = (r3, s') \<Longrightarrow> request_maps s' = request_maps s"
  by (auto simp: Quotas_TryConsume_def Quotas_Release_def ensure_quota_def andThen_def updating_def ret_def
      write_quota_def request_maps_def split: option.splits if_splits)

lemma consume_frame: "Quotas_EnsureAndTryConsume c k n l s = (r2, s') \<Longrightarrow> request_maps s' = request_maps s"
  unfolding Quotas_EnsureAndTryConsume_def
  by (elim andThen_split) (metis quota_frame)+

text \<open>What the pools and quotas of the store depend on.\<close>

lemma pools_only:
  assumes "t_pools v = t_pools t"
  shows "pools_ok v = pools_ok t" "admits i n v = admits i n t" "pool_ids v = pool_ids t"
    "t_pools (spec_reserve i n v) = t_pools (spec_reserve i n t)"
    "t_pools (spec_release i n v) = t_pools (spec_release i n t)"
    "t_pools (spec_dedicate i n v) = t_pools (spec_dedicate i n t)"
  using assms by (simp_all add: pools_ok_def admits_def pool_ids_def spec_reserve_def spec_release_def
      spec_dedicate_def reserves_at_least_def)

lemma quotas_only:
  assumes "t_quotas v = t_quotas t"
  shows "quotas_ok v = quotas_ok t" "quota_admits c k n v = quota_admits c k n t"
    "t_quotas (spec_ensure c k l v) = t_quotas (spec_ensure c k l t)"
    "t_quotas (spec_consume c k n v) = t_quotas (spec_consume c k n t)"
    "t_quotas (spec_unconsume c k n v) = t_quotas (spec_unconsume c k n t)"
  using assms by (simp_all add: quotas_ok_def quota_admits_def spec_ensure_def spec_consume_def spec_unconsume_def)

lemma pool_specs_sel [simp]:
  "t_products (spec_reserve i n t) = t_products t" "t_products (spec_release i n t) = t_products t"
  "t_products (spec_dedicate i n t) = t_products t" "t_quotas (spec_reserve i n t) = t_quotas t"
  "t_quotas (spec_release i n t) = t_quotas t" "t_quotas (spec_dedicate i n t) = t_quotas t"
  "t_requests (spec_reserve i n t) = t_requests t" "t_requests (spec_release i n t) = t_requests t"
  "t_requests (spec_dedicate i n t) = t_requests t" "t_lines (spec_reserve i n t) = t_lines t"
  "t_lines (spec_release i n t) = t_lines t" "t_lines (spec_dedicate i n t) = t_lines t"
  "t_holds (spec_reserve i n t) = t_holds t" "t_holds (spec_release i n t) = t_holds t"
  "t_holds (spec_dedicate i n t) = t_holds t" "t_dedications (spec_reserve i n t) = t_dedications t"
  "t_dedications (spec_release i n t) = t_dedications t" "t_dedications (spec_dedicate i n t) = t_dedications t"
  "t_events (spec_reserve i n t) = t_events t" "t_events (spec_release i n t) = t_events t"
  "t_events (spec_dedicate i n t) = t_events t"
  by (simp_all add: spec_reserve_def spec_release_def spec_dedicate_def)

lemma quota_specs_sel [simp]:
  "t_products (spec_ensure c k l t) = t_products t" "t_products (spec_consume c k n t) = t_products t"
  "t_products (spec_unconsume c k n t) = t_products t" "t_pools (spec_ensure c k l t) = t_pools t"
  "t_pools (spec_consume c k n t) = t_pools t" "t_pools (spec_unconsume c k n t) = t_pools t"
  "t_requests (spec_ensure c k l t) = t_requests t" "t_requests (spec_consume c k n t) = t_requests t"
  "t_requests (spec_unconsume c k n t) = t_requests t" "t_lines (spec_ensure c k l t) = t_lines t"
  "t_lines (spec_consume c k n t) = t_lines t" "t_lines (spec_unconsume c k n t) = t_lines t"
  "t_holds (spec_ensure c k l t) = t_holds t" "t_holds (spec_consume c k n t) = t_holds t"
  "t_holds (spec_unconsume c k n t) = t_holds t" "t_dedications (spec_ensure c k l t) = t_dedications t"
  "t_dedications (spec_consume c k n t) = t_dedications t" "t_dedications (spec_unconsume c k n t) = t_dedications t"
  "t_events (spec_ensure c k l t) = t_events t" "t_events (spec_consume c k n t) = t_events t"
  "t_events (spec_unconsume c k n t) = t_events t"
  by (simp_all add: spec_ensure_def spec_consume_def spec_unconsume_def)

lemma answering_run: "m s = (Inr a, s') \<Longrightarrow> answering f m s = (Inr (f a), s')"
  by (simp add: answering_def)

lemma pool_calls_agree:
  assumes ag: "agrees m t" and ok: "counters_ok t" and c: "sensible c t" and sp: "spec_call c t = Some (a, u)"
    and port: "group_of c = PoolPort"
  shows "\<exists>m'. mem_call c m = (Inr a, m') \<and> agrees m' u"
proof (cases c)
  case ListPools
  from ag have i: "mem_inv m" and p: "t_pools (mem_view m) = t_pools t" by (simp_all add: agrees_def rows_agree_def)
  obtain r m' where run: "Pools_List m = (r, m')" by (rule prod.exhaust)
  from run obtain ps where r: "r = Inr ps" by (auto simp: Pools_List_def)
  from mem_ListPools [OF i run] have "m' = m" "mset (map unstamp_pool ps) = mset (t_pools t)" unfolding r p by blast+
  with answering_run [where f = "\<lambda>ps. Pools (mset (map unstamp_pool ps))" and m = Pools_List and s = m, OF run [unfolded r]] sp ag ListPools show ?thesis by (auto simp: mem_pools_sel)
next
  case (GetByKind k)
  from ag have i: "mem_inv m" and p: "t_pools (mem_view m) = t_pools t" by (simp_all add: agrees_def rows_agree_def)
  obtain r m' where run: "Pools_GetByKind k m = (r, m')" by (rule prod.exhaust)
  from run obtain q where r: "r = Inr q" by (auto simp: Pools_GetByKind_def)
  from mem_GetByKind [OF i run] have "m' = m" "map_option unstamp_pool q = find (\<lambda>p. rp_Kind p = k) (t_pools t)"
    unfolding r p by blast+
  with answering_run [where f = "\<lambda>p. Pool (map_option unstamp_pool p)" and m = "Pools_GetByKind k" and s = m, OF run [unfolded r]] sp ag GetByKind show ?thesis by (auto simp: mem_pools_sel)
next
  case (TryReserve i n)
  from ag have iv: "mem_inv m" and p: "t_pools (mem_view m) = t_pools t" by (simp_all add: agrees_def rows_agree_def)
  from c ok TryReserve have h: "pools_ok t" "0 < n" "n \<le> maxAmount" "i \<in> pool_ids t" by (simp_all add: counters_ok_def amount_ok_def)
  obtain r m' where run: "Pools_TryReserve i n m = (r, m')" by (rule prod.exhaust)
  from mem_TryReserve [OF iv _ h(2,3) _ run] h(1,4)
  have l: "mem_inv m'" "r = Inr (admits i n t)"
    "mem_view m' = (if admits i n t then spec_reserve i n (mem_view m) else mem_view m)" by (simp_all add: pools_only [OF p])
  have "rows_agree m' u" using ag l(3) sp TryReserve pools_only [OF p] by (auto simp: agrees_def rows_agree_def)
  moreover have "logs_agree m' u = logs_agree m t"
    using sp TryReserve pool_frame(1) [OF run] by (intro logs_agree_cong) auto
  ultimately show ?thesis
    using answering_run [where f = Flag and m = "Pools_TryReserve i n" and s = m, OF run [unfolded l(2)]] sp ag l(1) TryReserve by (auto simp: mem_pools_sel agrees_def)
next
  case (ReleaseReserved i n)
  from ag have iv: "mem_inv m" and p: "t_pools (mem_view m) = t_pools t" by (simp_all add: agrees_def rows_agree_def)
  from c ok ReleaseReserved have h: "pools_ok t" "0 < n" "n \<le> maxAmount" "i \<in> pool_ids t" by (simp_all add: counters_ok_def amount_ok_def)
  obtain r m' where run: "Pools_ReleaseReserved i n m = (r, m')" by (rule prod.exhaust)
  from mem_ReleaseReserved [OF iv _ h(2,3) _ run] h(1,4)
  have l: "mem_inv m'" "r = Inr ()" "mem_view m' = spec_release i n (mem_view m)" by (simp_all add: pools_only [OF p])
  have "rows_agree m' u" using ag l(3) sp ReleaseReserved pools_only [OF p] by (auto simp: agrees_def rows_agree_def)
  moreover have "logs_agree m' u = logs_agree m t"
    using sp ReleaseReserved pool_frame(2) [OF run] by (intro logs_agree_cong) auto
  ultimately show ?thesis
    using answering_run [where f = "\<lambda>_. Finished" and m = "Pools_ReleaseReserved i n" and s = m, OF run [unfolded l(2)]] sp ag l(1) ReleaseReserved
    by (auto simp: mem_pools_sel agrees_def)
next
  case (MoveReservedToDedicated i n)
  from ag have iv: "mem_inv m" and p: "t_pools (mem_view m) = t_pools t" by (simp_all add: agrees_def rows_agree_def)
  from c ok MoveReservedToDedicated have h: "pools_ok t" "0 < n" "n \<le> maxAmount" "i \<in> pool_ids t"
    by (simp_all add: counters_ok_def amount_ok_def)
  obtain r m' where run: "Pools_MoveReservedToDedicated i n m = (r, m')" by (rule prod.exhaust)
  from mem_MoveReservedToDedicated [OF iv _ h(2,3) _ run] h(1,4)
  have l: "mem_inv m'" "r = Inr ()" "mem_view m' = spec_dedicate i n (mem_view m)" by (simp_all add: pools_only [OF p])
  have "rows_agree m' u" using ag l(3) sp MoveReservedToDedicated pools_only [OF p] by (auto simp: agrees_def rows_agree_def)
  moreover have "logs_agree m' u = logs_agree m t"
    using sp MoveReservedToDedicated pool_frame(3) [OF run] by (intro logs_agree_cong) auto
  ultimately show ?thesis
    using answering_run [where f = "\<lambda>_. Finished" and m = "Pools_MoveReservedToDedicated i n" and s = m, OF run [unfolded l(2)]] sp ag l(1) MoveReservedToDedicated
    by (auto simp: mem_pools_sel agrees_def)
qed (use port in simp_all)

lemma quota_calls_agree:
  assumes ag: "agrees m t" and ok: "counters_ok t" and c: "sensible c t" and sp: "spec_call c t = Some (a, u)"
    and port: "group_of c = QuotaPort"
  shows "\<exists>m'. mem_call c m = (Inr a, m') \<and> agrees m' u"
proof (cases c)
  case (ListQuotas cu)
  from ag have i: "mem_inv m" and q: "t_quotas (mem_view m) = t_quotas t" by (simp_all add: agrees_def rows_agree_def)
  obtain r m' where run: "Quotas_ListByCustomer cu m = (r, m')" by (rule prod.exhaust)
  from run obtain qs where r: "r = Inr qs" by (auto simp: Quotas_ListByCustomer_def)
  from mem_ListQuotas [OF i run]
  have "m' = m" "mset (map unstamp_quota qs) = mset (filter (\<lambda>q. cq_CustomerID q = cu) (t_quotas t))"
    unfolding r q by blast+
  with answering_run [where f = "\<lambda>qs. Quotas (mset (map unstamp_quota qs))" and m = "Quotas_ListByCustomer cu" and s = m, OF run [unfolded r]] sp ag ListQuotas show ?thesis by (auto simp: mem_quotas_sel)
next
  case (EnsureAndTryConsume cu k n l)
  from ag have iv: "mem_inv m" and q: "t_quotas (mem_view m) = t_quotas t" by (simp_all add: agrees_def rows_agree_def)
  from c ok EnsureAndTryConsume have h: "quotas_ok t" "0 < n" "n \<le> maxAmount" "0 \<le> l" "l \<le> maxAmount"
    by (simp_all add: counters_ok_def amount_ok_def)
  obtain r m' where run: "Quotas_EnsureAndTryConsume cu k n l m = (r, m')" by (rule prod.exhaust)
  note e = quotas_only(3) [OF q, of cu k l]
  from mem_EnsureAndTryConsume [OF iv _ h(2-5) run] h(1)
  have l: "mem_inv m'" "r = Inr (quota_admits cu k n (spec_ensure cu k l t))"
    "mem_view m' = (if quota_admits cu k n (spec_ensure cu k l t) then spec_consume cu k n (spec_ensure cu k l (mem_view m))
        else spec_ensure cu k l (mem_view m))" by (simp_all add: quotas_only(1) [OF q] quotas_only(2) [OF e])
  have "rows_agree m' u" using ag l(3) sp EnsureAndTryConsume e quotas_only(4) [OF e]
    by (auto simp: agrees_def rows_agree_def Let_def)
  moreover have "logs_agree m' u = logs_agree m t"
    using sp EnsureAndTryConsume consume_frame [OF run] by (intro logs_agree_cong) (auto simp: Let_def)
  ultimately show ?thesis
    using answering_run [where f = Flag and m = "Quotas_EnsureAndTryConsume cu k n l" and s = m, OF run [unfolded l(2)]] sp ag l(1) EnsureAndTryConsume
    by (auto simp: mem_quotas_sel agrees_def Let_def)
next
  case (ReleaseQuota cu k n)
  from ag have iv: "mem_inv m" and q: "t_quotas (mem_view m) = t_quotas t" by (simp_all add: agrees_def rows_agree_def)
  from c ok ReleaseQuota have h: "quotas_ok t" "0 < n" "n \<le> maxAmount" by (simp_all add: counters_ok_def amount_ok_def)
  obtain r m' where run: "Quotas_Release cu k n m = (r, m')" by (rule prod.exhaust)
  from mem_ReleaseQuota [OF iv _ h(2,3) run] h(1)
  have l: "mem_inv m'" "r = Inr ()" "mem_view m' = spec_unconsume cu k n (mem_view m)" by (simp_all add: quotas_only [OF q])
  have "rows_agree m' u" using ag l(3) sp ReleaseQuota quotas_only [OF q] by (auto simp: agrees_def rows_agree_def)
  moreover have "logs_agree m' u = logs_agree m t"
    using sp ReleaseQuota quota_frame(3) [OF run] by (intro logs_agree_cong) auto
  ultimately show ?thesis
    using answering_run [where f = "\<lambda>_. Finished" and m = "Quotas_Release cu k n" and s = m, OF run [unfolded l(2)]] sp ag l(1) ReleaseQuota
    by (auto simp: mem_quotas_sel agrees_def)
qed (use port in simp_all)

lemma product_calls_agree:
  assumes ag: "agrees m t" and sp: "spec_call c t = Some (a, u)" and port: "group_of c = ProductPort"
  shows "\<exists>m'. mem_call c m = (Inr a, m') \<and> agrees m' u"
proof (cases c)
  case ListCatalog
  from ag have i: "any_order (mm_order m)" and p: "map snd (mm_products m) = t_products t"
    by (simp_all add: agrees_def rows_agree_def mem_inv_def)
  have "mset (ranging (mm_order m) (map snd (mm_products m))) = mset (t_products t)"
    by (simp only: mset_ranging [OF i] p)
  with sp ag ListCatalog show ?thesis
    by (auto simp: mem_products_def Products_List_def answering_def andThen_def asking_def ret_def)
next
  case (GetByCode co)
  from ag have i: "keyed pd_Code (mm_products m)" and p: "map snd (mm_products m) = t_products t"
    by (simp_all add: agrees_def rows_agree_def mem_inv_def)
  have "map_of (mm_products m) co = find (\<lambda>p. pd_Code p = co) (t_products t)" by (simp only: keyed_map_of [OF i] p)
  with sp ag GetByCode show ?thesis
    by (auto simp: mem_products_def Products_GetByCode_def answering_def andThen_def asking_def ret_def)
qed (use port in simp_all)

subsection \<open>Reading requests\<close>

lemma request_row:
  assumes "agrees m t"
  shows "map_option unstamp_request (map_of (mm_requests m) i) = find_request i t"
proof -
  from assms have k: "keyed cr_ID (mm_requests m)" and r: "map unstamp_request (map snd (mm_requests m)) = t_requests t"
    by (simp_all add: agrees_def rows_agree_def mem_inv_def)
  show ?thesis by (simp only: keyed_map_of [OF k] find_request_def r [symmetric] find_map_key unstamp_request_sel)
qed

lemma key_inject:
  assumes "colon_free c" and "colon_free d"
  shows "idemIndexKey c k = idemIndexKey d l \<longleftrightarrow> c = d \<and> k = l"
  using colon_joined [OF assms, of k l] by (simp add: idemIndexKey_def)

lemma index_row:
  assumes "\<forall>r \<in> set rs. colon_free (cr_CustomerID r)" and "colon_free c"
  shows "map_of (index_of rs) (idemIndexKey c k) = map_option cr_ID (find (\<lambda>r. cr_CustomerID r = c \<and> cr_IdempotencyKey r = k) rs)"
  using assms by (induction rs) (auto simp: index_of_def key_inject)

lemma find_idem_request:
  assumes "requests_distinct t" and "find_idem c k t = Some r"
  shows "find_request (cr_ID r) t = Some r"
  using assms find_SomeD [of _ _ r]
  by (auto simp: find_idem_def find_request_def requests_distinct_def find_Some_iff_distinct)

lemma collect_expired_all:
  "length out + length (filter (is_due now) rs) < lim \<Longrightarrow>
   collect_expired now lim out rs = out @ map cr_ID (filter (is_due now) rs)"
  by (induction rs arbitrary: out) (auto simp: Let_def)

lemma requests_shuffled:
  assumes "agrees m t"
  shows "mset (map unstamp_request (ranging (mm_order m) (map snd (mm_requests m)))) = mset (t_requests t)"
proof -
  from assms have o: "any_order (mm_order m)" and r: "map unstamp_request (map snd (mm_requests m)) = t_requests t"
    by (simp_all add: agrees_def rows_agree_def mem_inv_def)
  show ?thesis by (simp only: r [symmetric] mset_map mset_ranging [OF o])
qed

lemma filter_shuffled:
  assumes "agrees m t" and "\<And>r. p (unstamp_request r) = p r"
  shows "mset (map unstamp_request (filter p (ranging (mm_order m) (map snd (mm_requests m))))) = mset (filter p (t_requests t))"
proof -
  let ?rs = "ranging (mm_order m) (map snd (mm_requests m))"
  have "map unstamp_request (filter p ?rs) = filter p (map unstamp_request ?rs)"
    by (rule sym, rule filter_map_unstamp_requests, rule assms(2))
  then have "mset (map unstamp_request (filter p ?rs)) = filter_mset p (mset (map unstamp_request ?rs))"
    by (simp only: mset_filter)
  then show ?thesis by (simp only: requests_shuffled [OF assms(1)] mset_filter)
qed

lemma read_calls_agree:
  assumes ag: "agrees m t" and ky: "keys_ok t" and c: "sensible c t" and sp: "spec_call c t = Some (a, u)"
    and port: "group_of c = RequestReads"
  shows "\<exists>m'. mem_call c m = (Inr a, m') \<and> agrees m' u"
proof (cases c)
  case (FindByIdempotency cu k)
  from ag have ix: "mm_idemIndex m = index_of (t_requests t)" "\<forall>r \<in> set (t_requests t). colon_free (cr_CustomerID r)"
    by (simp_all add: agrees_def logs_agree_def)
  have cf: "colon_free cu" using c FindByIdempotency by (simp add: colon_free_def)
  have "map_option unstamp_request (case map_of (mm_idemIndex m) (idemIndexKey cu k) of None \<Rightarrow> None | Some i \<Rightarrow> map_of (mm_requests m) i)
      = find_idem cu k t"
  proof (cases "find_idem cu k t")
    case None
    then show ?thesis by (simp add: ix(1) index_row [OF ix(2) cf] find_idem_def)
  next
    case (Some r)
    from find_idem_request [OF _ Some] ky request_row [OF ag, of "cr_ID r"] Some show ?thesis
      by (simp add: ix(1) index_row [OF ix(2) cf] find_idem_def keys_ok_def)
  qed
  with sp ag FindByIdempotency show ?thesis
    by (auto simp: mem_requests_def Requests_FindByIdempotency_def answering_def andThen_def asking_def ret_def)
next
  case (GetRequestRow i)
  with sp ag request_row [OF ag, of i] show ?thesis
    by (auto simp: mem_requests_def Requests_Get_def answering_def andThen_def asking_def ret_def)
next
  case (ListByCustomer cu st)
  have "mset (map unstamp_request (filter (\<lambda>r. cr_CustomerID r = cu \<and> (case st of None \<Rightarrow> True | Some x \<Rightarrow> status_string (cr_Status r) = x))
        (ranging (mm_order m) (map snd (mm_requests m))))) =
      mset (filter (\<lambda>r. cr_CustomerID r = cu \<and> (case st of None \<Rightarrow> True | Some x \<Rightarrow> status_string (cr_Status r) = x)) (t_requests t))"
    by (rule filter_shuffled [OF ag]) (simp split: option.split)
  with sp ag ListByCustomer show ?thesis
    by (auto simp: mem_requests_def Requests_ListByCustomer_def answering_def andThen_def asking_def ret_def
        simp del: mset_map mset_filter)
next
  case (ListExpiredIDs now lim)
  let ?rs = "ranging (mm_order m) (map snd (mm_requests m))"
  from filter_shuffled [OF ag, of "is_due now"]
  have f: "mset (map unstamp_request (filter (is_due now) ?rs)) = mset (filter (is_due now) (t_requests t))" by simp
  from mset_map_eq [OF f, of cr_ID]
  have ids: "mset (map cr_ID (filter (is_due now) ?rs)) = mset (map cr_ID (filter (is_due now) (t_requests t)))"
    by (simp only: map_map comp_def unstamp_request_sel)
  have "length (filter (is_due now) ?rs) = length (filter (is_due now) (t_requests t))"
    using mset_eq_length [OF f] by simp
  then have "collect_expired now lim [] ?rs = map cr_ID (filter (is_due now) ?rs)"
    using c ListExpiredIDs by (subst collect_expired_all) simp_all
  with ids sp ag ListExpiredIDs show ?thesis
    by (auto simp: mem_requests_def Requests_ListExpiredIDs_def answering_def andThen_def asking_def ret_def
        simp del: mset_map mset_filter)
next
  case (ListEvents i)
  with sp ag show ?thesis
    by (auto simp: mem_requests_def Requests_ListEvents_def answering_def andThen_def asking_def ret_def agrees_def logs_agree_def)
next
  case (ListLines i)
  with sp ag show ?thesis
    by (auto simp: mem_requests_def Requests_ListLines_def answering_def andThen_def asking_def ret_def agrees_def logs_agree_def)
next
  case (ListActiveHolds i)
  from ag have "map unstamp_hold (slice_at i (mm_holds m)) = filter (\<lambda>h. hd_RequestID h = i) (t_holds t)"
    by (simp add: agrees_def logs_agree_def)
  then have "filter (\<lambda>h. hd_Status h = HoldActive) (map unstamp_hold (slice_at i (mm_holds m))) = active_holds i t"
    by (simp add: active_holds_def conj_commute)
  then have "map unstamp_hold (filter (\<lambda>h. hd_Status h = HoldActive) (slice_at i (mm_holds m))) = active_holds i t"
    by (simp add: filter_map comp_def)
  with sp ag ListActiveHolds show ?thesis
    by (auto simp: mem_requests_def Requests_ListActiveHolds_def answering_def andThen_def asking_def ret_def simp del: mset_map)
next
  case (CountActiveHolds cu)
  from ag have o: "any_order (mm_order m)" and k: "keyed cr_ID (mm_requests m)"
    and h: "\<And>i. map unstamp_hold (slice_at i (mm_holds m)) = filter (\<lambda>h. hd_RequestID h = i) (t_holds t)"
    by (simp_all add: agrees_def mem_inv_def logs_agree_def)
  from k obtain rs where rs: "mm_requests m = map (\<lambda>x. (cr_ID x, x)) rs" "map snd (mm_requests m) = rs" by (rule keyedE)
  let ?p = "\<lambda>r. cr_CustomerID r = cu \<and> cr_Status r = StatusReserved \<and> list_ex (\<lambda>h. hd_RequestID h = cr_ID r \<and> hd_Status h = HoldActive) (t_holds t)"
  have act: "list_ex (\<lambda>h. hd_Status h = HoldActive) (slice_at i (mm_holds m)) \<longleftrightarrow>
      list_ex (\<lambda>h. hd_RequestID h = i \<and> hd_Status h = HoldActive) (t_holds t)" for i
  proof -
    have "list_ex (\<lambda>h. hd_Status h = HoldActive) (slice_at i (mm_holds m)) =
        list_ex (\<lambda>h. hd_Status h = HoldActive) (map unstamp_hold (slice_at i (mm_holds m)))"
      by (simp add: list_ex_map_comp comp_def)
    then show ?thesis unfolding h by (auto simp: list_ex_iff)
  qed
  have "length (filter (\<lambda>(i, req). cr_CustomerID req = cu \<and> cr_Status req = StatusReserved \<and>
      list_ex (\<lambda>h. hd_Status h = HoldActive) (slice_at i (mm_holds m))) (ranging (mm_order m) (mm_requests m))) =
      length (filter ?p (ranging (mm_order m) rs))"
    unfolding rs(1) ranging_map [OF o] filter_map by (simp add: comp_def act)
  also have "\<dots> = length (filter ?p (t_requests t))"
    using mset_eq_length [OF filter_shuffled [OF ag, of ?p]] by (simp add: rs(2))
  finally show ?thesis using sp ag CountActiveHolds
    by (auto simp: mem_requests_def Requests_CountActiveHoldsByCustomer_def count_reserved_def answering_def andThen_def
        asking_def ret_def)
qed (use port in simp_all)

subsection \<open>Writing requests\<close>

lemma new_request_agrees:
  assumes ag: "agrees m t"
    and new: "find_idem (cr_CustomerID req) (cr_IdempotencyKey req) t = None" "find_request (cr_ID req) t = None"
    and cf: "colon_free (cr_CustomerID req)"
  shows "map_of (mm_idemIndex m) (idemIndexKey (cr_CustomerID req) (cr_IdempotencyKey req)) = None"
    and "keyed cr_ID (AList.update (cr_ID req) req (mm_requests m))"
    and "map unstamp_request (map snd (AList.update (cr_ID req) req (mm_requests m))) = t_requests t @ [unstamp_request req]"
    and "AList.update (idemIndexKey (cr_CustomerID req) (cr_IdempotencyKey req)) (cr_ID req) (mm_idemIndex m) =
      index_of (t_requests t @ [unstamp_request req])"
proof -
  from ag have ix: "mm_idemIndex m = index_of (t_requests t)" "\<forall>r \<in> set (t_requests t). colon_free (cr_CustomerID r)"
    and k: "keyed cr_ID (mm_requests m)" and r: "map unstamp_request (map snd (mm_requests m)) = t_requests t"
    by (simp_all add: agrees_def logs_agree_def mem_inv_def rows_agree_def)
  show n: "map_of (mm_idemIndex m) (idemIndexKey (cr_CustomerID req) (cr_IdempotencyKey req)) = None"
    using new(1) by (simp add: ix(1) index_row [OF ix(2) cf] find_idem_def)
  have "map_of (mm_requests m) (cr_ID req) = None" using request_row [OF ag, of "cr_ID req"] new(2) by simp
  note ins = keyed_insert [OF k this]
  from ins show "keyed cr_ID (AList.update (cr_ID req) req (mm_requests m))" by simp
  show "map unstamp_request (map snd (AList.update (cr_ID req) req (mm_requests m))) = t_requests t @ [unstamp_request req]"
    unfolding ins(1) using r by simp
  have "x \<notin> fst ` set xs \<Longrightarrow> AList.update x y xs = xs @ [(x, y)]" for x :: string and y :: uuid and xs
    by (induction xs) auto
  with n show "AList.update (idemIndexKey (cr_CustomerID req) (cr_IdempotencyKey req)) (cr_ID req) (mm_idemIndex m) =
      index_of (t_requests t @ [unstamp_request req])"
    by (simp add: map_of_eq_None_iff ix(1)) (simp add: index_of_def)
qed

lemma reserved_same:
  assumes "agrees m t" and "requests_distinct t"
  shows "reserved_at i m = is_reserved i t"
proof (cases "find_request i t")
  case None
  with request_row [OF assms(1), of i] have "map_of (mm_requests m) i = None" by simp
  with None show ?thesis
    by (auto simp: reserved_at_def is_reserved_def find_request_def list_ex_iff find_None_iff)
next
  case (Some r)
  with request_row [OF assms(1), of i] obtain q where q: "map_of (mm_requests m) i = Some q" "unstamp_request q = r" by auto
  from list_ex_hit [where k = cr_ID, OF assms(2) [unfolded requests_distinct_def] Some [unfolded find_request_def]]
  have "is_reserved i t \<longleftrightarrow> cr_Status r = StatusReserved" by (simp add: is_reserved_def)
  moreover have "cr_Status r = cr_Status q" using q(2) by auto
  ultimately show ?thesis using q(1) by (simp add: reserved_at_def)
qed

lemma write_request_agrees:
  assumes ag: "agrees m t" and d: "requests_distinct t" and res: "is_reserved i t"
    and f: "\<And>r. unstamp_request (f r) = g (unstamp_request r)" and keys: "\<And>r. cr_ID (f r) = cr_ID r"
  shows "keyed cr_ID (AList.map_entry i f (mm_requests m))"
    and "map unstamp_request (map snd (AList.map_entry i f (mm_requests m))) =
      mapWhere (\<lambda>r. cr_ID r = i \<and> cr_Status r = StatusReserved) g (t_requests t)"
proof -
  from ag have k: "keyed cr_ID (mm_requests m)" and r: "map unstamp_request (map snd (mm_requests m)) = t_requests t"
    by (simp_all add: agrees_def mem_inv_def rows_agree_def)
  show "keyed cr_ID (AList.map_entry i f (mm_requests m))" by (rule keyed_entry [OF k]) (rule keys)
  have "map unstamp_request (map snd (AList.map_entry i f (mm_requests m))) =
      mapWhere (\<lambda>r. cr_ID r = i) g (t_requests t)"
    unfolding keyed_entry(2) [where f = f, OF k keys] r [symmetric] by (rule map_mapWhere_commute) (simp_all add: f)
  also have "\<dots> = mapWhere (\<lambda>r. cr_ID r = i \<and> cr_Status r = StatusReserved) g (t_requests t)"
  proof (rule mapWhere_cong)
    fix x assume x: "x \<in> set (t_requests t)"
    from res obtain y where y: "y \<in> set (t_requests t)" "cr_ID y = i" "cr_Status y = StatusReserved"
      by (auto simp: is_reserved_def list_ex_iff)
    show "(cr_ID x = i) = (cr_ID x = i \<and> cr_Status x = StatusReserved)"
      using distinct_key_inj [OF d [unfolded requests_distinct_def] x y(1)] y by auto
  qed
  finally show "map unstamp_request (map snd (AList.map_entry i f (mm_requests m))) =
      mapWhere (\<lambda>r. cr_ID r = i \<and> cr_Status r = StatusReserved) g (t_requests t)" .
qed

lemma finish_agrees:
  assumes ag: "agrees m t" and d: "requests_distinct t" and res: "is_reserved i t"
    and f: "\<And>r. unstamp_request (f r) = g (unstamp_request r)"
    and keys: "\<And>r. cr_ID (f r) = cr_ID r" "\<And>r. cr_ID (g r) = cr_ID r \<and> cr_CustomerID (g r) = cr_CustomerID r \<and>
        cr_IdempotencyKey (g r) = cr_IdempotencyKey r"
    and own: "list_all (\<lambda>d. dd_RequestID d = i) ds" "ev_RequestID ev = i"
    and m': "m' = m\<lparr>mm_requests := AList.map_entry i f (mm_requests m),
        mm_dedications := dm, mm_events := append_at i [ev] (mm_events m)\<rparr>"
    and dm: "\<And>j. slice_at j dm = slice_at j (mm_dedications m) @ (if j = i then ds else [])"
    and u: "u = t\<lparr>t_requests := mapWhere (\<lambda>r. cr_ID r = i \<and> cr_Status r = StatusReserved) g (t_requests t),
        t_dedications := t_dedications t @ ds, t_events := t_events t @ [ev]\<rparr>"
  shows "agrees m' u"
proof -
  note w = write_request_agrees [where f = f and g = g, OF ag d res f keys(1)]
  from ag w(1) have "mem_inv m'" by (simp add: agrees_def mem_inv_def m')
  moreover from ag w(2) have "rows_agree m' u" by (simp add: agrees_def rows_agree_def m' u mem_view_def)
  moreover have "index_of (t_requests u) = index_of (t_requests t)"
    unfolding index_of_def u using keys(2) by (auto intro!: map_mapWhere_same)
  moreover have "\<forall>r \<in> set (t_requests u). colon_free (cr_CustomerID r)"
    using ag keys(2) by (auto simp: agrees_def logs_agree_def u set_mapWhere)
  moreover have "filter (\<lambda>d. dd_RequestID d = j) ds = (if j = i then ds else [])" for j
    using own(1) by (auto simp: list_all_iff intro!: filter_False)
  ultimately show ?thesis
    using ag own(2) by (auto simp: agrees_def logs_agree_def m' u lines_of_def events_of_def dm)
qed

lemma terminal_agrees:
  assumes ag: "agrees m t" and d: "requests_distinct t" and own: "ev_RequestID ev = i"
  shows "\<exists>m'. answering Flag (Requests_markTerminal i st ev) m = (Inr (Flag (is_reserved i t)), m') \<and>
    agrees m' (spec_finish i st [] ev t)"
proof (cases "is_reserved i t")
  case True
  let ?f = "\<lambda>r. r\<lparr>cr_Status := st\<rparr>"
  let ?m' = "m\<lparr>mm_requests := AList.map_entry i ?f (mm_requests m), mm_events := append_at i [ev] (mm_events m)\<rparr>"
  have "agrees ?m' (spec_finish i st [] ev t)" using own True
    by (intro finish_agrees [where f = ?f and g = ?f and ds = "[]" and ev = ev and dm = "mm_dedications m", OF ag d True])
      (simp_all add: unstamp_request_def spec_finish_def set_status_def)
  with True show ?thesis
    by (simp add: reserved_same [OF ag d] Requests_markTerminal_def answering_def andThen_def updating_def ret_def
        write_request_def log_event_def)
next
  case False
  with ag show ?thesis
    by (simp add: reserved_same [OF ag d] Requests_markTerminal_def answering_def andThen_def ret_def spec_finish_def)
qed

subsection \<open>Updating holds\<close>

lemma set_first_hold_where:
  "distinct (map hd_ID hs) \<Longrightarrow> set_first_hold i dst hs = mapWhere (\<lambda>h. hd_ID h = i) (\<lambda>h. h\<lparr>hd_Status := dst\<rparr>) hs"
proof (induction hs)
  case (Cons h hs)
  have "hd_ID h = i \<Longrightarrow> mapWhere (\<lambda>h. hd_ID h = i) (\<lambda>h. h\<lparr>hd_Status := dst\<rparr>) hs = hs"
    using Cons.prems by (intro mapWhere_none) (auto simp: image_iff)
  with Cons show ?case by auto
qed simp

lemma filter_mapWhere:
  "(\<And>x. p (f x) = p x) \<Longrightarrow> filter p (mapWhere w f xs) = mapWhere w f (filter p xs)"
  by (induction xs) auto

lemma distinct_map_filter_key: "distinct (map k xs) \<Longrightarrow> distinct (map k (filter p xs))"
  by (rule distinct_map_filter)

lemma hold_call_agrees:
  assumes ag: "agrees m t" and d: "holds_distinct t"
  shows "\<exists>m'. Requests_UpdateHoldStatus i src dst m = (Inr (list_ex (\<lambda>h. hd_ID h = i \<and> hd_Status h = src) (t_holds t)), m') \<and>
    agrees m' (spec_hold i src dst t)"
proof -
  from ag have o: "any_order (mm_order m)" and k: "distinct (map fst (mm_holds m))"
    and h: "\<And>j. map unstamp_hold (slice_at j (mm_holds m)) = filter (\<lambda>h. hd_RequestID h = j) (t_holds t)"
    by (simp_all add: agrees_def mem_inv_def logs_agree_def)
  have rng: "set (ranging (mm_order m) (mm_holds m)) = set (mm_holds m)" by (rule mset_eq_setD [OF mset_ranging [OF o]])
  have slice: "slice_at j (mm_holds m) = hs" if "(j, hs) \<in> set (mm_holds m)" for j hs
    using map_of_is_SomeI [OF k that] by (simp add: slice_at_def)
  let ?find = "find (\<lambda>(reqID, hs). list_ex (\<lambda>h. hd_ID h = i) hs) (ranging (mm_order m) (mm_holds m))"
  show ?thesis
  proof (cases ?find)
    case None
    have absent: "hd_ID x \<noteq> i" if "x \<in> set (t_holds t)" for x
    proof
      assume "hd_ID x = i"
      from that have "x \<in> set (map unstamp_hold (slice_at (hd_RequestID x) (mm_holds m)))" by (simp add: h)
      then obtain y where y: "y \<in> set (slice_at (hd_RequestID x) (mm_holds m))" "hd_ID y = i"
        using \<open>hd_ID x = i\<close> by auto
      then obtain hs where "map_of (mm_holds m) (hd_RequestID x) = Some hs" "y \<in> set hs"
        by (cases "map_of (mm_holds m) (hd_RequestID x)") (auto simp: slice_at_def)
      with None y(2) rng map_of_SomeD [of "mm_holds m"] show False by (fastforce simp: find_None_iff list_ex_iff)
    qed
    then have "mapWhere (\<lambda>h. hd_ID h = i \<and> hd_Status h = src) f (t_holds t) = t_holds t" for f
      by (intro mapWhere_none) simp
    moreover have "\<not> list_ex (\<lambda>h. hd_ID h = i \<and> hd_Status h = src) (t_holds t)" using absent by (auto simp: list_ex_iff)
    ultimately show ?thesis using None ag by (simp add: Requests_UpdateHoldStatus_def spec_hold_def ret_def)
  next
    case (Some e)
    obtain j hs where e: "e = (j, hs)" by (rule prod.exhaust)
    from find_SomeD [OF Some] have jh: "(j, hs) \<in> set (mm_holds m)" and ex: "list_ex (\<lambda>h. hd_ID h = i) hs"
      by (simp_all add: e rng)
    have hs: "map unstamp_hold hs = filter (\<lambda>h. hd_RequestID h = j) (t_holds t)" using h [of j] slice [OF jh] by simp
    have dt: "distinct (map hd_ID (t_holds t))" using d by (simp add: holds_distinct_def)
    have "distinct (map hd_ID (map unstamp_hold hs))" unfolding hs by (rule distinct_map_filter_key [OF dt])
    then have dh: "distinct (map hd_ID hs)" by simp
    from ex obtain x where x: "find (\<lambda>h. hd_ID h = i) hs = Some x"
      by (cases "find (\<lambda>h. hd_ID h = i) hs") (auto simp: list_ex_iff find_None_iff)
    from find_SomeD [OF x] have xm: "x \<in> set hs" "hd_ID x = i" by simp_all
    then have "unstamp_hold x \<in> set (map unstamp_hold hs)" by simp
    then have xt: "unstamp_hold x \<in> set (t_holds t)" "hd_RequestID x = j" unfolding hs by simp_all
    have only: "y = unstamp_hold x" if "y \<in> set (t_holds t)" "hd_ID y = i" for y
      using distinct_key_inj [OF dt that(1) xt(1)] that(2) xm(2) by simp
    have flag: "list_ex (\<lambda>h. hd_ID h = i \<and> hd_Status h = src) (t_holds t) \<longleftrightarrow> hd_Status x = src"
    proof
      assume "list_ex (\<lambda>h. hd_ID h = i \<and> hd_Status h = src) (t_holds t)"
      then obtain y where "y \<in> set (t_holds t)" "hd_ID y = i" "hd_Status y = src" by (auto simp: list_ex_iff)
      with only [of y] show "hd_Status x = src" by simp
    next
      assume "hd_Status x = src"
      with xt(1) xm(2) show "list_ex (\<lambda>h. hd_ID h = i \<and> hd_Status h = src) (t_holds t)"
        by (auto simp: list_ex_iff intro!: bexI [of _ "unstamp_hold x"])
    qed
    show ?thesis
    proof (cases "hd_Status x = src")
      case False
      then have "mapWhere (\<lambda>h. hd_ID h = i \<and> hd_Status h = src) f (t_holds t) = t_holds t" for f
        using flag by (intro mapWhere_none) (auto simp: list_ex_iff)
      with False flag Some e x ag show ?thesis by (simp add: Requests_UpdateHoldStatus_def spec_hold_def ret_def)
    next
      case True
      let ?m' = "m\<lparr>mm_holds := AList.map_entry j (set_first_hold i dst) (mm_holds m)\<rparr>"
      let ?w = "mapWhere (\<lambda>h. hd_ID h = i \<and> hd_Status h = src) (\<lambda>h. h\<lparr>hd_Status := dst\<rparr>)"
      have "map unstamp_hold (set_first_hold i dst hs) = ?w (map unstamp_hold hs)"
        unfolding set_first_hold_where [OF dh]
      proof (rule map_mapWhere_commute)
        fix y assume "y \<in> set hs"
        then show "(hd_ID (unstamp_hold y) = i \<and> hd_Status (unstamp_hold y) = src) = (hd_ID y = i)"
          using distinct_key_inj [OF dh _ xm(1)] xm(2) True by auto
      qed (simp add: unstamp_hold_def)
      then have hit: "map unstamp_hold (set_first_hold i dst hs) = ?w (filter (\<lambda>h. hd_RequestID h = j) (t_holds t))"
        by (simp only: hs)
      have miss: "?w (filter (\<lambda>h. hd_RequestID h = l) (t_holds t)) = filter (\<lambda>h. hd_RequestID h = l) (t_holds t)" if "l \<noteq> j" for l
      proof (rule mapWhere_none)
        fix y assume y: "y \<in> set (filter (\<lambda>h. hd_RequestID h = l) (t_holds t))"
        have "hd_ID y = i \<Longrightarrow> y = unstamp_hold x" using y by (intro only) simp_all
        then show "\<not> (hd_ID y = i \<and> hd_Status y = src)" using y that xt(2) by auto
      qed
      have sl: "map unstamp_hold (slice_at l (mm_holds ?m')) = filter (\<lambda>h. hd_RequestID h = l) (?w (t_holds t))" for l
        using h [of l] hit miss [of l]
        by (cases "l = j") (simp_all add: slice_entry [OF map_of_is_SomeI [OF k jh]] filter_mapWhere)
      have "agrees ?m' (spec_hold i src dst t)"
        using ag sl by (simp add: agrees_def mem_inv_def rows_agree_def mem_view_def logs_agree_def spec_hold_def
            lines_of_def events_of_def distinct_map_entry)
      with True flag Some e x show ?thesis
        by (simp add: Requests_UpdateHoldStatus_def andThen_def updating_def ret_def)
    qed
  qed
qed

lemma write_calls_agree:
  assumes ag: "agrees m t" and ky: "keys_ok t" and c: "sensible c t" and sp: "spec_call c t = Some (a, u)"
    and port: "group_of c = RequestWrites"
  shows "\<exists>m'. mem_call c m = (Inr a, m') \<and> agrees m' u"
proof (cases c)
  case (CreateReserved req ls hs ev)
  from sp CreateReserved have new: "find_idem (cr_CustomerID req) (cr_IdempotencyKey req) t = None"
    "find_request (cr_ID req) t = None" "a = Finished" "u = spec_insert_reserved req ls hs ev t"
    by (auto split: if_splits)
  from c CreateReserved have cf: "colon_free (cr_CustomerID req)" and own: "list_all (\<lambda>l. ln_RequestID l = cr_ID req) ls"
    "list_all (\<lambda>h. hd_RequestID h = cr_ID req) hs" "ev_RequestID ev = cr_ID req" by (simp_all add: colon_free_def)
  note n = new_request_agrees [OF ag new(1,2) cf]
  let ?m' = "put_request (idemIndexKey (cr_CustomerID req) (cr_IdempotencyKey req)) req ls hs ev m"
  have "filter (\<lambda>l. ln_RequestID l = j) ls = (if j = cr_ID req then ls else [])"
    "filter (\<lambda>h. hd_RequestID h = j) (map unstamp_hold hs) = (if j = cr_ID req then map unstamp_hold hs else [])" for j
    using own by (auto simp: list_all_iff intro!: filter_False)
  with n(2-4) ag own(3) cf have "agrees ?m' u"
    by (auto simp: agrees_def mem_inv_def rows_agree_def mem_view_def logs_agree_def put_request_def new(4)
        spec_insert_reserved_def lines_of_def events_of_def distinct_append_at)
  with n(1) CreateReserved new(3) show ?thesis
    by (simp add: mem_requests_def Requests_CreateReserved_def answering_def andThen_def updating_def ret_def)
next
  case (CreateRejected req ls ev)
  from sp CreateRejected have new: "find_idem (cr_CustomerID req) (cr_IdempotencyKey req) t = None"
    "find_request (cr_ID req) t = None" "a = Finished" "u = spec_insert_rejected req ls ev t"
    by (auto split: if_splits)
  from c CreateRejected have cf: "colon_free (cr_CustomerID req)" and own: "list_all (\<lambda>l. ln_RequestID l = cr_ID req) ls"
    "ev_RequestID ev = cr_ID req" by (simp_all add: colon_free_def)
  note n = new_request_agrees [OF ag new(1,2) cf]
  let ?m' = "put_rejected (idemIndexKey (cr_CustomerID req) (cr_IdempotencyKey req)) req ls ev m"
  have "filter (\<lambda>l. ln_RequestID l = j) ls = (if j = cr_ID req then ls else [])" for j
    using own by (auto simp: list_all_iff intro!: filter_False)
  with n(2-4) ag own(2) cf have "agrees ?m' u"
    by (auto simp: agrees_def mem_inv_def rows_agree_def mem_view_def logs_agree_def put_rejected_def new(4)
        spec_insert_rejected_def lines_of_def events_of_def distinct_append_at)
  with n(1) CreateRejected new(3) show ?thesis
    by (simp add: mem_requests_def Requests_CreateRejected_def answering_def andThen_def updating_def ret_def)
next
  case (ConfirmRow i ds ev)
  with sp have u: "a = Flag (is_reserved i t)" "u = spec_finish i StatusCompleted ds ev t" by simp_all
  have res: "reserved_at i m = is_reserved i t" using ky by (intro reserved_same ag) (simp add: keys_ok_def)
  show ?thesis
  proof (cases "is_reserved i t")
    case True
    let ?f = "\<lambda>r. r\<lparr>cr_Status := StatusCompleted\<rparr>"
    let ?m' = "m\<lparr>mm_requests := AList.map_entry i ?f (mm_requests m),
        mm_dedications := append_at i ds (mm_dedications m), mm_events := append_at i [ev] (mm_events m)\<rparr>"
    have "agrees ?m' u" using c ConfirmRow ky True
      by (intro finish_agrees [where f = ?f and g = ?f and ds = ds and ev = ev
            and dm = "append_at i ds (mm_dedications m)", OF ag _ True])
        (simp_all add: keys_ok_def unstamp_request_def u(2) spec_finish_def set_status_def)
    with True u(1) res ConfirmRow show ?thesis
      by (simp add: mem_requests_def Requests_Confirm_def answering_def andThen_def updating_def ret_def write_request_def log_event_def)
  qed (use u res ag ConfirmRow in \<open>simp add: mem_requests_def Requests_Confirm_def answering_def ret_def spec_finish_def andThen_def\<close>)
next
  case (MarkCancelled i ev)
  with ag ky c sp terminal_agrees [of m t ev i StatusCancelled] show ?thesis
    by (auto simp: mem_requests_def Requests_MarkCancelled_def keys_ok_def)
next
  case (MarkExpired i ev)
  with ag ky c sp terminal_agrees [of m t ev i StatusExpired] show ?thesis
    by (auto simp: mem_requests_def Requests_MarkExpired_def keys_ok_def)
next
  case (ExtendRow i e n ev)
  with sp have u: "a = Flag (is_reserved i t)" "u = spec_extend i e n ev t" by simp_all
  have res: "reserved_at i m = is_reserved i t" using ky by (intro reserved_same ag) (simp add: keys_ok_def)
  show ?thesis
  proof (cases "is_reserved i t")
    case True
    let ?f = "\<lambda>r. r\<lparr>cr_ExpiresAt := Some e, cr_ExtensionCount := n\<rparr>"
    let ?m' = "m\<lparr>mm_requests := AList.map_entry i ?f (mm_requests m), mm_events := append_at i [ev] (mm_events m)\<rparr>"
    have "agrees ?m' u" using c ExtendRow ky True
      by (intro finish_agrees [where f = ?f and g = ?f and ds = "[]" and ev = ev and dm = "mm_dedications m", OF ag _ True])
        (simp_all add: keys_ok_def unstamp_request_def u(2) spec_extend_def)
    with True u(1) res ExtendRow show ?thesis
      by (simp add: mem_requests_def Requests_Extend_def answering_def andThen_def updating_def ret_def write_request_def log_event_def)
  qed (use u res ag ExtendRow in \<open>simp add: mem_requests_def Requests_Extend_def answering_def ret_def spec_extend_def andThen_def\<close>)
next
  case (UpdateHoldStatus i src dst)
  from ky have "holds_distinct t" by (simp add: keys_ok_def)
  from hold_call_agrees [OF ag this, of i src dst] obtain m' where
    r: "Requests_UpdateHoldStatus i src dst m = (Inr (list_ex (\<lambda>h. hd_ID h = i \<and> hd_Status h = src) (t_holds t)), m')"
    and "agrees m' (spec_hold i src dst t)" by blast
  with answering_run [where f = Flag and m = "Requests_UpdateHoldStatus i src dst" and s = m, OF r] sp UpdateHoldStatus show ?thesis by (auto simp: mem_requests_def)
qed (use port in simp_all)

lemma call_agrees:
  assumes "agrees m t" and "counters_ok t" and "keys_ok t" and "sensible c t" and "spec_call c t = Some (a, u)"
  shows "\<exists>m'. mem_call c m = (Inr a, m') \<and> agrees m' u"
  using pool_calls_agree [OF assms(1,2,4,5)] quota_calls_agree [OF assms(1,2,4,5)] product_calls_agree [OF assms(1,5)]
    read_calls_agree [OF assms(1,3,4,5)] write_calls_agree [OF assms(1,3,4,5)]
  by (cases "group_of c") simp_all

lemma pg_keys_ok: "pg_inv p \<Longrightarrow> keys_ok (pg_view p)"
  using pg_request.keys_unique [of p] by (simp add: keys_ok_def)

end
