(* ===== verification/Memory_Properties.thy ===== *)
theory Memory_Properties
  imports Memory_Agreement Sample_World
begin

text \<open>
  The fakes of the unit tests against the database: a run of repository calls has the same answers, up
  to the order of lists. That order is where they differ: the database sorts by the key of the query,
  the fakes list in the order in which Go meets the entries of a map.
\<close>

subsection \<open>The order of lists\<close>

lemma pg_lists_are_sorted:
  "PoolRepo_List s = (Inr ps, s1) \<Longrightarrow> sorted (map rp_Kind ps)"
  "ProductRepo_List s = (Inr pr, s2) \<Longrightarrow> sorted (map pd_Code pr)"
  "QuotaRepo_ListByCustomer c s = (Inr qs, s3) \<Longrightarrow> sorted (map cq_ResourceKind qs)"
  "RequestRepo_ListByCustomer c st s = (Inr rs, s4) \<Longrightarrow> sorted (map (\<lambda>r. - cr_CreatedAt r) rs)"
  "RequestRepo_ListEvents i s = (Inr es, s5) \<Longrightarrow> sorted (map ev_At es)"
  "RequestRepo_ListActiveHolds i s = (Inr hs, s6) \<Longrightarrow> sorted (map hd_PoolID hs)"
  unfolding PoolRepo_List_def ProductRepo_List_def QuotaRepo_ListByCustomer_def RequestRepo_ListByCustomer_def
    RequestRepo_ListEvents_def RequestRepo_ListActiveHolds_def
  by (drule mapErr_select_cases, simp)+

subsection \<open>The fakes and the database\<close>

text \<open>
  C25: The tests run on the truth, as far as the order of lists goes unnoticed. Take any sequence of
  repository calls such as the service issues (\<open>sensible\<close>: amounts within the validated bounds, pools
  that exist, rows tagged with their request, customer ids without a colon, expiry batches that are not
  full), on a database whose counters are in order and on fakes that hold the same rows. If the database
  answers every call, so that no row was a duplicate, the fakes give the same answers, lists compared as
  multisets and without server timestamps, and hold the same rows again at the end.
\<close>

theorem fakes_answer_like_postgres:
  assumes "pg_inv p" and "counters_ok (pg_view p)" and "agrees m (pg_view p)" and "sensible_run cs (pg_view p)"
    and "run_calls (run_call pg_pools pg_quotas pg_products pg_requests) cs p = (Inr as, p')"
  shows "\<exists>m'. run_calls (run_call mem_pools mem_quotas mem_products mem_requests) cs m = (Inr as, m') \<and>
    agrees m' (pg_view p')"
  using assms
proof (induction cs arbitrary: p m as)
  case Nil
  then show ?case by simp
next
  case (Cons c cs)
  from Cons.prems(5) obtain a p1 bs where r: "run_call pg_pools pg_quotas pg_products pg_requests c p = (Inr a, p1)"
    "run_calls (run_call pg_pools pg_quotas pg_products pg_requests) cs p1 = (Inr bs, p')" "as = a # bs"
    by (auto simp: andThen_Inr_iff)
  from Cons.prems(4) have c: "sensible c (pg_view p)" by simp
  from pg_backend.call_refines [OF Cons.prems(1,2) c r(1)]
  have 1: "pg_inv p1" "spec_call c (pg_view p) = Some (a, pg_view p1)" by simp_all
  from call_agrees [OF Cons.prems(3,2) pg_keys_ok [OF Cons.prems(1)] c 1(2)]
  obtain m1 where m1: "mem_call c m = (Inr a, m1)" "agrees m1 (pg_view p1)" by blast
  from counters_kept [OF Cons.prems(2) c 1(2)] Cons.prems(4) 1(2)
  have "counters_ok (pg_view p1)" "sensible_run cs (pg_view p1)" by simp_all
  from Cons.IH [OF 1(1) this(1) m1(2) this(2) r(2)] m1(1) r(3) show ?case by auto
qed

text \<open>Fakes that hold the rows of the idle system, and a run that takes, refuses, cancels and gives back.\<close>

definition sample_mem :: mem_state where
  "sample_mem = \<lparr>mm_pools = NewPools (sample_pools 0), mm_quotas = NewQuotas [], mm_products = NewProducts sample_products,
     mm_requests = [], mm_lines = [], mm_holds = [], mm_dedications = [], mm_events = [], mm_idemIndex = [],
     mm_uuids = (\<lambda>n. UUID (500 + n)), mm_drawn = 0, mm_order = (\<lambda>n. rev [0..<n])\<rparr>"

definition sample_calls :: "repo_call list" where
  "sample_calls =
     [TryReserve (UUID 1) 4, TryReserve (UUID 1) 7, EnsureAndTryConsume ''acme'' ''cpu'' 4 10000,
      CreateReserved busy_request
        [\<lparr>ln_ID = UUID 11, ln_RequestID = UUID 10, ln_PoolID = UUID 1, ln_Kind = ''cpu'', ln_Amount = 4\<rparr>]
        [\<lparr>hd_ID = UUID 12, hd_RequestID = UUID 10, hd_PoolID = UUID 1, hd_Amount = 4, hd_Status = HoldActive,
          hd_CreatedAt = 0, hd_UpdatedAt = 0\<rparr>]
        \<lparr>ev_ID = UUID 13, ev_RequestID = UUID 10, ev_EventType = EventReserved, ev_Reason = '''', ev_At = 0\<rparr>,
      CountActiveHolds ''acme'', UpdateHoldStatus (UUID 12) HoldActive HoldReleased,
      MarkCancelled (UUID 10)
        \<lparr>ev_ID = UUID 14, ev_RequestID = UUID 10, ev_EventType = EventCancelled, ev_Reason = '''', ev_At = 1\<rparr>,
      MarkExpired (UUID 10)
        \<lparr>ev_ID = UUID 15, ev_RequestID = UUID 10, ev_EventType = EventExpired, ev_Reason = '''', ev_At = 2\<rparr>,
      ReleaseReserved (UUID 1) 4, ReleaseQuota ''acme'' ''cpu'' 4, CountActiveHolds ''acme'']"

definition sample_answers :: "answer list" where
  "sample_answers = [Flag True, Flag False, Flag True, Finished, Number 1, Flag True, Flag True, Flag False, Finished,
     Finished, Number 0]"

lemma sample_mem_agrees: "agrees sample_mem idle_tables"
proof -
  have "any_order (\<lambda>n. rev [0..<n])" by (simp add: any_order_def)
  then show ?thesis
    by (simp add: agrees_def mem_inv_def rows_agree_def logs_agree_def sample_mem_def NewPools_def NewQuotas_def NewProducts_def
        keyed_def idle_tables_def sample_products_def index_of_def slice_at_def lines_of_def events_of_def)
      (simp add: sample_pools_def unstamp_pool_def)
qed

text \<open>The same pools, listed by the database and by the fakes.\<close>

lemma fakes_do_not_sort:
  "map_sum id (map rp_Kind) (fst (PoolRepo_List (w_repo idle))) = Inr [''cpu'', ''ram'']"
  "map_sum id (map rp_Kind) (fst (Pools_List sample_mem)) = Inr [''ram'', ''cpu'']"
  by code_simp+

lemma sample_calls_run:
  "fst (run_calls (run_call pg_pools pg_quotas pg_products pg_requests) sample_calls (w_repo idle)) = Inr sample_answers"
  by code_simp

lemma sample_calls_sensible: "sensible_run sample_calls idle_tables"
  by code_simp

theorem fakes_answer_like_postgres_witness:
  "fst (run_calls (run_call mem_pools mem_quotas mem_products mem_requests) sample_calls sample_mem) = Inr sample_answers"
proof -
  have s: "pg_inv (w_repo idle)" "pg_view (w_repo idle) = idle_tables" "counters_ok idle_tables"
    using sound_idle by (simp_all add: sound_def ledger_def book_def counters_ok_def idle_def flip: store_def)
  obtain p' where "run_calls (run_call pg_pools pg_quotas pg_products pg_requests) sample_calls (w_repo idle) = (Inr sample_answers, p')"
    using sample_calls_run by (metis prod.collapse)
  from fakes_answer_like_postgres [OF s(1) _ _ _ this, unfolded s(2), OF s(3) sample_mem_agrees sample_calls_sensible]
  show ?thesis by auto
qed

end
