(* ===== verification/Redis_Stores.thy ===== *)
theory Redis_Stores
  imports Service_Lifecycle Sample_World
begin

text \<open>
  The stores on Redis (\<^verbatim>\<open>internal/repository/redisx\<close>). The Redis client is not part of the
  sources: its four commands are parameters, \<open>None\<close> standing for the reply \<^verbatim>\<open>redis.Nil\<close>. What
  the code relies on is \<open>redis_obeys\<close>: a key that GET finds holds what was last SET under it; keys
  may vanish at any time, because they expire or are evicted.
\<close>

subsection \<open>The client and the two stores\<close>

record 'c redis_client =
  rdb_Get :: "string \<Rightarrow> ('c, string option) gor"
  rdb_Set :: "string \<Rightarrow> string \<Rightarrow> duration \<Rightarrow> ('c, unit) gor"
  rdb_Del :: "string \<Rightarrow> ('c, unit) gor"
  rdb_Ping :: "('c, unit) gor"

definition Cache_GetCapacity :: "'c redis_client \<Rightarrow> string \<Rightarrow> ('c, string option) gor" where
  "Cache_GetCapacity C key = rdb_Get C (''capacity:'' @ key)"

definition Cache_SetCapacity :: "'c redis_client \<Rightarrow> string \<Rightarrow> string \<Rightarrow> duration \<Rightarrow> ('c, unit) gor" where
  "Cache_SetCapacity C key value ttl = rdb_Set C (''capacity:'' @ key) value ttl"

definition Cache_InvalidateCapacity :: "'c redis_client \<Rightarrow> string \<Rightarrow> ('c, unit) gor" where
  "Cache_InvalidateCapacity C key = rdb_Del C (''capacity:'' @ key)"

definition Cache_Ping :: "'c redis_client \<Rightarrow> ('c, unit) gor" where
  "Cache_Ping C = rdb_Ping C"

definition redis_cache :: "'c redis_client \<Rightarrow> 'c cache_store" where
  "redis_cache C = \<lparr>cs_GetCapacity = Cache_GetCapacity C, cs_SetCapacity = Cache_SetCapacity C,
     cs_InvalidateCapacity = Cache_InvalidateCapacity C, cs_Ping = Cache_Ping C\<rparr>"

text \<open>\<^verbatim>\<open>fmt.Sprintf("idempotency:%s:%s", customerID, key)\<close>\<close>

definition idemKey :: "string \<Rightarrow> string \<Rightarrow> string" where
  "idemKey customerID key = ''idempotency:'' @ customerID @ '':'' @ key"

definition Idempotency_Get :: "'c redis_client \<Rightarrow> string \<Rightarrow> string \<Rightarrow> ('c, string option) gor" where
  "Idempotency_Get C customerID key = rdb_Get C (idemKey customerID key)"

definition Idempotency_Set :: "'c redis_client \<Rightarrow> string \<Rightarrow> string \<Rightarrow> string \<Rightarrow> duration \<Rightarrow> ('c, unit) gor" where
  "Idempotency_Set C customerID key requestID ttl = rdb_Set C (idemKey customerID key) requestID ttl"

definition redis_idempotency :: "'c redis_client \<Rightarrow> 'c idempotency_store" where
  "redis_idempotency C = \<lparr>is_Get = Idempotency_Get C, is_Set = Idempotency_Set C\<rparr>"

subsection \<open>The degrading stores\<close>

definition DegradingCache_GetCapacity :: "'c redis_client \<Rightarrow> string \<Rightarrow> ('c, string option) gor" where
  "DegradingCache_GetCapacity C key =
     andThen (attempt (Cache_GetCapacity C key)) (\<lambda>r. case r of Inl e \<Rightarrow> ret None | Inr b \<Rightarrow> ret b)"

definition DegradingCache_SetCapacity :: "'c redis_client \<Rightarrow> string \<Rightarrow> string \<Rightarrow> duration \<Rightarrow> ('c, unit) gor" where
  "DegradingCache_SetCapacity C key value ttl = andThen (attempt (Cache_SetCapacity C key value ttl)) (\<lambda>_. ret ())"

definition DegradingCache_InvalidateCapacity :: "'c redis_client \<Rightarrow> string \<Rightarrow> ('c, unit) gor" where
  "DegradingCache_InvalidateCapacity C key = andThen (attempt (Cache_InvalidateCapacity C key)) (\<lambda>_. ret ())"

definition DegradingCache_Ping :: "'c redis_client \<Rightarrow> ('c, unit) gor" where
  "DegradingCache_Ping C = Cache_Ping C"

definition NewDegradingCache :: "'c redis_client \<Rightarrow> 'c cache_store" where
  "NewDegradingCache C = \<lparr>cs_GetCapacity = DegradingCache_GetCapacity C, cs_SetCapacity = DegradingCache_SetCapacity C,
     cs_InvalidateCapacity = DegradingCache_InvalidateCapacity C, cs_Ping = DegradingCache_Ping C\<rparr>"

definition DegradingIdempotency_Get :: "'c redis_client \<Rightarrow> string \<Rightarrow> string \<Rightarrow> ('c, string option) gor" where
  "DegradingIdempotency_Get C customerID key =
     andThen (attempt (Idempotency_Get C customerID key)) (\<lambda>r. case r of Inl e \<Rightarrow> ret None | Inr i \<Rightarrow> ret i)"

definition DegradingIdempotency_Set :: "'c redis_client \<Rightarrow> string \<Rightarrow> string \<Rightarrow> string \<Rightarrow> duration \<Rightarrow> ('c, unit) gor" where
  "DegradingIdempotency_Set C customerID key requestID ttl =
     andThen (attempt (Idempotency_Set C customerID key requestID ttl)) (\<lambda>_. ret ())"

definition NewDegradingIdempotency :: "'c redis_client \<Rightarrow> 'c idempotency_store" where
  "NewDegradingIdempotency C = \<lparr>is_Get = DegradingIdempotency_Get C, is_Set = DegradingIdempotency_Set C\<rparr>"

text \<open>
  \<^verbatim>\<open>newRedisStores\<close> of the wiring: ping once at start; a Redis that does not answer then is never
  asked again.
\<close>

definition newRedisStores :: "'c redis_client \<Rightarrow> 'c \<Rightarrow> (('c cache_store \<times> 'c idempotency_store) \<times> 'c)" where
  "newRedisStores C s =
     (case rdb_Ping C s of
        (Inl e, s') \<Rightarrow> ((NoopCache, NoopIdempotency), s')
      | (Inr _, s') \<Rightarrow> ((NewDegradingCache C, NewDegradingIdempotency C), s'))"

subsection \<open>What the stores promise\<close>

definition redis_obeys :: "'c redis_client \<Rightarrow> ('c \<Rightarrow> string \<Rightarrow> string option) \<Rightarrow> bool" where
  "redis_obeys C content \<longleftrightarrow>
     (\<forall>k s r s'. rdb_Get C k s = (r, s') \<longrightarrow>
        content s' \<subseteq>\<^sub>m content s \<and> (\<forall>v. r = Inr (Some v) \<longrightarrow> content s k = Some v)) \<and>
     (\<forall>k v ttl s r s'. rdb_Set C k v ttl s = (r, s') \<longrightarrow>
        content s' \<subseteq>\<^sub>m content s \<or> content s' \<subseteq>\<^sub>m (content s)(k \<mapsto> v)) \<and>
     (\<forall>k s r s'. rdb_Del C k s = (r, s') \<longrightarrow> content s' \<subseteq>\<^sub>m content s)"

text \<open>
  An idempotency store answers only what was filed under the same composed key, and filing an id
  touches no other composed key.
\<close>

lemma idem_get:
  assumes "redis_obeys C content" and "is_Get (NewDegradingIdempotency C) c k s = (r, s')"
  shows "\<exists>q. r = Inr q \<and> (\<forall>i. q = Some i \<longrightarrow> content s (idemKey c k) = Some i) \<and> content s' \<subseteq>\<^sub>m content s"
proof -
  obtain g s1 where g: "rdb_Get C (idemKey c k) s = (g, s1)" by (rule prod.exhaust)
  with assms(2) have "s' = s1" "r = (case g of Inl e \<Rightarrow> Inr None | Inr q \<Rightarrow> Inr q)"
    by (auto simp: NewDegradingIdempotency_def DegradingIdempotency_Get_def Idempotency_Get_def attempt_def andThen_def
        ret_def split: sum.splits)
  moreover have "content s1 \<subseteq>\<^sub>m content s \<and> (\<forall>v. g = Inr (Some v) \<longrightarrow> content s (idemKey c k) = Some v)"
    using assms(1) g unfolding redis_obeys_def by blast
  ultimately show ?thesis by (cases g) auto
qed

lemma idem_set:
  assumes "redis_obeys C content" and "is_Set (NewDegradingIdempotency C) c k i ttl s = (r, s')"
  shows "r = Inr () \<and> (content s' \<subseteq>\<^sub>m content s \<or> content s' \<subseteq>\<^sub>m (content s)(idemKey c k \<mapsto> i))"
proof -
  obtain g s1 where g: "rdb_Set C (idemKey c k) i ttl s = (g, s1)" by (rule prod.exhaust)
  with assms(2) have "s' = s1" "r = Inr ()"
    by (auto simp: NewDegradingIdempotency_def DegradingIdempotency_Set_def Idempotency_Set_def attempt_def andThen_def ret_def)
  moreover have "content s1 \<subseteq>\<^sub>m content s \<or> content s1 \<subseteq>\<^sub>m (content s)(idemKey c k \<mapsto> i)"
    using assms(1) g unfolding redis_obeys_def by blast
  ultimately show ?thesis by simp
qed

lemma map_le_Some: "f \<subseteq>\<^sub>m g \<Longrightarrow> f x = Some y \<Longrightarrow> g x = Some y"
  by (metis domI map_le_def)

lemma idemKey_inject:
  assumes "colon_free c" and "colon_free d"
  shows "idemKey c k = idemKey d l \<longleftrightarrow> c = d \<and> k = l"
  using colon_joined [OF assms, of k l] by (simp add: idemKey_def)

text \<open>A server: the pairs it stores, or nothing but errors while it is down.\<close>

record redis_state =
  rs_pairs :: "(string \<times> string) list"
  rs_down :: bool

definition commanding :: "(redis_state \<Rightarrow> 'a \<times> redis_state) \<Rightarrow> (redis_state, 'a) gor" where
  "commanding f = (\<lambda>s. if rs_down s then (Inl (Plain ''connection refused''), s)
                     else (case f s of (a, s') \<Rightarrow> (Inr a, s')))"

definition sample_redis :: "redis_state redis_client" where
  "sample_redis = \<lparr>rdb_Get = (\<lambda>k. commanding (\<lambda>s. (map_of (rs_pairs s) k, s))),
     rdb_Set = (\<lambda>k v ttl. commanding (\<lambda>s. ((), s\<lparr>rs_pairs := AList.update k v (rs_pairs s)\<rparr>))),
     rdb_Del = (\<lambda>k. commanding (\<lambda>s. ((), s\<lparr>rs_pairs := AList.delete k (rs_pairs s)\<rparr>))),
     rdb_Ping = commanding (\<lambda>s. ((), s))\<rparr>"

lemma delete_le: "map_of (AList.delete k m) \<subseteq>\<^sub>m map_of m"
  by (auto simp: map_le_def delete_conv')

lemma sample_redis_obeys: "redis_obeys sample_redis (\<lambda>s. map_of (rs_pairs s))"
  unfolding redis_obeys_def
  by (intro conjI allI impI)
    (auto simp: sample_redis_def commanding_def update_conv' delete_le map_le_refl split: if_splits)

end
