(* ===== verification/Redis_Properties.thy ===== *)
theory Redis_Properties
  imports Redis_Stores Create_Properties
begin

text \<open>
  The service with the stores on Redis. What Redis holds under idempotency keys only ever shrinks,
  except where \<^verbatim>\<open>CreateRequest\<close> files the id of the request it returns; so an id found there
  leads back to a request of the same customer and key, provided customer ids have no colon. With a
  colon two customers can share a key, which the last section shows on a concrete run.
\<close>

subsection \<open>What Redis holds under idempotency keys\<close>

definition filed :: "('c \<Rightarrow> string \<Rightarrow> string option) \<Rightarrow> 'c \<Rightarrow> string \<times> string \<Rightarrow> string option" where
  "filed content s = (\<lambda>(c, k). content s (idemKey c k))"

lemma filed_le_keys: "content s' \<subseteq>\<^sub>m g \<Longrightarrow> filed content s' \<subseteq>\<^sub>m (\<lambda>(c, k). g (idemKey c k))"
  unfolding filed_def map_le_def by (auto simp: dom_def)

lemma filed_le: "content s' \<subseteq>\<^sub>m content s \<Longrightarrow> filed content s' \<subseteq>\<^sub>m filed content s"
  using filed_le_keys [of content s' "content s"] by (simp add: filed_def)

lemma capacity_not_idem: "''capacity:'' @ x \<noteq> idemKey c k"
  by (simp add: idemKey_def)

lemma filed_le_capacity: "content s' \<subseteq>\<^sub>m (content s)(''capacity:'' @ x \<mapsto> v) \<Longrightarrow> filed content s' \<subseteq>\<^sub>m filed content s"
  using filed_le_keys [of content s' "(content s)(''capacity:'' @ x \<mapsto> v)"] capacity_not_idem [symmetric]
  by (simp add: filed_def)

text \<open>Code that only lets ids vanish.\<close>

definition forgets :: "('c \<Rightarrow> string \<Rightarrow> string option) \<Rightarrow> (('r, 'c) world \<Rightarrow> 'a \<times> ('r, 'c) world) \<Rightarrow> bool" where
  "forgets content m \<longleftrightarrow> (\<forall>w. filed content (w_redis (snd (m w))) \<subseteq>\<^sub>m filed content (w_redis w))"

named_theorems forgetting "code that only lets filed ids vanish"

lemma forgets_same: "(\<And>w. w_redis (snd (m w)) = w_redis w) \<Longrightarrow> forgets content m"
  by (simp add: forgets_def)

lemma forgets_basic [forgetting]:
  "forgets content (ret a)" "forgets content (fail e)" "forgets content (onRepo p)" "forgets content Now"
  "forgets content uuid_New" "forgets content (count m l)" "forgets content (gauge g l v)"
  by (rule forgets_same, simp add: ret_def fail_def onRepo_def Now_def uuid_New_def count_def gauge_def calling_def
      updating_def split: prod.split)+

lemma forgets_andThen [forgetting]:
  assumes "forgets content m" and "\<And>a. forgets content (f a)"
  shows "forgets content (andThen m f)"
  unfolding forgets_def
proof
  fix w
  obtain r w1 where m: "m w = (r, w1)" by (rule prod.exhaust)
  have 1: "filed content (w_redis w1) \<subseteq>\<^sub>m filed content (w_redis w)" using assms(1) m unfolding forgets_def by (metis snd_conv)
  show "filed content (w_redis (snd (andThen m f w))) \<subseteq>\<^sub>m filed content (w_redis w)"
  proof (cases r)
    case (Inr a)
    have "filed content (w_redis (snd (f a w1))) \<subseteq>\<^sub>m filed content (w_redis w1)" using assms(2) by (simp add: forgets_def)
    from map_le_trans [OF this 1] show ?thesis by (simp add: andThen_def m Inr)
  qed (simp add: andThen_def m 1)
qed

lemma forgets_attempt [forgetting]: "forgets content m \<Longrightarrow> forgets content (attempt m)"
  by (simp add: forgets_def attempt_def split: prod.split) (metis snd_conv)

lemma forgets_ignoring [forgetting]: "forgets content m \<Longrightarrow> forgets content (ignoring m)"
  unfolding ignoring_def by (intro forgetting)

lemma forgets_forEach [forgetting]: "(\<And>x. forgets content (f x)) \<Longrightarrow> forgets content (forEach f xs)"
  by (induction xs) (simp_all add: forgetting)

lemma forgets_collect [forgetting]: "(\<And>x. forgets content (f x)) \<Longrightarrow> forgets content (collect f xs)"
  by (induction xs) (simp_all add: forgetting)

lemma forgets_cases [forgetting]:
  "(b \<Longrightarrow> forgets content m) \<Longrightarrow> (\<not> b \<Longrightarrow> forgets content n) \<Longrightarrow> forgets content (if b then m else n)"
  "forgets content m \<Longrightarrow> (\<And>a. forgets content (f a)) \<Longrightarrow> forgets content (case x of None \<Rightarrow> m | Some a \<Rightarrow> f a)"
  "(\<And>a. forgets content (g a)) \<Longrightarrow> (\<And>b. forgets content (h b)) \<Longrightarrow> forgets content (case y of Inl a \<Rightarrow> g a | Inr b \<Rightarrow> h b)"
  "(\<And>a b. forgets content (q a b)) \<Longrightarrow> forgets content (case z of (a, b) \<Rightarrow> q a b)"
  by (simp_all split: option.split sum.split prod.split)

lemma forgets_WithinTx [forgetting]:
  fixes S :: "('r, 'c) capacity_service" and body :: "(('r, 'c) world, 'a) gor"
  assumes "forgets content body"
  shows "forgets content (WithinTx S body)"
  unfolding forgets_def
proof
  fix w :: "('r, 'c) world"
  obtain r w1 where b: "onRepo (tx_Begin (sv_tx S)) w = (r, w1)" by (rule prod.exhaust)
  have 1: "w_redis w1 = w_redis w" using b by (auto simp: onRepo_def split: prod.splits)
  obtain q w2 where q: "body w1 = (q, w2)" by (rule prod.exhaust)
  have "filed content (w_redis w2) \<subseteq>\<^sub>m filed content (w_redis w)" using assms q 1 unfolding forgets_def by (metis snd_conv)
  moreover obtain x w3 where c: "onRepo (tx_Commit (sv_tx S)) w2 = (x, w3)" by (rule prod.exhaust)
  moreover have "w_redis w3 = w_redis w2" using c by (auto simp: onRepo_def split: prod.splits)
  ultimately show "filed content (w_redis (snd (WithinTx S body w))) \<subseteq>\<^sub>m filed content (w_redis w)"
    by (simp add: WithinTx_def b q c 1 split: sum.split)
qed

lemma forgets_deferring [forgetting]:
  assumes "forgets content d" and "forgets content m"
  shows "forgets content (deferring d m)"
  unfolding forgets_def
proof
  fix w
  obtain r w1 where m: "m w = (r, w1)" by (rule prod.exhaust)
  have "filed content (w_redis w1) \<subseteq>\<^sub>m filed content (w_redis w)" using assms(2) m unfolding forgets_def by (metis snd_conv)
  moreover have "filed content (w_redis (snd (d w1))) \<subseteq>\<^sub>m filed content (w_redis w1)" using assms(1) by (simp add: forgets_def)
  ultimately show "filed content (w_redis (snd (deferring d m w))) \<subseteq>\<^sub>m filed content (w_redis w)"
    by (auto simp: deferring_def m intro: map_le_trans)
qed

subsection \<open>The calls of the service\<close>

text \<open>The stores the wiring picks when Redis answers at start.\<close>

definition redis_service :: "'c redis_client \<Rightarrow> config \<Rightarrow> environment \<Rightarrow> (pg_state, 'c) capacity_service" where
  "redis_service C cfg E = pg_service (NewDegradingCache C) (NewDegradingIdempotency C) cfg E"

lemma redis_service_sel [simp]:
  "sv_pools (redis_service C cfg E) = pg_pools" "sv_quotas (redis_service C cfg E) = pg_quotas"
  "sv_products (redis_service C cfg E) = pg_products" "sv_requests (redis_service C cfg E) = pg_requests"
  "sv_tx (redis_service C cfg E) = pg_tx" "sv_lock (redis_service C cfg E) = pg_locker"
  "sv_cache (redis_service C cfg E) = NewDegradingCache C" "sv_idem (redis_service C cfg E) = NewDegradingIdempotency C"
  "sv_cfg (redis_service C cfg E) = cfg" "sv_env (redis_service C cfg E) = E"
  by (simp_all add: redis_service_def)

lemma forgets_redis:
  assumes "\<And>s r s'. m s = (r, s') \<Longrightarrow> filed content s' \<subseteq>\<^sub>m filed content s"
  shows "forgets content (onRedis m)"
  unfolding forgets_def onRedis_def
proof
  fix w
  obtain r s' where "m (w_redis w) = (r, s')" by (rule prod.exhaust)
  with assms [OF this] show "filed content (w_redis (snd (case m (w_redis w) of (r, s) \<Rightarrow> (r, w\<lparr>w_redis := s\<rparr>))))
      \<subseteq>\<^sub>m filed content (w_redis w)" by simp
qed

lemma obeysD:
  assumes "redis_obeys C content"
  shows "rdb_Get C k s = (r1, s') \<Longrightarrow> content s' \<subseteq>\<^sub>m content s"
    and "rdb_Set C k v ttl s = (r2, s') \<Longrightarrow> content s' \<subseteq>\<^sub>m content s \<or> content s' \<subseteq>\<^sub>m (content s)(k \<mapsto> v)"
    and "rdb_Del C k s = (r3, s') \<Longrightarrow> content s' \<subseteq>\<^sub>m content s"
  using assms unfolding redis_obeys_def by blast+

lemma degraded_run:
  assumes "andThen (attempt m) f s = (r, s')" and "\<And>a. \<exists>b. f a = ret b"
  obtains q where "m s = (q, s')"
proof -
  obtain q s1 where m: "m s = (q, s1)" by (rule prod.exhaust)
  obtain b where "f q = ret b" using assms(2) by blast
  with assms(1) m have "s' = s1" by (simp add: attempt_def andThen_def ret_def)
  with m that show thesis by simp
qed

lemma forgets_cache:
  assumes ob: "redis_obeys C content"
  shows "forgets content (onRedis (cs_GetCapacity (NewDegradingCache C) key))"
    and "forgets content (onRedis (cs_SetCapacity (NewDegradingCache C) key v ttl))"
    and "forgets content (onRedis (cs_InvalidateCapacity (NewDegradingCache C) key))"
    and "forgets content (onRedis (is_Get (NewDegradingIdempotency C) c k))"
proof -
  show "forgets content (onRedis (cs_GetCapacity (NewDegradingCache C) key))"
  proof (rule forgets_redis)
    fix s r s' assume "cs_GetCapacity (NewDegradingCache C) key s = (r, s')"
    then obtain q where "rdb_Get C (''capacity:'' @ key) s = (q, s')"
      by (auto simp: NewDegradingCache_def DegradingCache_GetCapacity_def Cache_GetCapacity_def
          elim!: degraded_run split: sum.split)
    from filed_le [OF obeysD(1) [OF ob this]] show "filed content s' \<subseteq>\<^sub>m filed content s" .
  qed
  show "forgets content (onRedis (cs_SetCapacity (NewDegradingCache C) key v ttl))"
  proof (rule forgets_redis)
    fix s r s' assume "cs_SetCapacity (NewDegradingCache C) key v ttl s = (r, s')"
    then obtain q where "rdb_Set C (''capacity:'' @ key) v ttl s = (q, s')"
      by (auto simp: NewDegradingCache_def DegradingCache_SetCapacity_def Cache_SetCapacity_def elim!: degraded_run)
    from obeysD(2) [OF ob this] filed_le [of content] filed_le_capacity [of content] show "filed content s' \<subseteq>\<^sub>m filed content s" by blast
  qed
  show "forgets content (onRedis (cs_InvalidateCapacity (NewDegradingCache C) key))"
  proof (rule forgets_redis)
    fix s r s' assume "cs_InvalidateCapacity (NewDegradingCache C) key s = (r, s')"
    then obtain q where "rdb_Del C (''capacity:'' @ key) s = (q, s')"
      by (auto simp: NewDegradingCache_def DegradingCache_InvalidateCapacity_def Cache_InvalidateCapacity_def elim!: degraded_run)
    from filed_le [OF obeysD(3) [OF ob this]] show "filed content s' \<subseteq>\<^sub>m filed content s" .
  qed
  show "forgets content (onRedis (is_Get (NewDegradingIdempotency C) c k))"
  proof (rule forgets_redis)
    fix s r s' assume "is_Get (NewDegradingIdempotency C) c k s = (r, s')"
    from idem_get [OF ob this] show "filed content s' \<subseteq>\<^sub>m filed content s" by (blast intro: filed_le)
  qed
qed

lemmas forgets_calls = Confirm_def confirm_body_def confirm_write_def confirm_hold_def Cancel_def releaseReserved_def
  release_read_def release_write_def release_hold_def Extend_def ExpireDue_def expire_body_def expire_one_def
  ListCapacity_def ListProducts_def GetRequest_def ListRequests_def Let_def

lemma forgets_Confirm:
  assumes "redis_obeys C content"
  shows "forgets content (Confirm (redis_service C cfg E) i)"
  unfolding forgets_calls redis_service_sel by (intro forgetting forgets_cache [OF assms])

lemma forgets_releaseReserved: "forgets content (releaseReserved (redis_service C cfg E) req st)"
  unfolding forgets_calls redis_service_sel by (intro forgetting)

lemma forgets_Cancel:
  assumes "redis_obeys C content"
  shows "forgets content (Cancel (redis_service C cfg E) i)"
  unfolding Cancel_def redis_service_sel by (intro forgetting forgets_cache [OF assms] forgets_releaseReserved)

lemma forgets_Extend:
  shows "forgets content (Extend (redis_service C cfg E) i)"
  unfolding forgets_calls redis_service_sel by (intro forgetting)

lemma forgets_ExpireDue:
  assumes "redis_obeys C content"
  shows "forgets content (ExpireDue (redis_service C cfg E))"
  unfolding ExpireDue_def expire_body_def expire_one_def Let_def redis_service_sel
  by (intro forgetting forgets_cache [OF assms] forgets_releaseReserved)

lemma forgets_ListCapacity:
  assumes "redis_obeys C content"
  shows "forgets content (ListCapacity (redis_service C cfg E) c)"
  unfolding ListCapacity_def Let_def redis_service_sel by (intro forgetting forgets_cache [OF assms])

lemma forgets_reads:
  "forgets content (ListProducts (redis_service C cfg E))" "forgets content (GetRequest (redis_service C cfg E) i)"
  "forgets content (ListRequests (redis_service C cfg E) c st)"
  unfolding forgets_calls redis_service_sel by (intro forgetting)+

subsection \<open>What a creation files\<close>

definition refile :: "string \<Rightarrow> string \<Rightarrow> string \<Rightarrow> (string \<times> string \<Rightarrow> string option) \<Rightarrow> string \<times> string \<Rightarrow> string option" where
  "refile c k i f = (\<lambda>(d, l). if idemKey d l = idemKey c k then Some i else f (d, l))"

text \<open>At most the id of the request a call returns is filed; \<open>g\<close> reads the request off the value.\<close>

definition files ::
    "('c \<Rightarrow> string \<Rightarrow> string option) \<Rightarrow> ('a \<Rightarrow> capacity_request option) \<Rightarrow> environment \<Rightarrow> string \<Rightarrow> string \<Rightarrow>
     (('r, 'c) world, 'a) gor \<Rightarrow> bool" where
  "files content g E c k m \<longleftrightarrow> (\<forall>w r w'. m w = (r, w') \<longrightarrow>
     filed content (w_redis w') \<subseteq>\<^sub>m filed content (w_redis w) \<or>
     (\<exists>a req. r = Inr a \<and> g a = Some req \<and> filed content (w_redis w') \<subseteq>\<^sub>m refile c k (en_uuid_String E (cr_ID req)) (filed content (w_redis w))))"

lemma refile_mono: "f \<subseteq>\<^sub>m g \<Longrightarrow> refile c k i f \<subseteq>\<^sub>m refile c k i g"
  by (auto simp: refile_def map_le_def dom_def)

lemma files_forgets: "forgets content m \<Longrightarrow> files content g E c k m"
  unfolding files_def forgets_def by (metis snd_conv)

lemma files_andThen:
  assumes "forgets content m" and "\<And>a. files content g E c k (f a)"
  shows "files content g E c k (andThen m f)"
  unfolding files_def
proof (intro allI impI)
  fix w r w'
  assume run: "andThen m f w = (r, w')"
  obtain q w1 where m: "m w = (q, w1)" by (rule prod.exhaust)
  have 1: "filed content (w_redis w1) \<subseteq>\<^sub>m filed content (w_redis w)" using assms(1) m unfolding forgets_def by (metis snd_conv)
  show "filed content (w_redis w') \<subseteq>\<^sub>m filed content (w_redis w) \<or>
     (\<exists>a req. r = Inr a \<and> g a = Some req \<and> filed content (w_redis w') \<subseteq>\<^sub>m refile c k (en_uuid_String E (cr_ID req)) (filed content (w_redis w)))"
  proof (cases q)
    case (Inl e)
    with run m 1 show ?thesis by (simp add: andThen_def)
  next
    case (Inr a)
    with run m have "f a w1 = (r, w')" by (simp add: andThen_def)
    with assms(2) [of a] have "filed content (w_redis w') \<subseteq>\<^sub>m filed content (w_redis w1) \<or>
     (\<exists>a req. r = Inr a \<and> g a = Some req \<and> filed content (w_redis w') \<subseteq>\<^sub>m refile c k (en_uuid_String E (cr_ID req)) (filed content (w_redis w1)))"
      unfolding files_def by blast
    with 1 show ?thesis by (blast intro: map_le_trans refile_mono)
  qed
qed

lemma files_cases:
  "files content g E c k m \<Longrightarrow> files content g E c k n \<Longrightarrow> files content g E c k (if b then m else n)"
  "files content g E c k m \<Longrightarrow> (\<And>a. files content g E c k (f a)) \<Longrightarrow> files content g E c k (case x of None \<Rightarrow> m | Some a \<Rightarrow> f a)"
  "(\<And>a. files content g E c k (p a)) \<Longrightarrow> (\<And>b. files content g E c k (h b)) \<Longrightarrow>
   files content g E c k (case y of Inl a \<Rightarrow> p a | Inr b \<Rightarrow> h b)"
  "(\<And>a b. files content g E c k (q a b)) \<Longrightarrow> files content g E c k (case z of (a, b) \<Rightarrow> q a b)"
  by (simp_all split: option.split sum.split prod.split)

text \<open>Filing the id, then code that forgets at most and returns the request.\<close>

lemma files_set:
  assumes ob: "redis_obeys C content" and m: "forgets content m" and r: "\<And>w. fst (m w) = Inr a" and a: "g a = Some req"
  shows "files content g E c k (andThen (ignoring (onRedis (is_Set (NewDegradingIdempotency C) c k (en_uuid_String E (cr_ID req)) ttl))) (\<lambda>_. m))"
  unfolding files_def
proof (intro allI impI)
  fix w q w'
  assume run: "andThen (ignoring (onRedis (is_Set (NewDegradingIdempotency C) c k (en_uuid_String E (cr_ID req)) ttl))) (\<lambda>_. m) w = (q, w')"
  obtain x s where s: "is_Set (NewDegradingIdempotency C) c k (en_uuid_String E (cr_ID req)) ttl (w_redis w) = (x, s)" by (rule prod.exhaust)
  with run have "m (w\<lparr>w_redis := s\<rparr>) = (q, w')"
    by (simp add: andThen_def ignoring_def attempt_def onRedis_def ret_def)
  with r m have q: "q = Inr a" and le: "filed content (w_redis w') \<subseteq>\<^sub>m filed content s"
    unfolding forgets_def by (metis fst_conv, metis snd_conv world.select_convs(2) world.surjective world.update_convs(2))
  from idem_set [OF ob s] have "filed content s \<subseteq>\<^sub>m filed content (w_redis w) \<or>
      filed content s \<subseteq>\<^sub>m refile c k (en_uuid_String E (cr_ID req)) (filed content (w_redis w))"
    using filed_le_keys [of content s] by (auto simp: filed_def refile_def fun_upd_def)
  with le q a show "filed content (w_redis w') \<subseteq>\<^sub>m filed content (w_redis w) \<or>
     (\<exists>a req. q = Inr a \<and> g a = Some req \<and> filed content (w_redis w') \<subseteq>\<^sub>m refile c k (en_uuid_String E (cr_ID req)) (filed content (w_redis w)))"
    by (blast intro: map_le_trans)
qed

lemma returns_ignoring: "(\<And>w. fst (m w) = Inr a) \<Longrightarrow> fst (andThen (ignoring n) (\<lambda>_. m) w) = Inr a"
  by (simp add: andThen_def ignoring_def attempt_def ret_def split: prod.split)

lemma files_recordOutcome:
  assumes ob: "redis_obeys C content"
  shows "files content Some E (ci_CustomerID inp) (ci_IdempotencyKey inp)
    (andThen (recordOutcome (redis_service C cfg E) inp req result) (\<lambda>_. ret req))"
proof -
  have set: "files content Some E (ci_CustomerID inp) (ci_IdempotencyKey inp)
      (andThen (ignoring (onRedis (is_Set (NewDegradingIdempotency C) (ci_CustomerID inp) (ci_IdempotencyKey inp)
          (en_uuid_String E (cr_ID req)) ttl))) (\<lambda>_.
       andThen (ignoring (onRedis (cs_InvalidateCapacity (NewDegradingCache C) a))) (\<lambda>_.
       andThen (ignoring (onRedis (cs_InvalidateCapacity (NewDegradingCache C) b))) (\<lambda>_. ret req))))" for a b ttl
    by (rule files_set [OF ob, where a = req]) (intro forgetting forgets_cache [OF ob], intro returns_ignoring, simp_all add: ret_def)
  show ?thesis
    unfolding recordOutcome_def andThen_assoc redis_service_sel
    by (intro files_andThen files_cases forgetting set)
qed

lemma forgets_create_parts:
  "forgets content (enforceActiveHoldsLimit (redis_service C cfg E) c)"
  "forgets content (buildReservationPlan (redis_service C cfg E) inp)"
  "forgets content (reserveWithinTx (redis_service C cfg E) plans product inp i now expires hash)"
  "forgets content (replayAfterDuplicate (redis_service C cfg E) inp hash)"
  "forgets content (persistRejected (redis_service C cfg E) inp i now plans product rej hash)"
  unfolding enforceActiveHoldsLimit_def buildReservationPlan_def resolveLines_def plan_for_def reserveWithinTx_def reserve_body_def
    reserve_line_def buildLines_def buildHolds_def replayAfterDuplicate_def matchIdempotentBody_def persistRejected_def
    Let_def redis_service_sel
  by (intro forgetting)+

lemma files_create_new:
  assumes ob: "redis_obeys C content"
  shows "files content Some E (ci_CustomerID inp) (ci_IdempotencyKey inp) (create_new (redis_service C cfg E) inp hash)"
  unfolding create_new_def
  by (intro files_andThen files_cases forgetting forgets_create_parts files_recordOutcome [OF ob] files_forgets)

lemma match_returns: "\<not> (cr_BodyHash x \<noteq> [] \<and> cr_BodyHash x \<noteq> hash) \<Longrightarrow> matchIdempotentBody E x hash = ret x"
  by (auto simp: matchIdempotentBody_def)

lemma files_checkIdempotentReplay:
  assumes ob: "redis_obeys C content"
  shows "files content (\<lambda>q. q) E (ci_CustomerID inp) (ci_IdempotencyKey inp) (checkIdempotentReplay (redis_service C cfg E) inp hash)"
proof -
  have match: "files content (\<lambda>q. q) E (ci_CustomerID inp) (ci_IdempotencyKey inp)
      (andThen (matchIdempotentBody E x hash) (\<lambda>matched.
       andThen (ignoring (onRedis (is_Set (NewDegradingIdempotency C) (ci_CustomerID inp) (ci_IdempotencyKey inp)
          (en_uuid_String E (cr_ID x)) ttl))) (\<lambda>_. ret (Some matched))))" for x ttl
  proof (cases "cr_BodyHash x \<noteq> [] \<and> cr_BodyHash x \<noteq> hash")
    case True
    then show ?thesis unfolding matchIdempotentBody_def by (simp add: files_forgets forgetting)
  next
    case False
    show ?thesis
      unfolding match_returns [OF False] andThen_ret
      by (rule files_set [OF ob, where a = "Some x"], simp_all add: forgetting, simp add: ret_def)
  qed
  have fast: "forgets content (replay_fast (redis_service C cfg E) inp)"
    unfolding replay_fast_def redis_service_sel by (intro forgetting forgets_cache [OF ob])
  show ?thesis
    unfolding checkIdempotentReplay_def redis_service_sel
    by (intro files_andThen files_cases fast match forgetting files_forgets) (simp add: matchIdempotentBody_def forgetting)
qed

lemma files_bind:
  assumes m: "files content (\<lambda>q. q) E c k m" and f: "files content Some E c k (f None)" and s: "\<And>x. f (Some x) = ret x"
  shows "files content Some E c k (andThen m f)"
  unfolding files_def
proof (intro allI impI)
  fix w r w'
  assume run: "andThen m f w = (r, w')"
  obtain q w1 where q: "m w = (q, w1)" by (rule prod.exhaust)
  from m q have 1: "filed content (w_redis w1) \<subseteq>\<^sub>m filed content (w_redis w) \<or>
     (\<exists>req. q = Inr (Some req) \<and> filed content (w_redis w1) \<subseteq>\<^sub>m refile c k (en_uuid_String E (cr_ID req)) (filed content (w_redis w)))"
    unfolding files_def by blast
  show "filed content (w_redis w') \<subseteq>\<^sub>m filed content (w_redis w) \<or>
     (\<exists>a req. r = Inr a \<and> Some a = Some req \<and> filed content (w_redis w') \<subseteq>\<^sub>m refile c k (en_uuid_String E (cr_ID req)) (filed content (w_redis w)))"
  proof (cases "q = Inr None")
    case True
    with run q have "f None w1 = (r, w')" by (simp add: andThen_def)
    with f have "filed content (w_redis w') \<subseteq>\<^sub>m filed content (w_redis w1) \<or>
     (\<exists>a req. r = Inr a \<and> Some a = Some req \<and> filed content (w_redis w') \<subseteq>\<^sub>m refile c k (en_uuid_String E (cr_ID req)) (filed content (w_redis w1)))"
      unfolding files_def by blast
    with 1 True show ?thesis by (blast intro: map_le_trans refile_mono)
  next
    case False
    with run q s 1 show ?thesis by (cases q) (auto simp: andThen_def ret_def)
  qed
qed

lemma files_CreateRequest:
  assumes ob: "redis_obeys C content"
  shows "files content Some E (ci_CustomerID inp) (ci_IdempotencyKey inp) (CreateRequest (redis_service C cfg E) inp)"
proof -
  have main: "files content Some E (ci_CustomerID inp) (ci_IdempotencyKey inp)
      (andThen (checkIdempotentReplay (redis_service C cfg E) (inp\<lparr>ci_CorrelationID := cor\<rparr>) hash) (\<lambda>replayed.
       case replayed of Some existing \<Rightarrow> ret existing | None \<Rightarrow> create_new (redis_service C cfg E) (inp\<lparr>ci_CorrelationID := cor\<rparr>) hash))"
    for cor hash
    using files_checkIdempotentReplay [OF ob, of E "inp\<lparr>ci_CorrelationID := cor\<rparr>"] files_create_new [OF ob, of E "inp\<lparr>ci_CorrelationID := cor\<rparr>"]
    by (intro files_bind) simp_all
  have last: "files content Some E (ci_CustomerID inp) (ci_IdempotencyKey inp)
      (andThen (if ci_CorrelationID inp = [] then
                  andThen uuid_New (\<lambda>i. ret (inp\<lparr>ci_CorrelationID := en_uuid_String E i\<rparr>))
                else ret inp) (\<lambda>inp.
       andThen (checkIdempotentReplay (redis_service C cfg E) inp (computeBodyHash E inp)) (\<lambda>replayed.
       case replayed of Some existing \<Rightarrow> ret existing
       | None \<Rightarrow> create_new (redis_service C cfg E) inp (computeBodyHash E inp))))"
  proof (cases "ci_CorrelationID inp = []")
    case True
    show ?thesis
      unfolding if_P [OF True] andThen_assoc andThen_ret by (rule files_andThen [OF forgets_basic(5) main])
  next
    case False
    have "inp\<lparr>ci_CorrelationID := ci_CorrelationID inp\<rparr> = inp" by simp
    from main [of "ci_CorrelationID inp", unfolded this] show ?thesis unfolding if_not_P [OF False] andThen_ret .
  qed
  then show ?thesis
    unfolding CreateRequest_def Let_def redis_service_sel
    by (intro files_cases files_forgets [OF forgets_basic(2)]) simp
qed

subsection \<open>Whose request comes back\<close>

definition yields :: "('s, 'e, 'a) go \<Rightarrow> ('a \<Rightarrow> bool) \<Rightarrow> bool" where
  "yields m P \<longleftrightarrow> (\<forall>s a s'. m s = (Inr a, s') \<longrightarrow> P a)"

lemma yieldsD: "yields m P \<Longrightarrow> m s = (Inr a, s') \<Longrightarrow> P a"
  unfolding yields_def by blast

lemma yields_ret: "P a \<Longrightarrow> yields (ret a) P"
  and yields_fail: "yields (fail e) Q"
  by (auto simp: yields_def)

lemma yields_andThen: "(\<And>a. yields (f a) P) \<Longrightarrow> yields (andThen m f) P"
  by (auto simp: yields_def andThen_Inr_iff)

lemma yields_if: "(b \<Longrightarrow> yields m P) \<Longrightarrow> (\<not> b \<Longrightarrow> yields n P) \<Longrightarrow> yields (if b then m else n) P"
  by simp

lemmas yields_intros = yields_ret yields_fail yields_andThen yields_if

lemma yields_bind: "yields m Q \<Longrightarrow> (\<And>a. Q a \<Longrightarrow> yields (f a) P) \<Longrightarrow> yields (andThen m f) P"
  unfolding yields_def andThen_Inr_iff by blast

lemma yields_attempt: "yields m P \<Longrightarrow> yields (attempt m) (\<lambda>q. \<forall>a. q = Inr a \<longrightarrow> P a)"
  unfolding yields_def attempt_iff by blast

lemma yields_onRepo: "(\<And>s a s'. m s = (Inr a, s') \<Longrightarrow> P a) \<Longrightarrow> yields (onRepo m) P"
  by (auto simp: yields_def onRepo_def split: prod.splits)

lemma yields_WithinTx: "yields body P \<Longrightarrow> yields (WithinTx S body) P"
  by (auto simp: yields_def WithinTx_def split: prod.splits sum.splits)

definition own :: "create_input \<Rightarrow> capacity_request \<Rightarrow> bool" where
  "own inp req \<longleftrightarrow> cr_CustomerID req = ci_CustomerID inp \<and> cr_IdempotencyKey req = ci_IdempotencyKey inp"

lemma yields_match: "own inp x \<Longrightarrow> yields (matchIdempotentBody E x hash) (own inp)"
  by (auto simp: yields_def matchIdempotentBody_def split: if_splits)

lemma yields_find:
  "yields (onRepo (rr_FindByIdempotency (sv_requests (redis_service C cfg E)) (ci_CustomerID inp) (ci_IdempotencyKey inp)))
     (\<lambda>q. \<forall>x. q = Some x \<longrightarrow> own inp x)"
proof (rule yields_onRepo)
  fix s q s'
  assume "rr_FindByIdempotency (sv_requests (redis_service C cfg E)) (ci_CustomerID inp) (ci_IdempotencyKey inp) s = (Inr q, s')"
  then have "mapErr (Errorf ''find by idempotency'') (sql_select (find_idem (ci_CustomerID inp) (ci_IdempotencyKey inp))) s = (Inr q, s')"
    by (simp add: RequestRepo_FindByIdempotency_def)
  from mapErr_select_cases [OF this] show "\<forall>x. q = Some x \<longrightarrow> own inp x"
    by (auto simp: own_def dest!: find_idem_member)
qed

lemma yields_replayAfterDuplicate: "yields (replayAfterDuplicate (redis_service C cfg E) inp hash) (own inp)"
  unfolding replayAfterDuplicate_def
  by (rule yields_bind [OF yields_find]) (auto simp: yields_intros(2) yields_match split: option.split)

lemma yields_reserveWithinTx:
  "yields (reserveWithinTx S plans product inp i now expires hash) (\<lambda>q. \<forall>req. q = Inr req \<longrightarrow> own inp req)"
proof -
  have "yields (reserve_body S plans product inp i now expires hash) (own inp)"
    unfolding reserve_body_def Let_def by (intro yields_intros) (simp add: own_def reserved_request_def)
  from yields_attempt [OF yields_WithinTx [OF this]] show ?thesis
    unfolding reserveWithinTx_def
    by (rule yields_bind) (auto intro!: yields_intros split: sum.split option.split)
qed

lemma yields_persistRejected:
  "yields (persistRejected (redis_service C cfg E) inp i now plans product rej hash) (own inp)"
  unfolding persistRejected_def Let_def
  by (intro yields_intros)
    (auto intro!: yields_intros yields_replayAfterDuplicate simp: own_def rejected_request_def split: sum.split)

lemma yields_create_new: "yields (create_new (redis_service C cfg E) inp hash) (own inp)"
proof -
  have rec: "own inp req \<Longrightarrow> yields (andThen (recordOutcome (redis_service C cfg E) inp req result) (\<lambda>_. ret req)) (own inp)" for req result
    by (intro yields_intros)
  have tail: "yields (case q of
          Inl e \<Rightarrow> if is_duplicate e then replayAfterDuplicate (redis_service C cfg E) inp hash else fail e
        | Inr (Inl rej) \<Rightarrow>
            andThen (persistRejected (redis_service C cfg E) inp i now plans product rej hash) (\<lambda>req.
            andThen (recordOutcome (redis_service C cfg E) inp req ''rejected'') (\<lambda>_. ret req))
        | Inr (Inr reserved) \<Rightarrow>
            andThen (recordOutcome (redis_service C cfg E) inp reserved ''reserved'') (\<lambda>_. ret reserved)) (own inp)"
    if "\<forall>a. q = Inr a \<longrightarrow> (\<forall>req. a = Inr req \<longrightarrow> own inp req)" for q i now plans product
    using that yields_bind [OF yields_persistRejected rec]
    by (auto intro!: yields_intros(2,4) yields_replayAfterDuplicate rec split: sum.split)
  show ?thesis
    unfolding create_new_def
    by (intro yields_intros(3), simp only: split_def, intro yields_intros(3) yields_bind [OF yields_attempt [OF yields_reserveWithinTx] tail])
qed

definition filed_ok :: "('c \<Rightarrow> string \<Rightarrow> string option) \<Rightarrow> environment \<Rightarrow> (pg_state, 'c) world \<Rightarrow> bool" where
  "filed_ok content E w \<longleftrightarrow>
     (\<forall>c k i. colon_free c \<and> content (w_redis w) (idemKey c k) = Some i \<longrightarrow>
        (\<exists>x. find_idem c k (store w) = Some x \<and> i = en_uuid_String E (cr_ID x)))"

lemma own_unstamp: "own inp (unstamp_request x) = own inp x"
  by (simp add: own_def)

lemma find_idem_own: "find_idem (ci_CustomerID inp) (ci_IdempotencyKey inp) t = Some x \<Longrightarrow> own inp x"
  by (drule find_idem_member) (simp add: own_def)

lemma fast_own:
  assumes ob: "redis_obeys C content" and uuids: "\<And>u. en_uuid_Parse E (en_uuid_String E u) = Some u"
    and inv: "pg_inv (w_repo w)" "requests_distinct (store w)" and ok: "filed_ok content E w"
    and cf: "colon_free (ci_CustomerID inp)"
    and run: "replay_fast (redis_service C cfg E) inp w = (Inr (Some x), w')"
  shows "own inp x"
proof -
  obtain g s1 where g: "is_Get (NewDegradingIdempotency C) (ci_CustomerID inp) (ci_IdempotencyKey inp) (w_redis w) = (g, s1)"
    by (rule prod.exhaust)
  from idem_get [OF ob g] obtain q where q: "g = Inr q"
    "\<And>i. q = Some i \<Longrightarrow> content (w_redis w) (idemKey (ci_CustomerID inp) (ci_IdempotencyKey inp)) = Some i" by auto
  from run g q(1) obtain i uid where i: "q = Some i" "en_uuid_Parse E i = Some uid"
    and get: "onRepo (RequestRepo_Get uid) (w\<lparr>w_redis := s1\<rparr>) = (Inr (Some x), w')"
    by (auto simp: replay_fast_def andThen_def attempt_def onRedis_def ret_def split: option.splits)
  from q(2) [OF i(1)] ok cf obtain y where
    y: "find_idem (ci_CustomerID inp) (ci_IdempotencyKey inp) (store w) = Some y" "i = en_uuid_String E (cr_ID y)"
    unfolding filed_ok_def by blast
  with i(2) uuids have uid: "uid = cr_ID y" by simp
  obtain p where p: "RequestRepo_Get uid (w_repo w) = (Inr (Some x), p)"
    using get by (auto simp: onRepo_def split: prod.splits)
  from pg_Get [OF inv(1) p] have "find_request (cr_ID y) (store w) = Some (unstamp_request x)"
    by (simp add: store_def uid)
  moreover have "find_request (cr_ID y) (store w) = Some y"
    using find_idem_member [OF y(1)] inv(2) by (simp add: find_request_def requests_distinct_def find_Some_iff_distinct)
  ultimately have "y = unstamp_request x" by simp
  with find_idem_own [OF y(1)] show ?thesis by (simp add: own_unstamp)
qed

lemma check_own:
  assumes ob: "redis_obeys C content" and uuids: "\<And>u. en_uuid_Parse E (en_uuid_String E u) = Some u"
    and inv: "pg_inv (w_repo w)" "requests_distinct (store w)" and ok: "filed_ok content E w"
    and cf: "colon_free (ci_CustomerID inp)"
    and run: "checkIdempotentReplay (redis_service C cfg E) inp hash w = (Inr (Some req), w')"
  shows "own inp req"
proof -
  from run obtain fast w1 where fast: "replay_fast (redis_service C cfg E) inp w = (Inr fast, w1)"
    and rest: "(case fast of
       Some existing \<Rightarrow> andThen (matchIdempotentBody E existing hash) (\<lambda>r. ret (Some r))
     | None \<Rightarrow>
         andThen (onRepo (rr_FindByIdempotency (sv_requests (redis_service C cfg E)) (ci_CustomerID inp) (ci_IdempotencyKey inp)))
           (\<lambda>found. case found of
              None \<Rightarrow> ret None
            | Some existing \<Rightarrow>
                andThen (matchIdempotentBody E existing hash) (\<lambda>matched.
                andThen (ignoring (onRedis (is_Set (NewDegradingIdempotency C) (ci_CustomerID inp) (ci_IdempotencyKey inp)
                                     (en_uuid_String E (cr_ID existing)) (cfg_ReserveTTL cfg * 2))))
                (\<lambda>_. ret (Some matched))))) w1 = (Inr (Some req), w')"
    unfolding checkIdempotentReplay_def redis_service_sel andThen_Inr_iff by blast
  show ?thesis
  proof (cases fast)
    case (Some x)
    from fast_own [OF ob uuids inv ok cf fast [unfolded Some]] rest Some show ?thesis
      by (auto simp: matchIdempotentBody_def andThen_def ret_def fail_def split: if_splits)
  next
    case None
    have matched: "own inp x \<Longrightarrow> yields (andThen (matchIdempotentBody E x hash) (\<lambda>matched.
        andThen (ignoring m) (\<lambda>_. ret (Some matched)))) (\<lambda>q. \<forall>r. q = Some r \<longrightarrow> own inp r)" for x m
      by (rule yields_bind [OF yields_match]) (auto intro: yields_intros)
    have "yields (andThen (onRepo (rr_FindByIdempotency (sv_requests (redis_service C cfg E)) (ci_CustomerID inp) (ci_IdempotencyKey inp)))
           (\<lambda>found. case found of
              None \<Rightarrow> ret None
            | Some existing \<Rightarrow>
                andThen (matchIdempotentBody E existing hash) (\<lambda>matched.
                andThen (ignoring (onRedis (is_Set (NewDegradingIdempotency C) (ci_CustomerID inp) (ci_IdempotencyKey inp)
                                     (en_uuid_String E (cr_ID existing)) (cfg_ReserveTTL cfg * 2))))
                (\<lambda>_. ret (Some matched))))) (\<lambda>q. \<forall>r. q = Some r \<longrightarrow> own inp r)"
      by (rule yields_bind [OF yields_find]) (auto intro: yields_intros matched split: option.split)
    from yieldsD [OF this, of w1 "Some req" w'] rest None show ?thesis by simp
  qed
qed

lemma create_own:
  assumes ob: "redis_obeys C content" and uuids: "\<And>u. en_uuid_Parse E (en_uuid_String E u) = Some u"
    and inv: "pg_inv (w_repo w)" "requests_distinct (store w)" and ok: "filed_ok content E w"
    and cf: "colon_free (ci_CustomerID inp)"
    and run: "CreateRequest (redis_service C cfg E) inp w = (Inr req, w')"
  shows "own inp req"
proof -
  have checked: "own inp req"
    if rest: "andThen (checkIdempotentReplay (redis_service C cfg E) inp' hash) (\<lambda>replayed.
       case replayed of Some existing \<Rightarrow> ret existing
       | None \<Rightarrow> create_new (redis_service C cfg E) inp' hash) w1 = (Inr req, w')"
      and same: "w_repo w1 = w_repo w" "w_redis w1 = w_redis w" and inp': "own inp' = own inp" "ci_CustomerID inp' = ci_CustomerID inp"
    for w1 inp' hash
  proof -
    from rest obtain replayed w2 where c: "checkIdempotentReplay (redis_service C cfg E) inp' hash w1 = (Inr replayed, w2)"
      and n: "(case replayed of Some existing \<Rightarrow> ret existing | None \<Rightarrow> create_new (redis_service C cfg E) inp' hash) w2 = (Inr req, w')"
      unfolding andThen_Inr_iff by blast
    have st: "store w1 = store w" by (simp add: store_def same)
    have "pg_inv (w_repo w1)" "requests_distinct (store w1)" "filed_ok content E w1" "colon_free (ci_CustomerID inp')"
      using inv ok cf by (simp_all add: same st inp' filed_ok_def)
    note found = check_own [OF ob uuids this]
    show ?thesis
    proof (cases replayed)
      case (Some x)
      from found [OF c [unfolded Some]] n Some inp'(1) show ?thesis by (simp add: ret_def)
    next
      case None
      from yieldsD [OF yields_create_new, of C cfg E inp' hash w2 req w'] n None inp'(1) show ?thesis by simp
    qed
  qed
  have plain: "own (inp\<lparr>ci_CorrelationID := cor\<rparr>) = own inp" for cor by (simp add: fun_eq_iff own_def)
  show ?thesis
  proof (cases "ci_CorrelationID inp = []")
    case True
    with run obtain i w1 where i: "uuid_New w = (Inr i, w1)"
      and c: "andThen (checkIdempotentReplay (redis_service C cfg E) (inp\<lparr>ci_CorrelationID := en_uuid_String E i\<rparr>)
           (computeBodyHash E (inp\<lparr>ci_CorrelationID := en_uuid_String E i\<rparr>))) (\<lambda>replayed.
         case replayed of Some existing \<Rightarrow> ret existing
         | None \<Rightarrow> create_new (redis_service C cfg E) (inp\<lparr>ci_CorrelationID := en_uuid_String E i\<rparr>)
             (computeBodyHash E (inp\<lparr>ci_CorrelationID := en_uuid_String E i\<rparr>))) w1 = (Inr req, w')"
      by (auto simp: CreateRequest_def Let_def andThen_assoc andThen_ret fail_def andThen_Inr_iff [of uuid_New]
          split: option.splits if_splits)
    have "w_repo w1 = w_repo w" "w_redis w1 = w_redis w" using i by (auto simp: uuid_New_def calling_def)
    from checked [OF c this] plain show ?thesis by simp
  next
    case False
    with run have "andThen (checkIdempotentReplay (redis_service C cfg E) inp (computeBodyHash E inp)) (\<lambda>replayed.
         case replayed of Some existing \<Rightarrow> ret existing
         | None \<Rightarrow> create_new (redis_service C cfg E) inp (computeBodyHash E inp)) w = (Inr req, w')"
      by (auto simp: CreateRequest_def Let_def andThen_ret fail_def split: option.splits if_splits)
    then show ?thesis by (rule checked) simp_all
  qed
qed

text \<open>Rows only get appended, so what is filed stays the id of the stored request.\<close>

lemma created_appends:
  assumes "created E cfg inp hash now t req t'"
  shows "(\<exists>extra. t_requests t' = t_requests t @ extra) \<and> unstamp_request req \<in> set (t_requests t')"
  using assms unfolding created_def
  by (elim disjE conjE)
    (auto simp: reserved_effect_def rejected_effect_def rejection_debris_def replays_own_def replays_def spec_insert_rejected_def)

lemma refused_appends: "refused E inp hash now t t' \<Longrightarrow> \<exists>extra. t_requests t' = t_requests t @ extra"
  by (auto simp: refused_def rejection_debris_def)

lemma find_idem_appended: "t_requests t' = t_requests t @ extra \<Longrightarrow> find_idem c k t = Some x \<Longrightarrow> find_idem c k t' = Some x"
  by (simp add: find_idem_def find_append)

lemma find_idem_unique:
  assumes "pg_inv (w_repo w)" and "x \<in> set (t_requests (store w))"
  shows "find_idem (cr_CustomerID x) (cr_IdempotencyKey x) (store w) = Some x"
proof -
  let ?key = "\<lambda>r. (cr_CustomerID r, cr_IdempotencyKey r)"
  have "map ?key (t_requests (store w)) = map ?key (t_requests (pg_tables (w_repo w)))"
    by (simp add: store_def pg_view_def)
  then have d: "distinct (map ?key (t_requests (store w)))" using assms(1) by (simp add: pg_inv_def schema_ok_def)
  obtain y where y: "find_idem (cr_CustomerID x) (cr_IdempotencyKey x) (store w) = Some y"
    using assms(2) unfolding find_idem_def by (metis (mono_tags, lifting) find_None_iff2 not_None_eq)
  with find_idem_member [OF y] distinct_key_inj [of ?key "t_requests (store w)" y x] d assms(2) show ?thesis by simp
qed

lemma filed_ok_step:
  assumes files: "filed content (w_redis w') \<subseteq>\<^sub>m filed content (w_redis w) \<or>
      filed content (w_redis w') \<subseteq>\<^sub>m refile c k (en_uuid_String E (cr_ID req)) (filed content (w_redis w)) \<and>
      find_idem c k (store w') = Some (unstamp_request req)"
    and extra: "t_requests (store w') = t_requests (store w) @ extra"
    and ok: "filed_ok content E w" and cf: "colon_free c"
  shows "filed_ok content E w'"
  unfolding filed_ok_def
proof (intro allI impI, elim conjE)
  fix d l i
  assume d: "colon_free d" and i: "content (w_redis w') (idemKey d l) = Some i"
  have kept: "\<exists>x. find_idem d l (store w') = Some x \<and> i = en_uuid_String E (cr_ID x)"
    if "filed content (w_redis w) (d, l) = Some i"
    using that ok d find_idem_appended [OF extra] by (force simp: filed_ok_def filed_def)
  have i': "filed content (w_redis w') (d, l) = Some i" using i by (simp add: filed_def)
  from files show "\<exists>x. find_idem d l (store w') = Some x \<and> i = en_uuid_String E (cr_ID x)"
  proof
    assume "filed content (w_redis w') \<subseteq>\<^sub>m filed content (w_redis w)"
    from kept [OF map_le_Some [OF this i']] show ?thesis .
  next
    assume r: "filed content (w_redis w') \<subseteq>\<^sub>m refile c k (en_uuid_String E (cr_ID req)) (filed content (w_redis w)) \<and>
      find_idem c k (store w') = Some (unstamp_request req)"
    with i' have "refile c k (en_uuid_String E (cr_ID req)) (filed content (w_redis w)) (d, l) = Some i"
      by (blast intro: map_le_Some)
    then show ?thesis
      using kept r idemKey_inject [OF d cf, of l k] by (auto simp: refile_def split: if_splits)
  qed
qed

text \<open>
  C26: With Redis in front, customers stay apart. As long as every id filed in Redis is the id of the
  request stored for that customer and key, \<^verbatim>\<open>CreateRequest\<close> of a customer whose id has no colon
  returns a request of that customer under that key, and what is filed stays so; whatever Redis
  forgets, refuses or answers with an error. Ids with a colon are left out, because the key joins
  customer and idempotency key by one (\<open>Redis_Degradation.joined_keys_collide\<close>).
\<close>

theorem redis_keeps_customers_apart:
  assumes "sound bd bq w" and "permutes_maps E" and "redis_obeys C content"
    and "\<And>u. en_uuid_Parse E (en_uuid_String E u) = Some u"
    and "filed_ok content E w" and "colon_free (ci_CustomerID inp)"
    and "CreateRequest (redis_service C cfg E) inp w = (r, w')"
  shows "filed_ok content E w' \<and>
    (\<forall>req. r = Inr req \<longrightarrow> cr_CustomerID req = ci_CustomerID inp \<and> cr_IdempotencyKey req = ci_IdempotencyKey inp)"
proof -
  have inv: "pg_inv (w_repo w)" "requests_distinct (store w)" using assms(1) by (simp_all add: sound_def ledger_def book_def)
  from pg_create [OF assms(1,2) assms(7) [unfolded redis_service_def]] obtain cor where
    inv': "pg_inv (w_repo w')" and
    run: "case r of
        Inr req \<Rightarrow> created E cfg (inp\<lparr>ci_CorrelationID := cor\<rparr>) (computeBodyHash E inp) (time_of w) (store w) req (store w')
      | Inl e \<Rightarrow> refused E (inp\<lparr>ci_CorrelationID := cor\<rparr>) (computeBodyHash E inp) (time_of w) (store w) (store w')" by blast
  then obtain extra where extra: "t_requests (store w') = t_requests (store w) @ extra"
    by (cases r) (auto dest: refused_appends created_appends)
  have mine: "own inp req \<and> find_idem (ci_CustomerID inp) (ci_IdempotencyKey inp) (store w') = Some (unstamp_request req)"
    if r: "r = Inr req" for req
  proof -
    from create_own [OF assms(3,4) inv assms(5,6)] assms(7) r have "own inp req" by blast
    moreover have "unstamp_request req \<in> set (t_requests (store w'))" using run r by (auto dest: created_appends)
    ultimately show ?thesis using find_idem_unique [OF inv', of "unstamp_request req"] by (simp add: own_def)
  qed
  from files_CreateRequest [OF assms(3), of E inp cfg] assms(7)
  have "filed content (w_redis w') \<subseteq>\<^sub>m filed content (w_redis w) \<or>
     (\<exists>req. r = Inr req \<and> filed content (w_redis w') \<subseteq>\<^sub>m
        refile (ci_CustomerID inp) (ci_IdempotencyKey inp) (en_uuid_String E (cr_ID req)) (filed content (w_redis w)))"
    unfolding files_def by blast
  with mine filed_ok_step [OF _ extra assms(5,6)] have "filed_ok content E w'" by blast
  with mine show ?thesis by (simp add: own_def)
qed

definition parsing_env :: environment where
  "parsing_env = sample_env\<lparr>en_uuid_Parse := \<lambda>s. Some (UUID (from_decimal 0 s))\<rparr>"

definition fronted_service :: "(pg_state, redis_state) capacity_service" where
  "fronted_service = redis_service sample_redis sample_cfg parsing_env"

definition fronted :: "tables \<Rightarrow> (string \<times> string) list \<Rightarrow> (pg_state, redis_state) world" where
  "fronted t pairs = \<lparr>w_repo = w_repo (world_of t 0), w_redis = \<lparr>rs_pairs = pairs, rs_down = False\<rparr>,
     w_clock = (\<lambda>_. 0), w_tick = 0, w_uuids = (\<lambda>n. UUID (100 + n)), w_drawn = 0, w_metrics = newMetrics\<rparr>"

lemma fronted_sel [simp]:
  "w_repo (fronted t ps) = w_repo (world_of t 0)" "w_redis (fronted t ps) = \<lparr>rs_pairs = ps, rs_down = False\<rparr>"
  "store (fronted t ps) = unstamp t"
  by (simp_all add: fronted_def store_def pg_view_def world_of_def)

lemma parsing_range: "permutes_maps parsing_env"
  by (simp add: permutes_maps_def parsing_env_def sample_env_def)

lemma parsing_uuids: "en_uuid_Parse parsing_env (en_uuid_String parsing_env u) = Some u"
  by (cases u) (simp add: parsing_env_def sample_env_def from_decimal_decimal)

lemma fronted_run:
  "case CreateRequest fronted_service (order ''k2'' ''cpu'' 1) (fronted busy_tables [(idemKey ''acme'' ''k1'', ''10'')]) of
     (Inr req, w) \<Rightarrow> rs_pairs (w_redis w) = [(idemKey ''acme'' ''k1'', ''10''), (idemKey ''acme'' ''k2'', decimal (uuid_num (cr_ID req)))]
   | _ \<Rightarrow> False"
  by code_simp

theorem redis_keeps_customers_apart_witness:
  "filed_ok (\<lambda>s. map_of (rs_pairs s)) parsing_env
     (snd (CreateRequest fronted_service (order ''k2'' ''cpu'' 1) (fronted busy_tables [(idemKey ''acme'' ''k1'', ''10'')])))"
proof -
  let ?w = "fronted busy_tables [(idemKey ''acme'' ''k1'', ''10'')]"
  have s: "sound (\<lambda>_. 0) (\<lambda>_. 0) ?w"
    using schema_busy ledger_busy catalog_busy by (simp add: sound_def)
  have "find_idem ''acme'' ''k1'' busy_tables = Some busy_request" "en_uuid_String parsing_env (UUID 10) = ''10''"
    by (simp add: find_idem_def busy_tables_def busy_request_def) code_simp
  then have f: "filed_ok (\<lambda>s. map_of (rs_pairs s)) parsing_env ?w"
    using idemKey_inject [where d = "''acme''" and l = "''k1''"]
    by (auto simp: filed_ok_def colon_free_def busy_request_def)
  have c: "colon_free (ci_CustomerID (order ''k2'' ''cpu'' 1))" by (simp add: order_def colon_free_def)
  from redis_keeps_customers_apart [OF s parsing_range sample_redis_obeys parsing_uuids f c surjective_pairing]
  show ?thesis unfolding fronted_service_def by blast
qed

end
