(* ===== verification/Json_Text.thy ===== *)
theory Json_Text
  imports Go_Json
begin

text \<open>
  JSON text: the values, the printer and the scanner of \<^verbatim>\<open>encoding/json\<close> as far as the
  program uses them, and that scanning what was printed gives the value back. Text is a list of bytes
  and taken to be valid UTF-8. The nesting limit of the scanner (10000) is not modelled.
\<close>

datatype json =
  JNull | JBool bool | JNum string | JStr string | JArr "json list" | JObj "(string \<times> json) list"

fun print_json :: "json \<Rightarrow> string" where
  "print_json JNull = ''null''"
| "print_json (JBool b) = (if b then ''true'' else ''false'')"
| "print_json (JNum s) = s"
| "print_json (JStr s) = json_string s"
| "print_json (JArr xs) = json_array (map print_json xs)"
| "print_json (JObj kvs) = json_object (map (\<lambda>kv. (fst kv, print_json (snd kv))) kvs)"

subsection \<open>Strings\<close>

definition hex_value :: "char \<Rightarrow> nat option" where
  "hex_value c = (let n = (of_char c :: nat) in
     if 48 \<le> n \<and> n \<le> 57 then Some (n - 48)
     else if 97 \<le> n \<and> n \<le> 102 then Some (n - 87)
     else if 65 \<le> n \<and> n \<le> 70 then Some (n - 55) else None)"

fun hex4 :: "string \<Rightarrow> (nat \<times> string) option" where
  "hex4 (a # b # c # d # r) =
     (case (hex_value a, hex_value b, hex_value c, hex_value d) of
        (Some w, Some x, Some y, Some z) \<Rightarrow> Some (4096 * w + 256 * x + 16 * y + z, r)
      | _ \<Rightarrow> None)"
| "hex4 _ = None"

definition utf8 :: "nat \<Rightarrow> string" where
  "utf8 n =
     (if n < 128 then [char_of n]
      else if n < 2048 then [char_of (192 + n div 64), char_of (128 + n mod 64)]
      else if n < 65536 then [char_of (224 + n div 4096), char_of (128 + n div 64 mod 64), char_of (128 + n mod 64)]
      else [char_of (240 + n div 262144), char_of (128 + n div 4096 mod 64), char_of (128 + n div 64 mod 64), char_of (128 + n mod 64)])"

text \<open>
  A \<^verbatim>\<open>\u\<close> escape; two surrogates in a row make one character, a lone one is replaced by
  \<^verbatim>\<open>U+FFFD\<close>.
\<close>

definition u_escape :: "string \<Rightarrow> (string \<times> string) option" where
  "u_escape s = (case hex4 s of None \<Rightarrow> None
     | Some (n, r) \<Rightarrow>
         if 55296 \<le> n \<and> n < 56320 then
           (case r of
              b # u # r1 \<Rightarrow> (if b = CHR 0x5C \<and> u = CHR ''u'' then
                  (case hex4 r1 of
                     Some (m, r2) \<Rightarrow> (if 56320 \<le> m \<and> m < 57344
                       then Some (utf8 (65536 + (n - 55296) * 1024 + (m - 56320)), r2) else Some (utf8 65533, r))
                   | None \<Rightarrow> Some (utf8 65533, r))
                else Some (utf8 65533, r))
            | _ \<Rightarrow> Some (utf8 65533, r))
         else if 56320 \<le> n \<and> n < 57344 then Some (utf8 65533, r)
         else Some (utf8 n, r))"

definition short_escape :: "char \<Rightarrow> char option" where
  "short_escape c =
     (if c \<in> {CHR 0x22, CHR 0x5C, CHR ''/''} then Some c
      else if c = CHR ''b'' then Some (CHR 0x08) else if c = CHR ''f'' then Some (CHR 0x0C)
      else if c = CHR ''n'' then Some (CHR 0x0A) else if c = CHR ''r'' then Some (CHR 0x0D)
      else if c = CHR ''t'' then Some (CHR 0x09) else None)"

lemma hex4_length: "hex4 s = Some (n, r) \<Longrightarrow> length r < length s"
  by (induction s rule: hex4.induct) (auto split: option.splits)

lemma u_escape_length: "u_escape s = Some (x, r) \<Longrightarrow> length r < length s"
  by (auto simp: u_escape_def dest!: hex4_length split: option.splits if_splits list.splits)

text \<open>The rest of a string, after its opening quote.\<close>

function scan_string :: "string \<Rightarrow> (string \<times> string) option" where
  "scan_string s =
     (case s of [] \<Rightarrow> None
      | c # r \<Rightarrow>
          if c = CHR 0x22 then Some ([], r)
          else if c = CHR 0x5C then
            (case r of [] \<Rightarrow> None
             | e # r1 \<Rightarrow>
                 if e = CHR ''u'' then
                   (case u_escape r1 of None \<Rightarrow> None
                    | Some (x, r2) \<Rightarrow> map_option (\<lambda>(y, z). (x @ y, z)) (scan_string r2))
                 else (case short_escape e of None \<Rightarrow> None
                    | Some d \<Rightarrow> map_option (\<lambda>(y, z). (d # y, z)) (scan_string r1)))
          else if (of_char c :: nat) < 32 then None
          else map_option (\<lambda>(y, z). (c # y, z)) (scan_string r))"
  by pat_completeness auto
termination
  by (relation "measure length") (auto dest: u_escape_length)

declare scan_string.simps [simp del]

lemma hex_digit_value: "n < 16 \<Longrightarrow> hex_value (hex_digit n) = Some n"
  by (auto simp: hex_value_def hex_digit_def Let_def)

lemma scan_escape:
  "short_escape e = Some d \<Longrightarrow> e \<noteq> CHR ''u'' \<Longrightarrow>
   scan_string (CHR 0x5C # e # s) = map_option (\<lambda>(y, z). (d # y, z)) (scan_string s)"
  by (subst scan_string.simps) simp

lemma scan_json_char:
  "scan_string (json_char c @ s) = map_option (\<lambda>(y, z). (c # y, z)) (scan_string s)"
proof -
  let ?n = "of_char c :: nat"
  have codes: "?n = 34 \<Longrightarrow> c = CHR 0x22" "?n = 92 \<Longrightarrow> c = CHR 0x5C" "?n = 8 \<Longrightarrow> c = CHR 0x08" "?n = 12 \<Longrightarrow> c = CHR 0x0C"
    "?n = 10 \<Longrightarrow> c = CHR 0x0A" "?n = 13 \<Longrightarrow> c = CHR 0x0D" "?n = 9 \<Longrightarrow> c = CHR 0x09"
    by (simp_all add: of_char_eq_iff [where ?'a = nat, symmetric])
  consider (quote) "?n = 34" | (bslash) "?n = 92" | (bs) "?n = 8" | (ff) "?n = 12" | (nl) "?n = 10" | (cr) "?n = 13" | (tab) "?n = 9"
    | (hex) "?n \<notin> {34, 92, 8, 12, 10, 13, 9}" "?n < 32 \<or> ?n = 60 \<or> ?n = 62 \<or> ?n = 38"
    | (plain) "?n \<notin> {34, 92, 8, 12, 10, 13, 9}" "\<not> (?n < 32 \<or> ?n = 60 \<or> ?n = 62 \<or> ?n = 38)" by auto
  then show ?thesis
  proof cases
    case hex
    then have n: "?n < 128" "?n div 16 < 16" "?n mod 16 < 16" by auto
    have j: "json_char c @ s = CHR 0x5C # CHR ''u'' # CHR ''0'' # CHR ''0'' # hex_digit (?n div 16) # hex_digit (?n mod 16) # s"
      using hex by (auto simp: json_char_def Let_def)
    have zero: "hex_value (CHR ''0'') = Some 0" by (simp add: hex_value_def)
    have "u_escape (CHR ''0'' # CHR ''0'' # hex_digit (?n div 16) # hex_digit (?n mod 16) # s) = Some (utf8 ?n, s)"
      using n by (simp add: u_escape_def zero hex_digit_value)
    moreover have "utf8 ?n = [c]" using n by (simp add: utf8_def)
    ultimately show ?thesis unfolding j by (subst scan_string.simps) simp
  next
    case plain
    then have "c \<noteq> CHR 0x22" "c \<noteq> CHR 0x5C" by auto
    with plain show ?thesis by (subst scan_string.simps) (auto simp: json_char_def Let_def)
  qed (drule codes, simp add: json_char_def short_escape_def scan_escape)+
qed

lemma scan_json_string: "scan_string (concat (map json_char s) @ CHR 0x22 # r) = Some (s, r)"
proof (induction s)
  case Nil
  show ?case by (simp add: scan_string.simps)
next
  case (Cons c s)
  then show ?case by (simp add: scan_json_char)
qed

subsection \<open>Numbers\<close>

fun is_digit :: "char \<Rightarrow> bool" where
  "is_digit c \<longleftrightarrow> 48 \<le> (of_char c :: nat) \<and> (of_char c :: nat) \<le> 57"

declare is_digit.simps [simp del]

definition number_char :: "char \<Rightarrow> bool" where
  "number_char c \<longleftrightarrow> is_digit c \<or> c \<in> set ''-+.eE''"

definition exponent_ok :: "string \<Rightarrow> bool" where
  "exponent_ok s = (case s of [] \<Rightarrow> True
     | e # r \<Rightarrow> e \<in> set ''eE'' \<and>
         (case r of [] \<Rightarrow> False
          | c # ds \<Rightarrow> if c \<in> set ''+-'' then ds \<noteq> [] \<and> list_all is_digit ds else list_all is_digit r))"

definition fraction_ok :: "string \<Rightarrow> bool" where
  "fraction_ok s = (case s of c # d # r \<Rightarrow> (if c = CHR ''.'' then is_digit d \<and> exponent_ok (dropWhile is_digit r) else exponent_ok s)
     | _ \<Rightarrow> exponent_ok s)"

definition unsigned_ok :: "string \<Rightarrow> bool" where
  "unsigned_ok s = (case s of [] \<Rightarrow> False
     | c # r \<Rightarrow> if c = CHR ''0'' then fraction_ok r else is_digit c \<and> fraction_ok (dropWhile is_digit r))"

definition number_ok :: "string \<Rightarrow> bool" where
  "number_ok s = (case s of [] \<Rightarrow> False | c # r \<Rightarrow> if c = CHR ''-'' then unsigned_ok r else unsigned_ok s)"

subsection \<open>Values\<close>

definition skip_ws :: "string \<Rightarrow> string" where
  "skip_ws = dropWhile (\<lambda>c. c \<in> {CHR '' '', CHR 0x09, CHR 0x0A, CHR 0x0D})"

definition scan_word :: "string \<Rightarrow> 'a \<Rightarrow> string \<Rightarrow> ('a \<times> string) option" where
  "scan_word w x s = (if take (length w) s = w then Some (x, drop (length w) s) else None)"

definition scan_number :: "string \<Rightarrow> (json \<times> string) option" where
  "scan_number s = (let lit = takeWhile number_char s
     in if number_ok lit then Some (JNum lit, dropWhile number_char s) else None)"

text \<open>The fuel bounds the number of nested calls.\<close>

fun parse_value :: "nat \<Rightarrow> string \<Rightarrow> (json \<times> string) option"
  and parse_elements :: "nat \<Rightarrow> string \<Rightarrow> (json list \<times> string) option"
  and parse_members :: "nat \<Rightarrow> string \<Rightarrow> ((string \<times> json) list \<times> string) option" where
  "parse_value 0 s = None"
| "parse_value (Suc n) s =
     (case skip_ws s of [] \<Rightarrow> None
      | c # r \<Rightarrow>
          if c = CHR 0x22 then map_option (map_prod JStr id) (scan_string r)
          else if c = CHR ''['' then
            (case skip_ws r of [] \<Rightarrow> None
             | d # r1 \<Rightarrow> if d = CHR '']'' then Some (JArr [], r1) else map_option (map_prod JArr id) (parse_elements n r))
          else if c = CHR 0x7B then
            (case skip_ws r of [] \<Rightarrow> None
             | d # r1 \<Rightarrow> if d = CHR 0x7D then Some (JObj [], r1) else map_option (map_prod JObj id) (parse_members n r))
          else if c = CHR ''t'' then scan_word ''true'' (JBool True) (c # r)
          else if c = CHR ''f'' then scan_word ''false'' (JBool False) (c # r)
          else if c = CHR ''n'' then scan_word ''null'' JNull (c # r)
          else scan_number (c # r))"
| "parse_elements 0 s = None"
| "parse_elements (Suc n) s =
     (case parse_value n s of None \<Rightarrow> None
      | Some (x, r) \<Rightarrow>
          (case skip_ws r of [] \<Rightarrow> None
           | d # r1 \<Rightarrow> if d = CHR '','' then map_option (map_prod (Cons x) id) (parse_elements n r1)
                       else if d = CHR '']'' then Some ([x], r1) else None))"
| "parse_members 0 s = None"
| "parse_members (Suc n) s =
     (case skip_ws s of [] \<Rightarrow> None
      | c # r \<Rightarrow> if c \<noteq> CHR 0x22 then None else
          (case scan_string r of None \<Rightarrow> None
           | Some (k, r1) \<Rightarrow>
               (case skip_ws r1 of [] \<Rightarrow> None
                | d # r2 \<Rightarrow> if d \<noteq> CHR '':'' then None else
                    (case parse_value n r2 of None \<Rightarrow> None
                     | Some (v, r3) \<Rightarrow>
                         (case skip_ws r3 of [] \<Rightarrow> None
                          | e # r4 \<Rightarrow> if e = CHR '','' then map_option (map_prod (Cons (k, v)) id) (parse_members n r4)
                                      else if e = CHR 0x7D then Some ([(k, v)], r4) else None)))))"

text \<open>
  \<^verbatim>\<open>Decoder.Decode\<close> reads the first value and leaves the rest of the body alone;
  \<^verbatim>\<open>Unmarshal\<close> wants nothing but white space after it.
\<close>

definition decode_json :: "string \<Rightarrow> json option" where
  "decode_json s = map_option fst (parse_value (Suc (2 * length s)) s)"

definition unmarshal_json :: "string \<Rightarrow> json option" where
  "unmarshal_json s = (case parse_value (Suc (2 * length s)) s of
       Some (j, r) \<Rightarrow> if skip_ws r = [] then Some j else None
     | None \<Rightarrow> None)"

subsection \<open>What was printed is read back\<close>

text \<open>Number literals the printer emits, and the values made of them.\<close>

definition literal_ok :: "string \<Rightarrow> bool" where
  "literal_ok s \<longleftrightarrow> list_all number_char s \<and> number_ok s"

fun json_ok :: "json \<Rightarrow> bool" where
  "json_ok (JNum s) = literal_ok s"
| "json_ok (JArr xs) = list_all json_ok xs"
| "json_ok (JObj kvs) = list_all (\<lambda>kv. json_ok (snd kv)) kvs"
| "json_ok _ = True"

fun need :: "json \<Rightarrow> nat" where
  "need (JArr xs) = Suc (sum_list (map (\<lambda>x. Suc (need x)) xs))"
| "need (JObj kvs) = Suc (sum_list (map (\<lambda>kv. Suc (need (snd kv))) kvs))"
| "need _ = 0"

text \<open>What may follow a value: nothing that continues a number.\<close>

definition ends_value :: "string \<Rightarrow> bool" where
  "ends_value r \<longleftrightarrow> (case r of [] \<Rightarrow> True | c # _ \<Rightarrow> \<not> number_char c)"

lemma ends_value_simps [simp]:
  "ends_value []" "ends_value (CHR '','' # r)" "ends_value (CHR '']'' # r)" "ends_value (CHR 0x7D # r)"
  by (simp_all add: ends_value_def number_char_def is_digit.simps)

lemma skip_ws_stop: "c \<notin> {CHR '' '', CHR 0x09, CHR 0x0A, CHR 0x0D} \<Longrightarrow> skip_ws (c # s) = c # s"
  by (simp add: skip_ws_def)

lemma scan_number_literal:
  assumes "literal_ok s" and "ends_value r"
  shows "scan_number (s @ r) = Some (JNum s, r)"
proof -
  have "takeWhile number_char (s @ r) = s" "dropWhile number_char (s @ r) = r"
    using assms by (auto simp: literal_ok_def ends_value_def list_all_iff takeWhile_append2 dropWhile_append2 split: list.splits)
  then show ?thesis using assms(1) by (simp add: scan_number_def literal_ok_def)
qed

text \<open>A literal starts with a digit or a minus sign, so it is read as a number.\<close>

lemma literal_start:
  assumes "literal_ok s"
  obtains c t where "s = c # t" and "is_digit c \<or> c = CHR ''-''"
proof (cases s)
  case (Cons c t)
  with assms have "is_digit c \<or> c = CHR ''-''"
    by (auto simp: literal_ok_def number_ok_def unsigned_ok_def is_digit.simps split: if_splits)
  with Cons show thesis by (rule that)
qed (use assms in \<open>simp add: literal_ok_def number_ok_def\<close>)

lemma parse_number:
  assumes "literal_ok s" and "ends_value r"
  shows "parse_value (Suc n) (s @ r) = Some (JNum s, r)"
proof -
  obtain c t where s: "s = c # t" "is_digit c \<or> c = CHR ''-''" using literal_start [OF assms(1)] by blast
  then have "c \<notin> {CHR '' '', CHR 0x09, CHR 0x0A, CHR 0x0D, CHR 0x22, CHR ''['', CHR 0x7B, CHR ''t'', CHR ''f'', CHR ''n''}"
    by (auto simp: is_digit.simps)
  then have "parse_value (Suc n) (s @ r) = scan_number (s @ r)" unfolding s(1) by (simp add: skip_ws_stop)
  with scan_number_literal [OF assms] show ?thesis by simp
qed

lemma printed_start:
  assumes "json_ok j"
  obtains c t where "print_json j = c # t" and "c \<notin> {CHR '' '', CHR 0x09, CHR 0x0A, CHR 0x0D, CHR '']'', CHR 0x7D}"
proof (cases j)
  case (JNum s)
  with assms obtain c t where "s = c # t" "is_digit c \<or> c = CHR ''-''" using literal_start [of s] by auto
  with JNum show thesis by (intro that [of c t]) (auto simp: is_digit.simps)
next
  case (JBool b)
  then show thesis by (cases b) (auto intro: that)
next
  case JNull
  then show thesis by (intro that [of "CHR ''n''"]) simp_all
next
  case (JStr x)
  then show thesis by (intro that [of "CHR 0x22"]) (simp_all add: json_string_def)
next
  case (JArr xs)
  then show thesis by (intro that [of "CHR ''[''"]) (simp_all add: json_array_def)
next
  case (JObj kvs)
  then show thesis by (intro that [of "CHR 0x7B"]) (simp_all add: json_object_def)
qed

lemma commas_snoc: "xs \<noteq> [] \<Longrightarrow> commas (x # xs) = x @ CHR '','' # commas xs"
  by (cases xs) simp_all

definition reads_back :: "json \<Rightarrow> bool" where
  "reads_back j \<longleftrightarrow> (\<forall>n r. need j < n \<longrightarrow> ends_value r \<longrightarrow> parse_value n (print_json j @ r) = Some (j, r))"

lemma reads_backD: "reads_back j \<Longrightarrow> need j < n \<Longrightarrow> ends_value r \<Longrightarrow> parse_value n (print_json j @ r) = Some (j, r)"
  by (simp add: reads_back_def)

lemma parse_printed_elements:
  assumes "\<And>y. y \<in> set ys \<Longrightarrow> reads_back y" and "ys \<noteq> []" and "sum_list (map (\<lambda>x. Suc (need x)) ys) < m"
  shows "parse_elements m (commas (map print_json ys) @ CHR '']'' # r) = Some (ys, r)"
  using assms
proof (induction ys arbitrary: m)
  case (Cons y ys)
  then obtain k where m: "m = Suc k" by (cases m) auto
  have y: "reads_back y" "need y < k" using Cons.prems(1,3) m by auto
  show ?case
  proof (cases "ys = []")
    case True
    then show ?thesis using reads_backD [OF y, of "CHR '']'' # r"] by (simp add: m skip_ws_stop)
  next
    case False
    have "parse_elements k (commas (map print_json ys) @ CHR '']'' # r) = Some (ys, r)"
      using Cons.prems False m by (intro Cons.IH) auto
    then show ?thesis
      using False reads_backD [OF y, of "CHR '','' # commas (map print_json ys) @ CHR '']'' # r"]
      by (simp add: m skip_ws_stop commas_snoc)
  qed
qed simp

lemma parse_printed_members:
  assumes "\<And>kv. kv \<in> set ys \<Longrightarrow> reads_back (snd kv)" and "ys \<noteq> []" and "sum_list (map (\<lambda>kv. Suc (need (snd kv))) ys) < m"
  shows "parse_members m (commas (map (\<lambda>kv. json_string (fst kv) @ CHR '':'' # print_json (snd kv)) ys) @ CHR 0x7D # r) = Some (ys, r)"
  using assms
proof (induction ys arbitrary: m)
  case (Cons kv ys)
  obtain k v where kv: "kv = (k, v)" by (cases kv)
  obtain l where m: "m = Suc l" using Cons.prems by (cases m) auto
  have v: "reads_back v" "need v < l" using Cons.prems(1) [of kv] Cons.prems(3) m kv by auto
  show ?case
  proof (cases "ys = []")
    case True
    then show ?thesis using reads_backD [OF v, of "CHR 0x7D # r"]
      by (simp add: m kv json_string_def skip_ws_stop scan_json_string)
  next
    case False
    let ?rest = "commas (map (\<lambda>kv. json_string (fst kv) @ CHR '':'' # print_json (snd kv)) ys) @ CHR 0x7D # r"
    have "parse_members l ?rest = Some (ys, r)"
      using Cons.prems False m by (intro Cons.IH) auto
    then show ?thesis
      using False reads_backD [OF v, of "CHR '','' # ?rest"]
      by (simp add: m kv skip_ws_stop commas_snoc json_string_def scan_json_string)
  qed
qed simp

lemma reads_back_array:
  assumes "\<And>y. y \<in> set xs \<Longrightarrow> reads_back y" and "list_all json_ok xs"
  shows "reads_back (JArr xs)"
  unfolding reads_back_def
proof (intro allI impI)
  fix n r
  assume "need (JArr xs) < n"
  then obtain m where n: "n = Suc m" "sum_list (map (\<lambda>x. Suc (need x)) xs) < m" by (cases n) auto
  show "parse_value n (print_json (JArr xs) @ r) = Some (JArr xs, r)"
  proof (cases xs)
    case Nil
    then show ?thesis by (simp add: n(1) json_array_def skip_ws_stop)
  next
    case (Cons y ys)
    obtain c t where c: "print_json y = c # t" "c \<notin> {CHR '' '', CHR 0x09, CHR 0x0A, CHR 0x0D, CHR '']'', CHR 0x7D}"
      using printed_start [of y] assms(2) Cons by auto
    have "\<exists>u. commas (map print_json xs) = c # u" using c(1) by (cases ys) (simp_all add: Cons)
    then obtain u where u: "commas (map print_json xs) = c # u" ..
    have "parse_elements m (c # u @ CHR '']'' # r) = Some (xs, r)"
      using parse_printed_elements [OF assms(1) _ n(2), of r] Cons u by simp
    then show ?thesis using c(2) by (simp add: n(1) json_array_def skip_ws_stop u)
  qed
qed

lemma reads_back_object:
  assumes "\<And>kv. kv \<in> set kvs \<Longrightarrow> reads_back (snd kv)"
  shows "reads_back (JObj kvs)"
  unfolding reads_back_def
proof (intro allI impI)
  let ?fields = "commas (map (\<lambda>kv. json_string (fst kv) @ CHR '':'' # print_json (snd kv)) kvs)"
  fix n r
  assume "need (JObj kvs) < n"
  then obtain m where n: "n = Suc m" "sum_list (map (\<lambda>kv. Suc (need (snd kv))) kvs) < m" by (cases n) auto
  have printed: "print_json (JObj kvs) = CHR 0x7B # ?fields @ [CHR 0x7D]"
    by (simp add: json_object_def comp_def)
  show "parse_value n (print_json (JObj kvs) @ r) = Some (JObj kvs, r)"
  proof (cases kvs)
    case Nil
    then show ?thesis by (simp add: n(1) json_object_def skip_ws_stop)
  next
    case (Cons kv ys)
    have "\<exists>u. ?fields = CHR 0x22 # u" by (cases ys) (simp_all add: Cons json_string_def)
    then obtain u where u: "?fields = CHR 0x22 # u" ..
    have "parse_members m (CHR 0x22 # u @ CHR 0x7D # r) = Some (kvs, r)"
      using parse_printed_members [OF assms _ n(2), of r] Cons u by simp
    then show ?thesis unfolding printed u by (simp add: n(1) skip_ws_stop)
  qed
qed

lemma json_reads_back: "json_ok j \<Longrightarrow> reads_back j"
proof (induction j)
  case (JArr xs)
  then show ?case by (intro reads_back_array) (auto simp: list_all_iff)
next
  case (JObj kvs)
  have "reads_back (snd kv)" if "kv \<in> set kvs" for kv
    using JObj.IH [of kv "snd kv"] JObj.prems that by (cases kv) (auto simp: list_all_iff)
  then show ?case by (rule reads_back_object)
next
  case (JStr s)
  show ?case unfolding reads_back_def
  proof (intro allI impI)
    fix n r assume "need (JStr s) < n"
    then obtain m where "n = Suc m" by (cases n) auto
    then show "parse_value n (print_json (JStr s) @ r) = Some (JStr s, r)" by (simp add: json_string_def skip_ws_stop scan_json_string)
  qed
next
  case (JNum s)
  show ?case unfolding reads_back_def
  proof (intro allI impI)
    fix n r assume "need (JNum s) < n" and "ends_value r"
    then obtain m where "n = Suc m" by (cases n) auto
    with JNum \<open>ends_value r\<close> show "parse_value n (print_json (JNum s) @ r) = Some (JNum s, r)"
      by (simp only: print_json.simps json_ok.simps parse_number)
  qed
next
  case (JBool b)
  show ?case unfolding reads_back_def
  proof (intro allI impI)
    fix n r assume "need (JBool b) < n"
    then obtain m where "n = Suc m" by (cases n) auto
    then show "parse_value n (print_json (JBool b) @ r) = Some (JBool b, r)"
      by (cases b) (simp_all add: skip_ws_stop scan_word_def)
  qed
next
  case JNull
  show ?case unfolding reads_back_def
  proof (intro allI impI)
    fix n r assume "need JNull < n"
    then obtain m where "n = Suc m" by (cases n) auto
    then show "parse_value n (print_json JNull @ r) = Some (JNull, r)" by (simp add: skip_ws_stop scan_word_def)
  qed
qed

text \<open>The text is long enough for the fuel.\<close>

lemma need_list: "(\<And>x. x \<in> set xs \<Longrightarrow> f x \<le> 2 * length (g x)) \<Longrightarrow> xs \<noteq> [] \<Longrightarrow>
  sum_list (map (\<lambda>x. Suc (f x)) xs) \<le> Suc (2 * length (commas (map g xs)))"
proof (induction xs)
  case (Cons x xs)
  then show ?case by (cases "xs = []") (force simp: commas_snoc)+
qed simp

lemma need_printed: "need j \<le> 2 * length (print_json j)"
proof (induction j)
  case (JArr xs)
  then show ?case using need_list [of xs need print_json] by (cases "xs = []") (simp_all add: json_array_def)
next
  case (JObj kvs)
  have "need (snd kv) \<le> 2 * length (json_string (fst kv) @ CHR '':'' # print_json (snd kv))" if "kv \<in> set kvs" for kv
    using JObj.IH [of kv "snd kv"] that by (cases kv) auto
  then show ?case
    using need_list [of kvs "\<lambda>kv. need (snd kv)" "\<lambda>kv. json_string (fst kv) @ CHR '':'' # print_json (snd kv)"]
    by (cases "kvs = []") (simp_all add: json_object_def comp_def)
qed simp_all

theorem unmarshal_print: "json_ok j \<Longrightarrow> unmarshal_json (print_json j) = Some j"
proof -
  assume "json_ok j"
  from reads_backD [OF json_reads_back [OF this], of "Suc (2 * length (print_json j))" "[]"] need_printed [of j]
  have "parse_value (Suc (2 * length (print_json j))) (print_json j) = Some (j, [])" by (simp del: parse_value.simps)
  then show ?thesis by (simp add: unmarshal_json_def skip_ws_def del: parse_value.simps)
qed

end
