(* ===== verification/Json_Codec.thy ===== *)
theory Json_Codec
  imports Service_World Json_Text
begin

text \<open>
  How \<^verbatim>\<open>encoding/json\<close> maps documents to the structs of the program. What the program
  determines is here: the field tags, \<^verbatim>\<open>omitempty\<close>, and how a struct is filled from an
  object: field names are matched without regard to case, unknown fields are skipped,
  \<^verbatim>\<open>null\<close> leaves a field as it is, a value of the wrong type is an error. A repeated field is
  filled again from the later value. The text of times and floats is the parameter \<open>json_codec\<close>.
\<close>

subsection \<open>Values\<close>

record json_codec =
  jc_Time :: "time \<Rightarrow> string"
  jc_parseTime :: "string \<Rightarrow> time option"
  jc_Float :: "f64 \<Rightarrow> string"
  jc_parseFloat :: "string \<Rightarrow> f64 option"

definition JInt :: "int \<Rightarrow> json" where
  "JInt n = JNum (json_int n)"

text \<open>A literal with a fraction or an exponent is not an integer.\<close>

definition int_literal :: "string \<Rightarrow> int option" where
  "int_literal s =
     (case s of
        [] \<Rightarrow> None
      | c # ds \<Rightarrow>
          if c = CHR ''-'' then (if list_all is_digit ds \<and> ds \<noteq> [] then Some (- int (from_decimal 0 ds)) else None)
          else (if list_all is_digit s then Some (int (from_decimal 0 s)) else None))"

lemma digit_not_minus: "is_digit c \<Longrightarrow> c \<noteq> CHR ''-''"
  by (auto simp: is_digit.simps)

lemma decimal_is_digits: "list_all is_digit (decimal n)"
  using decimal_digits by (auto simp: list_all_iff is_digit.simps)

lemma decimal_nonempty: "decimal n \<noteq> []"
  by (subst decimal.simps) simp

lemma int_literal_json_int [simp]: "int_literal (json_int n) = Some n"
proof (cases "n < 0")
  case True
  then show ?thesis
    using decimal_is_digits [of "nat (- n)"] decimal_nonempty [of "nat (- n)"]
    by (simp add: int_literal_def json_int_def from_decimal_decimal)
next
  case False
  obtain c ds where d: "decimal (nat n) = c # ds" using decimal_nonempty by (metis list.exhaust)
  with decimal_is_digits [of "nat n"] have "c \<noteq> CHR ''-''" "list_all is_digit (c # ds)"
    using digit_not_minus by auto
  with d False show ?thesis using from_decimal_decimal [of "nat n"]
    by (simp add: int_literal_def json_int_def)
qed

subsection \<open>Filling values\<close>

text \<open>Each decoder takes what the field holds before and gives what it holds after.\<close>

fun dec_string :: "json \<Rightarrow> string \<Rightarrow> string option" where
  "dec_string JNull old = Some old"
| "dec_string (JStr s) old = Some s"
| "dec_string _ old = None"

fun dec_int64 :: "json \<Rightarrow> int \<Rightarrow> int option" where
  "dec_int64 JNull old = Some old"
| "dec_int64 (JNum s) old = (case int_literal s of None \<Rightarrow> None | Some n \<Rightarrow> if in_i64 n then Some n else None)"
| "dec_int64 _ old = None"

fun dec_bool :: "json \<Rightarrow> bool \<Rightarrow> bool option" where
  "dec_bool JNull old = Some old"
| "dec_bool (JBool b) old = Some b"
| "dec_bool _ old = None"

text \<open>A type that parses itself from a string: a UUID or a time.\<close>

fun dec_text :: "(string \<Rightarrow> 'a option) \<Rightarrow> json \<Rightarrow> 'a \<Rightarrow> 'a option" where
  "dec_text parse JNull old = Some old"
| "dec_text parse (JStr s) old = parse s"
| "dec_text parse _ old = None"

fun dec_float :: "json_codec \<Rightarrow> json \<Rightarrow> f64 \<Rightarrow> f64 option" where
  "dec_float X JNull old = Some old"
| "dec_float X (JNum s) old = jc_parseFloat X s"
| "dec_float X _ old = None"

fun collect_some :: "('a \<Rightarrow> 'b option) \<Rightarrow> 'a list \<Rightarrow> 'b list option" where
  "collect_some f [] = Some []"
| "collect_some f (x # xs) =
     (case f x of None \<Rightarrow> None | Some y \<Rightarrow> (case collect_some f xs of None \<Rightarrow> None | Some ys \<Rightarrow> Some (y # ys)))"

fun dec_slice :: "(json \<Rightarrow> 'a option) \<Rightarrow> json \<Rightarrow> 'a list option" where
  "dec_slice f JNull = Some []"
| "dec_slice f (JArr xs) = collect_some f xs"
| "dec_slice f _ = None"

text \<open>A pointer to an integer: \<^verbatim>\<open>null\<close> makes it nil.\<close>

fun dec_int64_ptr :: "json \<Rightarrow> int option option" where
  "dec_int64_ptr JNull = Some None"
| "dec_int64_ptr j = map_option Some (dec_int64 j 0)"

definition fold_char :: "char \<Rightarrow> char" where
  "fold_char c = (let n = (of_char c :: nat) in if 65 \<le> n \<and> n \<le> 90 then char_of (n + 32) else c)"

text \<open>
  Names are compared after folding. Besides A to Z two more runes fold to ASCII letters: U+017F (long s,
  bytes C5 BF) to \<^verbatim>\<open>s\<close> and U+212A (the Kelvin sign, bytes E2 84 AA) to \<^verbatim>\<open>k\<close>. All other
  runes fold among themselves, and the field names are ASCII.
\<close>

fun fold_name :: "string \<Rightarrow> string" where
  "fold_name [] = []"
| "fold_name (c # s) =
     (case s of
        [] \<Rightarrow> [fold_char c]
      | d # r \<Rightarrow>
          if c = CHR 0xC5 \<and> d = CHR 0xBF then CHR ''s'' # fold_name r
          else (case r of
                  [] \<Rightarrow> fold_char c # fold_name s
                | e # q \<Rightarrow>
                    if c = CHR 0xE2 \<and> d = CHR 0x84 \<and> e = CHR 0xAA then CHR ''k'' # fold_name q
                    else fold_char c # fold_name s))"

declare fold_name.simps(2) [simp del]

fun set_fields :: "(string \<Rightarrow> json \<Rightarrow> 'a \<Rightarrow> 'a option) \<Rightarrow> (string \<times> json) list \<Rightarrow> 'a \<Rightarrow> 'a option" where
  "set_fields f [] a = Some a"
| "set_fields f ((k, v) # kvs) a = (case f (fold_name k) v a of None \<Rightarrow> None | Some b \<Rightarrow> set_fields f kvs b)"

fun dec_struct :: "(string \<Rightarrow> json \<Rightarrow> 'a \<Rightarrow> 'a option) \<Rightarrow> json \<Rightarrow> 'a \<Rightarrow> 'a option" where
  "dec_struct f JNull old = Some old"
| "dec_struct f (JObj kvs) old = set_fields f kvs old"
| "dec_struct f _ old = None"

lemma fold_name_ascii: "\<forall>c \<in> set s. (of_char c :: nat) < 128 \<Longrightarrow> fold_name s = map fold_char s"
proof (induction s rule: fold_name.induct)
  case (2 c s)
  have "c \<noteq> CHR 0xC5" "c \<noteq> CHR 0xE2" using "2.prems" by auto
  with 2 show ?case by (auto simp: fold_name.simps(2) split: list.split)
qed simp

lemma fold_name_same:
  assumes "\<forall>c \<in> set s. (of_char c :: nat) < 128 \<and> \<not> (65 \<le> (of_char c :: nat) \<and> (of_char c :: nat) \<le> 90)"
  shows "fold_name s = s"
proof -
  have "map fold_char s = s" by (rule map_idI) (use assms in \<open>auto simp: fold_char_def Let_def\<close>)
  then show ?thesis using fold_name_ascii [of s] assms by simp
qed

lemma dec_JInt [simp]: "in_i64 n \<Longrightarrow> dec_int64 (JInt n) old = Some n"
  by (simp add: JInt_def)

lemma dec_ptr_JInt [simp]: "in_i64 n \<Longrightarrow> dec_int64_ptr (JInt n) = Some (Some n)"
  by (simp add: JInt_def)

lemma collect_some_map: "(\<And>x. x \<in> set xs \<Longrightarrow> g (f x) = Some x) \<Longrightarrow> collect_some g (map f xs) = Some xs"
  by (induction xs) auto

subsection \<open>Capacity views, which the cache stores as text\<close>

definition json_of_policy :: "pool_policy \<Rightarrow> json" where
  "json_of_policy p = JObj ([(''splittable'', JBool (pp_Splittable p)), (''min_grain'', JInt (pp_MinGrain p))] @
     (if pp_MaxGrain p = 0 then [] else [(''max_grain'', JInt (pp_MaxGrain p))]))"

definition policy_field :: "string \<Rightarrow> json \<Rightarrow> pool_policy \<Rightarrow> pool_policy option" where
  "policy_field k v p =
     (if k = ''splittable'' then map_option (\<lambda>b. p\<lparr>pp_Splittable := b\<rparr>) (dec_bool v (pp_Splittable p))
      else if k = ''min_grain'' then map_option (\<lambda>n. p\<lparr>pp_MinGrain := n\<rparr>) (dec_int64 v (pp_MinGrain p))
      else if k = ''max_grain'' then map_option (\<lambda>n. p\<lparr>pp_MaxGrain := n\<rparr>) (dec_int64 v (pp_MaxGrain p))
      else Some p)"

definition json_of_pool :: "json_codec \<Rightarrow> environment \<Rightarrow> resource_pool \<Rightarrow> json" where
  "json_of_pool X E p = JObj
     [(''id'', JStr (en_uuid_String E (rp_ID p))), (''kind'', JStr (rp_Kind p)), (''unit'', JStr (rp_Unit p)),
      (''total'', JInt (rp_Total p)), (''oversubscribe_factor'', JNum (jc_Float X (rp_OversubscribeFactor p))),
      (''dedicated_amount'', JInt (rp_DedicatedAmount p)), (''reserved_amount'', JInt (rp_ReservedAmount p)),
      (''policy'', json_of_policy (rp_Policy p)), (''created_at'', JStr (jc_Time X (rp_CreatedAt p))),
      (''updated_at'', JStr (jc_Time X (rp_UpdatedAt p)))]"

definition pool_field :: "json_codec \<Rightarrow> environment \<Rightarrow> string \<Rightarrow> json \<Rightarrow> resource_pool \<Rightarrow> resource_pool option" where
  "pool_field X E k v p =
     (if k = ''id'' then map_option (\<lambda>x. p\<lparr>rp_ID := x\<rparr>) (dec_text (en_uuid_Parse E) v (rp_ID p))
      else if k = ''kind'' then map_option (\<lambda>x. p\<lparr>rp_Kind := x\<rparr>) (dec_string v (rp_Kind p))
      else if k = ''unit'' then map_option (\<lambda>x. p\<lparr>rp_Unit := x\<rparr>) (dec_string v (rp_Unit p))
      else if k = ''total'' then map_option (\<lambda>x. p\<lparr>rp_Total := x\<rparr>) (dec_int64 v (rp_Total p))
      else if k = ''oversubscribe_factor'' then
        map_option (\<lambda>x. p\<lparr>rp_OversubscribeFactor := x\<rparr>) (dec_float X v (rp_OversubscribeFactor p))
      else if k = ''dedicated_amount'' then map_option (\<lambda>x. p\<lparr>rp_DedicatedAmount := x\<rparr>) (dec_int64 v (rp_DedicatedAmount p))
      else if k = ''reserved_amount'' then map_option (\<lambda>x. p\<lparr>rp_ReservedAmount := x\<rparr>) (dec_int64 v (rp_ReservedAmount p))
      else if k = ''policy'' then map_option (\<lambda>x. p\<lparr>rp_Policy := x\<rparr>) (dec_struct policy_field v (rp_Policy p))
      else if k = ''created_at'' then map_option (\<lambda>x. p\<lparr>rp_CreatedAt := x\<rparr>) (dec_text (jc_parseTime X) v (rp_CreatedAt p))
      else if k = ''updated_at'' then map_option (\<lambda>x. p\<lparr>rp_UpdatedAt := x\<rparr>) (dec_text (jc_parseTime X) v (rp_UpdatedAt p))
      else Some p)"

definition json_of_view :: "json_codec \<Rightarrow> environment \<Rightarrow> capacity_view \<Rightarrow> json" where
  "json_of_view X E v = JObj ([(''pool'', json_of_pool X E (cv_Pool v)), (''available'', JInt (cv_Available v))] @
     (case cv_CustomerRemaining v of None \<Rightarrow> [] | Some n \<Rightarrow> [(''customer_remaining'', JInt n)]))"

definition view_field :: "json_codec \<Rightarrow> environment \<Rightarrow> string \<Rightarrow> json \<Rightarrow> capacity_view \<Rightarrow> capacity_view option" where
  "view_field X E k j v =
     (if k = ''pool'' then map_option (\<lambda>x. v\<lparr>cv_Pool := x\<rparr>) (dec_struct (pool_field X E) j (cv_Pool v))
      else if k = ''available'' then map_option (\<lambda>x. v\<lparr>cv_Available := x\<rparr>) (dec_int64 j (cv_Available v))
      else if k = ''customer_remaining'' then map_option (\<lambda>x. v\<lparr>cv_CustomerRemaining := x\<rparr>) (dec_int64_ptr j)
      else Some v)"

text \<open>The zero values of the structs: \<open>UUID 0\<close> stands for the nil UUID, 0 for the zero time.\<close>

definition zero_pool :: resource_pool where
  "zero_pool = \<lparr>rp_ID = UUID 0, rp_Kind = '''', rp_Unit = '''', rp_Total = 0, rp_OversubscribeFactor = F64 0 0,
     rp_DedicatedAmount = 0, rp_ReservedAmount = 0, rp_Policy = \<lparr>pp_Splittable = False, pp_MinGrain = 0, pp_MaxGrain = 0\<rparr>,
     rp_CreatedAt = 0, rp_UpdatedAt = 0\<rparr>"

definition zero_view :: capacity_view where
  "zero_view = \<lparr>cv_Pool = zero_pool, cv_Available = 0, cv_CustomerRemaining = None\<rparr>"

text \<open>\<^verbatim>\<open>json.Marshal(views)\<close> and \<^verbatim>\<open>json.Unmarshal(b, &views)\<close> of the listing\<close>

definition marshal_views :: "json_codec \<Rightarrow> environment \<Rightarrow> capacity_view list \<Rightarrow> string option" where
  "marshal_views X E vs = Some (print_json (JArr (map (json_of_view X E) vs)))"

definition unmarshal_views :: "json_codec \<Rightarrow> environment \<Rightarrow> string \<Rightarrow> capacity_view list option" where
  "unmarshal_views X E s =
     (case unmarshal_json s of None \<Rightarrow> None | Some j \<Rightarrow> dec_slice (\<lambda>x. dec_struct (view_field X E) x zero_view) j)"

subsection \<open>Views survive the cache\<close>

text \<open>
  A double has many representations as a mantissa and an exponent; the text of a float only tells the
  double. \<open>f64_norm\<close> gives the one with an odd mantissa, \<open>f64_canonical\<close> are these for the finite
  doubles of 64 bits.
\<close>

function f64_norm :: "f64 \<Rightarrow> f64" where
  "f64_norm (F64 m e) = (if m = 0 then F64 0 0 else if even m then f64_norm (F64 (m div 2) (e + 1)) else F64 m e)"
  by pat_completeness auto
termination
  by (relation "measure (\<lambda>x. nat \<bar>f64_mant x\<bar>)") (auto elim!: evenE)

declare f64_norm.simps [simp del]

fun f64_canonical :: "f64 \<Rightarrow> bool" where
  "f64_canonical (F64 m e) \<longleftrightarrow> m = 0 \<and> e = 0 \<or>
     odd m \<and> bit_length \<bar>m\<bar> \<le> 53 \<and> - 1074 \<le> e \<and> e + int (bit_length \<bar>m\<bar>) \<le> 1024"

lemma f64_norm_canonical: "f64_canonical x \<Longrightarrow> f64_norm x = x"
proof (cases x)
  case (F64 m e)
  assume "f64_canonical x"
  with F64 show ?thesis by (auto simp: f64_norm.simps [of m e])
qed

text \<open>
  Times that \<^verbatim>\<open>time.Time\<close> marshals: from the zero time, which is 0 here, to the end of the year
  9999. A UUID has 128 bits.
\<close>

definition time_fits :: "time \<Rightarrow> bool" where
  "time_fits t \<longleftrightarrow> 0 \<le> t \<and> t < 315537897600 * second"

definition uuid_fits :: "uuid \<Rightarrow> bool" where
  "uuid_fits u \<longleftrightarrow> int (uuid_num u) < 2 ^ 128"

text \<open>What the codec's libraries promise: each text parses back to what it was made from.\<close>

definition codec_obeys :: "json_codec \<Rightarrow> environment \<Rightarrow> bool" where
  "codec_obeys X E \<longleftrightarrow> (\<forall>t. time_fits t \<longrightarrow> jc_parseTime X (jc_Time X t) = Some t) \<and>
     (\<forall>x. f64_canonical x \<longrightarrow> jc_parseFloat X (jc_Float X x) = Some x \<and> literal_ok (jc_Float X x)) \<and>
     (\<forall>u. uuid_fits u \<longrightarrow> en_uuid_Parse E (en_uuid_String E u) = Some u)"

text \<open>The values of a view are values of its Go types, doubles in their canonical form.\<close>

definition pool_fits :: "resource_pool \<Rightarrow> bool" where
  "pool_fits p \<longleftrightarrow> uuid_fits (rp_ID p) \<and> f64_canonical (rp_OversubscribeFactor p) \<and>
     time_fits (rp_CreatedAt p) \<and> time_fits (rp_UpdatedAt p) \<and>
     list_all in_i64 [rp_Total p, rp_DedicatedAmount p, rp_ReservedAmount p, pp_MinGrain (rp_Policy p), pp_MaxGrain (rp_Policy p)]"

definition view_fits :: "capacity_view \<Rightarrow> bool" where
  "view_fits v \<longleftrightarrow> pool_fits (cv_Pool v) \<and> in_i64 (cv_Available v) \<and>
     (case cv_CustomerRemaining v of None \<Rightarrow> True | Some n \<Rightarrow> in_i64 n)"

lemma field_names [simp]:
  "fold_name ''splittable'' = ''splittable''" "fold_name ''min_grain'' = ''min_grain''" "fold_name ''max_grain'' = ''max_grain''"
  "fold_name ''id'' = ''id''" "fold_name ''kind'' = ''kind''" "fold_name ''unit'' = ''unit''" "fold_name ''total'' = ''total''"
  "fold_name ''oversubscribe_factor'' = ''oversubscribe_factor''" "fold_name ''dedicated_amount'' = ''dedicated_amount''"
  "fold_name ''reserved_amount'' = ''reserved_amount''" "fold_name ''policy'' = ''policy''"
  "fold_name ''created_at'' = ''created_at''" "fold_name ''updated_at'' = ''updated_at''" "fold_name ''pool'' = ''pool''"
  "fold_name ''available'' = ''available''" "fold_name ''customer_remaining'' = ''customer_remaining''"
  by (intro fold_name_same; simp)+

lemma policy_roundtrip:
  assumes "in_i64 (pp_MinGrain p)" and "in_i64 (pp_MaxGrain p)" and "pp_MaxGrain p \<noteq> 0 \<or> pp_MaxGrain old = 0"
  shows "dec_struct policy_field (json_of_policy p) old = Some p"
  using assms by (auto simp: json_of_policy_def policy_field_def)

lemma pool_roundtrip:
  assumes "codec_obeys X E" and "pool_fits p"
  shows "dec_struct (pool_field X E) (json_of_pool X E p) zero_pool = Some p"
proof -
  have "dec_struct policy_field (json_of_policy (rp_Policy p)) \<lparr>pp_Splittable = False, pp_MinGrain = 0, pp_MaxGrain = 0\<rparr> = Some (rp_Policy p)"
    using assms(2) by (intro policy_roundtrip) (simp_all add: pool_fits_def)
  then show ?thesis
    using assms by (simp add: json_of_pool_def pool_field_def zero_pool_def codec_obeys_def pool_fits_def)
qed

lemma view_roundtrip:
  assumes "codec_obeys X E" and "view_fits v"
  shows "dec_struct (view_field X E) (json_of_view X E v) zero_view = Some v"
proof -
  have "dec_struct (pool_field X E) (json_of_pool X E (cv_Pool v)) zero_pool = Some (cv_Pool v)"
    using assms(2) by (intro pool_roundtrip [OF assms(1)]) (simp add: view_fits_def)
  then show ?thesis
    using assms(2) by (cases "cv_CustomerRemaining v") (simp_all add: json_of_view_def view_field_def zero_view_def view_fits_def)
qed

lemma decimal_head: "decimal n = CHR ''0'' # r \<Longrightarrow> r = []"
proof (induction n arbitrary: r rule: decimal.induct)
  case (1 n)
  show ?case
  proof (cases "n < 10")
    case True
    then show ?thesis using "1.prems" by (simp add: decimal.simps [of n])
  next
    case False
    then have d: "decimal n = decimal (n div 10) @ [digit (n mod 10)]" by (simp add: decimal.simps [of n])
    obtain c s where cs: "decimal (n div 10) = c # s" using decimal_nonempty by (metis list.exhaust)
    with d "1.prems" have "decimal (n div 10) = CHR ''0'' # s" by simp
    from "1.IH" [OF False this] this have "decimal (n div 10) = ''0''" by simp
    from arg_cong [OF this, of "from_decimal 0"] have "n div 10 = 0" by (simp add: from_decimal_decimal)
    with False show ?thesis by simp
  qed
qed

lemma unsigned_decimal: "unsigned_ok (decimal n)"
proof -
  obtain c r where d: "decimal n = c # r" using decimal_nonempty by (metis list.exhaust)
  with decimal_is_digits [of n] have c: "is_digit c" and r: "dropWhile is_digit r = []" by (auto simp: list_all_iff)
  have "fraction_ok []" by (simp add: fraction_ok_def exponent_ok_def)
  with d c decimal_head [of n r] show ?thesis by (simp add: unsigned_ok_def r)
qed

lemma literal_json_int [simp]: "literal_ok (json_int n)"
proof -
  have "list_all number_char (decimal m)" for m
    using decimal_is_digits [of m] by (auto simp: list_all_iff number_char_def)
  moreover have "number_ok (decimal m)" for m
    using unsigned_decimal [of m] minus_not_decimal [of _ m] by (auto simp: number_ok_def split: list.splits) (auto simp: unsigned_ok_def)
  moreover have "number_ok (CHR ''-'' # decimal m)" for m
    using unsigned_decimal by (simp add: number_ok_def)
  ultimately show ?thesis by (simp add: json_int_def literal_ok_def number_char_def)
qed

lemma json_ok_JInt [simp]: "json_ok (JInt n)"
  by (simp add: JInt_def)

lemma view_json_ok: "codec_obeys X E \<Longrightarrow> view_fits v \<Longrightarrow> json_ok (json_of_view X E v)"
  by (simp add: json_of_view_def json_of_pool_def json_of_policy_def codec_obeys_def view_fits_def pool_fits_def split: option.split)

text \<open>
  What \<^verbatim>\<open>ListCapacity\<close> stores in the cache is what it reads back.
\<close>

lemma views_roundtrip:
  assumes "codec_obeys X E" and "list_all view_fits vs"
  shows "unmarshal_views X E (the (marshal_views X E vs)) = Some vs"
proof -
  have "collect_some (\<lambda>x. dec_struct (view_field X E) x zero_view) (map (json_of_view X E) vs) = Some vs"
    using assms by (intro collect_some_map view_roundtrip) (auto simp: list_all_iff)
  moreover have "json_ok (JArr (map (json_of_view X E) vs))"
    using view_json_ok [OF assms(1)] assms(2) by (simp add: list_all_iff)
  ultimately show ?thesis
    by (simp add: marshal_views_def unmarshal_views_def unmarshal_print del: print_json.simps)
qed

end
