(* ===== verification/Http_Api.thy ===== *)
theory Http_Api
  imports Service_Create Service_Lifecycle Json_Codec
begin

text \<open>
  The HTTP interface (\<^verbatim>\<open>internal/httpapi/handler.go\<close>). A handler takes the request and the
  world and gives the response and the world it leaves. The router of \<^verbatim>\<open>go-chi\<close>, the metrics
  page of \<^verbatim>\<open>promhttp\<close> and the text of times and floats are parameters.
\<close>

subsection \<open>Requests and responses\<close>

text \<open>
  Of the values a request's context carries the program uses one, the request id that
  \<^verbatim>\<open>observability/context.go\<close> stores.
\<close>

record http_request =
  hq_Method :: string
  hq_Path :: string
  hq_Query :: "(string \<times> string) list"
  hq_Header :: "(string \<times> string) list"
  hq_Body :: string
  hq_Context :: "string option"

datatype http_body = Json json | Page string

record http_response =
  hp_Status :: nat
  hp_Header :: "(string \<times> string) list"
  hp_Body :: http_body

text \<open>\<^verbatim>\<open>r.Header.Get\<close> and \<^verbatim>\<open>r.URL.Query().Get\<close>: the first value, the empty string if absent\<close>

definition first_value :: "string \<Rightarrow> (string \<times> string) list \<Rightarrow> string" where
  "first_value k kvs = (case map_of kvs k of None \<Rightarrow> '''' | Some v \<Rightarrow> v)"

definition StatusOK :: nat where "StatusOK = 200"
definition StatusCreated :: nat where "StatusCreated = 201"
definition StatusBadRequest :: nat where "StatusBadRequest = 400"
definition StatusNotFound :: nat where "StatusNotFound = 404"
definition StatusConflict :: nat where "StatusConflict = 409"
definition StatusInternalServerError :: nat where "StatusInternalServerError = 500"
definition StatusServiceUnavailable :: nat where "StatusServiceUnavailable = 503"

lemmas status_codes = StatusOK_def StatusCreated_def StatusBadRequest_def StatusNotFound_def StatusConflict_def
  StatusInternalServerError_def StatusServiceUnavailable_def

definition writeJSON :: "nat \<Rightarrow> json \<Rightarrow> http_response" where
  "writeJSON status v = \<lparr>hp_Status = status, hp_Header = [(''Content-Type'', ''application/json'')], hp_Body = Json v\<rparr>"

fun json_of_detail :: "detail \<Rightarrow> json" where
  "json_of_detail (DStr s) = JStr s"
| "json_of_detail (DInt n) = JInt n"

text \<open>A map is encoded with its keys in order.\<close>

definition json_of_details :: "details \<Rightarrow> json" where
  "json_of_details d = (case d of None \<Rightarrow> JNull
     | Some kvs \<Rightarrow> JObj (map (\<lambda>(k, v). (k, json_of_detail v)) (sort_key fst kvs)))"

definition writeError :: "nat \<Rightarrow> reason \<Rightarrow> string \<Rightarrow> details \<Rightarrow> http_response" where
  "writeError status reason message details = writeJSON status
     (JObj [(''error'', JObj [(''details'', json_of_details details), (''message'', JStr message),
        (''reason'', JStr (reason_string reason))])])"

fun statusForReason :: "reason \<Rightarrow> nat" where
  "statusForReason ReasonMissingIdempotency = StatusBadRequest"
| "statusForReason ReasonInvalidResourceKind = StatusBadRequest"
| "statusForReason ReasonConflict = StatusBadRequest"
| "statusForReason ReasonInvalidInput = StatusBadRequest"
| "statusForReason ReasonProductNotFound = StatusNotFound"
| "statusForReason ReasonNotFound = StatusNotFound"
| "statusForReason ReasonInsufficientCapacity = StatusConflict"
| "statusForReason ReasonQuotaExceeded = StatusConflict"
| "statusForReason ReasonExpired = StatusConflict"
| "statusForReason ReasonExtensionLimit = StatusConflict"
| "statusForReason ReasonIdempotencyKeyReused = StatusConflict"
| "statusForReason ReasonTooManyActiveHolds = StatusConflict"
| "statusForReason ReasonUnavailable = StatusServiceUnavailable"
| "statusForReason ReasonNotImplemented = StatusInternalServerError"

definition writeErr :: "go_error \<Rightarrow> http_response" where
  "writeErr e = (case AsAppError e of
       Some (reason, message, details) \<Rightarrow> writeError (statusForReason reason) reason message details
     | None \<Rightarrow> writeError StatusServiceUnavailable ReasonUnavailable ''dependency error''
                 (Some [(''err'', DStr (error_string e))]))"

subsection \<open>Bodies\<close>

definition json_optional :: "string \<Rightarrow> ('a \<Rightarrow> json) \<Rightarrow> 'a option \<Rightarrow> (string \<times> json) list" where
  "json_optional k f x = (case x of None \<Rightarrow> [] | Some a \<Rightarrow> [(k, f a)])"

definition json_of_request :: "json_codec \<Rightarrow> environment \<Rightarrow> capacity_request \<Rightarrow> json" where
  "json_of_request X E r = JObj
     ([(''id'', JStr (en_uuid_String E (cr_ID r))), (''customer_id'', JStr (cr_CustomerID r)),
       (''idempotency_key'', JStr (cr_IdempotencyKey r))] @
      (if cr_BodyHash r = '''' then [] else [(''body_hash'', JStr (cr_BodyHash r))]) @
      json_optional ''product_id'' (\<lambda>i. JStr (en_uuid_String E i)) (cr_ProductID r) @
      [(''quantity'', JInt (cr_Quantity r)), (''status'', JStr (status_string (cr_Status r)))] @
      json_optional ''reject_reason'' (\<lambda>x. JStr (reason_string x)) (cr_RejectReason r) @
      json_optional ''expires_at'' (\<lambda>t. JStr (jc_Time X t)) (cr_ExpiresAt r) @
      [(''extension_count'', JInt (cr_ExtensionCount r)), (''correlation_id'', JStr (cr_CorrelationID r)),
       (''created_at'', JStr (jc_Time X (cr_CreatedAt r))), (''updated_at'', JStr (jc_Time X (cr_UpdatedAt r)))])"

definition json_of_line :: "environment \<Rightarrow> request_line \<Rightarrow> json" where
  "json_of_line E l = JObj
     [(''id'', JStr (en_uuid_String E (ln_ID l))), (''request_id'', JStr (en_uuid_String E (ln_RequestID l))),
      (''pool_id'', JStr (en_uuid_String E (ln_PoolID l))), (''kind'', JStr (ln_Kind l)), (''amount'', JInt (ln_Amount l))]"

fun event_string :: "event_type \<Rightarrow> string" where
  "event_string EventCreated = ''created''"
| "event_string EventReserved = ''reserved''"
| "event_string EventRejected = ''rejected''"
| "event_string EventConfirmed = ''confirmed''"
| "event_string EventCancelled = ''cancelled''"
| "event_string EventExpired = ''expired''"
| "event_string EventExtended = ''extended''"

definition json_of_event :: "json_codec \<Rightarrow> environment \<Rightarrow> request_event \<Rightarrow> json" where
  "json_of_event X E e = JObj
     [(''id'', JStr (en_uuid_String E (ev_ID e))), (''request_id'', JStr (en_uuid_String E (ev_RequestID e))),
      (''event_type'', JStr (event_string (ev_EventType e))), (''reason'', JStr (ev_Reason e)),
      (''at'', JStr (jc_Time X (ev_At e)))]"

definition json_of_product :: "json_codec \<Rightarrow> environment \<Rightarrow> product \<Rightarrow> json" where
  "json_of_product X E p = JObj
     [(''id'', JStr (en_uuid_String E (pd_ID p))), (''code'', JStr (pd_Code p)), (''name'', JStr (pd_Name p)),
      (''resource_template'', JObj (map (\<lambda>(k, n). (k, JInt n)) (sort_key fst (pd_ResourceTemplate p)))),
      (''created_at'', JStr (jc_Time X (pd_CreatedAt p)))]"

text \<open>The slices the repositories return are nil when there are no rows.\<close>

definition json_of_rows :: "('a \<Rightarrow> json) \<Rightarrow> 'a list \<Rightarrow> json" where
  "json_of_rows f xs = (if xs = [] then JNull else JArr (map f xs))"

record create_body =
  cb_CustomerID :: string
  cb_ProductID :: string
  cb_Quantity :: int
  cb_Lines :: "line_input list"

definition line_field :: "string \<Rightarrow> json \<Rightarrow> line_input \<Rightarrow> line_input option" where
  "line_field k v l =
     (if k = ''resource_kind'' then map_option (\<lambda>x. l\<lparr>li_ResourceKind := x\<rparr>) (dec_string v (li_ResourceKind l))
      else if k = ''amount'' then map_option (\<lambda>x. l\<lparr>li_Amount := x\<rparr>) (dec_int64 v (li_Amount l))
      else Some l)"

definition body_field :: "string \<Rightarrow> json \<Rightarrow> create_body \<Rightarrow> create_body option" where
  "body_field k v b =
     (if k = ''customer_id'' then map_option (\<lambda>x. b\<lparr>cb_CustomerID := x\<rparr>) (dec_string v (cb_CustomerID b))
      else if k = ''product_id'' then map_option (\<lambda>x. b\<lparr>cb_ProductID := x\<rparr>) (dec_string v (cb_ProductID b))
      else if k = ''quantity'' then map_option (\<lambda>x. b\<lparr>cb_Quantity := x\<rparr>) (dec_int64 v (cb_Quantity b))
      else if k = ''lines'' then
        map_option (\<lambda>x. b\<lparr>cb_Lines := x\<rparr>) (dec_slice (\<lambda>j. dec_struct line_field j \<lparr>li_ResourceKind = '''', li_Amount = 0\<rparr>) v)
      else Some b)"

definition decodeBody :: "string \<Rightarrow> create_body option" where
  "decodeBody s = (case decode_json s of None \<Rightarrow> None
     | Some j \<Rightarrow> dec_struct body_field j \<lparr>cb_CustomerID = '''', cb_ProductID = '''', cb_Quantity = 0, cb_Lines = []\<rparr>)"

subsection \<open>The handler\<close>

datatype endpoint =
    EHealth | EReady | EMetrics | EListProducts | EListCapacity | ECreateRequest | EListRequests
  | EGetRequest | EConfirm | ECancel | EExtend

text \<open>
  What is not in the sources: the text of times and floats; the router, which gives for the table of routes, a method and
  a path the handler and the \<^verbatim>\<open>id\<close> parameter, or the answer it gives itself; the metrics page.
\<close>

record http_libs =
  lib_codec :: json_codec
  lib_route :: "(string \<times> string \<times> endpoint) list \<Rightarrow> string \<Rightarrow> string \<Rightarrow> (endpoint \<times> string) + http_response"
  lib_promhttp :: "metrics \<Rightarrow> http_response"

record ('r, 'c) handler =
  h_svc :: "('r, 'c) capacity_service"
  h_pgHealth :: "'r health_checker option"
  h_cache :: "'c cache_store option"
  h_setDependency :: "(string \<Rightarrow> bool \<Rightarrow> ('r, 'c) world \<Rightarrow> ('r, 'c) world) option"

definition NewHandler ::
    "('r, 'c) capacity_service \<Rightarrow> 'r health_checker option \<Rightarrow> 'c cache_store option \<Rightarrow> ('r, 'c) handler" where
  "NewHandler svc pg cache = \<lparr>h_svc = svc, h_pgHealth = pg, h_cache = cache, h_setDependency = None\<rparr>"

definition SetDependencyGauge ::
    "(string \<Rightarrow> bool \<Rightarrow> ('r, 'c) world \<Rightarrow> ('r, 'c) world) \<Rightarrow> ('r, 'c) handler \<Rightarrow> ('r, 'c) handler" where
  "SetDependencyGauge fn h = h\<lparr>h_setDependency := Some fn\<rparr>"

definition Routes :: "(string \<times> string \<times> endpoint) list" where
  "Routes =
     [(''GET'', ''/health'', EHealth), (''GET'', ''/ready'', EReady), (''*'', ''/metrics'', EMetrics),
      (''GET'', ''/v1/products'', EListProducts), (''GET'', ''/v1/capacity'', EListCapacity),
      (''POST'', ''/v1/requests'', ECreateRequest), (''GET'', ''/v1/requests'', EListRequests),
      (''GET'', ''/v1/requests/{id}'', EGetRequest), (''POST'', ''/v1/requests/{id}/confirm'', EConfirm),
      (''POST'', ''/v1/requests/{id}/cancel'', ECancel), (''POST'', ''/v1/requests/{id}/extend'', EExtend)]"

text \<open>\<^verbatim>\<open>x, err := call(); if err != nil { writeErr(w, err); return }; ...\<close>\<close>

definition answering_with ::
    "(('r, 'c) world, 'a) gor \<Rightarrow> ('a \<Rightarrow> http_response) \<Rightarrow> ('r, 'c) world \<Rightarrow> http_response \<times> ('r, 'c) world" where
  "answering_with m ok w = (case m w of (Inl e, w') \<Rightarrow> (writeErr e, w') | (Inr a, w') \<Rightarrow> (ok a, w'))"

definition health :: "('r, 'c) world \<Rightarrow> http_response \<times> ('r, 'c) world" where
  "health w = (writeJSON StatusOK (JObj [(''status'', JStr ''ok'')]), w)"

text \<open>Pinging an optional dependency: an absent one counts as up.\<close>

definition pinging ::
    "(('r, 'c) world, unit) gor option \<Rightarrow> ('r, 'c) world \<Rightarrow> bool \<times> ('r, 'c) world" where
  "pinging p w = (case p of None \<Rightarrow> (True, w)
     | Some m \<Rightarrow> (case m w of (Inl e, w') \<Rightarrow> (False, w') | (Inr _, w') \<Rightarrow> (True, w')))"

definition ready :: "('r, 'c) handler \<Rightarrow> ('r, 'c) world \<Rightarrow> http_response \<times> ('r, 'c) world" where
  "ready h w =
     (case pinging (map_option (\<lambda>p. onRepo (hc_Ping p)) (h_pgHealth h)) w of (pgOK, w1) \<Rightarrow>
      case pinging (map_option (\<lambda>c. onRedis (cs_Ping c)) (h_cache h)) w1 of (redisOK, w2) \<Rightarrow>
      let w3 = (case h_setDependency h of None \<Rightarrow> w2
                | Some fn \<Rightarrow> fn ''redis'' redisOK (fn ''postgres'' pgOK w2));
          body = (\<lambda>status. JObj [(''postgres'', JBool pgOK), (''redis'', JBool redisOK), (''status'', JStr status)])
      in if \<not> pgOK then
           (let r = writeJSON StatusServiceUnavailable (body ''not_ready'')
            in (r\<lparr>hp_Header := (''Retry-After'', ''5'') # hp_Header r\<rparr>, w3))
         else (writeJSON StatusOK (body ''ready''), w3))"

definition listProducts :: "http_libs \<Rightarrow> ('r, 'c) handler \<Rightarrow> ('r, 'c) world \<Rightarrow> http_response \<times> ('r, 'c) world" where
  "listProducts L h = answering_with (ListProducts (h_svc h))
     (\<lambda>ps. writeJSON StatusOK (JObj [(''products'', json_of_rows (json_of_product (lib_codec L) (sv_env (h_svc h))) ps)]))"

text \<open>The customer named in the query, or else in the header.\<close>

definition customerOf :: "http_request \<Rightarrow> string" where
  "customerOf r = (let c = first_value ''customer_id'' (hq_Query r)
                   in if c = '''' then first_value ''X-Customer-Id'' (hq_Header r) else c)"

definition listCapacity ::
    "http_libs \<Rightarrow> ('r, 'c) handler \<Rightarrow> http_request \<Rightarrow> ('r, 'c) world \<Rightarrow> http_response \<times> ('r, 'c) world" where
  "listCapacity L h r = answering_with (ListCapacity (h_svc h) (customerOf r))
     (\<lambda>vs. writeJSON StatusOK (JObj [(''capacity'', JArr (map (json_of_view (lib_codec L) (sv_env (h_svc h))) vs))]))"

definition input_of :: "http_request \<Rightarrow> create_body \<Rightarrow> create_input" where
  "input_of r body =
     \<lparr>ci_CustomerID = (if cb_CustomerID body = '''' then first_value ''X-Customer-Id'' (hq_Header r) else cb_CustomerID body),
      ci_IdempotencyKey = first_value ''Idempotency-Key'' (hq_Header r), ci_ProductCode = cb_ProductID body,
      ci_Quantity = cb_Quantity body, ci_Lines = cb_Lines body, ci_CorrelationID = first_value ''X-Request-Id'' (hq_Header r)\<rparr>"

definition createRequest ::
    "http_libs \<Rightarrow> ('r, 'c) handler \<Rightarrow> http_request \<Rightarrow> ('r, 'c) world \<Rightarrow> http_response \<times> ('r, 'c) world" where
  "createRequest L h r w =
     (if first_value ''Idempotency-Key'' (hq_Header r) = '''' then
        (writeError StatusBadRequest ReasonMissingIdempotency ''Idempotency-Key header is required'' None, w)
      else case decodeBody (hq_Body r) of
        None \<Rightarrow> (writeError StatusBadRequest ReasonConflict ''invalid JSON body'' None, w)
      | Some body \<Rightarrow>
          answering_with (CreateRequest (h_svc h) (input_of r body))
            (\<lambda>req. writeJSON (if cr_Status req = StatusRejected then StatusConflict else StatusCreated)
                     (json_of_request (lib_codec L) (sv_env (h_svc h)) req)) w)"

definition listRequests ::
    "http_libs \<Rightarrow> ('r, 'c) handler \<Rightarrow> http_request \<Rightarrow> ('r, 'c) world \<Rightarrow> http_response \<times> ('r, 'c) world" where
  "listRequests L h r w =
     (let customerID = customerOf r; s = first_value ''status'' (hq_Query r)
      in if customerID = '''' then (writeError StatusBadRequest ReasonConflict ''customer_id required'' None, w)
         else answering_with (ListRequests (h_svc h) customerID (if s = '''' then None else Some s))
           (\<lambda>rs. writeJSON StatusOK
              (JObj [(''requests'', json_of_rows (json_of_request (lib_codec L) (sv_env (h_svc h))) rs)])) w)"

definition idParam :: "('r, 'c) handler \<Rightarrow> string \<Rightarrow> http_response + uuid" where
  "idParam h i = (case en_uuid_Parse (sv_env (h_svc h)) i of
       None \<Rightarrow> Inl (writeError StatusBadRequest ReasonConflict ''invalid request id'' None)
     | Some u \<Rightarrow> Inr u)"

definition getRequest ::
    "http_libs \<Rightarrow> ('r, 'c) handler \<Rightarrow> string \<Rightarrow> ('r, 'c) world \<Rightarrow> http_response \<times> ('r, 'c) world" where
  "getRequest L h i w = (case idParam h i of Inl bad \<Rightarrow> (bad, w)
     | Inr u \<Rightarrow> answering_with (GetRequest (h_svc h) u)
         (\<lambda>(req, lines, events). let E = sv_env (h_svc h) in writeJSON StatusOK
            (JObj [(''events'', json_of_rows (json_of_event (lib_codec L) E) events),
                   (''lines'', json_of_rows (json_of_line E) lines),
                   (''request'', json_of_request (lib_codec L) E req)])) w)"

text \<open>The request read again after a change may be gone: then the body is \<^verbatim>\<open>null\<close>.\<close>

definition request_or_null :: "http_libs \<Rightarrow> ('r, 'c) handler \<Rightarrow> capacity_request option \<Rightarrow> http_response" where
  "request_or_null L h q = writeJSON StatusOK
     (case q of None \<Rightarrow> JNull | Some req \<Rightarrow> json_of_request (lib_codec L) (sv_env (h_svc h)) req)"

definition confirm ::
    "http_libs \<Rightarrow> ('r, 'c) handler \<Rightarrow> string \<Rightarrow> ('r, 'c) world \<Rightarrow> http_response \<times> ('r, 'c) world" where
  "confirm L h i w = (case idParam h i of Inl bad \<Rightarrow> (bad, w)
     | Inr u \<Rightarrow> answering_with (Confirm (h_svc h) u) (request_or_null L h) w)"

definition cancel ::
    "http_libs \<Rightarrow> ('r, 'c) handler \<Rightarrow> string \<Rightarrow> ('r, 'c) world \<Rightarrow> http_response \<times> ('r, 'c) world" where
  "cancel L h i w = (case idParam h i of Inl bad \<Rightarrow> (bad, w)
     | Inr u \<Rightarrow> answering_with (Cancel (h_svc h) u) (request_or_null L h) w)"

definition extend_handler ::
    "http_libs \<Rightarrow> ('r, 'c) handler \<Rightarrow> string \<Rightarrow> ('r, 'c) world \<Rightarrow> http_response \<times> ('r, 'c) world" where
  "extend_handler L h i w = (case idParam h i of Inl bad \<Rightarrow> (bad, w)
     | Inr u \<Rightarrow> answering_with (Extend (h_svc h) u) (request_or_null L h) w)"

fun handle :: "http_libs \<Rightarrow> ('r, 'c) handler \<Rightarrow> http_request \<Rightarrow> endpoint \<Rightarrow> string \<Rightarrow>
    ('r, 'c) world \<Rightarrow> http_response \<times> ('r, 'c) world" where
  "handle L h r EHealth i w = health w"
| "handle L h r EReady i w = ready h w"
| "handle L h r EMetrics i w = (lib_promhttp L (w_metrics w), w)"
| "handle L h r EListProducts i w = listProducts L h w"
| "handle L h r EListCapacity i w = listCapacity L h r w"
| "handle L h r ECreateRequest i w = createRequest L h r w"
| "handle L h r EListRequests i w = listRequests L h r w"
| "handle L h r EGetRequest i w = getRequest L h i w"
| "handle L h r EConfirm i w = confirm L h i w"
| "handle L h r ECancel i w = cancel L h i w"
| "handle L h r EExtend i w = extend_handler L h i w"

definition ServeHTTP :: "http_libs \<Rightarrow> ('r, 'c) handler \<Rightarrow> http_request \<Rightarrow> ('r, 'c) world \<Rightarrow> http_response \<times> ('r, 'c) world" where
  "ServeHTTP L h r w = (case lib_route L Routes (hq_Method r) (hq_Path r) of
       Inl (e, i) \<Rightarrow> handle L h r e i w
     | Inr own \<Rightarrow> (own, w))"

end
