(* ===== verification/Process_Wiring.thy ===== *)
theory Process_Wiring
  imports Http_Api Redis_Stores Pg_Service
begin

text \<open>
  How the two processes put the parts together (\<^verbatim>\<open>internal/fxmodules\<close>): the HTTP middleware
  of \<^verbatim>\<open>internal/observability\<close>, the server's handler on Postgres and Redis, and the loop of
  the sweeper. Logging, the latency histogram, listeners and shutdown are left out.
\<close>

subsection \<open>The request id and the middleware\<close>

definition RequestIDHeader :: string where
  "RequestIDHeader = ''X-Request-Id''"

definition withRequestID :: "string \<Rightarrow> http_request \<Rightarrow> http_request" where
  "withRequestID i r = r\<lparr>hq_Context := Some i\<rparr>"

definition RequestIDFromContext :: "http_request \<Rightarrow> string" where
  "RequestIDFromContext r = (case hq_Context r of None \<Rightarrow> '''' | Some i \<Rightarrow> i)"

definition in_flight :: "int \<Rightarrow> ('r, 'c) world \<Rightarrow> ('r, 'c) world" where
  "in_flight n w = w\<lparr>w_metrics := AddGauge HTTPInFlight [] n (w_metrics w)\<rparr>"

definition request_id :: "environment \<Rightarrow> http_request \<Rightarrow> ('r, 'c) world \<Rightarrow> string \<times> ('r, 'c) world" where
  "request_id E r w =
     (let rid = first_value RequestIDHeader (hq_Header r)
      in if rid = '''' then (en_uuid_String E (w_uuids w (w_drawn w)), w\<lparr>w_drawn := Suc (w_drawn w)\<rparr>) else (rid, w))"

definition Middleware ::
    "environment \<Rightarrow> (http_request \<Rightarrow> ('r, 'c) world \<Rightarrow> http_response \<times> ('r, 'c) world) \<Rightarrow>
     http_request \<Rightarrow> ('r, 'c) world \<Rightarrow> http_response \<times> ('r, 'c) world" where
  "Middleware E serve r w =
     (case request_id E r w of (rid, w1) \<Rightarrow>
      case serve (withRequestID rid r) (in_flight 1 w1) of (resp, w2) \<Rightarrow>
      let status = (if hp_Status resp = 0 then StatusOK else hp_Status resp);
          w3 = w2\<lparr>w_metrics := Inc HTTPRequestsTotal [hq_Method r, hq_Path r, decimal status] (w_metrics w2)\<rparr>
      in (resp\<lparr>hp_Header := (RequestIDHeader, rid) # hp_Header resp\<rparr>, in_flight (- 1) w3))"

subsection \<open>The server\<close>

definition dependencyGauge :: "string \<Rightarrow> bool \<Rightarrow> ('r, 'c) world \<Rightarrow> ('r, 'c) world" where
  "dependencyGauge name up w =
     w\<lparr>w_metrics := SetGauge DependencyUp [name] (if up then F64 1 0 else F64 0 0) (w_metrics w)\<rparr>"

definition pg_checker :: "pg_state health_checker" where
  "pg_checker = \<lparr>hc_Ping = pg_ping\<rparr>"

definition server_handler ::
    "'c cache_store \<Rightarrow> 'c idempotency_store \<Rightarrow> config \<Rightarrow> environment \<Rightarrow> (pg_state, 'c) handler" where
  "server_handler cache idem cfg E =
     SetDependencyGauge dependencyGauge (NewHandler (pg_service cache idem cfg E) (Some pg_checker) (Some cache))"

definition server ::
    "http_libs \<Rightarrow> 'c cache_store \<Rightarrow> 'c idempotency_store \<Rightarrow> config \<Rightarrow> environment \<Rightarrow>
     http_request \<Rightarrow> (pg_state, 'c) world \<Rightarrow> http_response \<times> (pg_state, 'c) world" where
  "server L cache idem cfg E = Middleware E (ServeHTTP L (server_handler cache idem cfg E))"

lemma server_handler_sel [simp]:
  "h_svc (server_handler cache idem cfg E) = pg_service cache idem cfg E"
  "h_pgHealth (server_handler cache idem cfg E) = Some pg_checker"
  "h_cache (server_handler cache idem cfg E) = Some cache"
  "h_setDependency (server_handler cache idem cfg E) = Some dependencyGauge"
  by (simp_all add: server_handler_def SetDependencyGauge_def NewHandler_def)

subsection \<open>The sweeper\<close>

text \<open>
  What the \<^verbatim>\<open>select\<close> of the loop receives: a tick of the timer or the closing of the stop
  channel. The first component of the result says whether the loop has returned; when the received
  signals are used up it waits for the next one. A failed sweep is logged and the loop goes on.
\<close>

datatype loop_signal = Tick | Stop

fun runSweeperLoop :: "('r, 'c) capacity_service \<Rightarrow> loop_signal list \<Rightarrow> ('r, 'c) world \<Rightarrow> bool \<times> ('r, 'c) world" where
  "runSweeperLoop svc [] w = (False, w)"
| "runSweeperLoop svc (Stop # signals) w = (True, w)"
| "runSweeperLoop svc (Tick # signals) w =
     (case ExpireDue svc w of (Inl e, w') \<Rightarrow> runSweeperLoop svc signals w'
      | (Inr n, w') \<Rightarrow> runSweeperLoop svc signals w')"

text \<open>The metrics address of the sweeper process, and the health answer it serves there.\<close>

definition sweeperAddr :: "config \<Rightarrow> string" where
  "sweeperAddr cfg = (if cfg_MetricsAddr cfg = '''' then '':8081'' else cfg_MetricsAddr cfg)"

definition sweeperHealth :: http_response where
  "sweeperHealth = \<lparr>hp_Status = StatusOK, hp_Header = [],
     hp_Body = Page ([CHR 0x7B, CHR 0x22] @ ''status'' @ [CHR 0x22, CHR 0x3A, CHR 0x22] @ ''ok'' @ [CHR 0x22, CHR 0x7D])\<rparr>"

end
