(* ===== verification/Sample_Http.thy ===== *)
theory Sample_Http
  imports Process_Wiring Create_Properties
begin

text \<open>
  A concrete server on the sample system: a router that matches paths segment by segment the way
  go-chi does, and texts of times and floats that parse back, those of floats the same for all
  representations of one double.
\<close>

fun split_on :: "char \<Rightarrow> string \<Rightarrow> string list" where
  "split_on d [] = [[]]"
| "split_on d (c # cs) = (if c = d then [] # split_on d cs
     else (case split_on d cs of [] \<Rightarrow> [[c]] | w # ws \<Rightarrow> (c # w) # ws))"

text \<open>The value of the \<^verbatim>\<open>{id}\<close> segment, the empty string if the pattern has none.\<close>

fun match_path :: "string list \<Rightarrow> string list \<Rightarrow> string option" where
  "match_path [] [] = Some ''''"
| "match_path (p # ps) (s # ss) =
     (if p = ''{id}'' then (if s = '''' then None else map_option (\<lambda>_. s) (match_path ps ss))
      else if p = s then match_path ps ss else None)"
| "match_path _ _ = None"

definition sample_route :: "(string \<times> string \<times> endpoint) list \<Rightarrow> string \<Rightarrow> string \<Rightarrow> (endpoint \<times> string) + http_response" where
  "sample_route rs m p =
     (case find (\<lambda>(m', pat, e). (m' = m \<or> m' = ''*'') \<and>
             match_path (split_on (CHR ''/'') pat) (split_on (CHR ''/'') p) \<noteq> None) rs of
        Some (m', pat, e) \<Rightarrow> Inl (e, the (match_path (split_on (CHR ''/'') pat) (split_on (CHR ''/'') p)))
      | None \<Rightarrow> Inr \<lparr>hp_Status = 404, hp_Header = [], hp_Body = Page ''404 page not found''\<rparr>)"

definition sample_codec :: json_codec where
  "sample_codec = \<lparr>jc_Time = json_int, jc_parseTime = int_literal,
     jc_Float = (\<lambda>x. json_int (f64_mant (f64_norm x)) @ ''e'' @ json_int (f64_exp (f64_norm x))),
     jc_parseFloat = (\<lambda>s. case split_on (CHR ''e'') s of
        [m, e] \<Rightarrow> (case (int_literal m, int_literal e) of (Some a, Some b) \<Rightarrow> Some (f64_norm (F64 a b)) | _ \<Rightarrow> None) | _ \<Rightarrow> None)\<rparr>"

definition sample_libs :: http_libs where
  "sample_libs = \<lparr>lib_codec = sample_codec, lib_route = sample_route,
     lib_promhttp = (\<lambda>x. \<lparr>hp_Status = 200, hp_Header = [], hp_Body = Page ''metrics''\<rparr>)\<rparr>"

definition sample_request :: "string \<Rightarrow> string \<Rightarrow> string \<Rightarrow> http_request" where
  "sample_request method path body = \<lparr>hq_Method = method, hq_Path = path, hq_Query = [],
     hq_Header = [(''Idempotency-Key'', ''k2''), (''X-Request-Id'', ''c'')], hq_Body = body, hq_Context = None\<rparr>"

text \<open>\<^verbatim>\<open>{"customer_id": "acme", "Lines": [{"resource_kind": "cpu", "amount": 4}]}\<close>\<close>

definition quoted :: "string \<Rightarrow> string" where
  "quoted s = CHR 0x22 # s @ [CHR 0x22]"

definition four_cores_body :: string where
  "four_cores_body = ''{'' @ quoted ''customer_id'' @ '': '' @ quoted ''acme'' @ '', '' @ quoted ''Lines'' @ '': [{'' @
     quoted ''resource_kind'' @ '': '' @ quoted ''cpu'' @ '', '' @ quoted ''amount'' @ '': 4}]}''"

definition four_cores_request :: http_request where
  "four_cores_request = sample_request ''POST'' ''/v1/requests'' four_cores_body"

abbreviation sample_handler :: "(pg_state, unit) handler" where
  "sample_handler \<equiv> server_handler NoopCache NoopIdempotency sample_cfg sample_env"

text \<open>Reading a document by simplification.\<close>

lemmas parse_numeral = parse_value.simps(2) [of "pred_numeral k" for k, folded numeral_eq_Suc]
  parse_elements.simps(2) [of "pred_numeral k" for k, folded numeral_eq_Suc]
  parse_members.simps(2) [of "pred_numeral k" for k, folded numeral_eq_Suc]

lemmas json_reading = parse_numeral scan_string.simps scan_number_def number_ok_def unsigned_ok_def fraction_ok_def
  exponent_ok_def number_char_def is_digit.simps short_escape_def skip_ws_def scan_word_def decode_json_def Let_def

lemma four_cores_scanned:
  "decode_json four_cores_body = Some (JObj [(''customer_id'', JStr ''acme''),
     (''Lines'', JArr [JObj [(''resource_kind'', JStr ''cpu''), (''amount'', JNum ''4'')]])])"
  by (simp add: json_reading four_cores_body_def quoted_def del: parse_value.simps parse_elements.simps parse_members.simps)

lemma body_names [simp]:
  "fold_name ''customer_id'' = ''customer_id''" "fold_name ''resource_kind'' = ''resource_kind''"
  "fold_name ''amount'' = ''amount''" "fold_name ''Lines'' = ''lines''"
  by code_simp+

lemma four_cores_decoded:
  "decodeBody four_cores_body = Some \<lparr>cb_CustomerID = ''acme'', cb_ProductID = '''', cb_Quantity = 0,
     cb_Lines = [\<lparr>li_ResourceKind = ''cpu'', li_Amount = 4\<rparr>]\<rparr>"
  by (simp add: decodeBody_def four_cores_scanned body_field_def line_field_def int_literal_def is_digit.simps in_i64_def)

lemma sample_libs_sel [simp]:
  "lib_codec sample_libs = sample_codec" "lib_route sample_libs = sample_route"
  "hq_Method (sample_request m p b) = m" "hq_Path (sample_request m p b) = p" "hq_Body (sample_request m p b) = b"
  by (simp_all add: sample_libs_def sample_request_def)

lemma four_cores_routed: "sample_route Routes ''POST'' ''/v1/requests'' = Inl (ECreateRequest, '''')"
  by code_simp

lemma four_cores_input:
  "\<exists>body. decodeBody four_cores_body = Some body \<and> input_of four_cores_request body = order ''k2'' ''cpu'' 4"
  by (simp add: four_cores_decoded input_of_def order_def four_cores_request_def sample_request_def first_value_def)

lemma four_cores_served:
  "createRequest sample_libs sample_handler four_cores_request idle =
     (writeJSON StatusCreated (json_of_request sample_codec sample_env four_cores),
      snd (CreateRequest sample_service (order ''k2'' ''cpu'' 4) idle))"
proof -
  obtain w' where run: "CreateRequest sample_service (order ''k2'' ''cpu'' 4) idle = (Inr four_cores, w')"
    using run_result [OF four_cores_run] by blast
  moreover have "first_value ''Idempotency-Key'' (hq_Header four_cores_request) = ''k2''" "hq_Body four_cores_request = four_cores_body"
    by (simp_all add: four_cores_request_def sample_request_def first_value_def)
  moreover have "cr_Status four_cores = StatusReserved" by (simp add: four_cores_def)
  ultimately show ?thesis
    using four_cores_input by (auto simp: createRequest_def answering_with_def sample_service_def)
qed

end
