(* ===== verification/Redis_Degradation.thy ===== *)
theory Redis_Degradation
  imports Redis_Properties Sample_Http
begin

text \<open>
  Redis as an accessory: while it is down the service behaves as if it were wired without it; what the
  capacity cache gives back is what was put in; and what becomes of idempotency keys when customer ids
  may contain a colon.
\<close>

subsection \<open>A Redis that is down\<close>

text \<open>Every command fails and changes nothing.\<close>

definition redis_down :: "'c redis_client \<Rightarrow> bool" where
  "redis_down C \<longleftrightarrow> (\<forall>k v ttl s. (\<exists>e. rdb_Get C k s = (Inl e, s)) \<and> (\<exists>e. rdb_Set C k v ttl s = (Inl e, s)) \<and>
     (\<exists>e. rdb_Del C k s = (Inl e, s)) \<and> (\<exists>e. rdb_Ping C s = (Inl e, s)))"

lemma degraded_error: "m s = (Inl e, s) \<Longrightarrow> andThen (attempt m) f s = f (Inl e) s"
  by (simp add: andThen_def attempt_def)

lemma down_stores:
  assumes "redis_down C"
  shows "NewDegradingIdempotency C = NoopIdempotency"
    and "cs_GetCapacity (NewDegradingCache C) = cs_GetCapacity NoopCache"
    and "cs_SetCapacity (NewDegradingCache C) = cs_SetCapacity NoopCache"
    and "cs_InvalidateCapacity (NewDegradingCache C) = cs_InvalidateCapacity NoopCache"
proof -
  have get: "andThen (attempt (rdb_Get C k)) (\<lambda>r. case r of Inl e \<Rightarrow> ret None | Inr b \<Rightarrow> ret b) = ret None" for k
  proof
    fix s obtain e where "rdb_Get C k s = (Inl e, s)" using assms unfolding redis_down_def by blast
    then show "andThen (attempt (rdb_Get C k)) (\<lambda>r. case r of Inl e \<Rightarrow> ret None | Inr b \<Rightarrow> ret b) s = ret None s" by (simp add: degraded_error)
  qed
  have set: "andThen (attempt (rdb_Set C k v ttl)) (\<lambda>_. ret ()) = ret ()" for k v ttl
  proof
    fix s obtain e where "rdb_Set C k v ttl s = (Inl e, s)" using assms unfolding redis_down_def by blast
    then show "andThen (attempt (rdb_Set C k v ttl)) (\<lambda>_. ret ()) s = ret () s" by (simp add: degraded_error)
  qed
  have del: "andThen (attempt (rdb_Del C k)) (\<lambda>_. ret ()) = ret ()" for k
  proof
    fix s obtain e where "rdb_Del C k s = (Inl e, s)" using assms unfolding redis_down_def by blast
    then show "andThen (attempt (rdb_Del C k)) (\<lambda>_. ret ()) s = ret () s" by (simp add: degraded_error)
  qed
  show "NewDegradingIdempotency C = NoopIdempotency"
    by (simp add: NewDegradingIdempotency_def NoopIdempotency_def DegradingIdempotency_Get_def [abs_def] DegradingIdempotency_Set_def [abs_def]
        Idempotency_Get_def Idempotency_Set_def get set)
  show "cs_GetCapacity (NewDegradingCache C) = cs_GetCapacity NoopCache"
    "cs_SetCapacity (NewDegradingCache C) = cs_SetCapacity NoopCache"
    "cs_InvalidateCapacity (NewDegradingCache C) = cs_InvalidateCapacity NoopCache"
    by (simp_all add: NewDegradingCache_def NoopCache_def DegradingCache_GetCapacity_def [abs_def] DegradingCache_SetCapacity_def [abs_def]
        DegradingCache_InvalidateCapacity_def [abs_def] Cache_GetCapacity_def Cache_SetCapacity_def Cache_InvalidateCapacity_def get set del)
qed

text \<open>The service uses a cache through three of its operations only; it never pings it.\<close>

lemma same_cache_same_service:
  assumes "sv_pools S = sv_pools T" "sv_quotas S = sv_quotas T" "sv_products S = sv_products T" "sv_requests S = sv_requests T"
    "sv_tx S = sv_tx T" "sv_lock S = sv_lock T" "sv_idem S = sv_idem T" "sv_cfg S = sv_cfg T" "sv_env S = sv_env T"
    and "cs_GetCapacity (sv_cache S) = cs_GetCapacity (sv_cache T)" "cs_SetCapacity (sv_cache S) = cs_SetCapacity (sv_cache T)"
    "cs_InvalidateCapacity (sv_cache S) = cs_InvalidateCapacity (sv_cache T)"
  shows "CreateRequest S = CreateRequest T" "ListCapacity S = ListCapacity T" "Confirm S = Confirm T" "Cancel S = Cancel T"
    "ExpireDue S = ExpireDue T" "Extend S = Extend T" "GetRequest S = GetRequest T" "ListRequests S = ListRequests T"
    "ListProducts S = ListProducts T"
proof -
  note same = assms
  have tx: "WithinTx S = WithinTx T" unfolding WithinTx_def [abs_def] same by (rule refl)
  have line: "reserve_line S = reserve_line T" unfolding reserve_line_def [abs_def] same by (rule refl)
  have body: "reserve_body S = reserve_body T" unfolding reserve_body_def [abs_def] same line by (rule refl)
  have within: "reserveWithinTx S = reserveWithinTx T" unfolding reserveWithinTx_def [abs_def] tx body by (rule refl)
  have dup: "replayAfterDuplicate S = replayAfterDuplicate T" unfolding replayAfterDuplicate_def [abs_def] same by (rule refl)
  have rej: "persistRejected S = persistRejected T" unfolding persistRejected_def [abs_def] same dup by (rule refl)
  have lines: "resolveLines S = resolveLines T" unfolding resolveLines_def [abs_def] same by (rule refl)
  have one: "plan_for S = plan_for T" unfolding plan_for_def [abs_def] same by (rule refl)
  have plan: "buildReservationPlan S = buildReservationPlan T" unfolding buildReservationPlan_def [abs_def] same lines one by (rule refl)
  have limit: "enforceActiveHoldsLimit S = enforceActiveHoldsLimit T" unfolding enforceActiveHoldsLimit_def [abs_def] same by (rule refl)
  have outcome: "recordOutcome S = recordOutcome T" unfolding recordOutcome_def [abs_def] same by (rule refl)
  have new: "create_new S = create_new T"
    unfolding create_new_def [abs_def] same within dup rej plan limit outcome by (rule refl)
  have fast: "replay_fast S = replay_fast T" unfolding replay_fast_def [abs_def] same by (rule refl)
  have check: "checkIdempotentReplay S = checkIdempotentReplay T"
    unfolding checkIdempotentReplay_def [abs_def] same fast by (rule refl)
  show "CreateRequest S = CreateRequest T" unfolding CreateRequest_def [abs_def] same new check by (rule refl)
  show "ListCapacity S = ListCapacity T" unfolding ListCapacity_def [abs_def] same by (rule refl)
  have chold: "confirm_hold S = confirm_hold T" unfolding confirm_hold_def [abs_def] same by (rule refl)
  have cwrite: "confirm_write S = confirm_write T" unfolding confirm_write_def [abs_def] same chold by (rule refl)
  have cbody: "confirm_body S = confirm_body T" unfolding confirm_body_def [abs_def] same cwrite by (rule refl)
  show "Confirm S = Confirm T" unfolding Confirm_def [abs_def] same tx cbody by (rule refl)
  have rhold: "release_hold S = release_hold T" unfolding release_hold_def [abs_def] same by (rule refl)
  have rread: "release_read S = release_read T" unfolding release_read_def [abs_def] same by (rule refl)
  have rwrite: "release_write S = release_write T" unfolding release_write_def [abs_def] same rhold by (rule refl)
  have rel: "releaseReserved S = releaseReserved T" unfolding releaseReserved_def [abs_def] rread rwrite tx by (rule refl)
  show "Cancel S = Cancel T" unfolding Cancel_def [abs_def] same rel by (rule refl)
  have one: "expire_one S = expire_one T" unfolding expire_one_def [abs_def] same rel by (rule refl)
  have all: "expire_body S = expire_body T" unfolding expire_body_def same one by (rule refl)
  show "ExpireDue S = ExpireDue T" unfolding ExpireDue_def same all by (rule refl)
  show "Extend S = Extend T" unfolding Extend_def [abs_def] same by (rule refl)
  show "GetRequest S = GetRequest T" unfolding GetRequest_def [abs_def] same by (rule refl)
  show "ListRequests S = ListRequests T" unfolding ListRequests_def [abs_def] same by (rule refl)
  show "ListProducts S = ListProducts T" unfolding ListProducts_def [abs_def] same by (rule refl)
qed

text \<open>
  C33: Redis is not needed. While every Redis command fails, all calls of the service on the degrading
  stores do and answer exactly what they do and answer without Redis; and a Redis that does not answer
  at start is wired out.
\<close>

theorem redis_down_is_noop:
  assumes "redis_down C"
  shows "CreateRequest (redis_service C cfg E) = CreateRequest (pg_service NoopCache NoopIdempotency cfg E) \<and>
    ListCapacity (redis_service C cfg E) = ListCapacity (pg_service NoopCache NoopIdempotency cfg E) \<and>
    Confirm (redis_service C cfg E) = Confirm (pg_service NoopCache NoopIdempotency cfg E) \<and>
    Cancel (redis_service C cfg E) = Cancel (pg_service NoopCache NoopIdempotency cfg E) \<and>
    ExpireDue (redis_service C cfg E) = ExpireDue (pg_service NoopCache NoopIdempotency cfg E) \<and>
    newRedisStores C s = ((NoopCache, NoopIdempotency), s)"
proof -
  note stores = down_stores [OF assms]
  note same = same_cache_same_service [of "redis_service C cfg E" "pg_service NoopCache NoopIdempotency cfg E", unfolded redis_service_sel pg_service_sel]
  obtain e where "rdb_Ping C s = (Inl e, s)" using assms unfolding redis_down_def by blast
  then have "newRedisStores C s = ((NoopCache, NoopIdempotency), s)" by (simp add: newRedisStores_def)
  with same stores show ?thesis by blast
qed

text \<open>Nobody listens.\<close>

definition dead_redis :: "unit redis_client" where
  "dead_redis = \<lparr>rdb_Get = (\<lambda>k. fail (Plain ''refused'')), rdb_Set = (\<lambda>k v ttl. fail (Plain ''refused'')),
     rdb_Del = (\<lambda>k. fail (Plain ''refused'')), rdb_Ping = fail (Plain ''refused'')\<rparr>"

theorem redis_down_is_noop_witness:
  "fst (CreateRequest (redis_service dead_redis sample_cfg sample_env) (order ''k2'' ''cpu'' 4) idle) = Inr four_cores"
proof -
  have "redis_down dead_redis" by (simp add: redis_down_def dead_redis_def)
  from redis_down_is_noop [OF this, of sample_cfg sample_env "()"] four_cores_run show ?thesis
    by (simp add: sample_service_def)
qed

subsection \<open>Customers with a colon\<close>

text \<open>
  \<^verbatim>\<open>redis.go\<close> joins customer and key with a colon, and the body hash does not cover the customer:
  customer \<^verbatim>\<open>a\<close> asking under key \<^verbatim>\<open>b:c\<close> gets the request that customer \<^verbatim>\<open>a:b\<close> made
  under key \<^verbatim>\<open>c\<close>. \<open>redis_keeps_customers_apart\<close> therefore has to assume ids without a colon.
\<close>

definition order_of :: "string \<Rightarrow> string \<Rightarrow> create_input" where
  "order_of customer key = (order key ''cpu'' 4)\<lparr>ci_CustomerID := customer\<rparr>"

lemma joined_keys_collide:
  "case CreateRequest fronted_service (order_of ''a:b'' ''c'') (fronted idle_tables []) of
     (Inl e, w) \<Rightarrow> False
   | (Inr theirs, w) \<Rightarrow>
       (case CreateRequest fronted_service (order_of ''a'' ''b:c'') w of
          (Inl e, w') \<Rightarrow> False
        | (Inr mine, w') \<Rightarrow> cr_ID mine = cr_ID theirs \<and> cr_CustomerID mine = ''a:b'')"
  by code_simp


end
