(* ===== verification/Cached_Listing.thy ===== *)
theory Cached_Listing
  imports Redis_Properties Sample_Http
begin

text \<open>
  The listing in the Redis cache: what \<^verbatim>\<open>ListCapacity\<close> stores under a customer's key is what it
  answers from that key later, as long as Redis still has the entry.
\<close>

text \<open>The Redis key of a customer's listing.\<close>

definition listing_slot :: "string \<Rightarrow> string" where
  "listing_slot c = ''capacity:'' @ (if c \<noteq> '''' then ''cust:'' @ c else capacityCacheKey)"

definition marshals_with :: "json_codec \<Rightarrow> environment \<Rightarrow> bool" where
  "marshals_with X E \<longleftrightarrow> codec_obeys X E \<and> en_marshal_views E = marshal_views X E \<and> en_unmarshal_views E = unmarshal_views X E"

subsection \<open>A hit and a miss\<close>

lemma cache_get_run:
  assumes "rdb_Get C (''capacity:'' @ k) (w_redis w) = (r, s)"
  shows "attempt (onRedis (cs_GetCapacity (NewDegradingCache C) k)) w = (Inr (Inr (case r of Inl e \<Rightarrow> None | Inr b \<Rightarrow> b)), w\<lparr>w_redis := s\<rparr>)"
  using assms
  by (simp add: onRedis_def NewDegradingCache_def DegradingCache_GetCapacity_def Cache_GetCapacity_def attempt_def andThen_def ret_def
      split: sum.split)

lemma listing_hit:
  assumes "rdb_Get C (listing_slot c) (w_redis w) = (Inr (Some b), s)" and "en_unmarshal_views E b = Some views"
  shows "ListCapacity (redis_service C cfg E) c w = (Inr views, w\<lparr>w_redis := s\<rparr>)"
  using cache_get_run [OF assms(1) [unfolded listing_slot_def]] assms(2)
  by (simp add: ListCapacity_def Let_def andThen_def ret_def)

text \<open>What a listing that was not answered by the cache leaves in Redis: the text of the views, if anything.\<close>

lemma cache_set_run:
  assumes "redis_obeys C content" and "ignoring (onRedis (cs_SetCapacity (NewDegradingCache C) k b ttl)) w = (r, w')"
  shows "r = Inr () \<and> (content (w_redis w') \<subseteq>\<^sub>m content (w_redis w) \<or>
     content (w_redis w') \<subseteq>\<^sub>m (content (w_redis w))(''capacity:'' @ k \<mapsto> b))"
proof -
  obtain g s where g: "rdb_Set C (''capacity:'' @ k) b ttl (w_redis w) = (g, s)" by (rule prod.exhaust)
  with assms(2) have "r = Inr ()" "w_redis w' = s"
    by (auto simp: ignoring_def onRedis_def NewDegradingCache_def DegradingCache_SetCapacity_def Cache_SetCapacity_def attempt_def
        andThen_def ret_def)
  with assms(1) g show ?thesis unfolding redis_obeys_def by blast
qed

definition fills :: "('c \<Rightarrow> string \<Rightarrow> string option) \<Rightarrow> string \<Rightarrow> environment \<Rightarrow> 'c \<Rightarrow> capacity_view list \<Rightarrow> 'c \<Rightarrow> bool" where
  "fills content c E s views s' \<longleftrightarrow>
     (\<forall>b. content s' (listing_slot c) = Some b \<longrightarrow> content s (listing_slot c) = Some b \<or> en_marshal_views E views = Some b)"

lemma fillsI_le: "content s' \<subseteq>\<^sub>m content s \<Longrightarrow> fills content c E s views s'"
  unfolding fills_def by (blast intro: map_le_Some)

lemma fillsI_put: "content s' \<subseteq>\<^sub>m (content s)(listing_slot c \<mapsto> b) \<Longrightarrow> en_marshal_views E views = Some b \<Longrightarrow> fills content c E s views s'"
  unfolding fills_def by (metis fun_upd_same map_le_Some)

lemma fills_before: "content s1 \<subseteq>\<^sub>m content s \<Longrightarrow> fills content c E s1 views s' \<Longrightarrow> fills content c E s views s'"
  unfolding fills_def by (blast intro: map_le_Some)

lemma gauges_keep_redis:
  "forEach (\<lambda>p. gauge g (l p) (v p)) ps w = (r, w') \<Longrightarrow> w_redis w' = w_redis w"
proof (induction ps arbitrary: w)
  case (Cons p ps)
  then show ?case by (auto simp: andThen_def gauge_def updating_def split: prod.splits sum.splits)
qed (simp add: ret_def)

lemma onRepo_keeps_redis: "onRepo m w = (r, w') \<Longrightarrow> w_redis w' = w_redis w"
  by (auto simp: onRepo_def split: prod.splits)

lemma listing_miss:
  assumes ob: "redis_obeys C content" and run: "ListCapacity (redis_service C cfg E) c w = (Inr views, w')"
    and "content (w_redis w) (listing_slot c) = None"
  shows "fills content c E (w_redis w) views (w_redis w')"
proof -
  let ?k = "if c \<noteq> '''' then ''cust:'' @ c else capacityCacheKey"
  obtain g s where g: "rdb_Get C (''capacity:'' @ ?k) (w_redis w) = (g, s)" by (rule prod.exhaust)
  with ob have s: "content s \<subseteq>\<^sub>m content (w_redis w)" and "\<And>v. g = Inr (Some v) \<Longrightarrow> content (w_redis w) (listing_slot c) = Some v"
    unfolding redis_obeys_def listing_slot_def by blast+
  with assms(3) have none: "(case g of Inl e \<Rightarrow> None | Inr b \<Rightarrow> b) = None" by (cases g; cases "projr g") auto
  obtain w1 where w1_def: "w1 = w\<lparr>w_redis := s\<rparr>" by simp
  have "attempt (onRedis (cs_GetCapacity (NewDegradingCache C) ?k)) w = (Inr (Inr None), w1)"
    using cache_get_run [OF g] none by (simp add: w1_def)
  with run obtain pools w2 qs w3 x w4 where
    "onRepo (pr_List (sv_pools (redis_service C cfg E))) w1 = (Inr pools, w2)"
    and "(if c \<noteq> '''' then onRepo (qr_ListByCustomer (sv_quotas (redis_service C cfg E)) c) else ret []) w2 = (Inr qs, w3)"
    and "forEach (\<lambda>p. gauge PoolAvailableRatio [rp_Kind p] (AvailableRatio (rp_Total p) (rp_DedicatedAmount p) (rp_ReservedAmount p)
              (rp_OversubscribeFactor p))) pools w3 = (Inr x, w4)"
    and last: "andThen (case en_marshal_views E (map (capacity_view_of (fold (\<lambda>q. AList.update (cq_ResourceKind q) q) qs [])) pools) of
          None \<Rightarrow> ret () | Some b \<Rightarrow> ignoring (onRedis (cs_SetCapacity (sv_cache (redis_service C cfg E)) ?k b
            (cfg_CapacityCacheTTL (sv_cfg (redis_service C cfg E))))))
        (\<lambda>_. ret (map (capacity_view_of (fold (\<lambda>q. AList.update (cq_ResourceKind q) q) qs [])) pools)) w4 = (Inr views, w')"
    by (auto simp: ListCapacity_def Let_def andThen_Inr_iff split del: if_split)
  then have w4: "w_redis w4 = s"
    by (auto simp: w1_def ret_def dest!: onRepo_keeps_redis gauges_keep_redis split: if_splits)
  from last have views: "views = map (capacity_view_of (fold (\<lambda>q. AList.update (cq_ResourceKind q) q) qs [])) pools"
    by (auto simp: andThen_Inr_iff ret_def)
  have "fills content c E s views (w_redis w')"
  proof (cases "en_marshal_views E views")
    case None
    with last w4 show ?thesis unfolding views by (auto simp: andThen_def ret_def intro: fillsI_le)
  next
    case (Some b)
    with last obtain y where "ignoring (onRedis (cs_SetCapacity (NewDegradingCache C) ?k b (cfg_CapacityCacheTTL cfg))) w4 = (Inr y, w')"
      unfolding views by (auto simp: andThen_Inr_iff ret_def)
    from cache_set_run [OF ob this] w4 Some show ?thesis
      by (auto simp: listing_slot_def intro: fillsI_le fillsI_put)
  qed
  with s show ?thesis by (rule fills_before)
qed

subsection \<open>The text is read back\<close>

text \<open>
  C32: The cache is transparent. After a listing that the cache could not answer, any later listing of
  the same customer that finds an entry in Redis under that key - the one stored then, whatever else
  Redis has dropped since - answers exactly the same views, without touching the database. The views
  are written as JSON and read back field by field; of the codec only this is used, that the texts of
  finite doubles, of times up to the year 9999 and of UUIDs parse back to their values (\<open>codec_obeys\<close>),
  and of the views that their values are of the Go types (\<open>view_fits\<close>).
\<close>

theorem listing_survives_cache:
  assumes "redis_obeys C content" and "marshals_with X E" and "list_all view_fits views"
    and "content (w_redis w) (listing_slot c) = None"
    and "ListCapacity (redis_service C cfg E) c w = (Inr views, w')"
    and "content (w_redis v) \<subseteq>\<^sub>m content (w_redis w')"
    and "rdb_Get C (listing_slot c) (w_redis v) = (Inr (Some b), s)"
  shows "ListCapacity (redis_service C cfg E) c v = (Inr views, v\<lparr>w_redis := s\<rparr>)"
proof (rule listing_hit [OF assms(7)])
  have "content (w_redis v) (listing_slot c) = Some b"
    using assms(1,7) unfolding redis_obeys_def by blast
  with assms(6) have "content (w_redis w') (listing_slot c) = Some b" by (rule map_le_Some)
  with listing_miss [OF assms(1,5,4)] assms(2,4) have "marshal_views X E views = Some b"
    by (auto simp: fills_def marshals_with_def)
  with views_roundtrip [of X E views] assms(2,3) show "en_unmarshal_views E b = Some views"
    by (simp add: marshals_with_def)
qed

subsection \<open>On the sample system\<close>

lemma digits_no_e: "CHR ''e'' \<notin> set (decimal n)"
  using decimal_is_digits [of n] by (auto simp: list_all_iff is_digit.simps)

lemma split_on_none: "d \<notin> set xs \<Longrightarrow> split_on d xs = [xs]"
  by (induction xs) auto

lemma split_on_one: "d \<notin> set xs \<Longrightarrow> d \<notin> set ys \<Longrightarrow> split_on d (xs @ d # ys) = [xs, ys]"
  by (induction xs) (auto simp: split_on_none)

lemma json_int_no_e: "CHR ''e'' \<notin> set (json_int n)"
  using digits_no_e by (auto simp: json_int_def)

lemma exponent_json_int: "exponent_ok (CHR ''e'' # json_int n)"
proof (cases "n < 0")
  case True
  then show ?thesis using decimal_is_digits decimal_nonempty by (simp add: json_int_def exponent_ok_def)
next
  case False
  obtain c ds where d: "decimal (nat n) = c # ds" using decimal_nonempty by (metis list.exhaust)
  with decimal_is_digits [of "nat n"] have "list_all is_digit (c # ds)" "c \<noteq> CHR ''+''" "c \<noteq> CHR ''-''"
    by (auto simp: is_digit.simps)
  with d False show ?thesis by (simp add: json_int_def exponent_ok_def)
qed

lemma fraction_json_int: "fraction_ok (CHR ''e'' # json_int n)"
  using exponent_json_int [of n] by (simp add: fraction_ok_def split: list.split)

lemma unsigned_exponent: "unsigned_ok (decimal m @ CHR ''e'' # json_int n)"
proof -
  obtain c r where d: "decimal m = c # r" using decimal_nonempty by (metis list.exhaust)
  with decimal_is_digits [of m] have c: "is_digit c" and r: "list_all is_digit r" by simp_all
  then have "dropWhile is_digit (r @ CHR ''e'' # json_int n) = CHR ''e'' # json_int n"
    by (induction r) (simp_all add: is_digit.simps)
  with d c decimal_head [of m r] fraction_json_int show ?thesis by (auto simp: unsigned_ok_def)
qed

lemma literal_exponent: "literal_ok (json_int m @ CHR ''e'' # json_int n)"
proof -
  obtain c r where d: "decimal (nat m) = c # r" using decimal_nonempty by (metis list.exhaust)
  then have "c \<noteq> CHR ''-''" using minus_not_decimal [of r "nat m"] by auto
  then have "number_ok (json_int m @ CHR ''e'' # json_int n)"
    using d unsigned_exponent [of "nat m" n] unsigned_exponent [of "nat (- m)" n] by (simp add: number_ok_def json_int_def)
  moreover have "list_all number_char (json_int k)" for k
    using literal_json_int [of k] by (simp add: literal_ok_def)
  moreover have "number_char (CHR ''e'')" by (simp add: number_char_def)
  ultimately show ?thesis by (simp add: literal_ok_def)
qed

lemma sample_codec_obeys: "codec_obeys sample_codec parsing_env"
proof -
  have "jc_parseFloat sample_codec (jc_Float sample_codec x) = Some x" if "f64_canonical x" for x
    using split_on_one [OF json_int_no_e json_int_no_e, of "f64_mant x" "f64_exp x"] f64_norm_canonical [OF that]
    by (simp add: sample_codec_def)
  moreover have "literal_ok (jc_Float sample_codec x)" for x
    using literal_exponent by (simp add: sample_codec_def)
  ultimately show ?thesis by (simp add: codec_obeys_def parsing_uuids) (simp add: sample_codec_def)
qed

definition caching_env :: environment where
  "caching_env = parsing_env\<lparr>en_marshal_views := marshal_views sample_codec parsing_env,
     en_unmarshal_views := unmarshal_views sample_codec parsing_env\<rparr>"

lemma caching_env_sel [simp]:
  "en_uuid_String caching_env = en_uuid_String parsing_env" "en_uuid_Parse caching_env = en_uuid_Parse parsing_env"
  "en_marshal_views caching_env = marshal_views sample_codec parsing_env"
  "en_unmarshal_views caching_env = unmarshal_views sample_codec parsing_env"
  by (simp_all add: caching_env_def)

lemma same_uuids_same_text:
  assumes "en_uuid_String E = en_uuid_String F" and "en_uuid_Parse E = en_uuid_Parse F"
  shows "marshal_views X E = marshal_views X F" and "unmarshal_views X E = unmarshal_views X F"
    and "codec_obeys X E = codec_obeys X F"
  unfolding marshal_views_def [abs_def] unmarshal_views_def [abs_def] json_of_view_def [abs_def] json_of_pool_def [abs_def]
    view_field_def [abs_def] pool_field_def [abs_def] codec_obeys_def assms by (rule refl)+

lemma caching_marshals: "marshals_with sample_codec caching_env"
  using sample_codec_obeys by (simp add: marshals_with_def same_uuids_same_text [of caching_env parsing_env])

definition caching_service :: "(pg_state, redis_state) capacity_service" where
  "caching_service = redis_service sample_redis sample_cfg caching_env"

lemma caching_run:
  "case ListCapacity caching_service '''' (fronted idle_tables []) of
     (Inl e, w) \<Rightarrow> False
   | (Inr views, w) \<Rightarrow> length views = 2 \<and> list_all view_fits views \<and> \<not> rs_down (w_redis w) \<and>
       map_of (rs_pairs (w_redis w)) (listing_slot '''') \<noteq> None"
  by code_simp

theorem listing_survives_cache_witness:
  "case ListCapacity caching_service '''' (fronted idle_tables []) of
     (Inl e, w) \<Rightarrow> False
   | (Inr views, w) \<Rightarrow> length views = 2 \<and> ListCapacity caching_service '''' w = (Inr views, w)"
proof -
  obtain views w b where run: "ListCapacity caching_service '''' (fronted idle_tables []) = (Inr views, w)"
    and fits: "length views = 2" "list_all view_fits views" and up: "\<not> rs_down (w_redis w)"
    and b: "map_of (rs_pairs (w_redis w)) (listing_slot '''') = Some b"
    using caching_run by (auto split: prod.splits sum.splits)
  have empty: "map_of (rs_pairs (w_redis (fronted idle_tables []))) (listing_slot '''') = None" by simp
  have "rdb_Get sample_redis (listing_slot '''') (w_redis w) = (Inr (Some b), w_redis w)"
    using up b by (simp add: sample_redis_def commanding_def)
  from listing_survives_cache [OF sample_redis_obeys caching_marshals fits(2) empty run [unfolded caching_service_def] map_le_refl this]
  show ?thesis using run fits(1) by (simp add: caching_service_def)
qed


end
