(* ===== verification/Metric_Labels.thy ===== *)
theory Metric_Labels
  imports Service_Create Service_Lifecycle
begin

text \<open>
  The metrics as \<^verbatim>\<open>newMetrics\<close> registers them: a name and the names of its labels.
  \<^verbatim>\<open>WithLabelValues\<close> panics when it gets another number of values, so the code is right only
  if every write has as many values as the metric has labels. The interface \<open>metric_frame\<close> is a
  relation between worlds that every step of the service keeps as long as its writes fit.
\<close>

fun counter_desc :: "metric \<Rightarrow> string \<times> string list" where
  "counter_desc HTTPRequestsTotal = (''http_requests_total'', [''method'', ''route'', ''status''])"
| "counter_desc ReservationAttempts = (''reservation_attempts_total'', [''result''])"
| "counter_desc ReservationRejects = (''reservation_rejections_total'', [''reason''])"
| "counter_desc ReservationConfirms = (''reservation_confirmations_total'', [''product''])"
| "counter_desc ReservationCancels = (''reservation_cancellations_total'', [])"
| "counter_desc ReservationExpires = (''reservation_expirations_total'', [''trigger''])"
| "counter_desc ReservationExtends = (''reservation_extensions_total'', [])"
| "counter_desc SweeperRuns = (''sweeper_runs_total'', [''lock_acquired''])"
| "counter_desc SweeperExpiredHolds = (''sweeper_expired_holds_total'', [])"

fun gauge_desc :: "gauge \<Rightarrow> string \<times> string list" where
  "gauge_desc HTTPInFlight = (''http_requests_in_flight'', [])"
| "gauge_desc PoolAvailableRatio = (''pool_available_ratio'', [''pool''])"
| "gauge_desc QuotaUtilization = (''quota_utilization_ratio'', [''resource_kind''])"
| "gauge_desc DependencyUp = (''dependency_up'', [''dependency''])"

definition counter_fits :: "metric \<Rightarrow> string list \<Rightarrow> bool" where
  "counter_fits m l \<longleftrightarrow> length l = length (snd (counter_desc m))"

definition gauge_fits :: "gauge \<Rightarrow> string list \<Rightarrow> bool" where
  "gauge_fits g l \<longleftrightarrow> length l = length (snd (gauge_desc g))"

subsection \<open>Relations every step keeps\<close>

named_theorems framing "steps that respect a relation between worlds"

locale metric_frame =
  fixes R :: "('r, 'c) world \<Rightarrow> ('r, 'c) world \<Rightarrow> bool"
  assumes refl: "R w w"
    and trans: "R w v \<Longrightarrow> R v u \<Longrightarrow> R w u"
    and rest: "R w (w\<lparr>w_repo := s, w_redis := c, w_tick := i, w_drawn := j\<rparr>)"
    and counted: "counter_fits m l \<Longrightarrow> m \<noteq> HTTPRequestsTotal \<Longrightarrow> R w (w\<lparr>w_metrics := Inc m l (w_metrics w)\<rparr>)"
    and gauged: "gauge_fits g l \<Longrightarrow> g \<noteq> HTTPInFlight \<Longrightarrow> R w (w\<lparr>w_metrics := SetGauge g l x (w_metrics w)\<rparr>)"
begin

definition stays :: "(('r, 'c) world \<Rightarrow> 'a \<times> ('r, 'c) world) \<Rightarrow> bool" where
  "stays m \<longleftrightarrow> (\<forall>w. R w (snd (m w)))"

lemma staysD: "stays m \<Longrightarrow> m w = (r, w') \<Longrightarrow> R w w'"
  unfolding stays_def by (metis snd_conv)

lemma repo: "R w (w\<lparr>w_repo := s\<rparr>)"
  using rest [where w = w and s = s and c = "w_redis w" and i = "w_tick w" and j = "w_drawn w"] by simp

lemma redis: "R w (w\<lparr>w_redis := c\<rparr>)"
  using rest [where w = w and s = "w_repo w" and c = c and i = "w_tick w" and j = "w_drawn w"] by simp

lemma tick: "R w (w\<lparr>w_tick := i\<rparr>)"
  using rest [where w = w and s = "w_repo w" and c = "w_redis w" and i = i and j = "w_drawn w"] by simp

lemma drawn: "R w (w\<lparr>w_drawn := j\<rparr>)"
  using rest [where w = w and s = "w_repo w" and c = "w_redis w" and i = "w_tick w" and j = j] by simp

lemma stays_basic [framing]:
  "stays (ret a)" "stays (fail e)" "stays (onRepo p)" "stays (onRedis q)" "stays Now" "stays uuid_New"
  by (simp_all add: stays_def ret_def fail_def onRepo_def onRedis_def Now_def uuid_New_def calling_def
      refl repo redis tick drawn split: prod.split)

lemma stays_count [framing]: "counter_fits m l \<Longrightarrow> m \<noteq> HTTPRequestsTotal \<Longrightarrow> stays (count m l)"
  by (simp add: stays_def count_def updating_def counted)

lemma stays_gauge [framing]: "gauge_fits g l \<Longrightarrow> g \<noteq> HTTPInFlight \<Longrightarrow> stays (gauge g l v)"
  by (simp add: stays_def gauge_def updating_def gauged)

lemma stays_andThen [framing]:
  assumes "stays m" and "\<And>a. stays (f a)"
  shows "stays (andThen m f)"
  unfolding stays_def
proof
  fix w
  obtain r w1 where m: "m w = (r, w1)" by (rule prod.exhaust)
  show "R w (snd (andThen m f w))"
  proof (cases r)
    case (Inr a)
    obtain q w2 where "f a w1 = (q, w2)" by (rule prod.exhaust)
    with Inr m trans staysD [OF assms(1) m] staysD [OF assms(2) this] show ?thesis by (simp add: andThen_def)
  qed (use m staysD [OF assms(1)] in \<open>simp add: andThen_def\<close>)
qed

lemma stays_attempt [framing]: "stays m \<Longrightarrow> stays (attempt m)"
  by (simp add: stays_def attempt_def split: prod.split) (metis snd_conv)

lemma stays_ignoring [framing]: "stays m \<Longrightarrow> stays (ignoring m)"
  unfolding ignoring_def by (intro framing)

lemma stays_forEach [framing]: "(\<And>x. stays (f x)) \<Longrightarrow> stays (forEach f xs)"
  by (induction xs) (simp_all add: framing)

lemma stays_collect [framing]: "(\<And>x. stays (f x)) \<Longrightarrow> stays (collect f xs)"
  by (induction xs) (simp_all add: framing)

lemma stays_cases [framing]:
  "(b \<Longrightarrow> stays m) \<Longrightarrow> (\<not> b \<Longrightarrow> stays n) \<Longrightarrow> stays (if b then m else n)"
  "stays m \<Longrightarrow> (\<And>a. stays (f a)) \<Longrightarrow> stays (case x of None \<Rightarrow> m | Some a \<Rightarrow> f a)"
  "(\<And>a. stays (g a)) \<Longrightarrow> (\<And>b. stays (h b)) \<Longrightarrow> stays (case y of Inl a \<Rightarrow> g a | Inr b \<Rightarrow> h b)"
  "(\<And>a b. stays (q a b)) \<Longrightarrow> stays (case z of (a, b) \<Rightarrow> q a b)"
  by (simp_all split: option.split sum.split prod.split)

lemma stays_WithinTx [framing]:
  assumes "stays body"
  shows "stays (WithinTx S body)"
  unfolding stays_def
proof
  fix w :: "('r, 'c) world"
  obtain r w1 where b: "onRepo (tx_Begin (sv_tx S)) w = (r, w1)" by (rule prod.exhaust)
  obtain q w2 where q: "body w1 = (q, w2)" by (rule prod.exhaust)
  obtain x w3 where c: "onRepo (tx_Commit (sv_tx S)) w2 = (x, w3)" by (rule prod.exhaust)
  have 1: "R w w1" and 2: "R w1 w2" and 3: "R w2 w3"
    using staysD [OF stays_basic(3) b] staysD [OF assms q] staysD [OF stays_basic(3) c] by simp_all
  from trans [OF 1 2] have 12: "R w w2" .
  from trans [OF 12 3] have 13: "R w w3" .
  show "R w (snd (WithinTx S body w))"
    using 1 trans [OF 12 repo] trans [OF 13 repo] 13 by (simp add: WithinTx_def b q c split: sum.split)
qed

lemma stays_deferring [framing]:
  assumes "stays d" and "stays m"
  shows "stays (deferring d m)"
  unfolding stays_def
proof
  fix w
  obtain r w1 where m: "m w = (r, w1)" by (rule prod.exhaust)
  obtain q w2 where "d w1 = (q, w2)" by (rule prod.exhaust)
  with m trans staysD [OF assms(2) m] staysD [OF assms(1) this] show "R w (snd (deferring d m w))"
    by (simp add: deferring_def)
qed

subsection \<open>The calls of the service\<close>

lemma fits [framing]:
  "counter_fits ReservationAttempts [x]" "counter_fits ReservationRejects [x]" "counter_fits ReservationConfirms [x]"
  "counter_fits ReservationCancels []" "counter_fits ReservationExpires [x]" "counter_fits ReservationExtends []"
  "counter_fits SweeperRuns [x]" "counter_fits SweeperExpiredHolds []" "gauge_fits PoolAvailableRatio [x]"
  "ReservationAttempts \<noteq> HTTPRequestsTotal" "ReservationRejects \<noteq> HTTPRequestsTotal" "ReservationConfirms \<noteq> HTTPRequestsTotal"
  "ReservationCancels \<noteq> HTTPRequestsTotal" "ReservationExpires \<noteq> HTTPRequestsTotal" "ReservationExtends \<noteq> HTTPRequestsTotal"
  "SweeperRuns \<noteq> HTTPRequestsTotal" "SweeperExpiredHolds \<noteq> HTTPRequestsTotal"
  "PoolAvailableRatio \<noteq> HTTPInFlight"
  by (simp_all add: counter_fits_def gauge_fits_def)

lemmas life_cycle_code = Confirm_def confirm_body_def confirm_write_def confirm_hold_def Cancel_def releaseReserved_def
  release_read_def release_write_def release_hold_def Extend_def ListProducts_def GetRequest_def ListRequests_def
  ExpireDue_def expire_body_def expire_one_def ListCapacity_def Let_def

lemmas create_code = CreateRequest_def create_new_def checkIdempotentReplay_def replay_fast_def matchIdempotentBody_def
  enforceActiveHoldsLimit_def buildReservationPlan_def resolveLines_def plan_for_def reserveWithinTx_def reserve_body_def
  reserve_line_def buildLines_def buildHolds_def replayAfterDuplicate_def persistRejected_def recordOutcome_def Let_def

lemma stays_releaseReserved [framing]: "stays (releaseReserved S req st)"
  unfolding life_cycle_code by (intro framing)

lemma stays_Confirm: "stays (Confirm S i)"
  and stays_Extend: "stays (Extend S i)"
  and stays_reads: "stays (GetRequest S i)" "stays (ListRequests S c st)" "stays (ListProducts S)"
  unfolding life_cycle_code by (intro framing)+

lemma stays_Cancel: "stays (Cancel S i)"
  unfolding Cancel_def by (intro framing)

lemma stays_ExpireDue: "stays (ExpireDue S)"
  unfolding ExpireDue_def expire_body_def expire_one_def Let_def by (intro framing)

lemma stays_ListCapacity: "stays (ListCapacity S c)"
  unfolding ListCapacity_def Let_def by (intro framing)

lemma stays_CreateRequest: "stays (CreateRequest S inp)"
  unfolding create_code by (intro framing)

end

subsection \<open>Labels fit, and the HTTP metrics belong to the middleware\<close>

definition labelled :: "('r, 'c) world \<Rightarrow> bool" where
  "labelled w \<longleftrightarrow> (\<forall>m l. mx_counters (w_metrics w) m l \<noteq> 0 \<longrightarrow> counter_fits m l) \<and>
     (\<forall>g l. mx_gauges (w_metrics w) g l \<noteq> F64 0 0 \<longrightarrow> gauge_fits g l)"

lemma labelled_rest [simp]:
  "labelled (w\<lparr>w_repo := s\<rparr>) = labelled w" "labelled (w\<lparr>w_redis := c\<rparr>) = labelled w"
  "labelled (w\<lparr>w_tick := i\<rparr>) = labelled w" "labelled (w\<lparr>w_drawn := j\<rparr>) = labelled w"
  by (simp_all add: labelled_def)

lemma labelled_Inc: "labelled w \<Longrightarrow> counter_fits m l \<Longrightarrow> labelled (w\<lparr>w_metrics := Inc m l (w_metrics w)\<rparr>)"
  by (auto simp: labelled_def Inc_def)

lemma labelled_SetGauge: "labelled w \<Longrightarrow> gauge_fits g l \<Longrightarrow> labelled (w\<lparr>w_metrics := SetGauge g l x (w_metrics w)\<rparr>)"
  by (auto simp: labelled_def SetGauge_def)

interpretation label_frame: metric_frame "\<lambda>w w'. labelled w \<longrightarrow> labelled w'"
  by unfold_locales (auto intro: labelled_Inc labelled_SetGauge)

definition http_part :: "('r, 'c) world \<Rightarrow> (string list \<Rightarrow> nat) \<times> (string list \<Rightarrow> f64)" where
  "http_part w = (mx_counters (w_metrics w) HTTPRequestsTotal, mx_gauges (w_metrics w) HTTPInFlight)"

lemma http_part_rest [simp]:
  "http_part (w\<lparr>w_repo := s\<rparr>) = http_part w" "http_part (w\<lparr>w_redis := c\<rparr>) = http_part w"
  "http_part (w\<lparr>w_tick := i\<rparr>) = http_part w" "http_part (w\<lparr>w_drawn := j\<rparr>) = http_part w"
  by (simp_all add: http_part_def)

interpretation http_frame: metric_frame "\<lambda>w w'. http_part w' = http_part w"
  by unfold_locales (auto simp: http_part_def Inc_def SetGauge_def)

end
