(* ===== verification/Http_Properties.thy ===== *)
theory Http_Properties
  imports Sample_Http Metric_Labels Redis_Properties Reachable_States
begin

text \<open>
  What clients can rely on: every HTTP request is one or no call of the service, so the invariants of
  the service hold behind the API; what the answers to \<^verbatim>\<open>POST /v1/requests\<close> mean; what the
  readiness check and the middleware do.
\<close>

subsection \<open>What the router promises\<close>

text \<open>The handler it picks is one the table has for the method.\<close>

definition routes_ok :: "http_libs \<Rightarrow> bool" where
  "routes_ok L \<longleftrightarrow> (\<forall>m p e i. lib_route L Routes m p = Inl (e, i) \<longrightarrow>
     list_ex (\<lambda>(m', _, e'). e' = e \<and> (m' = m \<or> m' = ''*'')) Routes)"

subsection \<open>A request is at most one call\<close>

lemma answering_world: "snd (answering_with m ok w) = snd (m w)"
  by (simp add: answering_with_def split: prod.split sum.split)

lemma same_data_refl [simp]: "same_data w w"
  by (simp add: same_data_def)

lemma same_data_trans: "same_data w v \<Longrightarrow> same_data v u \<Longrightarrow> same_data w u"
  by (simp add: same_data_def)

lemma pg_ping_tables: "pg_ping s = (r, s') \<Longrightarrow> pg_tables s' = pg_tables s"
  by (auto simp: pg_ping_def sql_def Let_def split: list.splits option.splits)

lemma ready_same:
  "same_data w (snd (ready (server_handler cache idem cfg E) w))"
proof -
  have 1: "pinging (Some (onRepo (hc_Ping pg_checker))) w = (up, w1) \<Longrightarrow> same_data w w1" for up w1
    by (auto simp: pinging_def onRepo_def pg_checker_def same_data_def dest: pg_ping_tables split: prod.splits sum.splits)
  have 2: "pinging (Some (onRedis (cs_Ping cache))) w1 = (up, w2) \<Longrightarrow> same_data w1 w2" for up w1 and w2 :: "(pg_state, 'a) world"
    by (auto simp: pinging_def onRedis_def same_data_def split: prod.splits sum.splits)
  show ?thesis
    by (auto simp: ready_def Let_def dependencyGauge_def split: prod.split dest!: 1 2) (simp_all add: same_data_def)
qed

text \<open>The call a request makes, if any.\<close>

lemma handle_one_call:
  "(\<exists>c. snd (handle L (server_handler cache idem cfg E) r e i w) = after (pg_service cache idem cfg E) c w) \<or>
   same_data w (snd (handle L (server_handler cache idem cfg E) r e i w))"
proof (cases e)
  case EHealth
  then show ?thesis by (simp add: health_def)
next
  case EReady
  then show ?thesis by (simp add: ready_same)
next
  case EListProducts
  have "snd (listProducts L (server_handler cache idem cfg E) w) = after (pg_service cache idem cfg E) CallListProducts w"
    by (simp add: listProducts_def answering_world)
  then show ?thesis unfolding EListProducts handle.simps by blast
next
  case EListCapacity
  have "snd (listCapacity L (server_handler cache idem cfg E) r w) = after (pg_service cache idem cfg E) (CallListCapacity (customerOf r)) w"
    by (simp add: listCapacity_def answering_world)
  then show ?thesis unfolding EListCapacity handle.simps by blast
next
  case ECreateRequest
  have "same_data w (snd (createRequest L (server_handler cache idem cfg E) r w)) \<or>
    (\<exists>inp. snd (createRequest L (server_handler cache idem cfg E) r w) = after (pg_service cache idem cfg E) (CallCreate inp) w)"
    by (auto simp: createRequest_def answering_world split: option.split)
  then show ?thesis unfolding ECreateRequest handle.simps by blast
next
  case EListRequests
  have "same_data w (snd (listRequests L (server_handler cache idem cfg E) r w)) \<or>
    (\<exists>c st. snd (listRequests L (server_handler cache idem cfg E) r w) = after (pg_service cache idem cfg E) (CallList c st) w)"
    by (auto simp: listRequests_def answering_world Let_def)
  then show ?thesis unfolding EListRequests handle.simps by blast
next
  case EGetRequest
  have "same_data w (snd (getRequest L (server_handler cache idem cfg E) i w)) \<or>
    (\<exists>u. snd (getRequest L (server_handler cache idem cfg E) i w) = after (pg_service cache idem cfg E) (CallGet u) w)"
    by (auto simp: getRequest_def answering_world split: sum.split)
  then show ?thesis unfolding EGetRequest handle.simps by blast
next
  case EConfirm
  have "same_data w (snd (confirm L (server_handler cache idem cfg E) i w)) \<or>
    (\<exists>u. snd (confirm L (server_handler cache idem cfg E) i w) = after (pg_service cache idem cfg E) (CallConfirm u) w)"
    by (auto simp: confirm_def answering_world split: sum.split)
  then show ?thesis unfolding EConfirm handle.simps by blast
next
  case ECancel
  have "same_data w (snd (cancel L (server_handler cache idem cfg E) i w)) \<or>
    (\<exists>u. snd (cancel L (server_handler cache idem cfg E) i w) = after (pg_service cache idem cfg E) (CallCancel u) w)"
    by (auto simp: cancel_def answering_world split: sum.split)
  then show ?thesis unfolding ECancel handle.simps by blast
next
  case EExtend
  have "same_data w (snd (extend_handler L (server_handler cache idem cfg E) i w)) \<or>
    (\<exists>u. snd (extend_handler L (server_handler cache idem cfg E) i w) = after (pg_service cache idem cfg E) (CallExtend u) w)"
    by (auto simp: extend_handler_def answering_world split: sum.split)
  then show ?thesis unfolding EExtend handle.simps by blast
qed (simp add: same_data_def)

lemma serve_reachable:
  assumes "reachable (pg_service cache idem cfg E) w0 w"
  shows "reachable (pg_service cache idem cfg E) w0 (snd (ServeHTTP L (server_handler cache idem cfg E) r w))"
proof (cases "lib_route L Routes (hq_Method r) (hq_Path r)")
  case (Inl ei)
  obtain e i where "ei = (e, i)" by (cases ei)
  with Inl have s: "ServeHTTP L (server_handler cache idem cfg E) r w = handle L (server_handler cache idem cfg E) r e i w"
    by (simp add: ServeHTTP_def)
  show ?thesis
    using handle_one_call [of L cache idem cfg E r e i w] assms unfolding s
    by (auto intro: reachable.call reachable.meanwhile)
qed (use assms in \<open>simp add: ServeHTTP_def\<close>)

lemma request_id_same: "same_data w (snd (request_id E r w))"
  by (simp add: request_id_def Let_def same_data_def)

lemma server_reachable:
  assumes "reachable (pg_service cache idem cfg E) w0 w"
  shows "reachable (pg_service cache idem cfg E) w0 (snd (server L cache idem cfg E r w))"
proof -
  obtain rid w1 where r1: "request_id E r w = (rid, w1)" by (rule prod.exhaust)
  obtain resp w2 where r2: "ServeHTTP L (server_handler cache idem cfg E) (withRequestID rid r) (in_flight 1 w1) = (resp, w2)"
    by (rule prod.exhaust)
  have "same_data w (in_flight 1 w1)" using request_id_same [of w E r] by (simp add: r1 in_flight_def same_data_def)
  from serve_reachable [OF reachable.meanwhile [OF assms this], of L "withRequestID rid r"]
  have "reachable (pg_service cache idem cfg E) w0 w2" by (simp add: r2)
  moreover have "same_data w2 (snd (server L cache idem cfg E r w))"
    using r2 by (simp add: server_def Middleware_def r1 same_data_def Let_def) (simp add: in_flight_def)
  ultimately show ?thesis by (rule reachable.meanwhile)
qed

definition serve_all ::
    "http_libs \<Rightarrow> 'c cache_store \<Rightarrow> 'c idempotency_store \<Rightarrow> config \<Rightarrow> environment \<Rightarrow>
     http_request list \<Rightarrow> (pg_state, 'c) world \<Rightarrow> (pg_state, 'c) world" where
  "serve_all L cache idem cfg E rs w = fold (\<lambda>r w. snd (server L cache idem cfg E r w)) rs w"

lemma serve_all_reachable:
  "reachable (pg_service cache idem cfg E) w0 w \<Longrightarrow> reachable (pg_service cache idem cfg E) w0 (serve_all L cache idem cfg E rs w)"
  by (induction rs arbitrary: w) (simp_all add: serve_all_def server_reachable)

subsection \<open>Metrics\<close>

context metric_frame
begin

lemma stays_answering: "stays m \<Longrightarrow> stays (answering_with m ok)"
  by (simp add: stays_def answering_world)

lemma dependency: "R w (dependencyGauge name up w)"
  by (simp add: dependencyGauge_def gauged gauge_fits_def)

lemma stays_pinging: "(\<And>m. p = Some m \<Longrightarrow> stays m) \<Longrightarrow> stays (pinging p)"
  using refl by (auto simp: stays_def pinging_def split: option.splits prod.splits sum.splits) (metis snd_conv)+

lemma stays_ready:
  assumes "h_setDependency h = Some dependencyGauge"
  shows "stays (ready h)"
  unfolding stays_def
proof
  fix w :: "('r, 'c) world"
  obtain up w1 where 1: "pinging (map_option (\<lambda>p. onRepo (hc_Ping p)) (h_pgHealth h)) w = (up, w1)" by (rule prod.exhaust)
  obtain up' w2 where 2: "pinging (map_option (\<lambda>c. onRedis (cs_Ping c)) (h_cache h)) w1 = (up', w2)" by (rule prod.exhaust)
  have "R w w1" by (rule staysD [OF stays_pinging 1]) (auto intro: framing)
  moreover have "R w1 w2" by (rule staysD [OF stays_pinging 2]) (auto intro: framing)
  ultimately have "R w (dependencyGauge ''redis'' up' (dependencyGauge ''postgres'' up w2))"
    by (blast intro: trans dependency)
  then show "R w (snd (ready h w))" using assms by (cases up) (simp_all add: ready_def 1 2 Let_def)
qed

lemma stays_here: "stays (\<lambda>w. (f w, w))"
  by (simp add: stays_def refl)

lemma stays_id: "(\<And>u. stays (m u)) \<Longrightarrow> stays (\<lambda>w. case q of Inl bad \<Rightarrow> (bad, w) | Inr u \<Rightarrow> m u w)"
  using refl by (cases q) (simp_all add: stays_def)

lemma stays_handle:
  assumes "h_setDependency h = Some dependencyGauge"
  shows "stays (handle L h r e i)"
proof -
  note call = stays_answering stays_Confirm stays_Cancel stays_Extend stays_reads stays_ListCapacity stays_CreateRequest
  have "stays (createRequest L h r)"
    unfolding stays_def createRequest_def using stays_answering [OF stays_CreateRequest] refl
    by (simp add: stays_def split: option.split)
  moreover have "stays (listRequests L h r)"
    unfolding stays_def listRequests_def Let_def using stays_answering [OF stays_reads(2)] refl by (simp add: stays_def)
  moreover have "stays (getRequest L h i)" "stays (confirm L h i)" "stays (cancel L h i)" "stays (extend_handler L h i)"
    unfolding getRequest_def [abs_def] confirm_def [abs_def] cancel_def [abs_def] extend_handler_def [abs_def]
    by (intro stays_id call)+
  moreover have "stays (listProducts L h)" "stays (listCapacity L h r)"
    unfolding listProducts_def listCapacity_def by (intro call)+
  ultimately show ?thesis
    using stays_ready [OF assms] refl by (cases e) (simp_all add: stays_def health_def)
qed

lemma stays_ServeHTTP:
  assumes "h_setDependency h = Some dependencyGauge"
  shows "stays (ServeHTTP L h r)"
  using stays_handle [OF assms] refl by (auto simp: stays_def ServeHTTP_def split: sum.split)

end

text \<open>
  C37: Label values fit. Whatever requests the server answers and however often the sweeper ticks, no
  counter or gauge is ever written with a number of label values other than the number of labels it
  was registered with; Prometheus would panic on any other.
\<close>

theorem metrics_well_labelled:
  assumes "labelled w"
  shows "labelled (serve_all L cache idem cfg E rs w) \<and> labelled (snd (runSweeperLoop svc signals w))"
proof
  have one: "labelled v \<longrightarrow> labelled (snd (server L cache idem cfg E r v))" for r v
  proof
    assume v: "labelled v"
    obtain rid w1 where r1: "request_id E r v = (rid, w1)" by (rule prod.exhaust)
    obtain resp w2 where r2: "ServeHTTP L (server_handler cache idem cfg E) (withRequestID rid r) (in_flight 1 w1) = (resp, w2)"
      by (rule prod.exhaust)
    have flight: "labelled u \<Longrightarrow> labelled (in_flight n u)" for n and u :: "(pg_state, 'a) world"
      by (simp add: in_flight_def AddGauge_def labelled_SetGauge gauge_fits_def)
    have "labelled w1" using v r1 by (auto simp: request_id_def Let_def split: if_splits)
    then have "labelled w2"
      using label_frame.staysD [OF label_frame.stays_ServeHTTP r2] flight by simp
    then have "labelled (w2\<lparr>w_metrics := Inc HTTPRequestsTotal [hq_Method r, hq_Path r, x] (w_metrics w2)\<rparr>)" for x
      by (rule labelled_Inc) (simp add: counter_fits_def)
    then show "labelled (snd (server L cache idem cfg E r v))"
      by (simp add: server_def Middleware_def r1 r2 Let_def flight)
  qed
  show "labelled (serve_all L cache idem cfg E rs w)"
    using assms by (induction rs arbitrary: w) (simp_all add: serve_all_def one)
  show "labelled (snd (runSweeperLoop svc signals w))"
    using assms
  proof (induction svc signals w rule: runSweeperLoop.induct)
    case (3 svc signals w)
    obtain x v where x: "ExpireDue svc w = (x, v)" by (rule prod.exhaust)
    from label_frame.staysD [OF label_frame.stays_ExpireDue x] "3.prems" have "labelled v" by simp
    with "3.IH" x show ?case by (cases x) simp_all
  qed simp_all
qed

theorem metrics_well_labelled_witness:
  "labelled (serve_all sample_libs NoopCache NoopIdempotency sample_cfg sample_env [four_cores_request] busy)"
proof -
  have "labelled busy" by (simp add: labelled_def busy_def world_of_def newMetrics_def)
  from metrics_well_labelled [OF this] show ?thesis by simp
qed

text \<open>
  C35: The middleware's books. For every request the server answers it counts one request under its
  method, path and status and no other, the in-flight gauge is back to zero, and the response carries
  the caller's \<^verbatim>\<open>X-Request-Id\<close>, or a fresh one if the caller sent none.
\<close>

theorem each_request_is_counted_once:
  assumes "mx_gauges (w_metrics w) HTTPInFlight [] = F64 0 0"
    and "server L cache idem cfg E r w = (resp, w')" and "hp_Status resp \<noteq> 0"
  shows "mx_gauges (w_metrics w') HTTPInFlight [] = F64 0 0 \<and>
    mx_counters (w_metrics w') HTTPRequestsTotal = (mx_counters (w_metrics w) HTTPRequestsTotal)
      ([hq_Method r, hq_Path r, decimal (hp_Status resp)] :=
         Suc (mx_counters (w_metrics w) HTTPRequestsTotal [hq_Method r, hq_Path r, decimal (hp_Status resp)])) \<and>
    first_value ''X-Request-Id'' (hp_Header resp) =
      (if first_value ''X-Request-Id'' (hq_Header r) = '''' then en_uuid_String E (w_uuids w (w_drawn w))
       else first_value ''X-Request-Id'' (hq_Header r))"
proof -
  obtain rid w1 where r1: "request_id E r w = (rid, w1)" by (rule prod.exhaust)
  obtain resp0 w2 where r2: "ServeHTTP L (server_handler cache idem cfg E) (withRequestID rid r) (in_flight 1 w1) = (resp0, w2)"
    by (rule prod.exhaust)
  have w1: "w_metrics w1 = w_metrics w" and rid: "rid = (if first_value ''X-Request-Id'' (hq_Header r) = '''' then en_uuid_String E (w_uuids w (w_drawn w))
       else first_value ''X-Request-Id'' (hq_Header r))"
    using r1 by (auto simp: request_id_def Let_def RequestIDHeader_def split: if_splits)
  have add: "AddGauge HTTPInFlight [] n x = SetGauge HTTPInFlight [] (F64 (k + n) 0) x"
    if "mx_gauges x HTTPInFlight [] = F64 k 0" and "\<bar>k + n\<bar> < 2 ^ 53" for n k x
    using that f64_sub_exact [of k "- n"] by (simp add: AddGauge_def)
  have "http_part w2 = http_part (in_flight 1 w1)"
    using http_frame.staysD [OF http_frame.stays_ServeHTTP r2] by simp
  then have in_w2: "mx_gauges (w_metrics w2) HTTPInFlight [] = F64 1 0"
      "mx_counters (w_metrics w2) HTTPRequestsTotal = mx_counters (w_metrics w) HTTPRequestsTotal"
    using add [of "w_metrics w1" 0 1] assms(1) w1 by (simp_all add: http_part_def in_flight_def SetGauge_def)
  have resp: "resp = resp0\<lparr>hp_Header := (RequestIDHeader, rid) # hp_Header resp0\<rparr>"
    "w' = in_flight (- 1) (w2\<lparr>w_metrics := Inc HTTPRequestsTotal [hq_Method r, hq_Path r, decimal (hp_Status resp)] (w_metrics w2)\<rparr>)"
    using assms(2,3) by (auto simp: server_def Middleware_def r1 r2 Let_def split: if_splits)
  let ?x = "Inc HTTPRequestsTotal [hq_Method r, hq_Path r, decimal (hp_Status resp)] (w_metrics w2)"
  have "mx_gauges ?x HTTPInFlight [] = F64 1 0" using in_w2(1) by (simp add: Inc_def)
  from add [OF this, of "- 1"] have down: "AddGauge HTTPInFlight [] (- 1) ?x = SetGauge HTTPInFlight [] (F64 0 0) ?x" by simp
  have "w_metrics w' = SetGauge HTTPInFlight [] (F64 0 0) ?x" using down by (simp add: resp(2) in_flight_def)
  then show ?thesis
    using in_w2(2) by (simp add: SetGauge_def Inc_def resp(1) RequestIDHeader_def first_value_def rid)
qed

theorem each_request_is_counted_once_witness:
  "mx_counters (w_metrics (snd (server sample_libs NoopCache NoopIdempotency sample_cfg sample_env
     (sample_request ''GET'' ''/health'' '''') idle))) HTTPRequestsTotal [''GET'', ''/health'', ''200''] = 1"
proof -
  let ?r = "sample_request ''GET'' ''/health'' ''''"
  have "sample_route Routes ''GET'' ''/health'' = Inl (EHealth, '''')" by code_simp
  then have s: "hp_Status (fst (server sample_libs NoopCache NoopIdempotency sample_cfg sample_env ?r idle)) = 200"
    by (simp add: server_def Middleware_def ServeHTTP_def withRequestID_def health_def writeJSON_def StatusOK_def Let_def
        sample_request_def sample_libs_def split: prod.split)
  have "mx_gauges (w_metrics idle) HTTPInFlight [] = F64 0 0" "decimal 200 = ''200''"
    "mx_counters (w_metrics idle) HTTPRequestsTotal [''GET'', ''/health'', ''200''] = 0"
    by (simp_all add: idle_def world_of_def newMetrics_def) code_simp
  with each_request_is_counted_once [OF _ surjective_pairing, of idle sample_libs NoopCache NoopIdempotency sample_cfg sample_env ?r] s
  show ?thesis by simp
qed

subsection \<open>The invariants, behind the API\<close>

text \<open>
  C27: No request breaks the books. Whatever sequence of HTTP requests the server answers, in the end
  every pool counts exactly the holds and stays within its effective capacity, and every quota counts
  exactly the live holds of its customer and kind and stays within its limit.
\<close>

theorem http_keeps_the_books:
  assumes "sound bd bq w" and "permutes_maps E" and "w' = serve_all L cache idem cfg E rs w"
  shows "(\<forall>p. p \<in> set (t_pools (store w')) \<longrightarrow>
      rp_ReservedAmount p = on_pool HoldActive (rp_ID p) (t_holds (store w')) \<and>
      rp_DedicatedAmount p = bd (rp_ID p) + on_pool HoldDedicated (rp_ID p) (t_holds (store w')) \<and>
      rp_DedicatedAmount p + rp_ReservedAmount p \<le> effective p) \<and>
    (\<forall>q. q \<in> set (t_quotas (store w')) \<longrightarrow>
      cq_UsedAmount q = bq (quota_key q) + used_in (store w') (quota_key q) \<and> cq_UsedAmount q \<le> cq_Limit q)"
proof -
  have "reachable (pg_service cache idem cfg E) w w'"
    using serve_all_reachable [OF reachable.start] by (simp add: assms(3))
  from reachable_sound [OF assms(1) this assms(1,2)] have "ledger bd bq (store w')" by (simp add: sound_def)
  then have "tally (\<lambda>_. 0) bd bq (store w')" "pools_ok (store w')" "quotas_ok (store w')"
    by (simp_all add: ledger_def book_def)
  then show ?thesis
    by (auto simp: tally_def pools_ok_def list_all_iff pool_ok_def quotas_ok_def quota_ok_def)
qed

theorem http_keeps_the_books_witness:
  "list_all (\<lambda>p. rp_DedicatedAmount p + rp_ReservedAmount p \<le> effective p)
     (t_pools (store (serve_all sample_libs NoopCache NoopIdempotency sample_cfg sample_env
        [four_cores_request, sample_request ''POST'' ''/v1/requests/100/confirm'' '''', sample_request ''GET'' ''/ready'' ''''] idle)))"
  using http_keeps_the_books [OF sound_idle sample_range refl] unfolding list_all_iff by blast

text \<open>The handlers behind GET routes change no table.\<close>

lemma get_handlers:
  assumes "routes_ok L" and "lib_route L Routes ''GET'' p = Inl (e, i)"
  shows "e \<in> {EHealth, EReady, EMetrics, EListProducts, EListCapacity, EListRequests, EGetRequest}"
  using assms by (cases e) (fastforce simp: routes_ok_def Routes_def)+

lemma reads_change_nothing:
  assumes "sound bd bq w"
  shows "store (after (pg_service cache idem cfg E) (CallListCapacity c) w) = store w"
    and "store (after (pg_service cache idem cfg E) CallListProducts w) = store w"
    and "store (after (pg_service cache idem cfg E) (CallGet j) w) = store w"
    and "store (after (pg_service cache idem cfg E) (CallList c st) w) = store w"
  unfolding after.simps
  by (rule quiet_store [OF assms pg.ListCapacity_rule], auto)
    (rule quiet_store [OF assms pg.ListProducts_rule], auto, rule quiet_store [OF assms pg.GetRequest_rule], auto,
     rule quiet_store [OF assms pg.ListRequests_rule], auto)

lemma same_data_store: "same_data w w' \<Longrightarrow> store w' = store w"
  by (simp add: same_data_def store_def pg_view_def)

text \<open>
  C34: GET is safe. A GET request, whatever its path, query and headers, leaves every table as it was.
\<close>

theorem http_get_changes_nothing:
  assumes "sound bd bq w" and "routes_ok L" and "hq_Method r = ''GET''"
  shows "store (snd (server L cache idem cfg E r w)) = store w"
proof -
  obtain rid w1 where r1: "request_id E r w = (rid, w1)" by (rule prod.exhaust)
  let ?v = "in_flight 1 w1"
  have v: "same_data w ?v" using request_id_same [of w E r] by (simp add: r1 in_flight_def same_data_def)
  then have sv: "sound bd bq ?v"
    using assms(1) by (simp add: sound_def same_data_def store_def pg_view_def pg_inv_def)
  have served: "store (snd (ServeHTTP L (server_handler cache idem cfg E) (withRequestID rid r) ?v)) = store ?v"
  proof (cases "lib_route L Routes ''GET'' (hq_Path r)")
    case (Inl ei)
    obtain e i where ei: "ei = (e, i)" by (cases ei)
    from get_handlers [OF assms(2) Inl [unfolded ei]]
    have "store (snd (handle L (server_handler cache idem cfg E) (withRequestID rid r) e i ?v)) = store ?v"
      using same_data_store [OF ready_same]
        reads_change_nothing [OF sv, of cache idem cfg E, unfolded after.simps]
      by (auto simp: health_def listProducts_def listCapacity_def listRequests_def getRequest_def answering_world Let_def split: sum.split)
    then show ?thesis using Inl assms(3) by (simp add: ServeHTTP_def withRequestID_def ei)
  qed (use assms(3) in \<open>simp add: ServeHTTP_def withRequestID_def\<close>)
  obtain resp w2 where r2: "ServeHTTP L (server_handler cache idem cfg E) (withRequestID rid r) ?v = (resp, w2)"
    by (rule prod.exhaust)
  have "same_data w2 (snd (server L cache idem cfg E r w))"
    using r2 by (simp add: server_def Middleware_def r1 Let_def same_data_def) (simp add: in_flight_def)
  with served r2 v show ?thesis by (simp add: same_data_store)
qed

lemma sample_routes_ok: "routes_ok sample_libs"
  unfolding routes_ok_def
proof (intro allI impI)
  fix m p e i
  assume "lib_route sample_libs Routes m p = Inl (e, i)"
  then obtain m' pat where "find (\<lambda>(m', pat, e). (m' = m \<or> m' = ''*'') \<and>
      match_path (split_on (CHR ''/'') pat) (split_on (CHR ''/'') p) \<noteq> None) Routes = Some (m', pat, e)"
    by (auto simp: sample_route_def split: option.splits)
  from find_SomeD [OF this] show "list_ex (\<lambda>(m', _, e'). e' = e \<and> (m' = m \<or> m' = ''*'')) Routes"
    by (auto simp: list_ex_iff intro!: bexI [of _ "(m', pat, e)"])
qed

theorem http_get_changes_nothing_witness:
  "store (snd (server sample_libs NoopCache NoopIdempotency sample_cfg sample_env
     (sample_request ''GET'' ''/v1/requests/10'' '''') busy)) = busy_tables"
  using http_get_changes_nothing [OF sound_busy(1) sample_routes_ok, of "sample_request ''GET'' ''/v1/requests/10'' ''''"]
  by simp

end
