(* ===== verification/Http_Answers.thy ===== *)
theory Http_Answers
  imports Http_Properties
begin

text \<open>
  What the answers of the API mean: to a creation, to a readiness check; and which request id an
  audit trail ends up with.
\<close>

subsection \<open>Creating\<close>

lemma error_status: "hp_Status (writeErr e) \<in> {400, 404, 409, 500, 503}"
proof (cases "AsAppError e")
  case (Some x)
  then show ?thesis
    by (cases x; cases "fst x") (simp_all add: writeErr_def writeError_def writeJSON_def status_codes)
qed (simp add: writeErr_def writeError_def writeJSON_def status_codes)

text \<open>
  C28: \<^verbatim>\<open>POST /v1/requests\<close> answers truthfully. 201 comes with a stored request that is not
  rejected; whenever the status is anything else - a rejection, a malformed or invalid body, a reused
  key, a failing database - no pool counter, quota, hold or dedication has changed. A missing
  \<^verbatim>\<open>Idempotency-Key\<close> or a body that is not JSON of the right shape is answered 400 before
  anything happens at all.
\<close>

theorem create_answers_truthfully:
  assumes "sound bd bq w" and "permutes_maps E"
    and "createRequest L (server_handler cache idem cfg E) r w = (resp, w')"
  shows "(if hp_Status resp = 201
      then \<exists>req. hp_Body resp = Json (json_of_request (lib_codec L) E req) \<and>
        unstamp_request req \<in> set (t_requests (store w')) \<and> cr_Status req \<noteq> StatusRejected
      else same_capacity (store w) (store w') \<and> hp_Status resp \<in> {400, 404, 409, 500, 503}) \<and>
    (first_value ''Idempotency-Key'' (hq_Header r) = '''' \<or> decodeBody (hq_Body r) = None \<longrightarrow>
      hp_Status resp = 400 \<and> w' = w)"
proof (cases "first_value ''Idempotency-Key'' (hq_Header r) = '''' \<or> decodeBody (hq_Body r) = None")
  case True
  with assms(3) show ?thesis
    by (auto simp: createRequest_def writeError_def writeJSON_def status_codes split: if_splits)
next
  case False
  then obtain body where body: "decodeBody (hq_Body r) = Some body" "first_value ''Idempotency-Key'' (hq_Header r) \<noteq> ''''" by auto
  obtain x where x: "CreateRequest (pg_service cache idem cfg E) (input_of r body) w = (x, w')"
    and resp: "resp = (case x of Inl e \<Rightarrow> writeErr e
      | Inr req \<Rightarrow> writeJSON (if cr_Status req = StatusRejected then StatusConflict else StatusCreated) (json_of_request (lib_codec L) E req))"
    using assms(3) body by (auto simp: createRequest_def answering_with_def split: prod.splits sum.splits)
  from pg_create [OF assms(1,2) x] obtain cor where l: "ledger bd bq (store w')" and
    run: "case x of
        Inr req \<Rightarrow> created E cfg ((input_of r body)\<lparr>ci_CorrelationID := cor\<rparr>) (computeBodyHash E (input_of r body)) (time_of w) (store w) req (store w')
      | Inl e \<Rightarrow> refused E ((input_of r body)\<lparr>ci_CorrelationID := cor\<rparr>) (computeBodyHash E (input_of r body)) (time_of w) (store w) (store w')" by blast
  show ?thesis
  proof (cases x)
    case (Inl e)
    have "hp_Status resp \<in> {400, 404, 409, 500, 503}" using error_status [of e] by (simp add: resp Inl)
    moreover have "same_capacity (store w) (store w')" using run refused_same_capacity by (auto simp: Inl)
    ultimately show ?thesis using False by auto
  next
    case (Inr req)
    then have c: "created E cfg ((input_of r body)\<lparr>ci_CorrelationID := cor\<rparr>) (computeBodyHash E (input_of r body)) (time_of w) (store w) req (store w')"
      using run by simp
    have "requests_distinct (store w')" using l by (simp add: ledger_def book_def)
    from created_otherwise [OF c this] created_appends [OF c] False show ?thesis
      by (auto simp: resp Inr writeJSON_def status_codes)
  qed
qed

theorem create_answers_truthfully_witness:
  "\<exists>req. json_of_request sample_codec sample_env four_cores = json_of_request sample_codec sample_env req \<and>
     unstamp_request req \<in> set (t_requests (store (snd (CreateRequest sample_service (order ''k2'' ''cpu'' 4) idle))))"
proof -
  from create_answers_truthfully [OF sound_idle sample_range four_cores_served]
  show ?thesis by (auto simp: writeJSON_def status_codes)
qed

subsection \<open>Readiness\<close>

definition answers :: "('s, 'a) gor \<Rightarrow> 's \<Rightarrow> bool" where
  "answers m s \<longleftrightarrow> (case fst (m s) of Inl e \<Rightarrow> False | Inr a \<Rightarrow> True)"

lemma pinging_repo: "fst (pinging (Some (onRepo m)) w) = answers m (w_repo w) \<and>
    w_redis (snd (pinging (Some (onRepo m)) w)) = w_redis w \<and> w_metrics (snd (pinging (Some (onRepo m)) w)) = w_metrics w"
  by (auto simp: pinging_def onRepo_def answers_def split: prod.split sum.split)

lemma pinging_redis: "fst (pinging (Some (onRedis m)) w) = answers m (w_redis w) \<and>
    w_metrics (snd (pinging (Some (onRedis m)) w)) = w_metrics w"
  by (auto simp: pinging_def onRedis_def answers_def split: prod.split sum.split)

text \<open>
  C36: Readiness follows Postgres alone. The server answers 200 if the database answers its ping and
  503 with a \<^verbatim>\<open>Retry-After\<close> if it does not; Redis only shows in the body and in its gauge. Both
  gauges end up telling what was found, and no table changes.
\<close>

theorem ready_follows_postgres:
  "(let h = server_handler cache idem cfg E;
        pgOK = answers pg_ping (w_repo w); redisOK = answers (cs_Ping cache) (w_redis w);
        resp = fst (ready h w); w' = snd (ready h w)
    in hp_Status resp = (if pgOK then 200 else 503) \<and>
       first_value ''Retry-After'' (hp_Header resp) = (if pgOK then '''' else ''5'') \<and>
       hp_Body resp = Json (JObj [(''postgres'', JBool pgOK), (''redis'', JBool redisOK),
         (''status'', JStr (if pgOK then ''ready'' else ''not_ready''))]) \<and>
       mx_gauges (w_metrics w') DependencyUp [''postgres''] = F64 (if pgOK then 1 else 0) 0 \<and>
       mx_gauges (w_metrics w') DependencyUp [''redis''] = F64 (if redisOK then 1 else 0) 0 \<and>
       store w' = store w)"
proof -
  obtain up w1 where 1: "pinging (Some (onRepo pg_ping)) w = (up, w1)" by (rule prod.exhaust)
  obtain up' w2 where 2: "pinging (Some (onRedis (cs_Ping cache))) w1 = (up', w2)" by (rule prod.exhaust)
  have up: "up = answers pg_ping (w_repo w)" "up' = answers (cs_Ping cache) (w_redis w)"
    using pinging_repo [of pg_ping w] pinging_redis [of "cs_Ping cache" w1] 1 2 by simp_all
  have "hc_Ping pg_checker = pg_ping" by (simp add: pg_checker_def)
  then show ?thesis
    unfolding Let_def
    by (intro conjI same_data_store [OF ready_same])
      (simp_all add: ready_def 1 2 up Let_def dependencyGauge_def SetGauge_def writeJSON_def status_codes first_value_def)
qed

subsection \<open>The request id in the audit trail\<close>

text \<open>
  The README promises that the \<^verbatim>\<open>X-Request-Id\<close> a caller gets back leads to the stored
  request: "helps line up API logs with durable audit events". It does when the caller sent the id.
  When it did not, the middleware makes one for the response and the log, and \<^verbatim>\<open>CreateRequest\<close>,
  which finds no header, makes another for the row.
\<close>

definition anonymous_request :: http_request where
  "anonymous_request = four_cores_request\<lparr>hq_Header := [(''Idempotency-Key'', ''k2'')]\<rparr>"

lemma anonymous_body:
  "\<exists>body. decodeBody four_cores_body = Some body \<and>
     input_of (withRequestID i anonymous_request) body = order ''k2'' ''cpu'' 4\<lparr>ci_CorrelationID := ''''\<rparr>"
  by (simp add: four_cores_decoded input_of_def order_def anonymous_request_def withRequestID_def four_cores_request_def
      sample_request_def first_value_def)

lemma anonymous_run:
  "map cr_CorrelationID (t_requests (store (snd (CreateRequest sample_service
     (order ''k2'' ''cpu'' 4\<lparr>ci_CorrelationID := ''''\<rparr>) (in_flight 1 (idle\<lparr>w_drawn := 1\<rparr>)))))) = [''101'']"
  by code_simp

lemma anonymous_request_loses_its_id:
  "first_value ''X-Request-Id'' (hp_Header (fst (server sample_libs NoopCache NoopIdempotency sample_cfg sample_env anonymous_request idle))) = ''100''"
  "map cr_CorrelationID (t_requests (store (snd (server sample_libs NoopCache NoopIdempotency sample_cfg sample_env anonymous_request idle)))) = [''101'']"
proof -
  have a: "hq_Method anonymous_request = ''POST''" "hq_Path anonymous_request = ''/v1/requests''" "hq_Body anonymous_request = four_cores_body"
    "first_value ''Idempotency-Key'' (hq_Header anonymous_request) = ''k2''" "first_value RequestIDHeader (hq_Header anonymous_request) = ''''"
    by (simp_all add: anonymous_request_def four_cores_request_def sample_request_def first_value_def RequestIDHeader_def)
  have hundred: "en_uuid_String sample_env (UUID 100) = ''100''" by code_simp
  have id: "request_id sample_env anonymous_request idle = (''100'', idle\<lparr>w_drawn := 1\<rparr>)"
    using hundred unfolding request_id_def a(5) Let_def by (simp add: idle_def world_of_def)
  then show "first_value ''X-Request-Id'' (hp_Header (fst (server sample_libs NoopCache NoopIdempotency sample_cfg sample_env anonymous_request idle))) = ''100''"
    by (simp add: server_def Middleware_def Let_def RequestIDHeader_def first_value_def split: prod.split)
  obtain body where body: "decodeBody four_cores_body = Some body"
      "input_of (withRequestID ''100'' anonymous_request) body = order ''k2'' ''cpu'' 4\<lparr>ci_CorrelationID := ''''\<rparr>"
    using anonymous_body [of "''100''"] by blast
  let ?v = "in_flight 1 (idle\<lparr>w_drawn := 1\<rparr>)"
  have "snd (ServeHTTP sample_libs sample_handler (withRequestID ''100'' anonymous_request) ?v) =
      snd (CreateRequest sample_service (order ''k2'' ''cpu'' 4\<lparr>ci_CorrelationID := ''''\<rparr>) ?v)"
    using a body four_cores_routed
    by (simp add: ServeHTTP_def withRequestID_def [of _ anonymous_request] createRequest_def answering_world sample_service_def)
  moreover have "store (snd (server sample_libs NoopCache NoopIdempotency sample_cfg sample_env anonymous_request idle)) =
      store (snd (ServeHTTP sample_libs sample_handler (withRequestID ''100'' anonymous_request) ?v))"
    by (simp add: server_def Middleware_def id Let_def in_flight_def store_def split: prod.split)
  ultimately show "map cr_CorrelationID (t_requests (store (snd (server sample_libs NoopCache NoopIdempotency sample_cfg sample_env anonymous_request idle)))) = [''101'']"
    using anonymous_run by simp
qed

end
