(* ===== verification/Fault_Free.thy ===== *)
theory Fault_Free
  imports Pg_Service Redis_Stores
begin

text \<open>
  Runs without faults. While the database has no fault scheduled and its rows satisfy the constraints of
  the schema, the statements of cancelling and sweeping cannot fail; so the code that issues them cannot
  either, provided the event ids it draws are new. \<open>succeeds\<close> is total correctness with success:
  \<open>hoare\<close> with the error postcondition false.
\<close>

named_theorems calm_intro "calls that succeed in a calm world"

subsection \<open>A quiet database\<close>

definition check_request :: "capacity_request \<Rightarrow> go_error option" where
  "check_request r = (if \<not> in_int4 (cr_ExtensionCount r) then Some out_of_range
     else if cr_ExtensionCount r < 0 then Some check_violation else None)"

text \<open>The CHECK constraints and column types of the tables that cancelling and sweeping write.\<close>

definition rows_ok :: "tables \<Rightarrow> bool" where
  "rows_ok t \<longleftrightarrow> list_all (\<lambda>p. check_pool p = None) (t_pools t) \<and> list_all (\<lambda>q. check_quota q = None) (t_quotas t) \<and>
     list_all (\<lambda>r. check_request r = None) (t_requests t) \<and> list_all (\<lambda>h. 0 < hd_Amount h) (t_holds t)"

definition quiet :: "pg_state \<Rightarrow> bool" where
  "quiet s \<longleftrightarrow> set (pg_faults s) \<subseteq> {None} \<and> rows_ok (pg_tables s)"

text \<open>What these statements leave alone: which requests and events there are, and the locks.\<close>

definition marks :: "pg_state \<Rightarrow> uuid set \<times> uuid set \<times> (int \<times> nat) list \<times> nat option" where
  "marks s = (cr_ID ` set (t_requests (pg_tables s)), ev_ID ` set (t_events (pg_tables s)), pg_advisory s, lk_conn s)"

definition smooth :: "(pg_state, 'a) gor \<Rightarrow> bool" where
  "smooth m \<longleftrightarrow> (\<forall>s. quiet s \<longrightarrow> (\<exists>a s'. m s = (Inr a, s') \<and> quiet s' \<and> marks s' = marks s))"

lemma quiet_run:
  assumes "quiet s"
  shows "sql f s = (case f (s\<lparr>pg_faults := tl (pg_faults s)\<rparr>) of
     Inl e \<Rightarrow> (Inl e, s\<lparr>pg_faults := tl (pg_faults s)\<rparr>) | Inr (a, s') \<Rightarrow> (Inr a, s'))"
proof (cases "pg_faults s")
  case (Cons x xs)
  with assms have "x = None" by (simp add: quiet_def)
  with Cons show ?thesis by (simp add: sql_def Let_def split: sum.split)
qed (simp add: sql_def Let_def split: sum.split)

lemma quiet_tail: "quiet s \<Longrightarrow> quiet (s\<lparr>pg_faults := tl (pg_faults s)\<rparr>)"
  by (cases "pg_faults s") (simp_all add: quiet_def)

lemma marks_tail [simp]: "marks (s\<lparr>pg_faults := x\<rparr>) = marks s"
  by (simp add: marks_def)

lemma smooth_mapErr: "smooth m \<Longrightarrow> smooth (mapErr g m)"
  unfolding smooth_def mapErr_Inr_iff .

lemma smooth_andThen_ret: "smooth m \<Longrightarrow> smooth (andThen m (\<lambda>a. ret (f a)))"
  unfolding smooth_def by (metis andThen_run(1) ret_iff)

lemma smooth_select: "smooth (sql_select f)"
  by (auto simp: smooth_def sql_select_def quiet_run quiet_tail)

lemma smooth_exec:
  assumes "\<And>now t. rows_ok t \<Longrightarrow> \<exists>a t'. f now t = Inr (a, t') \<and> rows_ok t' \<and>
     cr_ID ` set (t_requests t') = cr_ID ` set (t_requests t) \<and> t_events t' = t_events t"
  shows "smooth (sql_exec f)"
  unfolding smooth_def
proof (intro allI impI)
  fix s assume s: "quiet s"
  then have "rows_ok (pg_tables s)" by (simp add: quiet_def)
  then obtain a t' where t': "f (pg_now s) (pg_tables s) = Inr (a, t')" "rows_ok t'"
    "cr_ID ` set (t_requests t') = cr_ID ` set (t_requests (pg_tables s))" "t_events t' = t_events (pg_tables s)"
    using assms by blast
  let ?s = "s\<lparr>pg_faults := tl (pg_faults s), pg_tables := t'\<rparr>"
  have "sql_exec f s = (Inr a, ?s)" using t'(1) by (simp add: sql_exec_def quiet_run [OF s])
  moreover have "quiet ?s" using quiet_tail [OF s] t'(2) by (simp add: quiet_def)
  moreover have "marks ?s = marks s" using t' by (simp add: marks_def)
  ultimately show "\<exists>a s'. sql_exec f s = (Inr a, s') \<and> quiet s' \<and> marks s' = marks s" by blast
qed

text \<open>An UPDATE whose new rows satisfy the constraint.\<close>

lemma update_rows_ok:
  assumes "\<And>x. x \<in> set rows \<Longrightarrow> w x \<Longrightarrow> chk x = None \<Longrightarrow> chk (f x) = None" and "list_all (\<lambda>x. chk x = None) rows"
  shows "update_rows w f chk rows = Inr (length (filter w rows), mapWhere w f rows)"
    and "list_all (\<lambda>x. chk x = None) (mapWhere w f rows)"
proof -
  have "find (\<lambda>x. w x \<and> chk (f x) \<noteq> None) rows = None"
    using assms by (auto simp: find_None_iff list_all_iff)
  then show "update_rows w f chk rows = Inr (length (filter w rows), mapWhere w f rows)"
    by (simp add: update_rows_def)
  show "list_all (\<lambda>x. chk x = None) (mapWhere w f rows)"
    using assms by (auto simp: list_all_iff set_mapWhere)
qed

lemma check_pool_None: "check_pool p = None \<longleftrightarrow> in_i64 (rp_ReservedAmount p) \<and> in_i64 (rp_DedicatedAmount p) \<and>
    0 \<le> rp_ReservedAmount p \<and> 0 \<le> rp_DedicatedAmount p"
  by (auto simp: check_pool_def)

lemma check_quota_None: "check_quota q = None \<longleftrightarrow> in_i64 (cq_UsedAmount q) \<and> in_i64 (cq_Limit q) \<and>
    0 \<le> cq_Limit q \<and> 0 \<le> cq_UsedAmount q \<and> cq_UsedAmount q \<le> cq_Limit q"
  by (auto simp: check_quota_def)

lemma smooth_ReleaseReserved:
  assumes "0 \<le> n"
  shows "smooth (PoolRepo_ReleaseReserved i n)"
  unfolding PoolRepo_ReleaseReserved_def update_pools_def
proof (rule smooth_andThen_ret, rule smooth_mapErr, rule smooth_exec)
  fix now t assume t: "rows_ok t"
  let ?w = "\<lambda>p. rp_ID p = i \<and> n \<le> rp_ReservedAmount p"
  let ?f = "\<lambda>p. p\<lparr>rp_ReservedAmount := rp_ReservedAmount p - n, rp_UpdatedAt := now\<rparr>"
  have "check_pool p = None \<Longrightarrow> ?w p \<Longrightarrow> check_pool (?f p) = None" for p
    using assms by (auto simp: check_pool_None in_i64_def)
  from update_rows_ok [of "t_pools t" ?w check_pool ?f] this t
  show "\<exists>a t'. (case update_rows ?w ?f check_pool (t_pools t) of Inl e \<Rightarrow> Inl e | Inr (n, ps) \<Rightarrow> Inr (n, t\<lparr>t_pools := ps\<rparr>)) = Inr (a, t') \<and>
      rows_ok t' \<and> cr_ID ` set (t_requests t') = cr_ID ` set (t_requests t) \<and> t_events t' = t_events t"
    by (simp add: rows_ok_def)
qed

lemma smooth_QuotaRelease:
  assumes "0 \<le> n"
  shows "smooth (QuotaRepo_Release c k n)"
  unfolding QuotaRepo_Release_def update_quotas_def
proof (rule smooth_andThen_ret, rule smooth_mapErr, rule smooth_exec)
  fix now t assume t: "rows_ok t"
  let ?w = "\<lambda>q. quota_key q = (c, k)"
  let ?f = "\<lambda>q. q\<lparr>cq_UsedAmount := max (cq_UsedAmount q - n) 0, cq_UpdatedAt := now\<rparr>"
  have "check_quota q = None \<Longrightarrow> check_quota (?f q) = None" for q
    using assms by (auto simp: check_quota_None in_i64_def)
  from update_rows_ok [of "t_quotas t" ?w check_quota ?f] this t
  show "\<exists>a t'. (case update_rows ?w ?f check_quota (t_quotas t) of Inl e \<Rightarrow> Inl e | Inr (n, qs) \<Rightarrow> Inr (n, t\<lparr>t_quotas := qs\<rparr>)) = Inr (a, t') \<and>
      rows_ok t' \<and> cr_ID ` set (t_requests t') = cr_ID ` set (t_requests t) \<and> t_events t' = t_events t"
    by (simp add: rows_ok_def)
qed

lemma smooth_UpdateHoldStatus: "smooth (RequestRepo_UpdateHoldStatus i src dst)"
  unfolding RequestRepo_UpdateHoldStatus_def
proof (rule smooth_andThen_ret, rule smooth_mapErr, rule smooth_exec)
  fix now t assume t: "rows_ok t"
  let ?w = "\<lambda>h. hd_ID h = i \<and> hd_Status h = src" and ?f = "\<lambda>h. h\<lparr>hd_Status := dst, hd_UpdatedAt := now\<rparr>"
  have "update_rows ?w ?f (\<lambda>_. None) (t_holds t) = Inr (length (filter ?w (t_holds t)), mapWhere ?w ?f (t_holds t))"
    by (rule update_rows_ok) (simp_all add: list_all_iff)
  moreover have "list_all (\<lambda>h. 0 < hd_Amount h) (mapWhere ?w ?f (t_holds t))"
    using t by (auto simp: rows_ok_def list_all_iff set_mapWhere)
  ultimately show "\<exists>a t'. (case update_rows ?w ?f (\<lambda>_. None) (t_holds t) of Inl e \<Rightarrow> Inl e | Inr (n, hs) \<Rightarrow> Inr (n, t\<lparr>t_holds := hs\<rparr>)) = Inr (a, t') \<and>
      rows_ok t' \<and> cr_ID ` set (t_requests t') = cr_ID ` set (t_requests t) \<and> t_events t' = t_events t"
    using t by (simp add: rows_ok_def)
qed

lemma smooth_mark:
  "smooth (update_requests i (\<lambda>now r. r\<lparr>cr_Status := st, cr_UpdatedAt := now\<rparr>))"
  unfolding update_requests_def check_request_def [symmetric]
proof (rule smooth_exec)
  fix now t assume t: "rows_ok t"
  let ?w = "\<lambda>r. cr_ID r = i \<and> cr_Status r = StatusReserved" and ?f = "\<lambda>r. r\<lparr>cr_Status := st, cr_UpdatedAt := now\<rparr>"
  have "check_request (?f r) = check_request r" for r by (simp add: check_request_def)
  then have u: "update_rows ?w ?f check_request (t_requests t) = Inr (length (filter ?w (t_requests t)), mapWhere ?w ?f (t_requests t))"
      "list_all (\<lambda>r. check_request r = None) (mapWhere ?w ?f (t_requests t))"
    using t by (auto simp: rows_ok_def intro!: update_rows_ok)
  have "map cr_ID (mapWhere ?w ?f (t_requests t)) = map cr_ID (t_requests t)" by (induction "t_requests t") (auto simp: mapWhere_def)
  then have "cr_ID ` set (mapWhere ?w ?f (t_requests t)) = cr_ID ` set (t_requests t)" by (metis set_map)
  with t u show "\<exists>a t'. (case update_rows ?w ?f check_request (t_requests t) of Inl e \<Rightarrow> Inl e | Inr (n, rs) \<Rightarrow> Inr (n, t\<lparr>t_requests := rs\<rparr>)) = Inr (a, t') \<and>
      rows_ok t' \<and> cr_ID ` set (t_requests t') = cr_ID ` set (t_requests t) \<and> t_events t' = t_events t"
    by (simp add: rows_ok_def)
qed

lemma smooth_reads:
  "smooth (RequestRepo_Get i)" "smooth (RequestRepo_ListLines i)" "smooth (RequestRepo_ListActiveHolds i)"
  "smooth (RequestRepo_ListExpiredIDs now n)"
  unfolding RequestRepo_Get_def RequestRepo_ListLines_def RequestRepo_ListActiveHolds_def RequestRepo_ListExpiredIDs_def
  by (intro smooth_mapErr smooth_select)+

text \<open>The event is inserted if its id is new and its request exists.\<close>

lemma quiet_insertEvent:
  assumes s: "quiet s" and "marks s = (R, V, A, L)" and "ev_ID ev \<notin> V" and "ev_RequestID ev \<in> R"
  shows "\<exists>s'. insertEvent ev s = (Inr (), s') \<and> quiet s' \<and> marks s' = (R, insert (ev_ID ev) V, A, L)"
proof -
  let ?t = "(pg_tables s)\<lparr>t_events := t_events (pg_tables s) @ [ev]\<rparr>"
  let ?s = "s\<lparr>pg_faults := tl (pg_faults s), pg_tables := ?t\<rparr>"
  have "\<not> list_ex (\<lambda>x. ev_ID x = ev_ID ev) (t_events (pg_tables s))" "list_ex (\<lambda>r. cr_ID r = ev_RequestID ev) (t_requests (pg_tables s))"
    using assms(2-) unfolding marks_def list_ex_iff by (metis (no_types) Pair_inject image_iff)+
  then have "insert_event_row ev (pg_tables s) = Inr ((), ?t)" by (simp add: insert_event_row_def)
  then have "insertEvent ev s = (Inr (), ?s)"
    by (simp add: insertEvent_def mapErr_Inr_iff sql_exec_def quiet_run [OF s])
  moreover have "quiet ?s" using quiet_tail [OF s] by (simp add: quiet_def rows_ok_def)
  moreover have "marks ?s = (R, insert (ev_ID ev) V, A, L)" using assms(2) by (auto simp: marks_def)
  ultimately show ?thesis by blast
qed

lemma quiet_markTerminal:
  assumes s: "quiet s" and m: "marks s = (R, V, A, L)" and "ev_ID ev \<notin> V" and "ev_RequestID ev \<in> R"
  shows "\<exists>b s'. RequestRepo_markTerminal i st ev s = (Inr b, s') \<and> quiet s' \<and>
     (marks s' = (R, V, A, L) \<or> marks s' = (R, insert (ev_ID ev) V, A, L))"
proof -
  obtain n s1 where u: "mapErr (Errorf (''mark '' @ status_string st)) (update_requests i (\<lambda>now r. r\<lparr>cr_Status := st, cr_UpdatedAt := now\<rparr>)) s = (Inr n, s1)"
    and s1: "quiet s1" "marks s1 = (R, V, A, L)"
    using smooth_mapErr [OF smooth_mark] s m unfolding smooth_def by metis
  show ?thesis
  proof (cases "n = 0")
    case True
    with u have "RequestRepo_markTerminal i st ev s = (Inr False, s1)"
      by (simp add: RequestRepo_markTerminal_def andThen_def ret_def)
    with s1 show ?thesis by blast
  next
    case False
    obtain s2 where "insertEvent ev s1 = (Inr (), s2)" "quiet s2" "marks s2 = (R, insert (ev_ID ev) V, A, L)"
      using quiet_insertEvent [OF s1 assms(3,4)] by blast
    moreover from this(1) u False have "RequestRepo_markTerminal i st ev s = (Inr True, s2)"
      by (simp add: RequestRepo_markTerminal_def andThen_def ret_def)
    ultimately show ?thesis by blast
  qed
qed

subsection \<open>A calm world\<close>

text \<open>
  The database is quiet, and no UUID still to be drawn is the id of a stored event. \<open>R\<close> are the ids
  of the requests, \<open>A\<close> and \<open>L\<close> the advisory locks, \<open>ck\<close> the clock, read \<open>n\<close> times or more:
  none of this changes.
\<close>

type_synonym still = "uuid set \<times> (int \<times> nat) list \<times> nat option \<times> (nat \<Rightarrow> time) \<times> nat"

definition unused :: "('r, 'c) world \<Rightarrow> uuid set \<Rightarrow> bool" where
  "unused w V \<longleftrightarrow> inj (w_uuids w) \<and> (\<forall>n \<ge> w_drawn w. w_uuids w n \<notin> V)"

definition calm :: "still \<Rightarrow> (pg_state, 'c) world \<Rightarrow> bool" where
  "calm M w \<longleftrightarrow> (case M of (R, A, L, ck, n) \<Rightarrow> w_clock w = ck \<and> n \<le> w_tick w \<and> quiet (w_repo w) \<and>
     (\<exists>V. marks (w_repo w) = (R, V, A, L) \<and> unused w V))"

text \<open>A drawn id that no event has.\<close>

definition calm_with :: "still \<Rightarrow> uuid \<Rightarrow> (pg_state, 'c) world \<Rightarrow> bool" where
  "calm_with M i w \<longleftrightarrow> (case M of (R, A, L, ck, n) \<Rightarrow> w_clock w = ck \<and> n \<le> w_tick w \<and> quiet (w_repo w) \<and>
     (\<exists>V. marks (w_repo w) = (R, V, A, L) \<and> unused w V \<and> i \<notin> V \<and> unused w (insert i V)))"

abbreviation succeeds :: "('s \<Rightarrow> bool) \<Rightarrow> ('s, 'e, 'a) go \<Rightarrow> ('a \<Rightarrow> 's \<Rightarrow> bool) \<Rightarrow> bool" where
  "succeeds P m Q \<equiv> hoare P m Q (\<lambda>_ _. False)"

lemma succeedsD: "succeeds P m Q \<Longrightarrow> P w \<Longrightarrow> \<exists>a w'. m w = (Inr a, w') \<and> Q a w'"
  unfolding hoare_def by (metis prod.exhaust sum.exhaust)

lemma calm_world [simp]:
  "calm M (w\<lparr>w_redis := c\<rparr>) = calm M w" "calm M (w\<lparr>w_metrics := x\<rparr>) = calm M w"
  by (simp_all add: calm_def unused_def split: prod.split)

lemma calm_tick: "calm M w \<Longrightarrow> calm M (w\<lparr>w_tick := Suc (w_tick w)\<rparr>)"
  by (auto simp: calm_def unused_def)

lemma calm_repo:
  assumes "calm M w" and "quiet s" and "marks s = marks (w_repo w)"
  shows "calm M (w\<lparr>w_repo := s\<rparr>)"
  using assms by (auto simp: calm_def unused_def)

lemma calm_quiet: "calm M w \<Longrightarrow> quiet (w_repo w)"
  by (auto simp: calm_def)

lemma calm_smooth:
  assumes "smooth m" and "calm M w"
  obtains a s where "m (w_repo w) = (Inr a, s)" and "calm M (w\<lparr>w_repo := s\<rparr>)"
  using assms(1) calm_quiet [OF assms(2)] calm_repo [OF assms(2)] that unfolding smooth_def by metis

lemma calm_onRepo [calm_intro]: "smooth m \<Longrightarrow> succeeds (calm M) (onRepo m) (\<lambda>_. calm M)"
proof (rule hoareI)
  fix w a w' assume m: "smooth m" and w: "calm M w" and run: "onRepo m w = (Inr a, w')"
  obtain b s where "m (w_repo w) = (Inr b, s)" "calm M (w\<lparr>w_repo := s\<rparr>)" using calm_smooth [OF m w] .
  with run show "calm M w'" by (simp add: onRepo_def)
next
  fix w e w' assume m: "smooth m" and w: "calm M w" and run: "onRepo m w = (Inl e, w')"
  obtain b s where "m (w_repo w) = (Inr b, s)" "calm M (w\<lparr>w_repo := s\<rparr>)" using calm_smooth [OF m w] .
  with run show False by (simp add: onRepo_def)
qed

lemma calm_ignoring_redis [calm_intro]: "succeeds (calm M) (ignoring (onRedis m)) (\<lambda>_. calm M)"
  by (rule hoareI) (auto simp: ignoring_def onRedis_def attempt_def andThen_def ret_def split: prod.splits)

lemma calm_count [calm_intro]: "succeeds (calm M) (count m l) (\<lambda>_. calm M)"
  unfolding count_def by (rule hoare_updating) simp

lemma calm_Now [calm_intro]: "succeeds (calm M) Now (\<lambda>_. calm M)"
  by (rule hoareI) (auto simp: Now_def calling_iff calm_tick)

lemma calm_uuid: "succeeds (calm M) uuid_New (\<lambda>i. calm_with M i)"
proof (rule hoareI)
  fix w i w' assume w: "calm M w" and run: "(uuid_New :: ((pg_state, 'c) world, uuid) gor) w = (Inr i, w')"
  then have i: "i = w_uuids w (w_drawn w)" "w' = w\<lparr>w_drawn := Suc (w_drawn w)\<rparr>" by (auto simp: uuid_New_def calling_iff)
  obtain R A L ck n where M: "M = (R, A, L, ck, n)" by (cases M) auto
  with w obtain V where V: "marks (w_repo w) = (R, V, A, L)" "unused w V" "w_clock w = ck" "n \<le> w_tick w" "quiet (w_repo w)"
    by (auto simp: calm_def)
  then have "i \<notin> V" "unused w' V" by (auto simp: i unused_def)
  moreover have "unused w' (insert i V)"
    using \<open>unused w' V\<close> by (auto simp: i unused_def inj_eq)
  ultimately show "calm_with M i w'" using V M by (auto simp: calm_with_def i)
qed (simp add: uuid_New_def calling_iff)

lemma calm_cond [calm_intro]:
  "(b \<Longrightarrow> succeeds P m Q) \<Longrightarrow> (\<not> b \<Longrightarrow> succeeds P m' Q) \<Longrightarrow> succeeds P (if b then m else m') Q"
  by simp

lemma calm_WithinTx [calm_intro]:
  assumes "succeeds (calm M) body (\<lambda>_. calm M)"
  shows "succeeds (calm M) (WithinTx (pg_service cache idem cfg E) body) (\<lambda>_. calm M)"
proof -
  have "\<exists>a w'. WithinTx (pg_service cache idem cfg E) body w = (Inr a, w') \<and> calm M w'" if w: "calm M w" for w
  proof -
    have q: "smooth (sql (\<lambda>s. Inr (f s, s)))" for f :: "pg_state \<Rightarrow> 'x"
      by (simp add: smooth_def quiet_run quiet_tail)
    have "smooth pg_begin" "smooth pg_commit" unfolding pg_begin_def pg_commit_def by (intro smooth_mapErr q)+
    from succeedsD [OF calm_onRepo [OF this(1)] w] obtain h w1 where 1: "onRepo pg_begin w = (Inr h, w1)" "calm M w1" by blast
    from succeedsD [OF assms 1(2)] obtain a w2 where 2: "body w1 = (Inr a, w2)" "calm M w2" by blast
    from succeedsD [OF calm_onRepo [OF \<open>smooth pg_commit\<close>] 2(2)] obtain u w3 where "onRepo pg_commit w2 = (Inr u, w3)" "calm M w3" by blast
    with 1 2 show ?thesis by (simp add: WithinTx_def pg_tx_def)
  qed
  then show ?thesis unfolding hoare_def by (metis Inl_Inr_False Inr_inject prod.inject)
qed

lemma calm_andThen [calm_intro]:
  "succeeds (calm M) m (\<lambda>_. calm M) \<Longrightarrow> (\<And>a. succeeds (calm M) (f a) Q) \<Longrightarrow> succeeds (calm M) (andThen m f) Q"
  by (rule hoare_andThen)

lemma calm_ret [calm_intro]: "succeeds (calm M) (ret a) (\<lambda>_. calm M)"
  by (rule hoare_ret)

lemma calm_forEach [calm_intro]:
  "(\<And>x. x \<in> set xs \<Longrightarrow> succeeds (calm M) (f x) (\<lambda>_. calm M)) \<Longrightarrow> succeeds (calm M) (forEach f xs) (\<lambda>_. calm M)"
  by (rule hoare_forEach_inv)

subsection \<open>Cancelling and expiring\<close>

lemma calm_release_hold [calm_intro]:
  assumes "0 < hd_Amount h"
  shows "succeeds (calm M) (release_hold (pg_service cache idem cfg E) c lines to h) (\<lambda>_. calm M)"
proof -
  have sm: "smooth (PoolRepo_ReleaseReserved (hd_PoolID h) (hd_Amount h))" "smooth (QuotaRepo_Release c k (hd_Amount h))" for k
    using assms by (simp_all add: smooth_ReleaseReserved smooth_QuotaRelease)
  show ?thesis
    unfolding release_hold_def Let_def pg_service_sel pg_pools_sel pg_quotas_sel pg_requests_sel
    by (intro calm_intro sm smooth_UpdateHoldStatus)
qed

lemma calm_active_holds:
  "succeeds (calm M) (onRepo (RequestRepo_ListActiveHolds i)) (\<lambda>hs w. (\<forall>h \<in> set hs. 0 < hd_Amount h) \<and> calm M w)"
proof (rule hoareI)
  fix w hs w' assume w: "calm M w" and run: "onRepo (RequestRepo_ListActiveHolds i) w = (Inr hs, w')"
  obtain s where s: "RequestRepo_ListActiveHolds i (w_repo w) = (Inr hs, s)" and w': "w' = w\<lparr>w_repo := s\<rparr>"
    using run by (auto simp: onRepo_def split: prod.splits)
  have "set hs \<subseteq> set (t_holds (pg_tables (w_repo w)))"
    using mapErr_select_cases [OF s [unfolded RequestRepo_ListActiveHolds_def]] by (auto simp: active_holds_def)
  moreover have "list_all (\<lambda>h. 0 < hd_Amount h) (t_holds (pg_tables (w_repo w)))"
    using calm_quiet [OF w] by (simp add: quiet_def rows_ok_def)
  moreover have "calm M w'" using hoare_Inr [OF calm_onRepo [OF smooth_reads(3)] run w] .
  ultimately show "(\<forall>h \<in> set hs. 0 < hd_Amount h) \<and> calm M w'" by (auto simp: list_all_iff)
next
  fix w e w' assume w: "calm M w" and run: "onRepo (RequestRepo_ListActiveHolds i) w = (Inl e, w')"
  from hoare_Inl [OF calm_onRepo [OF smooth_reads(3)] run w] show False .
qed

lemma calm_markTerminal:
  assumes "ev_ID ev = e" and "M = (R, A, L, ck, n)" and "ev_RequestID ev \<in> R"
  shows "succeeds (calm_with M e) (onRepo (RequestRepo_markTerminal i st ev)) (\<lambda>_. calm M)"
proof -
  have "\<exists>b w'. onRepo (RequestRepo_markTerminal i st ev) w = (Inr b, w') \<and> calm M w'" if w: "calm_with M e w" for w
  proof -
    from w obtain V where V: "marks (w_repo w) = (R, V, A, L)" "unused w V" "e \<notin> V" "unused w (insert e V)"
      and q: "quiet (w_repo w)" "w_clock w = ck" "n \<le> w_tick w" by (auto simp: calm_with_def assms(2))
    from quiet_markTerminal [OF q(1) V(1)] V(3) assms obtain b s where
      run: "RequestRepo_markTerminal i st ev (w_repo w) = (Inr b, s)" and s: "quiet s"
        "marks s = (R, V, A, L) \<or> marks s = (R, insert e V, A, L)" by blast
    have "unused (w\<lparr>w_repo := s\<rparr>) V" "unused (w\<lparr>w_repo := s\<rparr>) (insert e V)" using V by (simp_all add: unused_def)
    with s q have "calm M (w\<lparr>w_repo := s\<rparr>)" unfolding calm_def assms(2) by auto
    with run show ?thesis by (simp add: onRepo_def)
  qed
  then show ?thesis unfolding hoare_def by (metis Inl_Inr_False Inr_inject prod.inject)
qed

lemma calm_release_write:
  assumes M: "M = (R, A, L, ck, n)" and "cr_ID req \<in> R" and pos: "\<forall>h \<in> set hs. 0 < hd_Amount h"
  shows "succeeds (calm M) (release_write (pg_service cache idem cfg E) req st now (hs, ls)) (\<lambda>_. calm M)"
  unfolding release_write_def split pg_service_sel pg_requests_sel Let_def
  by (rule calm_andThen, rule calm_forEach, rule calm_release_hold, use pos in simp,
      rule hoare_andThen [OF calm_uuid], rule hoare_andThen [where R = "\<lambda>_. calm M"])
    (auto intro!: calm_markTerminal [OF _ M] calm_ret simp: assms(2))

lemma calm_releaseReserved [calm_intro]:
  assumes M: "M = (R, A, L, ck, n)" and "cr_ID req \<in> R"
  shows "succeeds (calm M) (releaseReserved (pg_service cache idem cfg E) req st) (\<lambda>_. calm M)"
  unfolding releaseReserved_def
proof (rule hoare_seq [OF calm_Now])
  fix now
  show "succeeds (calm M) (WithinTx (pg_service cache idem cfg E) (andThen (release_read (pg_service cache idem cfg E) (cr_ID req))
      (release_write (pg_service cache idem cfg E) req st now))) (\<lambda>_. calm M)"
    unfolding release_read_def pg_service_sel pg_requests_sel andThen_assoc andThen_ret
    by (rule calm_WithinTx, rule hoare_bind [OF calm_active_holds], rule hoare_seq [OF calm_onRepo [OF smooth_reads(2)]])
      (use calm_release_write [OF assms] in auto)
qed simp

subsection \<open>Reading and cancelling in a calm world\<close>

lemma calm_Get:
  assumes w: "calm (R, A, L, ck, n) w" and inv: "pg_inv (w_repo w)"
  obtains q w1 where "onRepo (RequestRepo_Get i) w = (Inr q, w1)" and "calm (R, A, L, ck, n) w1"
    and "map_option unstamp_request q = find_request i (store w)" and "\<And>req. q = Some req \<Longrightarrow> cr_ID req = i \<and> i \<in> R"
    and "store w1 = store w"
proof -
  obtain q w1 where run: "onRepo (RequestRepo_Get i) w = (Inr q, w1)" and c: "calm (R, A, L, ck, n) w1"
    using succeedsD [OF calm_onRepo [OF smooth_reads(1)] w] by blast
  then obtain s where s: "RequestRepo_Get i (w_repo w) = (Inr q, s)" "w1 = w\<lparr>w_repo := s\<rparr>"
    by (auto simp: onRepo_def split: prod.splits)
  from mapErr_select_cases [OF s(1) [unfolded RequestRepo_Get_def]] have "q = find_request i (pg_tables (w_repo w))" by simp
  then have "q = Some req \<Longrightarrow> cr_ID req = i \<and> i \<in> R" for req
    using w by (auto simp: find_request_def calm_def marks_def dest: find_SomeD)
  moreover have "map_option unstamp_request q = find_request i (store w)" "store w1 = store w"
    using pg_Get [OF inv s(1)] s(2) by (simp_all add: store_def)
  ultimately show thesis using that run c by blast
qed

lemma calm_Cancel:
  assumes c: "calm M w" and inv: "pg_inv (w_repo w)" and res: "has_status i StatusReserved (store w)"
  obtains q w' where "Cancel (pg_service cache idem cfg E) i w = (Inr q, w')" and "calm M w'"
proof -
  let ?S = "pg_service cache idem cfg E"
  obtain R A L ck n where M: "M = (R, A, L, ck, n)" by (cases M) auto
  obtain q w1 where get: "onRepo (RequestRepo_Get i) w = (Inr q, w1)" and w1: "calm M w1"
    and q: "map_option unstamp_request q = find_request i (store w)" and id: "\<And>req. q = Some req \<Longrightarrow> cr_ID req = i \<and> i \<in> R"
    using calm_Get [OF c [unfolded M] inv] M by blast
  from res q obtain req where req: "q = Some req" "cr_Status req = StatusReserved"
    by (auto simp: has_status_def)
  have "succeeds (calm M) (andThen (releaseReserved ?S req StatusCancelled) (\<lambda>_.
      andThen (count ReservationCancels []) (\<lambda>_.
      andThen (ignoring (onRedis (cs_InvalidateCapacity cache capacityCacheKey))) (\<lambda>_.
      onRepo (RequestRepo_Get i))))) (\<lambda>_. calm M)"
    using id [OF req(1)] by (intro calm_intro smooth_reads) (auto simp: M)
  from succeedsD [OF this w1] obtain q' w' where rest: "andThen (releaseReserved ?S req StatusCancelled) (\<lambda>_.
      andThen (count ReservationCancels []) (\<lambda>_.
      andThen (ignoring (onRedis (cs_InvalidateCapacity cache capacityCacheKey))) (\<lambda>_.
      onRepo (RequestRepo_Get i)))) w1 = (Inr q', w')" and "calm M w'" by blast
  moreover have "Cancel ?S i w = (Inr q', w')"
    using get req rest by (simp add: Cancel_def pg_requests_sel andThen_run(1))
  ultimately show thesis using that by blast
qed

end
