(* ===== verification/Sweeper_Progress.thy ===== *)
theory Sweeper_Progress
  imports Fault_Free Process_Wiring Run_Facts
begin

text \<open>
  Reserved capacity comes back. While the database answers, cancelling a RESERVED request succeeds, and
  the loop of the sweeper expires everything that is overdue, a hundred requests per tick and the oldest
  first.
\<close>

subsection \<open>Cancelling\<close>

lemma release_finished:
  assumes "ledger bd bq t" and "release_effect i st now t t'"
  shows "finished i st (if st = StatusExpired then HoldExpired else HoldReleased)
     (if st = StatusExpired then EventExpired else EventCancelled) (status_string st) now t t'"
proof -
  from assms(2) obtain u evID where "is_reserved i t" "moved (\<lambda>h. hd_RequestID h = i) (if st = StatusExpired then HoldExpired else HoldReleased) t u"
    and t': "t' = spec_finish i st [] (event_at evID i (if st = StatusExpired then EventExpired else EventCancelled) (status_string st) now) u"
    unfolding release_effect_def by blast
  from moved_finished(1) [OF assms(1) this(1,2) _ t'] show ?thesis by simp
qed

text \<open>
  C31: A reservation can always be given back. While the database answers and no drawn event id is taken,
  \<^verbatim>\<open>Cancel\<close> of a RESERVED request succeeds: it returns the request as CANCELLED, and the request
  holds nothing any more.
\<close>

theorem cancel_succeeds:
  assumes s: "sound bd bq w" and c: "calm M w" and res: "has_status i StatusReserved (store w)"
  shows "\<exists>req w'. Cancel (pg_service cache idem cfg E) i w = (Inr (Some req), w') \<and>
    cr_ID req = i \<and> cr_Status req = StatusCancelled \<and> active_holds i (store w') = []"
proof -
  let ?S = "pg_service cache idem cfg E"
  have inv: "pg_inv (w_repo w)" using s by (simp add: sound_def)
  obtain q' w' where run: "Cancel ?S i w = (Inr q', w')" using calm_Cancel [OF c inv res] by blast
  from pg_cancel [OF s run] res have q': "map_option unstamp_request q' = find_request i (store w')"
    and eff: "release_effect i StatusCancelled (time_of w) (store w) (store w')"
    by (auto simp: has_status_def)
  have fin: "finished i StatusCancelled HoldReleased EventCancelled ''CANCELLED'' (time_of w) (store w) (store w')"
    using release_finished [of bd bq, OF _ eff] s by (simp add: sound_def)
  obtain x where "find_request i (store w') = Some x" "cr_Status x = StatusCancelled" "active_holds i (store w') = []"
    using fin by (auto simp: finished_def)
  with q' run show ?thesis by (auto simp: find_request_def dest!: find_SomeD)
qed

subsection \<open>One tick of the sweeper\<close>

text \<open>The requests that were overdue at \<open>T\<close> and still are RESERVED.\<close>

definition overdue :: "time \<Rightarrow> tables \<Rightarrow> uuid set" where
  "overdue T t = cr_ID ` {r \<in> set (t_requests t). is_due T r}"

lemma overdue_release:
  assumes "release_effect i StatusExpired now t t'"
  shows "overdue T t' \<subseteq> overdue T t - {i}"
proof
  fix j assume "j \<in> overdue T t'"
  moreover have "t_requests t' = set_status i StatusExpired (t_requests t)"
    using assms by (auto simp: release_effect_def moved_def spec_finish_def is_reserved_def)
  ultimately show "j \<in> overdue T t - {i}"
    by (auto simp: overdue_def set_status_def set_mapWhere is_due_def)
qed

lemma overdue_chain: "expire_chain is t t' \<Longrightarrow> overdue T t' \<subseteq> overdue T t - set is"
proof (induction "is" arbitrary: t)
  case (Cons i "is")
  then obtain u now where "release_effect i StatusExpired now t u" "expire_chain is u t'" by auto
  from overdue_release [OF this(1), of T] Cons.IH [OF this(2)] show ?case by auto
qed simp

text \<open>
  The batch: a hundred at most, the oldest first. So whatever became overdue later does not keep the
  requests overdue at \<open>T\<close> from their turn.
\<close>

lemma old_first:
  fixes k :: "'x \<Rightarrow> int"
  shows "set (take (length (filter (\<lambda>x. k x < b) ys)) (sort_key k ys)) = set (filter (\<lambda>x. k x < b) ys)"
proof -
  let ?p = "\<lambda>x. k x < b" and ?s = "sort_key k ys"
  have "filter ?p xs = takeWhile ?p xs" if "sorted (map k xs)" for xs
    using that by (induction xs) (auto simp: takeWhile_eq_Nil_iff, meson hd_in_set le_less_trans)
  from this [of ?s] have p: "filter ?p ?s = takeWhile ?p ?s" by simp
  have m: "mset (filter ?p ?s) = mset (filter ?p ys)" by simp
  then have "length (takeWhile ?p ?s) = length (filter ?p ys)" "set (takeWhile ?p ?s) = set (filter ?p ys)"
    unfolding p by (metis size_mset, metis set_mset_mset)
  then show ?thesis using takeWhile_eq_take [of ?p ?s] by simp
qed

lemma batch_oldest_first:
  fixes k :: "'x \<Rightarrow> int"
  shows "length (filter (\<lambda>x. k x < b) ys) \<le> n \<Longrightarrow> set (filter (\<lambda>x. k x < b) ys) \<subseteq> set (take n (sort_key k ys))"
    and "n \<le> length (filter (\<lambda>x. k x < b) ys) \<Longrightarrow> set (take n (sort_key k ys)) \<subseteq> set (filter (\<lambda>x. k x < b) ys)"
  using old_first [of k b ys] by (metis set_take_subset_set_take)+

text \<open>The ids the sweeper's query answers with, and how many of those overdue at \<open>T\<close> they leave.\<close>

lemma overdue_finite [simp]: "finite (overdue T t)"
  by (simp add: overdue_def)

lemma overdue_unstamp [simp]: "overdue T (unstamp t) = overdue T t"
proof -
  have "{r \<in> unstamp_request ` set (t_requests t). is_due T r} = unstamp_request ` {r \<in> set (t_requests t). is_due T r}" by auto
  then show ?thesis by (simp add: overdue_def image_image)
qed

definition batch_ids :: "time \<Rightarrow> capacity_request list \<Rightarrow> uuid list" where
  "batch_ids now rs = map cr_ID (take expireBatchSize (sort_key expiry_key (filter (is_due now) rs)))"

lemma due_by_key: "T \<le> now \<Longrightarrow> filter (\<lambda>r. expiry_key r < T) (filter (is_due now) rs) = filter (is_due T) rs"
  by (induction rs) (auto simp: is_due_def expiry_key_def split: option.splits)

lemma lists_batch:
  assumes "RequestRepo_ListExpiredIDs now expireBatchSize s = (Inr ids, s')"
  shows "pg_tables s' = pg_tables s" and "ids = batch_ids now (t_requests (pg_tables s))"
proof -
  have run: "mapErr (Errorf ''list expired'') (sql_select (\<lambda>t. batch_ids now (t_requests t))) s = (Inr ids, s')"
    using assms unfolding RequestRepo_ListExpiredIDs_def batch_ids_def .
  show "pg_tables s' = pg_tables s" and "ids = batch_ids now (t_requests (pg_tables s))"
    using mapErr_select_cases [OF run] by simp_all
qed

lemma batch_distinct: "distinct (map cr_ID rs) \<Longrightarrow> distinct (batch_ids now rs)"
  unfolding batch_ids_def take_map [symmetric]
  by (intro distinct_take) (metis distinct_map distinct_map_filter distinct_sort set_sort)

lemma batch_left:
  assumes "T \<le> now" and "distinct (map cr_ID (t_requests t))"
  shows "card (overdue T t - set (batch_ids now (t_requests t))) \<le> card (overdue T t) - expireBatchSize"
proof -
  let ?ys = "filter (is_due now) (t_requests t)"
  let ?old = "filter (is_due T) (t_requests t)"
  obtain xs where xs_def: "xs = take expireBatchSize (sort_key expiry_key ?ys)" by simp
  have ids: "set (batch_ids now (t_requests t)) = cr_ID ` set xs" by (simp add: batch_ids_def xs_def)
  have od: "overdue T t = cr_ID ` set ?old" by (auto simp: overdue_def)
  have dy: "distinct (map cr_ID ?ys)" "distinct (map cr_ID ?old)" using assms(2) by (simp_all add: distinct_map_filter)
  have n: "card (overdue T t) = length ?old" using distinct_card [OF dy(2)] by (simp add: od)
  show ?thesis
  proof (cases "length ?old \<le> expireBatchSize")
    case True
    then have "set ?old \<subseteq> set xs"
      using batch_oldest_first(1) [of expiry_key T ?ys expireBatchSize, unfolded due_by_key [OF assms(1)]] by (simp add: xs_def)
    then have "overdue T t - set (batch_ids now (t_requests t)) = {}" by (auto simp: od ids)
    then show ?thesis by (simp only: card.empty zero_le)
  next
    case False
    then have "set xs \<subseteq> set ?old"
      using batch_oldest_first(2) [of expireBatchSize expiry_key T ?ys, unfolded due_by_key [OF assms(1)]] by (simp add: xs_def)
    have "length ?old \<le> length ?ys"
      using length_filter_le [of "\<lambda>r. expiry_key r < T" ?ys] unfolding due_by_key [OF assms(1)] .
    with False have "length xs = expireBatchSize" by (simp add: xs_def)
    have "distinct (map cr_ID xs)" using batch_distinct [OF assms(2)] by (simp add: batch_ids_def xs_def)
    from distinct_card [OF this] have "card (cr_ID ` set xs) = expireBatchSize" using \<open>length xs = expireBatchSize\<close> by simp
    moreover have "cr_ID ` set xs \<subseteq> overdue T t" using \<open>set xs \<subseteq> set ?old\<close> by (auto simp: od)
    ultimately show ?thesis by (simp add: ids card_Diff_subset)
  qed
qed

lemma calm_expire_one:
  assumes M: "M = (R, A, L, ck, n)" and i: "i \<in> R"
  shows "succeeds (calm M) (expire_one (pg_service cache idem cfg E) i) (\<lambda>x w. x = 1 \<and> calm M w)"
  unfolding expire_one_def pg_service_sel pg_requests_sel
proof (rule hoare_andThen [OF hoare_attempt [where Q = "\<lambda>g w. (\<exists>req. g = Inr (Some req) \<and> cr_ID req \<in> R) \<and> calm M w"]])
  show "hoare (calm M) (onRepo (RequestRepo_Get i)) (\<lambda>a w. (\<exists>req. Inr a = Inr (Some req) \<and> cr_ID req \<in> R) \<and> calm M w)
     (\<lambda>e w. (\<exists>req. Inl e = Inr (Some req) \<and> cr_ID req \<in> R) \<and> calm M w)"
  proof (rule hoareI)
    fix w q w' assume w: "calm M w" and run: "onRepo (RequestRepo_Get i) w = (Inr q, w')"
    then obtain s where s: "RequestRepo_Get i (w_repo w) = (Inr q, s)" by (auto simp: onRepo_def split: prod.splits)
    from mapErr_select_cases [OF s [unfolded RequestRepo_Get_def]] have "q = find_request i (pg_tables (w_repo w))" by simp
    moreover have "i \<in> cr_ID ` set (t_requests (pg_tables (w_repo w)))" using w M i by (auto simp: calm_def marks_def)
    then obtain req where "find_request i (pg_tables (w_repo w)) = Some req"
      using find_None_iff_key [of cr_ID i "t_requests (pg_tables (w_repo w))"] unfolding find_request_def by blast
    ultimately have "q = Some req" "cr_ID req = i" by (auto simp: find_request_def dest: find_SomeD)
    with i hoare_Inr [OF calm_onRepo [OF smooth_reads(1)] run w]
    show "(\<exists>req. Inr q = Inr (Some req) \<and> cr_ID req \<in> R) \<and> calm M w'" by simp
  next
    fix w e w' assume "calm M w" and "onRepo (RequestRepo_Get i) w = (Inl e, w')"
    from hoare_Inl [OF calm_onRepo [OF smooth_reads(1)] this(2,1)]
    show "(\<exists>req. Inl e = Inr (Some req) \<and> cr_ID req \<in> R) \<and> calm M w'" by simp
  qed
  fix g
  show "succeeds (\<lambda>w. (\<exists>req. g = Inr (Some req) \<and> cr_ID req \<in> R) \<and> calm M w) (case g of Inl _ \<Rightarrow> ret 0 | Inr None \<Rightarrow> ret 0 | Inr (Some req) \<Rightarrow>
       andThen (attempt (releaseReserved (pg_service cache idem cfg E) req StatusExpired)) (\<lambda>r.
         case r of
           Inl _ \<Rightarrow> ret 0
         | Inr _ \<Rightarrow> andThen (count ReservationExpires [''sweeper'']) (\<lambda>_.
                    andThen (count SweeperExpiredHolds []) (\<lambda>_. ret 1)))) (\<lambda>x w. x = 1 \<and> calm M w)"
  proof (rule hoare_assume, elim exE conjE)
    fix req assume g: "g = Inr (Some req)" and req: "cr_ID req \<in> R"
    let ?r = "\<lambda>r w. isl r = False \<and> calm M w"
    have "hoare (calm M) (releaseReserved (pg_service cache idem cfg E) req StatusExpired) (\<lambda>a. ?r (Inr a)) (\<lambda>e. ?r (Inl e))"
      by (rule hoare_conseq [OF calm_releaseReserved [OF M req]]) simp_all
    note released = hoare_attempt [OF this]
    show "succeeds (calm M) (case g of Inl _ \<Rightarrow> ret 0 | Inr None \<Rightarrow> ret 0 | Inr (Some req) \<Rightarrow>
       andThen (attempt (releaseReserved (pg_service cache idem cfg E) req StatusExpired)) (\<lambda>r.
         case r of
           Inl _ \<Rightarrow> ret 0
         | Inr _ \<Rightarrow> andThen (count ReservationExpires [''sweeper'']) (\<lambda>_.
                    andThen (count SweeperExpiredHolds []) (\<lambda>_. ret 1)))) (\<lambda>x w. x = 1 \<and> calm M w)"
      unfolding g sum.case option.case
    proof (rule hoare_andThen [OF released], rule hoare_assume)
      fix r assume "isl r = False"
      then show "succeeds (calm M) (case r of Inl _ \<Rightarrow> ret 0
         | Inr _ \<Rightarrow> andThen (count ReservationExpires [''sweeper'']) (\<lambda>_.
                    andThen (count SweeperExpiredHolds []) (\<lambda>_. ret 1))) (\<lambda>x w. x = 1 \<and> calm M w)"
        by (cases r) (auto intro!: hoare_andThen [OF calm_count] hoare_ret)
    qed
  qed
qed

lemma calm_loop:
  assumes M: "M = (R, A, L, ck, n)" and ids: "set ids \<subseteq> R"
  shows "succeeds (calm M) (collect (expire_one (pg_service cache idem cfg E)) ids) (\<lambda>ns w. sum_list ns = length ids \<and> calm M w)"
proof (rule hoare_post)
  show "succeeds (calm M) (collect (expire_one (pg_service cache idem cfg E)) ids) (\<lambda>ns w. list_all2 (\<lambda>_ x. x = 1) ids ns \<and> calm M w)"
    by (rule hoare_collect_inv) (use calm_expire_one [OF M] ids in blast)
  fix ns w assume "list_all2 (\<lambda>_ x. x = (1::nat)) ids ns \<and> calm M w"
  then have "list_all2 (\<lambda>_ x. x = (1::nat)) ids ns" "calm M w" by simp_all
  then show "sum_list ns = length ids \<and> calm M w" by (induction rule: list_all2_induct) auto
qed

text \<open>Taking the lock and giving it back.\<close>

lemma calm_TryLock:
  assumes "calm (R, A, None, ck, n) w" and "key \<notin> fst ` set A"
  shows "\<exists>conn w'. onRepo (pg_TryLock key) w = (Inr True, w') \<and> calm (R, (key, conn) # A, Some conn, ck, n) w' \<and>
    store w' = store w \<and> w_tick w' = w_tick w \<and> (pg_inv (w_repo w) \<longrightarrow> pg_inv (w_repo w'))"
proof -
  let ?s = "w_repo w"
  let ?conn = "pg_next_session ?s"
  let ?s1 = "?s\<lparr>pg_faults := tl (pg_faults ?s), pg_next_session := Suc ?conn\<rparr>"
  let ?s2 = "?s1\<lparr>pg_faults := tl (pg_faults ?s1), pg_advisory := (key, ?conn) # pg_advisory ?s\<rparr>"
  let ?s3 = "?s2\<lparr>lk_conn := Some ?conn, lk_key := key\<rparr>"
  from assms(1) obtain V where V: "marks ?s = (R, V, A, None)" "unused w V" and q: "quiet ?s" "w_clock w = ck" "n \<le> w_tick w"
    by (auto simp: calm_def)
  have l: "lk_conn ?s = None" "pg_advisory ?s = A" using V by (simp_all add: marks_def)
  have q1: "quiet ?s1" using quiet_tail [OF q(1)] by (simp add: quiet_def)
  have "lock_free key ?conn A" using assms(2) by (force simp: lock_free_def list_ex_iff)
  then have run: "pg_TryLock key ?s = (Inr True, ?s3)"
    using l by (simp add: pg_TryLock_def andThen_def mapErr_def quiet_run [OF q(1)] quiet_run [OF q1] updating_def ret_def)
  have "quiet ?s3" using quiet_tail [OF q1] by (simp add: quiet_def)
  moreover have "marks ?s3 = (R, V, (key, ?conn) # A, Some ?conn)" using V(1) by (simp add: marks_def)
  ultimately have "calm (R, (key, ?conn) # A, Some ?conn, ck, n) (w\<lparr>w_repo := ?s3\<rparr>)"
    using V(2) q by (auto simp: calm_def unused_def)
  moreover have "onRepo (pg_TryLock key) w = (Inr True, w\<lparr>w_repo := ?s3\<rparr>)" using run by (simp add: onRepo_def)
  moreover have "store (w\<lparr>w_repo := ?s3\<rparr>) = store w" "pg_inv ?s3 = pg_inv ?s" by (simp_all add: store_def pg_view_def pg_inv_def)
  ultimately show ?thesis by (intro exI [of _ ?conn] exI [of _ "w\<lparr>w_repo := ?s3\<rparr>"]) simp
qed

lemma calm_Unlock:
  assumes "calm (R, (key, conn) # A, Some conn, ck, n) w"
  shows "\<exists>w'. onRepo (pg_Unlock key) w = (Inr (), w') \<and> calm (R, A, None, ck, n) w'"
proof -
  let ?s = "w_repo w"
  let ?s1 = "?s\<lparr>pg_faults := tl (pg_faults ?s), pg_advisory := remove1 (key, conn) (pg_advisory ?s)\<rparr>"
  let ?s2 = "?s1\<lparr>lk_conn := None, lk_key := 0\<rparr>"
  from assms(1) obtain V where V: "marks ?s = (R, V, (key, conn) # A, Some conn)" "unused w V"
    and q: "quiet ?s" "w_clock w = ck" "n \<le> w_tick w" by (auto simp: calm_def)
  have l: "lk_conn ?s = Some conn" "pg_advisory ?s = (key, conn) # A" using V by (simp_all add: marks_def)
  then have run: "pg_Unlock key ?s = (Inr (), ?s2)"
    by (simp add: pg_Unlock_def andThen_def attempt_def quiet_run [OF q(1)] updating_def ret_def)
  have "quiet ?s2" using quiet_tail [OF q(1)] by (simp add: quiet_def)
  moreover have "marks ?s2 = (R, V, A, None)" using V(1) l by (simp add: marks_def)
  ultimately have "calm (R, A, None, ck, n) (w\<lparr>w_repo := ?s2\<rparr>)"
    using V(2) q by (auto simp: calm_def unused_def)
  moreover have "onRepo (pg_Unlock key) w = (Inr (), w\<lparr>w_repo := ?s2\<rparr>)" using run by (simp add: onRepo_def)
  ultimately show ?thesis by blast
qed

subsection \<open>The loop\<close>

text \<open>What a tick does in a calm world whose clock has reached \<open>T\<close>.\<close>

lemma calm_batch:
  assumes inv: "ledger bd bq (store w)" "pg_inv (w_repo w)" and c: "calm (R, A, L, ck, n) w" and T: "T \<le> now"
    and ids: "ids = batch_ids now (t_requests (pg_tables (w_repo w)))"
  shows "\<exists>ns w'. collect (expire_one (pg_service cache idem cfg E)) ids w = (Inr ns, w') \<and> calm (R, A, L, ck, n) w' \<and>
    ledger bd bq (store w') \<and> pg_inv (w_repo w') \<and> same_catalog (store w) (store w') \<and>
    card (overdue T (store w')) \<le> card (overdue T (store w)) - expireBatchSize"
proof -
  let ?t = "pg_tables (w_repo w)"
  have t: "store w = unstamp ?t" by (simp add: store_def pg_view_def)
  have dist: "distinct (map cr_ID (t_requests ?t))" using inv(2) by (simp add: pg_inv_def schema_ok_def)
  have due: "set ids \<subseteq> overdue now ?t" by (auto simp: ids batch_ids_def overdue_def dest: in_set_takeD)
  then have "set ids \<subseteq> R" using c by (auto simp: overdue_def calm_def marks_def)
  from succeedsD [OF calm_loop [OF refl this] c] obtain ns w' where
    loop: "collect (expire_one (pg_service cache idem cfg E)) ids w = (Inr ns, w')" and ns: "sum_list ns = length ids"
    and w': "calm (R, A, L, ck, n) w'" by blast
  have dids: "distinct ids" unfolding ids by (rule batch_distinct [OF dist])
  have res: "\<forall>i \<in> set ids. is_reserved i (store w)"
    using due by (auto simp: overdue_def t is_reserved_unstamp is_reserved_def is_due_def list_ex_iff)
  have "sees pg_view pg_inv ((=) (store w)) (w_clock w, w_tick w) w" using inv(2) by (simp add: sees_store)
  from hoare_Inr [OF pg.expire_loop_chain [OF inv(1) dids res] loop this] obtain dn where
    l: "ledger bd bq (store w')" "pg_inv (w_repo w')"
    and dn: "length dn = sum_list ns" "distinct dn" "set dn \<subseteq> set ids" "expire_chain dn (store w) (store w')"
    by (auto simp: sees_store)
  have "set dn = set ids" using dn(1-3) ns dids by (metis card_subset_eq distinct_card finite_set)
  with overdue_chain [OF dn(4), of T] batch_left [OF T dist] ids
  have "card (overdue T (store w')) \<le> card (overdue T (store w)) - expireBatchSize"
    using card_mono [of "overdue T (store w) - set ids" "overdue T (store w')"] by (simp add: overdue_finite t overdue_unstamp)
  with loop w' l expire_chain_catalog [OF dn(4)] show ?thesis by blast
qed

lemma calm_expire_body:
  assumes s: "sound bd bq w" and c: "calm (R, A, L, ck, n) w" and T: "\<And>m. n \<le> m \<Longrightarrow> T \<le> ck m"
  shows "\<exists>x w'. expire_body (pg_service cache idem cfg E) w = (Inr x, w') \<and> sound bd bq w' \<and>
    calm (R, A, L, ck, n) w' \<and> card (overdue T (store w')) \<le> card (overdue T (store w)) - expireBatchSize"
proof -
  let ?S = "pg_service cache idem cfg E" and ?M = "(R, A, L, ck, n)"
  let ?w0 = "w\<lparr>w_metrics := Inc SweeperRuns [''true''] (w_metrics w)\<rparr>"
  let ?w1 = "?w0\<lparr>w_tick := Suc (w_tick w)\<rparr>"
  have counted: "count SweeperRuns [''true''] w = (Inr (), ?w0)" and read: "Now ?w0 = (Inr (time_of w), ?w1)"
    by (simp_all add: count_def Now_def calling_def)
  have w1: "calm ?M ?w1" using calm_tick [of ?M ?w0] c by simp
  have now: "T \<le> time_of w" using c T by (auto simp: calm_def)
  obtain ids w2 where list: "onRepo (RequestRepo_ListExpiredIDs (time_of w) expireBatchSize) ?w1 = (Inr ids, w2)" and w2: "calm ?M w2"
    using succeedsD [OF calm_onRepo [OF smooth_reads(4) [of "time_of w" expireBatchSize]], of ?M ?w1] w1 by blast
  then obtain s2 where s2: "RequestRepo_ListExpiredIDs (time_of w) expireBatchSize (w_repo w) = (Inr ids, s2)" "w2 = ?w1\<lparr>w_repo := s2\<rparr>"
    by (auto simp: onRepo_def split: prod.splits)
  note batch = lists_batch [OF s2(1)]
  have st2: "store w2 = store w" "pg_inv (w_repo w2)" "ledger bd bq (store w2)"
    using s batch(1) s2(2) by (simp_all add: sound_def store_def pg_view_def pg_inv_def)
  have "ids = batch_ids (time_of w) (t_requests (pg_tables (w_repo w2)))" using batch s2(2) by simp
  from calm_batch [OF st2(3,2) w2 now this, where cache = cache and idem = idem and cfg = cfg and E = E] obtain ns w3
    where loop: "collect (expire_one ?S) ids w2 = (Inr ns, w3)" and w3: "calm ?M w3" "ledger bd bq (store w3)"
      "pg_inv (w_repo w3)" "same_catalog (store w) (store w3)"
      "card (overdue T (store w3)) \<le> card (overdue T (store w)) - expireBatchSize" by (auto simp: st2(1))
  have "catalog_ok (store w3) = catalog_ok (store w)"
    using w3(4) unfolding same_catalog_def by (intro catalog_ok_shell) simp_all
  with w3 s have sound: "sound bd bq w3" by (simp add: sound_def)
  have "succeeds (calm ?M) (if 0 < sum_list ns then ignoring (onRedis (cs_InvalidateCapacity cache capacityCacheKey)) else ret ()) (\<lambda>_. calm ?M)"
    by (intro calm_intro)
  from succeedsD [OF this w3(1)] obtain u w4 where
    inval: "(if 0 < sum_list ns then ignoring (onRedis (cs_InvalidateCapacity cache capacityCacheKey)) else ret ()) w3 = (Inr u, w4)"
    and w4: "calm ?M w4" by blast
  then have r4: "w_repo w4 = w_repo w3"
    by (auto simp: ignoring_def onRedis_def attempt_def andThen_def ret_def split: if_splits prod.splits)
  have "expire_body ?S w = (Inr (sum_list ns), w4)"
    unfolding expire_body_def pg_service_sel pg_requests_sel Let_def
    by (simp only: andThen_run counted read list loop inval) simp
  with sound w4 w3(5) r4 show ?thesis by (auto simp: sound_def store_def)
qed

lemma calm_ExpireDue:
  assumes s: "sound bd bq w" and c: "calm (R, A, None, ck, n) w" and free: "sweeperLockKey \<notin> fst ` set A"
    and T: "\<And>m. n \<le> m \<Longrightarrow> T \<le> ck m"
  shows "\<exists>x w'. ExpireDue (pg_service cache idem cfg E) w = (Inr x, w') \<and> sound bd bq w' \<and>
    calm (R, A, None, ck, n) w' \<and> card (overdue T (store w')) \<le> card (overdue T (store w)) - expireBatchSize"
proof -
  obtain conn w1 where lock: "onRepo (pg_TryLock sweeperLockKey) w = (Inr True, w1)"
    and w1: "calm (R, (sweeperLockKey, conn) # A, Some conn, ck, n) w1" "store w1 = store w" "pg_inv (w_repo w1)"
    using calm_TryLock [OF c free] s unfolding sound_def by blast
  with s have "sound bd bq w1" by (simp add: sound_def)
  from calm_expire_body [OF this w1(1) T, where cache = cache and idem = idem and cfg = cfg and E = E] w1(2) obtain x w2 where body: "expire_body (pg_service cache idem cfg E) w1 = (Inr x, w2)"
    and w2: "sound bd bq w2" "calm (R, (sweeperLockKey, conn) # A, Some conn, ck, n) w2"
      "card (overdue T (store w2)) \<le> card (overdue T (store w)) - expireBatchSize" by auto
  from calm_Unlock [OF w2(2)] obtain w3 where unl: "onRepo (pg_Unlock sweeperLockKey) w2 = (Inr (), w3)"
    and w3: "calm (R, A, None, ck, n) w3" by blast
  have "pg_tables (w_repo w3) = pg_tables (w_repo w2)"
    using unl by (auto simp: onRepo_def dest: pg_Unlock_frame split: prod.splits)
  then have "store w3 = store w2" "sound bd bq w3" using w2(1) by (simp_all add: sound_def store_def pg_view_def pg_inv_def)
  moreover have "ExpireDue (pg_service cache idem cfg E) w = (Inr x, w3)"
    using lock body unl by (simp add: ExpireDue_def pg_locker_def andThen_def deferring_def)
  ultimately show ?thesis using w2(3) w3 by auto
qed

text \<open>
  C30: The sweeper catches up. While the database answers, nobody else holds the advisory lock and the
  drawn event ids are new: if at most \<open>100 * k\<close> RESERVED requests were overdue at a time \<open>T\<close> that
  the clock has reached, then after \<open>k\<close> ticks none of them is RESERVED any more, whatever became
  overdue meanwhile; and the loop is still running.
\<close>

theorem sweeper_catches_up:
  assumes "sound bd bq w" and "calm (R, A, None, ck, n) w" and "sweeperLockKey \<notin> fst ` set A"
    and "\<And>m. n \<le> m \<Longrightarrow> T \<le> ck m" and "card (overdue T (store w)) \<le> 100 * k"
  shows "case runSweeperLoop (pg_service cache idem cfg E) (replicate k Tick) w of
    (stopped, w') \<Rightarrow> overdue T (store w') = {} \<and> \<not> stopped"
  using assms(1,2,5)
proof (induction k arbitrary: w)
  case (Suc k)
  from calm_ExpireDue [OF Suc.prems(1,2) assms(3,4), where cache = cache and idem = idem and cfg = cfg and E = E]
  obtain x w' where tick: "ExpireDue (pg_service cache idem cfg E) w = (Inr x, w')"
    and w': "sound bd bq w'" "calm (R, A, None, ck, n) w'" "card (overdue T (store w')) \<le> card (overdue T (store w)) - 100"
    by (auto simp: expireBatchSize_def)
  have "card (overdue T (store w')) \<le> 100 * k" using w'(3) Suc.prems(3) by simp
  from Suc.IH [OF w'(1,2) this] tick show ?case by simp
qed (simp add: overdue_finite)

subsection \<open>On the sample system\<close>

lemma busy_quiet: "rows_ok busy_tables"
  by code_simp

lemma sample_calm: "calm ({UUID 10}, [], None, \<lambda>_. now, 0) (world_of busy_tables now)"
proof -
  have "marks (w_repo (world_of busy_tables now)) = ({UUID 10}, {UUID 13}, [], None)"
    by (simp add: marks_def world_of_def busy_tables_def busy_request_def)
  moreover have "unused (world_of busy_tables now) {UUID 13}" by (simp add: unused_def world_of_def inj_def)
  moreover have "quiet (w_repo (world_of busy_tables now))" using busy_quiet by (simp add: quiet_def world_of_def)
  ultimately show ?thesis by (auto simp: calm_def)
qed

theorem cancel_succeeds_witness:
  "\<exists>req w'. Cancel sample_service (UUID 10) busy = (Inr (Some req), w') \<and> cr_Status req = StatusCancelled"
proof -
  have "sound (\<lambda>_. 0) (\<lambda>_. 0) busy" using schema_busy ledger_busy catalog_busy by (simp add: sound_def busy_def)
  moreover have "has_status (UUID 10) StatusReserved (store busy)" 
    by (simp add: busy_def has_status_def find_request_def busy_tables_def busy_request_def)
  ultimately show ?thesis
    using cancel_succeeds [OF _ sample_calm [of 0, folded busy_def], of "\<lambda>_. 0" "\<lambda>_. 0" "UUID 10" NoopCache NoopIdempotency sample_cfg sample_env]
    by (auto simp: sample_service_def)
qed

theorem sweeper_catches_up_witness:
  "overdue (1000 * second) (store (snd (runSweeperLoop sample_service [Tick] late))) = {}"
proof -
  have s: "sound (\<lambda>_. 0) (\<lambda>_. 0) late" using schema_busy ledger_busy catalog_busy by (simp add: sound_def late_def)
  have "overdue (1000 * second) (store late) \<subseteq> {UUID 10}" by (auto simp: late_def overdue_def busy_tables_def busy_request_def)
  from card_mono [OF _ this] have "card (overdue (1000 * second) (store late)) \<le> 100 * 1" by simp
  from sweeper_catches_up [OF s sample_calm [of "1000 * second", folded late_def] _ _ this, where cache = NoopCache and idem = NoopIdempotency
      and cfg = sample_cfg and E = sample_env]
  show ?thesis by (simp add: sample_service_def split: prod.splits)
qed

end
