(* ===== verification/Sweeper_Process.thy ===== *)
theory Sweeper_Process
  imports Sweeper_Progress Abstract_Steps
begin

text \<open>
  The sweeper as a process (\<^verbatim>\<open>registerSweeper\<close>): started and stopped by hooks of the
  application, woken by a ticker, and sharing the database with the process that serves requests. A
  labelled step relation describes what it can do next; runs are sequences of such steps.
\<close>

subsection \<open>Steps\<close>

text \<open>
  The loop runs in a goroutine of its own, which \<^verbatim>\<open>OnStart\<close> launches. The channel of a ticker
  holds one tick; a tick that fires while one is waiting is dropped. \<^verbatim>\<open>OnStop\<close> closes the stop
  channel once; from then on the \<^verbatim>\<open>select\<close> may take either branch as long as a tick is waiting
  too. A round of the loop is one call of \<^verbatim>\<open>ExpireDue\<close>, whose result is only logged. Between
  rounds other processes call the service, and clocks and stores outside the database move (\<open>Drift\<close>).
\<close>

datatype sweeper_pc = NotStarted | Selecting | Returned

record 'c sweeper_process =
  sw_pc :: sweeper_pc
  sw_stop :: bool
  sw_tick :: bool
  sw_world :: "(pg_state, 'c) world"

datatype action = Launch | Fire | Close | is_Sweep: Sweep "go_error + nat" | Quit | Serve call | Drift

inductive sweeper_step ::
    "(pg_state, 'c) capacity_service \<Rightarrow> 'c sweeper_process \<Rightarrow> action \<Rightarrow> 'c sweeper_process \<Rightarrow> bool" for S where
  launch: "sw_pc p = NotStarted \<Longrightarrow> sweeper_step S p Launch (p\<lparr>sw_pc := Selecting\<rparr>)"
| fire: "sw_pc p = Selecting \<Longrightarrow> sweeper_step S p Fire (p\<lparr>sw_tick := True\<rparr>)"
| close: "sw_pc p \<noteq> NotStarted \<Longrightarrow> \<not> sw_stop p \<Longrightarrow> sweeper_step S p Close (p\<lparr>sw_stop := True\<rparr>)"
| sweep: "sw_pc p = Selecting \<Longrightarrow> sw_tick p \<Longrightarrow> ExpireDue S (sw_world p) = (r, w) \<Longrightarrow>
     sweeper_step S p (Sweep r) (p\<lparr>sw_tick := False, sw_world := w\<rparr>)"
| quit: "sw_pc p = Selecting \<Longrightarrow> sw_stop p \<Longrightarrow> sweeper_step S p Quit (p\<lparr>sw_pc := Returned\<rparr>)"
| serve: "c \<noteq> CallExpireDue \<Longrightarrow> sweeper_step S p (Serve c) (p\<lparr>sw_world := after S c (sw_world p)\<rparr>)"
| drift: "same_data (sw_world p) w \<Longrightarrow> sweeper_step S p Drift (p\<lparr>sw_world := w\<rparr>)"

inductive_cases sweeper_stepE: "sweeper_step S p a q"

inductive_simps sweeper_step_simps:
  "sweeper_step S p Launch q" "sweeper_step S p Fire q" "sweeper_step S p Close q" "sweeper_step S p (Sweep r) q"
  "sweeper_step S p Quit q"

inductive sweeper_run ::
    "(pg_state, 'c) capacity_service \<Rightarrow> 'c sweeper_process \<Rightarrow> action list \<Rightarrow> 'c sweeper_process \<Rightarrow> bool" for S where
  none: "sweeper_run S p [] p"
| more: "sweeper_step S p a q \<Longrightarrow> sweeper_run S q as p' \<Longrightarrow> sweeper_run S p (a # as) p'"

inductive_simps sweeper_run_Nil [simp]: "sweeper_run S p [] q"
inductive_simps sweeper_run_Cons: "sweeper_run S p (a # as) q"

definition booted :: "(pg_state, 'c) world \<Rightarrow> 'c sweeper_process" where
  "booted w = \<lparr>sw_pc = NotStarted, sw_stop = False, sw_tick = False, sw_world = w\<rparr>"

lemma sweeper_run_append:
  "sweeper_run S p (as @ bs) q \<longleftrightarrow> (\<exists>m. sweeper_run S p as m \<and> sweeper_run S m bs q)"
  by (induction as arbitrary: p) (auto simp: sweeper_run_Cons)

text \<open>The rounds of a run without other processes are those of \<^verbatim>\<open>runSweeperLoop\<close>.\<close>

fun received :: "action \<Rightarrow> loop_signal list" where
  "received (Sweep r) = [Tick]"
| "received Quit = [Stop]"
| "received _ = []"

lemma run_is_loop:
  assumes "sweeper_run S p as q" and "sw_pc p \<noteq> Returned" and "\<forall>a \<in> set as. a \<noteq> Drift \<and> (\<forall>c. a \<noteq> Serve c)"
  shows "runSweeperLoop S (concat (map received as)) (sw_world p) = (sw_pc q = Returned, sw_world q)"
  using assms
proof (induction rule: sweeper_run.induct)
  case (more p a q as p')
  show ?case
  proof (cases "a = Quit")
    case True
    have stay: "sweeper_run S q as p' \<Longrightarrow> sw_pc q = Returned \<Longrightarrow> \<forall>a \<in> set as. a \<noteq> Drift \<and> (\<forall>c. a \<noteq> Serve c) \<Longrightarrow>
        sw_pc p' = Returned \<and> sw_world p' = sw_world q" for q as p'
      by (induction rule: sweeper_run.induct) (auto elim!: sweeper_stepE)
    with more True show ?thesis by (auto elim!: sweeper_stepE)
  next
    case False
    with more.hyps(1) have "sw_pc q \<noteq> Returned" using more.prems(1) by (auto elim!: sweeper_stepE)
    with more False show ?thesis by (auto elim!: sweeper_stepE split: sum.splits)
  qed
qed simp

subsection \<open>Requests that expired\<close>

definition expired_rows :: "tables \<Rightarrow> nat" where
  "expired_rows t = length (filter (\<lambda>r. cr_Status r = StatusExpired) (t_requests t))"

lemma expired_rows_cong: "t_requests t' = t_requests t \<Longrightarrow> expired_rows t' = expired_rows t"
  by (simp add: expired_rows_def)

lemma expired_set_status:
  assumes "t_requests t' = set_status i st (t_requests t)" and "st \<noteq> StatusExpired"
  shows "expired_rows t' = expired_rows t"
proof -
  have "length (filter (\<lambda>r. cr_Status r = StatusExpired) (set_status i st rs)) =
      length (filter (\<lambda>r. cr_Status r = StatusExpired) rs)" for rs
    using assms(2) by (induction rs) (auto simp: set_status_def)
  then show ?thesis by (simp add: expired_rows_def assms(1))
qed

lemma expired_one:
  assumes "release_effect i StatusExpired now t t'" and "requests_distinct t"
  shows "expired_rows t' = Suc (expired_rows t)"
proof -
  let ?n = "\<lambda>rs. length (filter (\<lambda>r. cr_Status r = StatusExpired) rs)"
  have absent: "set_status i StatusExpired rs = rs" if "i \<notin> cr_ID ` set rs" for rs
    using that by (induction rs) (auto simp: set_status_def)
  have "?n (set_status i StatusExpired rs) = Suc (?n rs)"
    if "distinct (map cr_ID rs)" "list_ex (\<lambda>r. cr_ID r = i \<and> cr_Status r = StatusReserved) rs" for rs
    using that
  proof (induction rs)
    case (Cons r rs)
    show ?case
    proof (cases "cr_ID r = i")
      case True
      then have "\<forall>x \<in> set rs. cr_ID x \<noteq> i" using Cons.prems(1) by (force simp: image_iff)
      with Cons.prems(2) have r: "cr_Status r = StatusReserved" by (auto simp: list_ex_iff)
      have "set_status i StatusExpired rs = rs" using Cons.prems True by (intro absent) auto
      with True r show ?thesis by (simp add: set_status_def)
    next
      case False
      with Cons have "?n (set_status i StatusExpired rs) = Suc (?n rs)" by simp
      with False show ?thesis by (simp add: set_status_def)
    qed
  qed simp
  moreover have "is_reserved i t" using assms(1) by (auto simp: release_effect_def)
  ultimately show ?thesis
    using assms(2) by (simp add: expired_rows_def release_requests(1) [OF assms(1)] is_reserved_def requests_distinct_def)
qed

lemma expired_chain:
  "expire_chain is t t' \<Longrightarrow> requests_distinct t \<Longrightarrow> expired_rows t' = expired_rows t + length is"
proof (induction "is" arbitrary: t)
  case (Cons i "is")
  then obtain u now where u: "release_effect i StatusExpired now t u" "expire_chain is u t'" by auto
  from Cons.IH [OF u(2) distinct_set_status [OF Cons.prems(2) release_requests(1) [OF u(1)]]]
    expired_one [OF u(1) Cons.prems(2)]
  show ?case by simp
qed simp

text \<open>No other call lets a request expire.\<close>

lemma created_expired: "created E cfg inp hash now t req t' \<Longrightarrow> expired_rows t' = expired_rows t"
  and refused_expired: "refused E inp hash now t t' \<Longrightarrow> expired_rows t' = expired_rows t"
  by (auto simp: created_def refused_def expired_rows_def reserved_effect_def rejected_effect_def rejection_debris_def
      reserved_request_def rejected_request_def spec_insert_rejected_def)

lemma finish_expired:
  assumes "moved v dst t u" and "st \<noteq> StatusExpired"
  shows "expired_rows (spec_finish i st ds ev u) = expired_rows t"
proof (cases "is_reserved i t")
  case True
  then show ?thesis
    by (intro expired_set_status [OF _ assms(2), of _ i]) (simp add: spec_finish_requests [OF assms(1)])
next
  case False
  then show ?thesis by (intro expired_rows_cong) (simp add: spec_finish_requests [OF assms(1)])
qed

lemma finished_expired:
  "confirm_effect i now t t' \<Longrightarrow> expired_rows t' = expired_rows t"
  "release_effect i StatusCancelled now t t' \<Longrightarrow> expired_rows t' = expired_rows t"
  unfolding confirm_effect_def release_effect_def by (elim exE conjE, simp add: finish_expired)+

lemma extended_expired:
  assumes "extend_effect cfg i now t t' \<or> extend_debris cfg i now t t'"
  shows "expired_rows t' = expired_rows t"
proof -
  have "length (filter (\<lambda>r. cr_Status r = StatusExpired) (mapWhere (\<lambda>r. cr_ID r = i \<and> cr_Status r = StatusReserved)
      (\<lambda>r. r\<lparr>cr_ExpiresAt := e, cr_ExtensionCount := n\<rparr>) rs)) = length (filter (\<lambda>r. cr_Status r = StatusExpired) rs)" for e n rs
    by (induction rs) auto
  then show ?thesis using assms by (auto simp: extend_effect_def extend_debris_def expired_rows_def spec_extend_def)
qed

lemma served_expired:
  assumes "sound bd bq w" and "permutes_maps E" and "c \<noteq> CallExpireDue"
  shows "expired_rows (store (after (pg_service cache idem cfg E) c w)) = expired_rows (store w)"
proof (cases "\<exists>cust st i. c \<in> {CallListCapacity cust, CallListProducts, CallGet i, CallList cust st}")
  case True
  have "store (after (pg_service cache idem cfg E) c w) = store w"
    using True
    by (auto intro: quiet_store [OF assms(1) pg.ListCapacity_rule]
        quiet_store [OF assms(1) pg.ListProducts_rule] quiet_store [OF assms(1) pg.GetRequest_rule]
        quiet_store [OF assms(1) pg.ListRequests_rule])
  then show ?thesis by simp
next
  case False
  then obtain inp i where "c \<in> {CallCreate inp, CallConfirm i, CallCancel i, CallExtend i}"
    using assms(3) by (cases c) auto
  then consider "c = CallCreate inp" | "c = CallConfirm i" | "c = CallCancel i" | "c = CallExtend i" by blast
  then show ?thesis
  proof cases
    case 1
    obtain r w' where run: "CreateRequest (pg_service cache idem cfg E) inp w = (r, w')" by (rule prod.exhaust)
    from pg_create [OF assms(1,2) run] 1 run show ?thesis
      by (cases r) (auto dest: created_expired refused_expired)
  next
    case 2
    with pg_confirm [OF assms(1) surjective_pairing, of cache idem cfg E i] show ?thesis
      by (auto split: sum.splits dest: finished_expired)
  next
    case 3
    with pg_cancel [OF assms(1) surjective_pairing, of cache idem cfg E i] show ?thesis
      by (auto split: sum.splits dest: finished_expired)
  next
    case 4
    with pg_extend [OF assms(1) surjective_pairing, of cache idem cfg E i] show ?thesis
      by (auto split: sum.splits dest: extended_expired [OF disjI1] extended_expired [OF disjI2])
  qed
qed

subsection \<open>What a run adds up to\<close>

fun expired_by :: "action \<Rightarrow> nat" where
  "expired_by (Sweep (Inr n)) = n"
| "expired_by _ = 0"

definition sweeps :: "action list \<Rightarrow> nat" where
  "sweeps as = length (filter is_Sweep as)"

text \<open>A tick is swept for at most once.\<close>

lemma ticks_used:
  assumes "sweeper_run S p as q"
  shows "sweeps as + of_bool (sw_tick q) \<le> of_bool (sw_tick p) + count_list as Fire"
  using assms by (induction rule: sweeper_run.induct) (auto simp: sweeps_def elim!: sweeper_stepE)

text \<open>A loop that has returned stays so, and the stop channel is closed only by \<open>Close\<close>.\<close>

lemma returned_stays:
  "sweeper_run S p as q \<Longrightarrow> sw_pc p = Returned \<Longrightarrow> sweeps as = 0 \<and> Quit \<notin> set as \<and> Fire \<notin> set as"
  by (induction rule: sweeper_run.induct) (auto simp: sweeps_def elim!: sweeper_stepE)

lemma stop_closed: "sweeper_run S p as q \<Longrightarrow> sw_stop q \<Longrightarrow> sw_stop p \<or> Close \<in> set as"
  by (induction rule: sweeper_run.induct) (auto elim!: sweeper_stepE)

text \<open>Every step keeps the system sound; what expires, a sweep reports.\<close>

lemma step_accounts:
  assumes "sweeper_step (pg_service cache idem cfg E) p a q" and "sound bd bq (sw_world p)" and "permutes_maps E"
  shows "sound bd bq (sw_world q) \<and>
    expired_rows (store (sw_world q)) = expired_rows (store (sw_world p)) + expired_by a \<and>
    expired_by a \<le> 100 * of_bool (is_Sweep a)"
  using assms(1)
proof (cases rule: sweeper_step.cases)
  case (sweep r w)
  have d: "requests_distinct (store (sw_world p))" using assms(2) by (simp add: sound_def ledger_def book_def)
  have "after (pg_service cache idem cfg E) CallExpireDue (sw_world p) = w" using sweep(5) by simp
  with steady_sound [OF assms(2) after_steady [OF assms(2,3)]] have "sound bd bq w" by metis
  moreover from pg_expire [OF assms(2) sweep(5)] have "case r of
      Inr n \<Rightarrow> expired_rows (store w) = expired_rows (store (sw_world p)) + n \<and> n \<le> 100
    | Inl e \<Rightarrow> store w = store (sw_world p)"
    by (auto simp: swept_def expireBatchSize_def dest: expired_chain [OF _ d] split: sum.splits)
  ultimately show ?thesis using sweep by (cases r) simp_all
next
  case (serve c)
  with steady_sound [OF assms(2) after_steady [OF assms(2,3)]] served_expired [OF assms(2,3)]
  show ?thesis by simp
next
  case (drift w)
  then have "store w = store (sw_world p)" "sound bd bq w = sound bd bq (sw_world p)"
    by (simp_all add: same_data_def store_def pg_view_def sound_def pg_inv_def)
  with drift assms(2) show ?thesis by simp
qed (use assms(2) in simp_all)

lemma run_accounts:
  assumes "sweeper_run (pg_service cache idem cfg E) p as q" and "sound bd bq (sw_world p)" and "permutes_maps E"
  shows "sound bd bq (sw_world q) \<and>
    expired_rows (store (sw_world q)) = expired_rows (store (sw_world p)) + sum_list (map expired_by as) \<and>
    sum_list (map expired_by as) \<le> 100 * sweeps as"
  using assms
proof (induction rule: sweeper_run.induct)
  case (more p a q as p')
  from step_accounts [OF more.hyps(1) more.prems] more.IH more.prems(2) show ?case
    by (cases "is_Sweep a") (auto simp: sweeps_def)
qed (simp add: sweeps_def)

text \<open>
  C38: The sweeper next to the API. Take any run of the sweeper process, with any calls of the service in
  between its rounds and any faults in them. The books stay sound. Requests expire only by its sweeps, and
  exactly as many as these report, at most a hundred for every tick of the timer. Once the stop channel is
  closed there is at most one more sweep than ticks still fire, so none beyond the one tick that was
  waiting when the timer is quiet; and the loop returns only after the channel was closed and sweeps no
  more after that.
\<close>

theorem sweeper_process_accounts:
  assumes "sweeper_run (pg_service cache idem cfg E) (booted w) as p" and "sound bd bq w" and "permutes_maps E"
  shows "sound bd bq (sw_world p) \<and>
    expired_rows (store (sw_world p)) = expired_rows (store w) + sum_list (map expired_by as) \<and>
    sum_list (map expired_by as) \<le> 100 * count_list as Fire \<and>
    (\<forall>xs ys. as = xs @ Close # ys \<longrightarrow> sweeps ys \<le> Suc (count_list ys Fire)) \<and>
    (\<forall>xs ys. as = xs @ Quit # ys \<longrightarrow> Close \<in> set xs \<and> sweeps ys = 0)"
proof -
  have boot: "sw_world (booted w) = w" "\<not> sw_tick (booted w)" "\<not> sw_stop (booted w)" by (simp_all add: booted_def)
  from run_accounts [OF assms(1) _ assms(3)] assms(2) boot(1) have
    books: "sound bd bq (sw_world p)" "expired_rows (store (sw_world p)) = expired_rows (store w) + sum_list (map expired_by as)"
    and some: "sum_list (map expired_by as) \<le> 100 * sweeps as" by auto
  have "sweeps as \<le> count_list as Fire" using ticks_used [OF assms(1)] boot(2) by simp
  with some have "sum_list (map expired_by as) \<le> 100 * count_list as Fire" by simp
  moreover have "sweeps ys \<le> Suc (count_list ys Fire)" if split: "as = xs @ Close # ys" for xs ys
  proof -
    obtain m where "sweeper_run (pg_service cache idem cfg E) m ys p"
      using assms(1) by (auto simp: split sweeper_run_append sweeper_run_Cons)
    from ticks_used [OF this] show ?thesis by (cases "sw_tick m") simp_all
  qed
  moreover have "Close \<in> set xs \<and> sweeps ys = 0" if split: "as = xs @ Quit # ys" for xs ys
  proof -
    obtain m n where m: "sweeper_run (pg_service cache idem cfg E) (booted w) xs m"
      "sweeper_step (pg_service cache idem cfg E) m Quit n" "sweeper_run (pg_service cache idem cfg E) n ys p"
      using assms(1) by (auto simp: split sweeper_run_append sweeper_run_Cons)
    then have "sw_stop m" "sw_pc n = Returned" by (auto elim!: sweeper_stepE)
    with stop_closed [OF m(1)] returned_stays [OF m(3)] boot(3) show ?thesis by blast
  qed
  ultimately show ?thesis using books by blast
qed

text \<open>One tick in a world with one overdue request; then the process is told to stop.\<close>

definition swept_late :: "(pg_state, unit) world" where
  "swept_late = snd (ExpireDue sample_service late)"

lemma swept_late_run: "fst (ExpireDue sample_service late) = Inr 1"
  by code_simp

theorem sweeper_process_accounts_witness:
  "expired_rows (store swept_late) = 1 \<and> sound (\<lambda>_. 0) (\<lambda>_. 0) swept_late"
proof -
  have "ExpireDue sample_service late = (Inr 1, swept_late)"
    using run_result [OF swept_late_run] by (simp add: swept_late_def)
  then have "sweeper_run sample_service (booted late) [Launch, Fire, Close, Sweep (Inr 1), Quit]
      \<lparr>sw_pc = Returned, sw_stop = True, sw_tick = False, sw_world = swept_late\<rparr>"
    by (simp add: sweeper_run_Cons sweeper_step_simps booted_def)
  from sweeper_process_accounts [OF this [unfolded sample_service_def] sound_busy(2) sample_range]
  have "expired_rows (store swept_late) = expired_rows (store late) + 1" "sound (\<lambda>_. 0) (\<lambda>_. 0) swept_late" by simp_all
  then show ?thesis by (simp add: expired_rows_def busy_tables_def busy_request_def)
qed

end
