(* ===== verification/Interleavings.thy ===== *)
theory Interleavings
  imports Abstract_Steps Sample_World Fault_Free
begin

text \<open>
  What happens when other sessions commit between the reads and the writes of a transaction, which READ
  COMMITTED allows: \<^verbatim>\<open>Confirm\<close> works with a list of holds that may be stale, and checks every
  conditional update; \<^verbatim>\<open>releaseReserved\<close> works with a stale list too, and does not. The reading half
  of a transaction changes nothing, so the interleaved run is: read in one world, any calls of others,
  write in the world they lead to.
\<close>

subsection \<open>The holds of a request stay\<close>

text \<open>The rows of a request's holds without their status.\<close>

definition hold_rows :: "uuid \<Rightarrow> tables \<Rightarrow> hold list" where
  "hold_rows i t = map (\<lambda>h. h\<lparr>hd_Status := HoldActive\<rparr>) (filter (\<lambda>h. hd_RequestID h = i) (t_holds t))"

lemma hold_rows_flip: "t_holds t' = flip_holds p dst (t_holds t) \<Longrightarrow> hold_rows i t' = hold_rows i t"
proof -
  have "map (\<lambda>h. h\<lparr>hd_Status := HoldActive\<rparr>) (filter (\<lambda>h. hd_RequestID h = i) (flip_holds p dst hs)) =
    map (\<lambda>h. h\<lparr>hd_Status := HoldActive\<rparr>) (filter (\<lambda>h. hd_RequestID h = i) hs)" for hs
    by (induction hs) (auto simp: flip_holds_def)
  then show "t_holds t' = flip_holds p dst (t_holds t) \<Longrightarrow> hold_rows i t' = hold_rows i t" by (simp add: hold_rows_def)
qed

lemma step_hold_rows:
  assumes "step E cfg t t'" and "i \<in> request_ids t"
  shows "hold_rows i t' = hold_rows i t"
  using assms(1)
proof (cases rule: step_requests)
  case (added req hs)
  then have "cr_ID req \<noteq> i" using assms(2) by (auto simp: requests_distinct_def request_ids_def)
  then have "filter (\<lambda>h. hd_RequestID h = i) hs = []" using added(8) by (auto simp: filter_empty_conv)
  with added(7) show ?thesis by (simp add: hold_rows_def)
next
  case (finished j st dst)
  from hold_rows_flip [OF finished(4)] show ?thesis .
next
  case (extended j now)
  then show ?thesis by (auto simp: hold_rows_def extend_effect_def extend_debris_def spec_extend_def)
qed (simp add: hold_rows_def)

lemma steps_hold_rows:
  assumes "steps E cfg t t'" and "i \<in> request_ids t" and "\<And>u. steps E cfg t u \<Longrightarrow> i \<in> request_ids u"
  shows "hold_rows i t' = hold_rows i t"
  using assms(1)
proof (induction rule: rtranclp_induct)
  case (step u v)
  from step_hold_rows [OF step.hyps(2) assms(3) [OF step.hyps(1)]] step.IH show ?case by simp
qed simp

lemma mapWhere_ids: "(\<And>r. cr_ID (f r) = cr_ID r) \<Longrightarrow> cr_ID ` set (mapWhere P f rs) = cr_ID ` set rs"
  by (induction rs) (simp_all add: mapWhere_def)

lemma step_request_ids:
  assumes "step E cfg t t'" and "i \<in> request_ids t"
  shows "i \<in> request_ids t'"
  using assms(1)
proof (cases rule: step_requests)
  case (finished j st dst)
  with assms(2) show ?thesis by (simp add: request_ids_def set_status_def mapWhere_ids)
next
  case (extended j now)
  with assms(2) show ?thesis
    by (auto simp: request_ids_def extend_effect_def extend_debris_def spec_extend_def mapWhere_ids)
qed (use assms(2) in \<open>auto simp: request_ids_def\<close>)

lemma steps_request_ids: "steps E cfg t t' \<Longrightarrow> i \<in> request_ids t \<Longrightarrow> i \<in> request_ids t'"
  by (induction rule: rtranclp_induct) (auto intro: step_request_ids)

lemma find_request_ids: "find_request i t \<noteq> None \<longleftrightarrow> i \<in> request_ids t"
  unfolding find_request_def request_ids_def by (simp add: find_None_iff_key)

text \<open>The statuses of the holds of a request follow its own.\<close>

lemma active_holds_by_status:
  assumes l: "ledger bd bq t" and r: "find_request i t = Some r"
  shows "active_holds i t = (if cr_Status r = StatusReserved then hold_rows i t else [])"
proof -
  have st: "hold_status_of (cr_Status r) = Some (hd_Status h)" if "h \<in> set (t_holds t)" "hd_RequestID h = i" for h
    using l find_request_member [OF r] that by (auto simp: ledger_def status_ok_def)
  show ?thesis
  proof (cases "cr_Status r = StatusReserved")
    case True
    have "map (\<lambda>h. h\<lparr>hd_Status := HoldActive\<rparr>) (filter (\<lambda>h. hd_RequestID h = i) (t_holds t)) = filter (\<lambda>h. hd_RequestID h = i) (t_holds t)"
      using st True by (intro map_idI) auto
    moreover have "active_holds i t = filter (\<lambda>h. hd_RequestID h = i) (t_holds t)"
      unfolding active_holds_def using st True by (intro filter_cong) auto
    ultimately show ?thesis using True by (simp add: hold_rows_def)
  next
    case False
    have "\<not> (hd_RequestID h = i \<and> hd_Status h = HoldActive)" if "h \<in> set (t_holds t)" for h
      using st [OF that] False by (cases "cr_Status r") auto
    then show ?thesis using False by (auto simp: active_holds_def filter_empty_conv)
  qed
qed

subsection \<open>Confirming with a stale list\<close>

context capacity_client
begin

text \<open>A hold that is not ACTIVE any more stops the transaction.\<close>

lemma confirm_dead_hold:
  assumes "pools_ok t" and "holds_distinct t" and "0 < hd_Amount h" and "hd_Amount h \<le> maxAmount" and "hd_PoolID h \<in> pool_ids t"
    and dead: "\<not> list_ex (\<lambda>g. hd_ID g = hd_ID h \<and> hd_Status g = HoldActive) (t_holds t)"
  shows "hoare (sees view inv ((=) t) k) (confirm_hold S i now h) (\<lambda>_ _. False) (\<lambda>_. sees view inv (\<lambda>_. True) k)"
  unfolding confirm_hold_def
proof (rule hoare_bind [OF MoveReserved_rule [OF assms(1,3-5)]])
  fix x
  let ?u = "spec_dedicate (hd_PoolID h) (hd_Amount h) t"
  have u: "t_holds ?u = t_holds t" by (simp add: spec_dedicate_def)
  show "hoare (sees view inv ((=) ?u) k)
      (andThen (onRepo (rr_UpdateHoldStatus (sv_requests S) (hd_ID h) HoldActive HoldDedicated)) (\<lambda>ok.
        if \<not> ok then fail (NewAppError ReasonConflict ''hold already transitioned'' None)
        else andThen uuid_New (\<lambda>d. ret \<lparr>dd_ID = d, dd_RequestID = i, dd_PoolID = hd_PoolID h, dd_HoldID = hd_ID h,
            dd_Amount = hd_Amount h, dd_CreatedAt = now\<rparr>)))
      (\<lambda>_ _. False) (\<lambda>_. sees view inv (\<lambda>_. True) k)"
  proof (rule hoare_bind [OF UpdateHold_rule])
    show "holds_distinct ?u" using assms(2) u by (simp add: holds_distinct_def)
    fix ok assume "ok = list_ex (\<lambda>g. hd_ID g = hd_ID h \<and> hd_Status g = HoldActive) (t_holds ?u)"
    then have "\<not> ok" using dead u by simp
    then show "hoare (sees view inv ((=) (spec_hold (hd_ID h) HoldActive HoldDedicated ?u)) k)
       (if \<not> ok then fail (NewAppError ReasonConflict ''hold already transitioned'' None)
        else andThen uuid_New (\<lambda>d. ret \<lparr>dd_ID = d, dd_RequestID = i, dd_PoolID = hd_PoolID h, dd_HoldID = hd_ID h,
            dd_Amount = hd_Amount h, dd_CreatedAt = now\<rparr>))
      (\<lambda>_ _. False) (\<lambda>_. sees view inv (\<lambda>_. True) k)"
      by (auto intro!: hoare_fail elim: sees_mono)
  qed (auto elim: sees_mono)
qed (auto elim: sees_mono)

lemma confirm_write_stale:
  assumes "pools_ok t" and "holds_distinct t" and "\<not> is_reserved i t"
    and holds: "\<And>h. h \<in> set hs \<Longrightarrow> 0 < hd_Amount h \<and> hd_Amount h \<le> maxAmount \<and> hd_PoolID h \<in> pool_ids t \<and>
      \<not> list_ex (\<lambda>g. hd_ID g = hd_ID h \<and> hd_Status g = HoldActive) (t_holds t)"
  shows "hoare (sees view inv ((=) t) k) (confirm_write S i now hs) (\<lambda>_ _. False) (\<lambda>_. sees view inv (\<lambda>_. True) k)"
proof (cases hs)
  case Nil
  show ?thesis
    unfolding confirm_write_def Nil collect.simps andThen_ret
  proof (rule hoare_seq [OF hoare_uuid], rule hoare_bind [OF Confirm_rule])
    fix evID b assume "b = is_reserved i t"
    with assms(3) show "hoare (sees view inv ((=) (spec_finish i StatusCompleted []
         \<lparr>ev_ID = evID, ev_RequestID = i, ev_EventType = EventConfirmed, ev_Reason = '''', ev_At = now\<rparr> t)) k)
       (if \<not> b then fail (NewAppError ReasonConflict ''confirm race lost'' None) else ret ())
       (\<lambda>_ _. False) (\<lambda>_. sees view inv (\<lambda>_. True) k)"
      by (auto intro!: hoare_fail elim: sees_mono)
  qed auto
next
  case (Cons h rest)
  have "hoare (sees view inv ((=) t) k) (confirm_hold S i now h) (\<lambda>_ _. False) (\<lambda>_. sees view inv (\<lambda>_. True) k)"
    using holds [of h] Cons by (intro confirm_dead_hold assms) auto
  then show ?thesis
    unfolding confirm_write_def Cons collect.simps andThen_assoc hoare_def andThen_Inr_iff andThen_Inl_iff by blast
qed

end

text \<open>
  A list of active holds read earlier: as long as the request stays RESERVED the list stays true, and once
  it has left that state no hold on the list is active any more.
\<close>

lemma stale_list:
  assumes "ledger bd bq t" and l: "ledger bd bq t'" and st: "steps E cfg t t'" and ev: "evolves t t'"
    and r: "find_request i t = Some r" and la: "lists_active i t hs"
  shows "is_reserved i t' \<Longrightarrow> lists_active i t' hs"
    and "\<not> is_reserved i t' \<Longrightarrow> h \<in> set hs \<Longrightarrow>
      \<not> list_ex (\<lambda>g. hd_ID g = hd_ID h \<and> hd_Status g = HoldActive) (t_holds t')"
proof -
  have ids: "i \<in> request_ids t" using r find_request_ids [of i t] by simp
  have rows: "hold_rows i t' = hold_rows i t" by (rule steps_hold_rows [OF st ids]) (rule steps_request_ids [OF _ ids])
  obtain r' where r': "find_request i t' = Some r'" "evolved r r'" using ev r by (auto simp: evolves_def)
  have dist: "requests_distinct t'" "holds_distinct t'" using l by (simp_all add: ledger_def book_def)
  have res: "is_reserved i t' \<longleftrightarrow> cr_Status r' = StatusReserved"
    using r'(1) by (simp add: is_reserved_has_status [OF dist(1)] has_status_def)
  note old = active_holds_by_status [OF assms(1) r] and new = active_holds_by_status [OF l r'(1)]
  show "lists_active i t' hs" if "is_reserved i t'"
    using that r'(2) old new rows la unfolding res lists_active_def by (auto simp: evolved_def)
  show "\<not> list_ex (\<lambda>g. hd_ID g = hd_ID h \<and> hd_Status g = HoldActive) (t_holds t')"
    if "\<not> is_reserved i t'" and h: "h \<in> set hs"
  proof
    assume "list_ex (\<lambda>g. hd_ID g = hd_ID h \<and> hd_Status g = HoldActive) (t_holds t')"
    then obtain g where g: "g \<in> set (t_holds t')" "hd_ID g = hd_ID h" "hd_Status g = HoldActive" by (auto simp: list_ex_iff)
    note m = lists_active_member [OF la h]
    have "(unstamp_hold h)\<lparr>hd_Status := HoldActive\<rparr> \<in> set (hold_rows i t)" unfolding hold_rows_def using m by auto
    then have "(unstamp_hold h)\<lparr>hd_Status := HoldActive\<rparr> \<in> set (hold_rows i t')" by (simp add: rows)
    then obtain f where f: "f \<in> set (t_holds t')" "hd_RequestID f = i"
      "(unstamp_hold h)\<lparr>hd_Status := HoldActive\<rparr> = f\<lparr>hd_Status := HoldActive\<rparr>"
      by (auto simp: hold_rows_def)
    from arg_cong [where f = hd_ID, OF f(3)] have "hd_ID f = hd_ID g" using g(2) by simp
    with f(1) g(1) dist(2) have "f = g" by (auto simp: holds_distinct_def dest: inj_onD [OF inj_on_mapI] simp: distinct_map inj_on_def)
    with f(2) g have "g \<in> set (active_holds i t')" by (simp add: active_holds_def)
    then show False using new that(1) unfolding res by simp
  qed
qed

lemma pool_shell_ids: "pool_ids t = rp_ID ` set (pool_shell t)"
  by (simp add: pool_ids_def pool_shell_def image_image)

text \<open>
  C11: A stale list of holds cannot corrupt a confirmation. The transaction of \<^verbatim>\<open>Confirm\<close> reads the
  request's active holds and then writes; between the two, other sessions may run any sequence of calls.
  Whatever they did, the books are intact afterwards; the transaction succeeds only by confirming the
  request exactly as it is when the writes start, with all its holds dedicated, and when it fails (the
  sweeper or a cancellation got there first, a fault) nothing has changed.
\<close>

theorem stale_confirm_is_safe:
  assumes "sound bd bq w" and "permutes_maps E" and "find_request i (store w) = Some req"
    and "onRepo (rr_ListActiveHolds pg_requests i) w = (Inr hs, w0)"
    and "reachable (pg_service cache idem cfg E) w w1"
    and "WithinTx (pg_service cache idem cfg E) (confirm_write (pg_service cache idem cfg E) i now hs) w1 = (r, w2)"
  shows "sound bd bq w2 \<and>
    (case r of Inr _ \<Rightarrow> confirm_effect i now (store w1) (store w2) | Inl _ \<Rightarrow> store w2 = store w1)"
proof -
  let ?S = "pg_service cache idem cfg E" and ?k = "(w_clock w1, w_tick w1)"
  note sd = reachable_steady [OF assms(5,1,2)]
  have w: "ledger bd bq (store w)" and w1: "sound bd bq w1" "ledger bd bq (store w1)" "same_catalog (store w) (store w1)"
    "evolves (store w) (store w1)" "catalog_ok (store w1)"
    using sd assms(1) steady_sound [OF assms(1) sd] by (simp_all add: steady_def sound_def)
  have "onRepo (rr_ListActiveHolds (sv_requests ?S) i) w = (Inr hs, w0)" using assms(4) by simp
  from hoareD [OF pg.ListActiveHolds_rule this sound_sees [OF assms(1)]]
  have la: "lists_active i (store w) hs" by (simp add: lists_active_def)
  note stale = stale_list [OF w w1(2) reachable_steps [OF assms(5,1,2)] w1(4) assms(3) la]
  have ok: "pools_ok (store w1)" "holds_distinct (store w1)" using w1(2) by (simp_all add: ledger_def book_def)
  have amounts: "0 < hd_Amount h \<and> hd_Amount h \<le> maxAmount \<and> hd_PoolID h \<in> pool_ids (store w1)" if "h \<in> set hs" for h
  proof -
    have b: "book (\<lambda>_. 0) bd bq (store w)" using w by (simp add: ledger_def)
    note m = lists_active_member [OF la that]
    from active_hold_facts(1,2,4) [OF b m(1)] m(2) w1(3) show ?thesis by (simp add: same_catalog_def pool_shell_ids)
  qed
  have body: "hoare (sees pg_view pg_inv ((=) (store w1)) ?k) (confirm_write ?S i now hs)
     (\<lambda>_. sees pg_view pg_inv (\<lambda>t'. confirm_effect i now (store w1) t' \<and> ledger bd bq t') ?k)
     (\<lambda>_. sees pg_view pg_inv (\<lambda>_. True) ?k)"
  proof (cases "is_reserved i (store w1)")
    case True
    from pg.confirm_write_rule [OF w1(2) True stale(1) [OF True]] show ?thesis .
  next
    case False
    have "hoare (sees pg_view pg_inv ((=) (store w1)) ?k) (confirm_write ?S i now hs)
        (\<lambda>_ _. False) (\<lambda>_. sees pg_view pg_inv (\<lambda>_. True) ?k)"
      by (rule pg.confirm_write_stale [OF ok False]) (use amounts stale(2) [OF False] in blast)
    then show ?thesis by (rule hoare_conseq) simp_all
  qed
  from hoareD [OF pg.WithinTx_rule [OF body] assms(6) sound_sees [OF w1(1)]]
  have "pg_inv (w_repo w2)" "case r of Inr _ \<Rightarrow> confirm_effect i now (store w1) (store w2) \<and> ledger bd bq (store w2)
    | Inl _ \<Rightarrow> store w2 = store w1" by (auto simp: sees_store split: sum.splits)
  then show ?thesis
    using w1 catalog_ok_shell [of "store w2" "store w1"] confirm_effect_catalog [of i now "store w1" "store w2"]
    by (auto simp: sound_def same_catalog_def split: sum.splits)
qed

text \<open>The list is read in \<open>busy\<close>; before the writes another call cancels the request.\<close>

definition cancelled_meanwhile :: "(pg_state, unit) world" where
  "cancelled_meanwhile = after sample_service (CallCancel (UUID 10)) busy"

theorem stale_confirm_is_safe_witness:
  "\<exists>e w2. WithinTx sample_service (confirm_write sample_service (UUID 10) 0 (t_holds busy_tables)) cancelled_meanwhile = (Inl e, w2) \<and>
     sound (\<lambda>_. 0) (\<lambda>_. 0) w2 \<and> store w2 = store cancelled_meanwhile"
proof -
  let ?W = "WithinTx sample_service (confirm_write sample_service (UUID 10) 0 (t_holds busy_tables)) cancelled_meanwhile"
  have req: "find_request (UUID 10) (store busy) = Some busy_request" by (simp add: busy_def busy_facts)
  have "fst (onRepo (rr_ListActiveHolds pg_requests (UUID 10)) busy) = Inr (t_holds busy_tables)" by code_simp
  from run_result [OF this] have hs: "onRepo (rr_ListActiveHolds pg_requests (UUID 10)) busy =
    (Inr (t_holds busy_tables), snd (onRepo (rr_ListActiveHolds pg_requests (UUID 10)) busy))" .
  have run: "reachable sample_service busy cancelled_meanwhile"
    unfolding cancelled_meanwhile_def by (intro reachable.call reachable.start)
  have "case fst ?W of Inl e \<Rightarrow> True | Inr _ \<Rightarrow> False" by code_simp
  then obtain e where "fst ?W = Inl e" by (auto split: sum.splits)
  from run_result [OF this] have w: "?W = (Inl e, snd ?W)" .
  from stale_confirm_is_safe [OF sound_busy(1) sample_range req hs run [unfolded sample_service_def] w [unfolded sample_service_def]]
  have "sound (\<lambda>_. 0) (\<lambda>_. 0) (snd ?W)" "store (snd ?W) = store cancelled_meanwhile" by (simp_all add: sample_service_def)
  with w show ?thesis by blast
qed

subsection \<open>Releasing with a stale list\<close>

text \<open>What giving back the holds of a list does to the pools.\<close>

definition releases :: "hold list \<Rightarrow> tables \<Rightarrow> tables" where
  "releases hs t = fold (\<lambda>h. spec_release (hd_PoolID h) (hd_Amount h)) hs t"

lemma releases_snoc: "releases (hs @ [h]) t = spec_release (hd_PoolID h) (hd_Amount h) (releases hs t)"
  by (simp add: releases_def)

lemma releases_frame [simp]:
  "t_holds (releases hs t) = t_holds t" "t_requests (releases hs t) = t_requests t" "pool_ids (releases hs t) = pool_ids t"
proof -
  have "pool_ids (spec_release i n t) = pool_ids t" for i n t
    by (simp add: spec_release_def pool_ids_def shift_pools_def image_image)
  then have "t_holds (releases hs t) = t_holds t \<and> t_requests (releases hs t) = t_requests t \<and>
      pool_ids (releases hs t) = pool_ids t"
    by (induction hs arbitrary: t) (simp_all add: releases_def)
  then show "t_holds (releases hs t) = t_holds t" "t_requests (releases hs t) = t_requests t"
    "pool_ids (releases hs t) = pool_ids t" by simp_all
qed

lemma releases_pools_ok:
  "pools_ok t \<Longrightarrow> \<forall>h \<in> set hs. 0 < hd_Amount h \<Longrightarrow> pools_ok (releases hs t)"
  by (induction hs arbitrary: t) (simp_all add: releases_def pools_ok_release)


lemma sees_each:
  "(\<And>u. V u \<Longrightarrow> hoare (sees view I ((=) u) k) m Q E) \<Longrightarrow> hoare (sees view I V k) m Q E"
  unfolding hoare_def sees_def by blast

context capacity_client
begin

text \<open>
  A hold that is not ACTIVE any more does not stop a release: its amount is given back all the same.
\<close>

lemma release_dead_hold:
  assumes t: "pools_ok t" "quotas_ok t" "holds_distinct t" and n: "0 < hd_Amount h" "hd_Amount h \<le> maxAmount"
    and i: "hd_PoolID h \<in> pool_ids t"
    and dead: "\<not> list_ex (\<lambda>g. hd_ID g = hd_ID h \<and> hd_Status g = HoldActive) (t_holds t)"
  shows "hoare (sees view inv ((=) t) k) (release_hold S c ls dst h)
     (\<lambda>_. sees view inv (\<lambda>u. quotas_ok u \<and> (\<exists>qs. u = (spec_release (hd_PoolID h) (hd_Amount h) t)\<lparr>t_quotas := qs\<rparr>)) k)
     (\<lambda>_. sees view inv (\<lambda>_. True) k)"
proof -
  let ?t = "spec_release (hd_PoolID h) (hd_Amount h) t"
  let ?Q = "\<lambda>u. quotas_ok u \<and> (\<exists>qs. u = ?t\<lparr>t_quotas := qs\<rparr>)"
  have q: "quotas_ok ?t" using t(2) by (simp add: quotas_ok_def spec_release_def)
  then have start: "?Q ?t" by (auto intro: exI [of _ "t_quotas ?t"])
  have quota: "hoare (sees view inv ((=) ?t) k)
     (if kind \<noteq> '''' then onRepo (qr_Release (sv_quotas S) c kind (hd_Amount h)) else ret ())
     (\<lambda>_. sees view inv ?Q k) (\<lambda>_. sees view inv (\<lambda>_. True) k)" for kind
  proof (cases "kind = ''''")
    case True
    then show ?thesis using start by (auto intro!: hoare_ret elim: sees_mono)
  next
    case False
    have "?Q (spec_unconsume c kind (hd_Amount h) ?t)"
      using quotas_ok_unconsume [OF q, of "hd_Amount h" c kind] n(1) by (auto simp: spec_unconsume_def)
    then show ?thesis using False
      by (auto intro!: hoare_conseq [OF ReleaseQuota_rule [OF q n]] elim!: sees_mono)
  qed
  have hold: "hoare (sees view inv ?Q k) (onRepo (rr_UpdateHoldStatus (sv_requests S) (hd_ID h) HoldActive dst))
     (\<lambda>_. sees view inv ?Q k) (\<lambda>_. sees view inv (\<lambda>_. True) k)"
  proof (rule sees_each)
    fix u assume u: "?Q u"
    then have same: "t_holds u = t_holds t" by (auto simp: spec_release_def)
    then have d: "holds_distinct u" using t(3) by (simp add: holds_distinct_def)
    have "spec_hold (hd_ID h) HoldActive dst u = u"
      using dead by (simp add: spec_hold_def same mapWhere_none list_ex_iff)
    with u show "hoare (sees view inv ((=) u) k) (onRepo (rr_UpdateHoldStatus (sv_requests S) (hd_ID h) HoldActive dst))
     (\<lambda>_. sees view inv ?Q k) (\<lambda>_. sees view inv (\<lambda>_. True) k)"
      by (auto intro!: hoare_conseq [OF UpdateHold_rule [OF d]] elim!: sees_mono)
  qed
  show ?thesis
    unfolding release_hold_def Let_def
    by (rule hoare_seq [OF hoare_post [OF ReleaseReserved_rule [OF t(1) n i]]], erule conjunct2,
        rule hoare_seq [OF quota], rule hoare_seq [OF hold])
      (auto intro!: hoare_ret elim: sees_mono)
qed

text \<open>The whole write of a release whose request is no longer RESERVED: only counters move.\<close>

lemma release_write_stale:
  assumes t: "pools_ok t" "quotas_ok t" "holds_distinct t" and "\<not> is_reserved (cr_ID req) t"
    and holds: "\<And>h. h \<in> set hs \<Longrightarrow> 0 < hd_Amount h \<and> hd_Amount h \<le> maxAmount \<and> hd_PoolID h \<in> pool_ids t \<and>
      \<not> list_ex (\<lambda>g. hd_ID g = hd_ID h \<and> hd_Status g = HoldActive) (t_holds t)"
    and st: "st = StatusExpired \<or> st = StatusCancelled"
  shows "hoare (sees view inv ((=) t) k) (release_write S req st now (hs, ls))
     (\<lambda>_. sees view inv (\<lambda>u. \<exists>qs. u = (releases hs t)\<lparr>t_quotas := qs\<rparr>) k) (\<lambda>_. sees view inv (\<lambda>_. True) k)"
proof -
  let ?I = "\<lambda>dn. sees view inv (\<lambda>u. quotas_ok u \<and> (\<exists>qs. u = (releases dn t)\<lparr>t_quotas := qs\<rparr>)) k"
  let ?dst = "if st = StatusExpired then HoldExpired else HoldReleased"
  have loop: "hoare (?I []) (forEach (release_hold S (cr_CustomerID req) ls ?dst) hs) (\<lambda>_. ?I hs) (\<lambda>_. sees view inv (\<lambda>_. True) k)"
  proof (rule hoare_forEach [where I = ?I], rule sees_each)
    fix dn h rest u
    assume split: "hs = dn @ h # rest" and u: "quotas_ok u \<and> (\<exists>qs. u = (releases dn t)\<lparr>t_quotas := qs\<rparr>)"
    then obtain qs where qs: "u = (releases dn t)\<lparr>t_quotas := qs\<rparr>" by blast
    have h: "h \<in> set hs" by (simp add: split)
    have "pools_ok (releases dn t)" using holds t(1) by (intro releases_pools_ok) (auto simp: split)
    then have ok: "pools_ok u" "quotas_ok u" "holds_distinct u" "t_holds u = t_holds t" "pool_ids u = pool_ids t"
      using u t(3) releases_frame(3) [of dn t] by (simp_all add: qs pools_ok_def holds_distinct_def pool_ids_def)
    have step: "(spec_release i n u)\<lparr>t_quotas := qs'\<rparr> = (spec_release i n (releases dn t))\<lparr>t_quotas := qs'\<rparr>" for i n qs'
      by (simp add: qs spec_release_def reserves_at_least_def)
    have "hoare (sees view inv ((=) u) k) (release_hold S (cr_CustomerID req) ls ?dst h)
     (\<lambda>_. sees view inv (\<lambda>v. quotas_ok v \<and> (\<exists>qs. v = (spec_release (hd_PoolID h) (hd_Amount h) u)\<lparr>t_quotas := qs\<rparr>)) k)
     (\<lambda>_. sees view inv (\<lambda>_. True) k)"
      by (rule release_dead_hold [OF ok(1-3)]) (use holds [OF h] ok(4,5) in auto)
    then show "hoare (sees view inv ((=) u) k) (release_hold S (cr_CustomerID req) ls ?dst h)
        (\<lambda>_. ?I (dn @ [h])) (\<lambda>_. sees view inv (\<lambda>_. True) k)"
      unfolding step releases_snoc .
  qed
  have loop': "hoare (sees view inv ((=) t) k) (forEach (release_hold S (cr_CustomerID req) ls ?dst) hs)
      (\<lambda>_. ?I hs) (\<lambda>_. sees view inv (\<lambda>_. True) k)"
    by (rule hoare_pre [OF loop]) (use t(2) in \<open>auto simp: releases_def intro: exI [of _ "t_quotas t"] elim!: sees_mono\<close>)
  have mark: "hoare (?I hs) (onRepo (if st = StatusExpired then rr_MarkExpired (sv_requests S) (cr_ID req) ev
        else rr_MarkCancelled (sv_requests S) (cr_ID req) ev)) (\<lambda>_. ?I hs) (\<lambda>_. sees view inv (\<lambda>_. True) k)" for ev
  proof (rule sees_each)
    fix u assume u: "quotas_ok u \<and> (\<exists>qs. u = (releases hs t)\<lparr>t_quotas := qs\<rparr>)"
    then have "\<not> is_reserved (cr_ID req) u" using assms(4) by (auto simp: is_reserved_def)
    then have "spec_finish (cr_ID req) x [] ev u = u" for x by (simp add: spec_finish_def)
    with u show "hoare (sees view inv ((=) u) k) (onRepo (if st = StatusExpired then rr_MarkExpired (sv_requests S) (cr_ID req) ev
        else rr_MarkCancelled (sv_requests S) (cr_ID req) ev)) (\<lambda>_. ?I hs) (\<lambda>_. sees view inv (\<lambda>_. True) k)"
      using st by (auto intro!: hoare_conseq [OF MarkExpired_rule] hoare_conseq [OF MarkCancelled_rule] elim!: sees_mono)
  qed
  show ?thesis
    unfolding release_write_def split_conv Let_def
    by (rule hoare_seq [OF loop'], rule hoare_seq [OF hoare_uuid], rule hoare_seq [OF mark])
      (auto intro!: hoare_ret elim: sees_mono)
qed

lemma release_read_rule:
  "hoare (sees view inv ((=) t) k) (release_read S i)
     (\<lambda>q w. (lists_active i t (fst q) \<and> snd q = lines_of i t) \<and> sees view inv ((=) t) k w)
     (\<lambda>_. sees view inv ((=) t) k)"
  unfolding release_read_def
  by (rule hoare_bind [OF ListActiveHolds_rule], rule hoare_bind [OF ListLines_rule])
    (auto intro!: hoare_ret simp: lists_active_def)

end










subsection \<open>Counting before the transaction\<close>

text \<open>
  \<^verbatim>\<open>enforceActiveHoldsLimit\<close> counts the active requests of the customer before the transaction
  that reserves. With a limit of one: both of two orders count none in \<open>idle\<close>; the first commits; the
  second, which has its count and its plan already, reserves too, and the customer has two.
\<close>

definition limited_service :: "(pg_state, unit) capacity_service" where
  "limited_service = pg_service NoopCache NoopIdempotency (sample_cfg\<lparr>cfg_MaxActiveHoldsPerCustomer := 1\<rparr>) sample_env"

definition second_order :: "(pg_state, unit) world \<Rightarrow> (go_error + (rejection + capacity_request)) \<times> (pg_state, unit) world" where
  "second_order = reserveWithinTx limited_service [\<lparr>pl_kind = ''cpu'', pl_poolID = UUID 1, pl_amount = 3\<rparr>] None
     (order ''k2'' ''cpu'' 3) (UUID 50) 0 (900 * second) ''h''"

lemma limit_is_raced:
  "fst (enforceActiveHoldsLimit limited_service ''acme'' idle) = Inr ()"
  "fst (buildReservationPlan limited_service (order ''k2'' ''cpu'' 3) idle) =
     Inr ([\<lparr>pl_kind = ''cpu'', pl_poolID = UUID 1, pl_amount = 3\<rparr>], None)"
  "count_reserved ''acme'' (store (snd (second_order (after limited_service (CallCreate (order ''k1'' ''cpu'' 3)) idle)))) = 2"
  by code_simp+

end
