(* ===== verification/Process_Start.thy ===== *)
theory Process_Start
  imports Process_Wiring
begin

text \<open>
  What a process does before it takes its first call: connecting to Postgres
  (\<^verbatim>\<open>internal/repository/postgres/db.go\<close>), migrating the schema (\<^verbatim>\<open>migrate.go\<close>),
  choosing the Redis stores, and the hooks it leaves for its end (\<^verbatim>\<open>internal/fxmodules\<close>). The
  libraries it calls, pgx, golang-migrate and the file system, are parameters; the order in which fx runs the
  constructors is its own and not modelled.
\<close>

subsection \<open>Migrating\<close>

text \<open>
  golang-migrate: \<open>mg_New\<close> opens the source and the database, \<open>mg_Up\<close> applies what is
  missing; \<open>mg_NoChange\<close> recognises \<^verbatim>\<open>migrate.ErrNoChange\<close>; \<open>mg_Sleep\<close> is
  \<^verbatim>\<open>time.Sleep\<close>. \<open>'x\<close> is the state of the world they act on.
\<close>

record ('x, 'm) migrate_lib =
  mg_New :: "string \<Rightarrow> string \<Rightarrow> ('x, 'm) gor"
  mg_Up :: "'m \<Rightarrow> ('x, unit) gor"
  mg_Close :: "'m \<Rightarrow> 'x \<Rightarrow> 'x"
  mg_NoChange :: "go_error \<Rightarrow> bool"
  mg_Sleep :: "duration \<Rightarrow> 'x \<Rightarrow> 'x"

definition has_prefix :: "string \<Rightarrow> string \<Rightarrow> bool" where
  "has_prefix p s \<longleftrightarrow> take (length p) s = p"

definition toPostgresMigrateURL :: "string \<Rightarrow> string" where
  "toPostgresMigrateURL dsn =
     (if has_prefix ''pgx5://'' dsn then ''postgres://'' @ drop (length ''pgx5://'') dsn else dsn)"

text \<open>The loop, with the rounds that are left and the last error seen.\<close>

fun migrate_loop :: "('x, 'm) migrate_lib \<Rightarrow> string \<Rightarrow> string \<Rightarrow> nat \<Rightarrow> go_error \<Rightarrow> ('x, unit) gor" where
  "migrate_loop L path url 0 err = fail (Errorf ''migrate up'' err)"
| "migrate_loop L path url (Suc n) err =
     andThen (attempt (mg_New L (''file://'' @ path) url)) (\<lambda>m.
     case m of
       Inl e \<Rightarrow> andThen (updating (mg_Sleep L (second div 2))) (\<lambda>_. migrate_loop L path url n e)
     | Inr m \<Rightarrow>
         andThen (attempt (mg_Up L m)) (\<lambda>r.
         andThen (updating (mg_Close L m)) (\<lambda>_.
         case r of
           Inr _ \<Rightarrow> ret ()
         | Inl e \<Rightarrow>
             if mg_NoChange L e then ret ()
             else andThen (updating (mg_Sleep L (second div 2))) (\<lambda>_. migrate_loop L path url n e))))"

text \<open>The error the loop starts with is never seen: there is at least one round.\<close>

definition MigrateUp :: "('x, 'm) migrate_lib \<Rightarrow> string \<Rightarrow> string \<Rightarrow> ('x, unit) gor" where
  "MigrateUp L databaseURL migrationsPath =
     migrate_loop L migrationsPath (toPostgresMigrateURL databaseURL) 20 (Plain ''<nil>'')"

text \<open>\<open>absPath\<close> is \<^verbatim>\<open>filepath.Abs\<close>, which depends on the working directory.\<close>

definition runMigrations ::
    "('x, 'm) migrate_lib \<Rightarrow> (string \<Rightarrow> go_error + string) \<Rightarrow> config \<Rightarrow> ('x, unit) gor" where
  "runMigrations L absPath cfg =
     (case absPath (if cfg_MigrationsPath cfg = '''' then ''migrations'' else cfg_MigrationsPath cfg) of
        Inl e \<Rightarrow> fail e
      | Inr path \<Rightarrow> MigrateUp L (cfg_PostgresDSN cfg) path)"

subsection \<open>Connecting\<close>

text \<open>
  pgx: the run-time parameters of a parsed DSN, a pool opened with them, its ping and its close. A hook
  is what fx runs when the process stops.
\<close>

record ('x, 'p) pgx_lib =
  px_ParseConfig :: "string \<Rightarrow> go_error + (string \<times> string) list"
  px_NewWithConfig :: "string \<Rightarrow> (string \<times> string) list \<Rightarrow> ('x, 'p) gor"
  px_Ping :: "'p \<Rightarrow> ('x, unit) gor"
  px_Close :: "'p \<Rightarrow> 'x \<Rightarrow> 'x"

definition NewDB :: "('x, 'p) pgx_lib \<Rightarrow> string \<Rightarrow> ('x, 'p) gor" where
  "NewDB L dsn =
     (case px_ParseConfig L dsn of
        Inl e \<Rightarrow> fail (Errorf ''parse postgres dsn'' e)
      | Inr params \<Rightarrow>
          andThen (mapErr (Errorf ''connect postgres'')
            (px_NewWithConfig L dsn (AList.update ''statement_timeout'' ''5000'' params))) (\<lambda>pool.
          andThen (attempt (px_Ping L pool)) (\<lambda>r.
          case r of
            Inl e \<Rightarrow> andThen (updating (px_Close L pool)) (\<lambda>_. fail (Errorf ''ping postgres'' e))
          | Inr _ \<Rightarrow> ret pool)))"

definition DB_Close :: "('x, 'p) pgx_lib \<Rightarrow> 'p \<Rightarrow> 'x \<Rightarrow> 'x" where
  "DB_Close L db = px_Close L db"

type_synonym 'x hooks = "('x \<Rightarrow> 'x) list"

definition newPostgres :: "('x, 'p) pgx_lib \<Rightarrow> config \<Rightarrow> ('x \<times> 'x hooks, 'p) gor" where
  "newPostgres L cfg = (\<lambda>(x, hooks).
     case NewDB L (cfg_PostgresDSN cfg) x of
       (Inl e, x') \<Rightarrow> (Inl e, x', hooks)
     | (Inr db, x') \<Rightarrow> (Inr db, x', hooks @ [DB_Close L db]))"

subsection \<open>The lock of the database handle\<close>

text \<open>
  \<^verbatim>\<open>DB.TryLock\<close> and \<^verbatim>\<open>DB.Unlock\<close> run on whatever connection the pool hands out,
  here \<open>conn\<close>; the wiring uses \<^verbatim>\<open>Locker\<close> instead, which pins one.
\<close>

definition DB_TryLock :: "nat \<Rightarrow> int \<Rightarrow> (pg_state, bool) gor" where
  "DB_TryLock conn key = sql (\<lambda>s.
     if lock_free key conn (pg_advisory s) then Inr (True, s\<lparr>pg_advisory := (key, conn) # pg_advisory s\<rparr>)
     else Inr (False, s))"

definition DB_Unlock :: "nat \<Rightarrow> int \<Rightarrow> (pg_state, unit) gor" where
  "DB_Unlock conn key = sql (\<lambda>s. Inr ((), s\<lparr>pg_advisory := remove1 (key, conn) (pg_advisory s)\<rparr>))"

subsection \<open>What one round of the migration does\<close>

text \<open>
  One attempt: the error it ends with, if it did not succeed, and the world it leaves; \<open>rounds\<close> is
  the world before attempt \<open>k\<close> when all attempts before it failed.
\<close>

definition migration_attempt :: "('x, 'm) migrate_lib \<Rightarrow> string \<Rightarrow> string \<Rightarrow> 'x \<Rightarrow> go_error option \<times> 'x" where
  "migration_attempt L path url x =
     (case mg_New L (''file://'' @ path) url x of
        (Inl e, x1) \<Rightarrow> (Some e, x1)
      | (Inr m, x1) \<Rightarrow>
          (case mg_Up L m x1 of
             (Inr _, x2) \<Rightarrow> (None, mg_Close L m x2)
           | (Inl e, x2) \<Rightarrow> (if mg_NoChange L e then None else Some e, mg_Close L m x2)))"

fun rounds :: "('x, 'm) migrate_lib \<Rightarrow> string \<Rightarrow> string \<Rightarrow> 'x \<Rightarrow> nat \<Rightarrow> 'x" where
  "rounds L path url x 0 = x"
| "rounds L path url x (Suc k) = mg_Sleep L (second div 2) (snd (migration_attempt L path url (rounds L path url x k)))"

lemma migrate_loop_Suc [simp]:
  "migrate_loop L path url (Suc n) e x =
     (case migration_attempt L path url x of
        (None, x') \<Rightarrow> (Inr (), x')
      | (Some e', x') \<Rightarrow> migrate_loop L path url n e' (mg_Sleep L (second div 2) x'))"
  by (simp add: migrate_loop.simps(2) migration_attempt_def andThen_def attempt_def updating_def ret_def split: prod.splits sum.splits)

declare migrate_loop.simps(2) [simp del]

lemma rounds_shift:
  "rounds L path url x (Suc k) = rounds L path url (mg_Sleep L (second div 2) (snd (migration_attempt L path url x))) k"
  by (induction k) simp_all

lemma migrate_loop_succeeds:
  assumes "k < n" and "fst (migration_attempt L path url (rounds L path url x k)) = None"
    and "\<And>j. j < k \<Longrightarrow> fst (migration_attempt L path url (rounds L path url x j)) \<noteq> None"
  shows "migrate_loop L path url n e x = (Inr (), snd (migration_attempt L path url (rounds L path url x k)))"
  using assms
proof (induction n arbitrary: k e x)
  case (Suc n)
  obtain r x' where a: "migration_attempt L path url x = (r, x')" by fastforce
  show ?case
  proof (cases k)
    case 0
    with Suc.prems(2) a show ?thesis by auto
  next
    case (Suc j)
    have "r \<noteq> None" using Suc.prems(3) [of 0] a \<open>k = Suc j\<close> by simp
    then obtain e' where r: "r = Some e'" by blast
    let ?y = "mg_Sleep L (second div 2) x'"
    have sh: "rounds L path url x (Suc i) = rounds L path url ?y i" for i
      using rounds_shift [of L path url x i] a by simp
    have "migrate_loop L path url n e' ?y = (Inr (), snd (migration_attempt L path url (rounds L path url ?y j)))"
    proof (rule Suc.IH)
      show "j < n" using Suc.prems(1) \<open>k = Suc j\<close> by simp
      show "fst (migration_attempt L path url (rounds L path url ?y j)) = None"
        using Suc.prems(2) \<open>k = Suc j\<close> sh by simp
      show "fst (migration_attempt L path url (rounds L path url ?y i)) \<noteq> None" if "i < j" for i
        using Suc.prems(3) [of "Suc i"] that \<open>k = Suc j\<close> sh by simp
    qed
    then show ?thesis using a r \<open>k = Suc j\<close> sh by simp
  qed
qed simp

lemma migrate_loop_fails:
  assumes "\<And>j. j < n \<Longrightarrow> fst (migration_attempt L path url (rounds L path url x j)) \<noteq> None"
  shows "migrate_loop L path url n e x =
    (Inl (Errorf ''migrate up'' (if n = 0 then e else the (fst (migration_attempt L path url (rounds L path url x (n - 1)))))),
     rounds L path url x n)"
  using assms
proof (induction n arbitrary: e x)
  case 0
  show ?case by (simp add: fail_def)
next
  case (Suc n)
  obtain e' x' where a: "migration_attempt L path url x = (Some e', x')"
    using Suc.prems [of 0] by (cases "migration_attempt L path url x") auto
  let ?y = "mg_Sleep L (second div 2) x'"
  have sh: "rounds L path url x (Suc i) = rounds L path url ?y i" for i
    using rounds_shift [of L path url x i] a by simp
  have "fst (migration_attempt L path url (rounds L path url ?y i)) \<noteq> None" if "i < n" for i
    using Suc.prems [of "Suc i"] that sh by simp
  from Suc.IH [OF this, of e'] show ?case using a sh by (cases n) simp_all
qed

definition attempt_no :: "('x, 'm) migrate_lib \<Rightarrow> string \<Rightarrow> string \<Rightarrow> 'x \<Rightarrow> nat \<Rightarrow> go_error option \<times> 'x" where
  "attempt_no L path url x k = migration_attempt L path url (rounds L path url x k)"

lemma find_upto:
  "find p [0..<n] = Some k \<Longrightarrow> k < n \<and> p k \<and> (\<forall>j < k. \<not> p j)"
  "find p [0..<n] = None \<Longrightarrow> \<forall>j < n. \<not> p j"
  by (auto simp: find_Some_iff find_None_iff)

text \<open>
  C39: The schema is migrated by the first attempt that works. \<^verbatim>\<open>MigrateUp\<close> makes at most twenty,
  half a second apart; it stops at the first that applies the migrations or has nothing to apply, whatever
  went wrong in those before. Only if all twenty fail it fails, with the error of the last.
\<close>

theorem migration_retries:
  "MigrateUp L dsn path x =
     (case find (\<lambda>k. fst (attempt_no L path (toPostgresMigrateURL dsn) x k) = None) [0..<20] of
        Some k \<Rightarrow> (Inr (), snd (attempt_no L path (toPostgresMigrateURL dsn) x k))
      | None \<Rightarrow> (Inl (Errorf ''migrate up'' (the (fst (attempt_no L path (toPostgresMigrateURL dsn) x 19)))),
                 rounds L path (toPostgresMigrateURL dsn) x 20))"
proof (cases "find (\<lambda>k. fst (attempt_no L path (toPostgresMigrateURL dsn) x k) = None) [0..<20]")
  case None
  from find_upto(2) [OF this] have "migrate_loop L path (toPostgresMigrateURL dsn) 20 (Plain ''<nil>'') x =
    (Inl (Errorf ''migrate up'' (if (20 :: nat) = 0 then Plain ''<nil>''
       else the (fst (migration_attempt L path (toPostgresMigrateURL dsn) (rounds L path (toPostgresMigrateURL dsn) x (20 - 1)))))),
     rounds L path (toPostgresMigrateURL dsn) x 20)"
    by (intro migrate_loop_fails) (simp add: attempt_no_def)
  with None show ?thesis by (simp add: MigrateUp_def attempt_no_def)
next
  case (Some k)
  from find_upto(1) [OF this] have "migrate_loop L path (toPostgresMigrateURL dsn) 20 (Plain ''<nil>'') x =
    (Inr (), snd (migration_attempt L path (toPostgresMigrateURL dsn) (rounds L path (toPostgresMigrateURL dsn) x k)))"
    by (intro migrate_loop_succeeds) (simp_all add: attempt_no_def)
  with Some show ?thesis by (simp add: MigrateUp_def attempt_no_def)
qed

text \<open>A migrator that cannot connect twice, and then has nothing to do; the world counts the calls.\<close>

definition slow_migrator :: "(nat, unit) migrate_lib" where
  "slow_migrator = \<lparr>mg_New = (\<lambda>src url n. (if n < 2 then Inl (Plain ''connection refused'') else Inr (), Suc n)),
     mg_Up = (\<lambda>_ n. (Inl (Plain ''no change''), n)), mg_Close = (\<lambda>_ n. n),
     mg_NoChange = (\<lambda>e. e = Plain ''no change''), mg_Sleep = (\<lambda>_ n. n)\<rparr>"

lemma slow_migration: "MigrateUp slow_migrator ''pgx5://db'' ''/migrations'' 0 = (Inr (), 3)"
  by code_simp

subsection \<open>Connections\<close>

text \<open>What the code relies on: how the calls of pgx change the number of open pools.\<close>

definition pgx_obeys :: "('x, 'p) pgx_lib \<Rightarrow> ('x \<Rightarrow> nat) \<Rightarrow> bool" where
  "pgx_obeys L opened \<longleftrightarrow>
     (\<forall>dsn params x r x'. px_NewWithConfig L dsn params x = (r, x') \<longrightarrow>
        opened x' = opened x + (case r of Inr _ \<Rightarrow> 1 | Inl _ \<Rightarrow> 0)) \<and>
     (\<forall>p x. opened (snd (px_Ping L p x)) = opened x) \<and>
     (\<forall>p x. opened (px_Close L p x) = opened x - 1)"

text \<open>
  C40: Starting up leaks no connection pool. If connecting to Postgres fails, at whatever point, every pool
  that was opened is closed again and no hook is left; if it succeeds, the pool limits every statement to five
  seconds (it was opened with that parameter), and the hook that was registered closes it at the end.
\<close>

theorem connecting_leaks_nothing:
  assumes "pgx_obeys L opened" and "newPostgres L cfg (x, hooks) = (r, x', hooks')"
  shows "case r of
      Inl _ \<Rightarrow> opened x' = opened x \<and> hooks' = hooks
    | Inr db \<Rightarrow> (\<exists>hook. hooks' = hooks @ [hook] \<and> opened (hook x') = opened x) \<and>
        (\<exists>params y. px_NewWithConfig L (cfg_PostgresDSN cfg) params x = (Inr db, y) \<and>
           map_of params ''statement_timeout'' = Some ''5000'')"
proof -
  note obeys = assms(1) [unfolded pgx_obeys_def]
  have ping: "opened (snd (px_Ping L p y)) = opened y" and close: "opened (px_Close L p y) = opened y - 1" for p y
    using obeys by blast+
  obtain q y where db: "NewDB L (cfg_PostgresDSN cfg) x = (q, y)" by fastforce
  show ?thesis
  proof (cases "px_ParseConfig L (cfg_PostgresDSN cfg)")
    case (Inl e)
    with assms(2) db show ?thesis by (auto simp: newPostgres_def NewDB_def fail_def)
  next
    case (Inr params)
    let ?ps = "AList.update ''statement_timeout'' ''5000'' params"
    obtain p y1 where new: "px_NewWithConfig L (cfg_PostgresDSN cfg) ?ps x = (p, y1)" by fastforce
    then have cnt: "opened y1 = opened x + (case p of Inr _ \<Rightarrow> 1 | Inl _ \<Rightarrow> 0)" using obeys by blast
    show ?thesis
    proof (cases p)
      case (Inl e)
      with assms(2) cnt new \<open>px_ParseConfig L (cfg_PostgresDSN cfg) = Inr params\<close> show ?thesis
        by (auto simp: newPostgres_def NewDB_def mapErr_def andThen_def)
    next
      case (Inr pool)
      obtain a y2 where "px_Ping L pool y1 = (a, y2)" by fastforce
      then have "opened y2 = opened y1" using ping [of pool y1] by simp
      with assms(2) cnt new close Inr \<open>px_Ping L pool y1 = (a, y2)\<close> \<open>px_ParseConfig L (cfg_PostgresDSN cfg) = Inr params\<close> have
        "r = Inr pool \<and> hooks' = hooks @ [DB_Close L pool] \<and> opened (DB_Close L pool x') = opened x \<or>
         (\<exists>e. r = Inl e) \<and> opened x' = opened x \<and> hooks' = hooks"
        by (cases a) (auto simp: newPostgres_def NewDB_def DB_Close_def mapErr_def andThen_def attempt_def ret_def fail_def updating_def)
      moreover have "map_of ?ps ''statement_timeout'' = Some ''5000''" by (simp add: update_conv')
      ultimately show ?thesis using new Inr by fastforce
    qed
  qed
qed

text \<open>A server that accepts connections and does not answer; the world counts the open pools.\<close>

definition deaf_server :: "(nat, unit) pgx_lib" where
  "deaf_server = \<lparr>px_ParseConfig = (\<lambda>_. Inr []), px_NewWithConfig = (\<lambda>_ _ n. (Inr (), Suc n)),
     px_Ping = (\<lambda>_ n. (Inl (Plain ''timeout''), n)), px_Close = (\<lambda>_ n. n - 1)\<rparr>"

theorem connecting_leaks_nothing_witness:
  "pgx_obeys deaf_server (\<lambda>n. n) \<and>
   newPostgres deaf_server sample_cfg (0, []) = (Inl (Errorf ''ping postgres'' (Plain ''timeout'')), 0, [])"
proof -
  have obeys: "pgx_obeys deaf_server (\<lambda>n. n)" by (simp add: pgx_obeys_def deaf_server_def)
  have run: "newPostgres deaf_server sample_cfg (0, []) = (Inl (Errorf ''ping postgres'' (Plain ''timeout'')), 0, [])"
    by (simp add: newPostgres_def NewDB_def deaf_server_def mapErr_def andThen_def attempt_def updating_def fail_def)
  from connecting_leaks_nothing [OF obeys run] obeys run show ?thesis by simp
qed

text \<open>An unlock on another connection than the one that locked has no effect.\<close>

lemma unpinned_unlock_misses:
  assumes "(key, conn) \<in> set (pg_advisory s)" and "conn' \<noteq> conn"
  shows "(key, conn) \<in> set (pg_advisory (snd (DB_Unlock conn' key s)))"
proof -
  have "(key, conn) \<in> set (remove1 (key, conn') (pg_advisory s))" using assms by (simp add: in_set_remove1)
  with assms(1) show ?thesis by (simp add: DB_Unlock_def sql_def Let_def split: list.split option.split)
qed

end
