(* ===== verification/Rejections.thy ===== *)
theory Rejections
  imports Sample_World
begin

text \<open>
  Why a request is rejected. The reason stored with a REJECTED request is shown to be true of the store the
  creation found: a pool without room, or a quota without. The errors of the database must not pass for a
  rejection of the service, so the code is followed once more for the errors it can raise.
\<close>

subsection \<open>What it takes to be refused\<close>

text \<open>A line of the plan is refused in the store the lines before it leave.\<close>

definition refuses :: "string \<Rightarrow> reservation_plan \<Rightarrow> tables \<Rightarrow> rejection \<Rightarrow> bool" where
  "refuses c p t rej \<longleftrightarrow>
     rej_reason rej = ReasonInsufficientCapacity \<and> \<not> admits (pl_poolID p) (pl_amount p) t \<or>
     rej_reason rej = ReasonQuotaExceeded \<and>
       \<not> quota_admits c (pl_kind p) (pl_amount p) (spec_ensure c (pl_kind p) defaultQuotaLimit t)"

text \<open>
  The same, of the store as it is: the pool of the kind has too little left, or the customer's quota of the
  kind has; a customer without a row for the kind has the default limit.
\<close>

fun lacks :: "tables \<Rightarrow> string \<Rightarrow> string \<times> int \<Rightarrow> reason \<Rightarrow> bool" where
  "lacks t c (kind, n) ReasonInsufficientCapacity =
     list_ex (\<lambda>p. rp_Kind p = kind \<and> effective p < rp_DedicatedAmount p + rp_ReservedAmount p + n) (t_pools t)"
| "lacks t c (kind, n) ReasonQuotaExceeded =
     (case find (\<lambda>q. quota_key q = (c, kind)) (t_quotas t) of
        None \<Rightarrow> defaultQuotaLimit < n
      | Some q \<Rightarrow> cq_Limit q < cq_UsedAmount q + n)"
| "lacks t c kn _ = False"

lemma admits_other: "pl_poolID q \<noteq> i \<Longrightarrow> admits i n (reserve_step c q t) = admits i n t"
proof -
  assume "pl_poolID q \<noteq> i"
  then have "list_ex (\<lambda>p. rp_ID p = i \<and> n \<le> effective p - rp_DedicatedAmount p - rp_ReservedAmount p)
      (shift_pools (at (pl_poolID q) (pl_amount q)) (\<lambda>_. 0) ps) =
    list_ex (\<lambda>p. rp_ID p = i \<and> n \<le> effective p - rp_DedicatedAmount p - rp_ReservedAmount p) ps" for ps
    by (induction ps) (auto simp: shift_pools_def at_def effective_def)
  then show ?thesis
    by (simp add: admits_def reserve_step_def spec_consume_def spec_ensure_def spec_reserve_def)
qed

lemma quota_admits_ensured:
  "quota_admits c k n (spec_ensure c k d t) \<longleftrightarrow>
     (if list_ex (\<lambda>q. quota_key q = (c, k)) (t_quotas t) then quota_admits c k n t else n \<le> d)"
  by (auto simp: quota_admits_def spec_ensure_def new_quota_def quota_key_def list_ex_iff)

lemma quota_other:
  assumes "pl_kind q \<noteq> k"
  shows "list_ex (\<lambda>q. quota_key q = (c, k)) (t_quotas (reserve_step c q t)) = list_ex (\<lambda>q. quota_key q = (c, k)) (t_quotas t)"
    and "quota_admits c k n (reserve_step c q t) = quota_admits c k n t"
proof -
  have "list_ex (\<lambda>q. quota_key q = (c, k)) (shift_quotas (at (c, pl_kind q) (pl_amount q)) qs) = list_ex (\<lambda>q. quota_key q = (c, k)) qs"
    "list_ex (\<lambda>q. quota_key q = (c, k) \<and> n \<le> cq_Limit q - cq_UsedAmount q) (shift_quotas (at (c, pl_kind q) (pl_amount q)) qs) =
     list_ex (\<lambda>q. quota_key q = (c, k) \<and> n \<le> cq_Limit q - cq_UsedAmount q) qs" for qs
    using assms by (induction qs) (auto simp: shift_quotas_def at_def)
  then show "list_ex (\<lambda>q. quota_key q = (c, k)) (t_quotas (reserve_step c q t)) = list_ex (\<lambda>q. quota_key q = (c, k)) (t_quotas t)"
    "quota_admits c k n (reserve_step c q t) = quota_admits c k n t"
    using assms
    by (auto simp: quota_admits_def reserve_step_def spec_consume_def spec_ensure_def spec_reserve_def new_quota_def quota_key_def)
qed

lemma refuses_other:
  assumes "pl_poolID q \<noteq> pl_poolID p" and "pl_kind q \<noteq> pl_kind p"
  shows "refuses c p (reserve_step c q t) rej = refuses c p t rej"
  using assms by (simp add: refuses_def admits_other quota_admits_ensured quota_other)

lemma refuses_earlier:
  assumes "\<And>q. q \<in> set dn \<Longrightarrow> pl_poolID q \<noteq> pl_poolID p \<and> pl_kind q \<noteq> pl_kind p"
  shows "refuses c p (reserve_all c dn t) rej = refuses c p t rej"
  using assms
proof (induction dn arbitrary: t)
  case (Cons q dn)
  then have "refuses c p (reserve_all c dn (reserve_step c q t)) rej = refuses c p (reserve_step c q t) rej" by simp
  with Cons.prems [of q] show ?case by (simp add: reserve_all_def refuses_other)
qed (simp add: reserve_all_def)

text \<open>Two lines of a plan differ in pool and in kind.\<close>

lemma plan_lines_differ:
  assumes "pools_ok t" and "plan_ok t plans" and "plans = dn @ p # rest" and "q \<in> set dn"
  shows "pl_poolID q \<noteq> pl_poolID p \<and> pl_kind q \<noteq> pl_kind p"
proof -
  have ids: "pl_poolID q \<noteq> pl_poolID p" using assms(2-4) by (force simp: plan_ok_def image_iff)
  have "kind_of t (pl_poolID q) = Some (pl_kind q)" "kind_of t (pl_poolID p) = Some (pl_kind p)"
    using assms(2-4) by (auto simp: plan_ok_def)
  then obtain a b where a: "a \<in> set (t_pools t)" "rp_ID a = pl_poolID q" "rp_Kind a = pl_kind q"
    and b: "b \<in> set (t_pools t)" "rp_ID b = pl_poolID p" "rp_Kind b = pl_kind p"
    by (auto simp: kind_of_def dest!: find_SomeD)
  have "a = b" if "rp_Kind a = rp_Kind b"
    using that a(1) b(1) assms(1) by (auto simp: pools_ok_def distinct_map dest: inj_onD)
  with a b ids show ?thesis by auto
qed

lemma refused_lacks:
  assumes pools: "pools_ok t" and quotas: "quotas_ok t" and plan: "plan_ok t plans"
    and split: "plans = dn @ p # rest" and r: "refuses c p (reserve_all c dn t) rej"
  shows "lacks t c (pl_kind p, pl_amount p) (rej_reason rej)"
proof -
  have "refuses c p t rej"
    using r refuses_earlier [of dn p c t rej] plan_lines_differ [OF pools plan split] by blast
  then consider (pool) "rej_reason rej = ReasonInsufficientCapacity" "\<not> admits (pl_poolID p) (pl_amount p) t"
    | (quota) "rej_reason rej = ReasonQuotaExceeded"
        "\<not> quota_admits c (pl_kind p) (pl_amount p) (spec_ensure c (pl_kind p) defaultQuotaLimit t)"
    unfolding refuses_def by blast
  then show ?thesis
  proof cases
    case pool
    have "kind_of t (pl_poolID p) = Some (pl_kind p)" using plan split by (simp add: plan_ok_def)
    then obtain a where "a \<in> set (t_pools t)" "rp_ID a = pl_poolID p" "rp_Kind a = pl_kind p"
      by (auto simp: kind_of_def dest!: find_SomeD)
    with pool show ?thesis by (fastforce simp: admits_def list_ex_iff)
  next
    case quota
    show ?thesis
    proof (cases "find (\<lambda>q. quota_key q = (c, pl_kind p)) (t_quotas t)")
      case None
      then have "\<not> list_ex (\<lambda>q. quota_key q = (c, pl_kind p)) (t_quotas t)" by (simp add: find_None_iff list_ex_iff)
      with quota None show ?thesis by (simp add: quota_admits_ensured)
    next
      case (Some q)
      from find_SomeD [OF Some] have q: "q \<in> set (t_quotas t)" "quota_key q = (c, pl_kind p)" by simp_all
      then have "list_ex (\<lambda>q. quota_key q = (c, pl_kind p)) (t_quotas t)" by (auto simp: list_ex_iff)
      with quota(2) have "\<not> quota_admits c (pl_kind p) (pl_amount p) t" by (simp add: quota_admits_ensured)
      with q quota(1) Some show ?thesis by (auto simp: quota_admits_def list_ex_iff)
    qed
  qed
qed

subsection \<open>Errors that are no rejections\<close>

text \<open>
  No fault the environment schedules carries the service's own rejection, and no statement raises one:
  \<open>honest\<close> repository calls fail with other errors only.
\<close>

definition foreign :: "pg_state \<Rightarrow> bool" where
  "foreign s \<longleftrightarrow> (\<forall>e. Some e \<in> set (pg_faults s) \<longrightarrow> as_rejected e = None)"

definition honest :: "(pg_state, 'a) gor \<Rightarrow> bool" where
  "honest m \<longleftrightarrow> (\<forall>s r s'. foreign s \<longrightarrow> m s = (r, s') \<longrightarrow> foreign s' \<and> (\<forall>e. r = Inl e \<longrightarrow> as_rejected e = None))"

lemma honestD:
  assumes "honest m" and "foreign s" and "m s = (r, s')"
  shows "foreign s'" and "r = Inl e \<Longrightarrow> as_rejected e = None"
  using assms unfolding honest_def by blast+

named_theorems honest_intro "repository calls that raise no rejection"

lemma honest_sql:
  assumes err: "\<And>s e. f s = Inl e \<Longrightarrow> as_rejected e = None"
    and keeps: "\<And>s a s'. f s = Inr (a, s') \<Longrightarrow> pg_faults s' = pg_faults s"
  shows "honest (sql f)"
  unfolding honest_def
proof (intro allI impI)
  fix s r s' assume s: "foreign s" and run: "sql f s = (r, s')"
  let ?s1 = "s\<lparr>pg_faults := tl (pg_faults s)\<rparr>"
  have tl: "foreign ?s1" using s by (cases "pg_faults s") (auto simp: foreign_def)
  show "foreign s' \<and> (\<forall>e. r = Inl e \<longrightarrow> as_rejected e = None)"
  proof (cases "\<exists>e rest. pg_faults s = Some e # rest")
    case True
    with run s tl show ?thesis by (auto simp: sql_def Let_def foreign_def)
  next
    case False
    then have "sql f s = (case f ?s1 of Inl e \<Rightarrow> (Inl e, ?s1) | Inr (a, s2) \<Rightarrow> (Inr a, s2))"
      by (auto simp: sql_def Let_def split: list.split option.split)
    with run tl err [of ?s1] keeps [of ?s1] show ?thesis
      by (cases "f ?s1") (auto simp: foreign_def split: prod.splits)
  qed
qed

lemma honest_select [honest_intro]: "honest (sql_select f)"
  unfolding sql_select_def by (rule honest_sql) auto

lemma honest_exec:
  assumes "\<And>now t e. f now t = Inl e \<Longrightarrow> as_rejected e = None"
  shows "honest (sql_exec f)"
  unfolding sql_exec_def by (rule honest_sql) (auto split: sum.splits dest: assms)

lemma honest_mapErr:
  "honest m \<Longrightarrow> (\<And>e. as_rejected e = None \<Longrightarrow> as_rejected (g e) = None) \<Longrightarrow> honest (mapErr g m)"
  unfolding honest_def by (fastforce simp: mapErr_def split: prod.splits sum.splits)

lemma honest_Errorf [honest_intro]: "honest m \<Longrightarrow> honest (mapErr (Errorf s) m)"
  by (rule honest_mapErr) simp_all

lemma honest_andThen [honest_intro]:
  assumes m: "honest m" and f: "\<And>a. honest (f a)"
  shows "honest (andThen m f)"
  unfolding honest_def
proof (intro allI impI)
  fix s r s' assume s: "foreign s" and "andThen m f s = (r, s')"
  from this(2) show "foreign s' \<and> (\<forall>e. r = Inl e \<longrightarrow> as_rejected e = None)"
  proof (cases rule: andThen_split)
    case (failed e)
    from honestD [OF m s failed(1)] failed(2) show ?thesis by simp
  next
    case (went_on a s1)
    from honestD(1) [OF m s went_on(1)] have s1: "foreign s1" .
    show ?thesis using honestD [OF f s1 went_on(2)] by blast
  qed
qed

lemma honest_ret [honest_intro]: "honest (ret a)"
  by (simp add: honest_def)

lemma honest_forEach [honest_intro]: "(\<And>x. honest (f x)) \<Longrightarrow> honest (forEach f xs)"
  by (induction xs) (auto intro: honest_intro)

lemma update_rows_error: "update_rows w f chk rows = Inl e \<Longrightarrow> \<exists>x. chk x = Some e"
  by (auto simp: update_rows_def find_Some_iff split: option.splits)

lemma checks_foreign:
  "check_pool p = Some e \<Longrightarrow> as_rejected e = None" "check_quota q = Some e \<Longrightarrow> as_rejected e = None"
  by (auto simp: check_pool_def check_quota_def out_of_range_def check_violation_def split: if_splits)

lemma honest_update_pools [honest_intro]: "honest (update_pools w f)"
  unfolding update_pools_def
  by (rule honest_exec) (auto split: sum.splits dest!: update_rows_error dest: checks_foreign)

lemma honest_update_quotas [honest_intro]: "honest (update_quotas w f)"
  unfolding update_quotas_def
  by (rule honest_exec) (auto split: sum.splits dest!: update_rows_error dest: checks_foreign)

lemma honest_insert_quota [honest_intro]: "honest (insert_quota c k d)"
  unfolding insert_quota_def Let_def
  by (rule honest_sql) (auto split: option.splits if_splits dest: checks_foreign)

lemmas row_errors = insert_request_def insert_line_def insert_hold_def insert_event_row_def
  out_of_range_def check_violation_def unique_violation_def fk_violation_def

lemma honest_inserts [honest_intro]:
  "honest (sql_exec (\<lambda>_. insert_request r))" "honest (sql_exec (\<lambda>_. insert_line l))"
  "honest (sql_exec (\<lambda>_. insert_hold h))" "honest (sql_exec (\<lambda>_. insert_event_row ev))"
  by (rule honest_exec, auto simp: row_errors split: if_splits)+

lemma honest_duplicate_or [honest_intro]: "honest m \<Longrightarrow> honest (mapErr (duplicate_or s) m)"
  by (rule honest_mapErr) (simp_all add: duplicate_or_def)

lemma honest_calls [honest_intro]:
  "honest (PoolRepo_TryReserve i n)" "honest (PoolRepo_GetByKind k)" "honest (QuotaRepo_EnsureAndTryConsume c k n d)"
  "honest (ProductRepo_GetByCode code)" "honest (RequestRepo_FindByIdempotency c k)" "honest (RequestRepo_Get j)"
  "honest (RequestRepo_CountActiveHoldsByCustomer c)" "honest (RequestRepo_CreateReserved req ls hs ev)"
  unfolding PoolRepo_TryReserve_def PoolRepo_GetByKind_def QuotaRepo_EnsureAndTryConsume_def QuotaRepo_TryConsume_def
    ProductRepo_GetByCode_def RequestRepo_FindByIdempotency_def RequestRepo_Get_def
    RequestRepo_CountActiveHoldsByCustomer_def RequestRepo_CreateReserved_def insertLines_def insertEvent_def
  by (intro honest_intro)+

lemma honest_tx [honest_intro]: "honest pg_begin" "honest pg_commit"
  unfolding pg_begin_def pg_commit_def by (intro honest_intro honest_sql; auto)+

subsection \<open>Worlds with such faults only\<close>

abbreviation tame :: "(pg_state, 'c) world \<Rightarrow> bool" where
  "tame w \<equiv> foreign (w_repo w)"

abbreviation keeps_tame :: "((pg_state, 'c) world, 'a) gor \<Rightarrow> bool" where
  "keeps_tame m \<equiv> hoare tame m (\<lambda>_. tame) (\<lambda>_. tame)"

named_theorems tame_intro "calls that schedule no rejections"

lemma honest_onRepo: "honest m \<Longrightarrow> hoare tame (onRepo m) (\<lambda>_. tame) (\<lambda>e w. as_rejected e = None \<and> tame w)"
  unfolding honest_def by (rule hoareI) (fastforce simp: onRepo_def split: prod.splits)+

lemma tame_onRepo [tame_intro]: "honest m \<Longrightarrow> keeps_tame (onRepo m)"
  by (rule hoare_error [OF honest_onRepo]) auto

lemma tame_onRedis [tame_intro]: "keeps_tame (onRedis m)"
  by (rule hoareI) (auto simp: onRedis_def split: prod.splits)

lemma tame_draws [tame_intro]: "keeps_tame uuid_New" "keeps_tame Now"
  by (rule hoareI; auto simp: uuid_New_def Now_def calling_iff)+

lemma tame_ret [tame_intro]: "keeps_tame (ret a)"
  by (rule hoare_ret)

lemma tame_fail [tame_intro]: "keeps_tame (fail e)"
  by (rule hoare_fail)

lemma tame_andThen [tame_intro]: "keeps_tame m \<Longrightarrow> (\<And>a. keeps_tame (f a)) \<Longrightarrow> keeps_tame (andThen m f)"
  by (rule hoare_andThen)

lemma tame_attempt [tame_intro]: "keeps_tame m \<Longrightarrow> keeps_tame (attempt m)"
  by (rule hoare_attempt) simp

lemma tame_ignoring [tame_intro]: "keeps_tame m \<Longrightarrow> keeps_tame (ignoring m)"
  by (rule hoare_ignoring)

lemma tame_collect [tame_intro]: "(\<And>x. keeps_tame (f x)) \<Longrightarrow> keeps_tame (collect f xs)"
  by (induction xs) (auto intro!: tame_intro)

lemma tame_cases [tame_intro]:
  "keeps_tame m \<Longrightarrow> keeps_tame m' \<Longrightarrow> keeps_tame (if b then m else m')"
  "keeps_tame m \<Longrightarrow> (\<And>x. keeps_tame (f x)) \<Longrightarrow> keeps_tame (case q of None \<Rightarrow> m | Some x \<Rightarrow> f x)"
  "(\<And>x. keeps_tame (g x)) \<Longrightarrow> (\<And>y. keeps_tame (h y)) \<Longrightarrow> keeps_tame (case s of Inl x \<Rightarrow> g x | Inr y \<Rightarrow> h y)"
  "(\<And>x y. keeps_tame (k x y)) \<Longrightarrow> keeps_tame (case p of (x, y) \<Rightarrow> k x y)"
  by (simp_all split: option.split sum.split prod.split)

subsection \<open>The reserve transaction refuses for a reason\<close>

lemma hoare_both:
  "hoare P m Q E \<Longrightarrow> hoare P' m Q' E' \<Longrightarrow>
   hoare (\<lambda>s. P s \<and> P' s) m (\<lambda>a s. Q a s \<and> Q' a s) (\<lambda>e s. E e s \<and> E' e s)"
  unfolding hoare_def by blast

lemma reserve_line_refusal:
  assumes b: "book br bd bq t" and p: "kind_of t (pl_poolID p) = Some (pl_kind p)" "0 < pl_amount p" "pl_amount p \<le> maxAmount"
    and w: "sees pg_view pg_inv ((=) t) k w" "tame w"
    and run: "reserve_line (pg_service cache idem cfg E) inp p w = (Inl e, w')" and rej: "as_rejected e = Some rej"
  shows "refuses (ci_CustomerID inp) p t rej"
proof -
  let ?S = "pg_service cache idem cfg E" and ?c = "ci_CustomerID inp"
  have pools: "pools_ok t" "pl_poolID p \<in> pool_ids t" and quotas: "quotas_ok t"
    using b kind_of_in_pools [OF p(1)] by (simp_all add: book_def)
  have "0 \<le> defaultQuotaLimit" "defaultQuotaLimit \<le> maxAmount" by (simp_all add: defaultQuotaLimit_def maxAmount_def)
  note limit = this
  note grant = hoare_both [OF pg.TryReserve_rule [where k = k, OF pools(1) p(2,3) pools(2), unfolded pg_service_sel pg_pools_sel]
      honest_onRepo [OF honest_calls(1)]]
  note run' = run [unfolded reserve_line_def pg_service_sel pg_pools_sel pg_quotas_sel]
  from run' show ?thesis
  proof (cases rule: andThen_split)
    case (failed d)
    from hoare_Inl [OF grant failed(1) conjI [OF w]] rej failed(2) show ?thesis by auto
  next
    case (went_on ok w1)
    from hoare_Inr [OF grant went_on(1) conjI [OF w]] have ok: "ok = admits (pl_poolID p) (pl_amount p) t"
      and w1: "sees pg_view pg_inv ((=) (if ok then spec_reserve (pl_poolID p) (pl_amount p) t else t)) k w1" "tame w1" by auto
    show ?thesis
    proof (cases ok)
      case False
      with went_on(2) rej ok show ?thesis by (auto simp: refuses_def)
    next
      case True
      let ?t1 = "spec_reserve (pl_poolID p) (pl_amount p) t"
      have q1: "quotas_ok ?t1" using quotas by (simp add: spec_reserve_def quotas_ok_def)
      note ensure = hoare_both [OF pg.EnsureAndTryConsume_rule [where k = k, OF q1 p(2,3) limit, unfolded pg_service_sel pg_quotas_sel]
          honest_onRepo [OF honest_calls(3)]]
      from went_on(2) True have "andThen (onRepo (QuotaRepo_EnsureAndTryConsume ?c (pl_kind p) (pl_amount p) defaultQuotaLimit)) (\<lambda>ok.
        if \<not> ok then
          fail (ErrRejected \<lparr>rej_reason = ReasonQuotaExceeded, rej_message = ''quota exceeded'',
               rej_details = Some [(''resource_kind'', DStr (pl_kind p)), (''requested'', DInt (pl_amount p))]\<rparr>)
        else ret ()) w1 = (Inl e, w')" by simp
      then show ?thesis
      proof (cases rule: andThen_split)
        case (failed d)
        from hoare_Inl [OF ensure failed(1)] w1 True rej failed(2) show ?thesis by auto
      next
        case (went_on ok2 w2)
        from hoare_Inr [OF ensure went_on(1)] w1 True
        have "ok2 = quota_admits ?c (pl_kind p) (pl_amount p) (spec_ensure ?c (pl_kind p) defaultQuotaLimit ?t1)" by auto
        moreover have "quota_admits ?c (pl_kind p) (pl_amount p) (spec_ensure ?c (pl_kind p) defaultQuotaLimit ?t1) =
          quota_admits ?c (pl_kind p) (pl_amount p) (spec_ensure ?c (pl_kind p) defaultQuotaLimit t)"
          unfolding quota_admits_ensured by (simp add: spec_reserve_def quota_admits_def)
        ultimately show ?thesis using went_on(2) rej by (auto simp: refuses_def split: if_splits)
      qed
    qed
  qed
qed

lemma forEach_fails:
  "forEach f xs s = (Inl e, s') \<Longrightarrow>
   \<exists>dn x rest s1. xs = dn @ x # rest \<and> forEach f dn s = (Inr (), s1) \<and> f x s1 = (Inl e, s')"
proof (induction xs arbitrary: s)
  case (Cons x xs)
  from Cons.prems have "andThen (f x) (\<lambda>_. forEach f xs) s = (Inl e, s')" by simp
  then show ?case
  proof (cases rule: andThen_split)
    case (failed d)
    then show ?thesis by (intro exI [of _ "[]"] exI [of _ x] exI [of _ xs] exI [of _ s]) simp
  next
    case (went_on u s1)
    from Cons.IH [OF went_on(2)] obtain dn y rest s2 where
      d: "xs = dn @ y # rest" "forEach f dn s1 = (Inr (), s2)" "f y s2 = (Inl e, s')" by blast
    with went_on(1) have "forEach f (x # dn) s = (Inr (), s2)" by simp
    with d show ?thesis by (metis append_Cons)
  qed
qed simp

lemma tame_reserve_line [tame_intro]: "keeps_tame (reserve_line (pg_service cache idem cfg E) inp p)"
  unfolding reserve_line_def pg_service_sel pg_pools_sel pg_quotas_sel
  by (intro tame_intro honest_intro)

lemma tame_forEach [tame_intro]: "(\<And>x. keeps_tame (f x)) \<Longrightarrow> keeps_tame (forEach f xs)"
  by (rule hoare_forEach_inv)

text \<open>A line of the plan that does not fit: the lines before it took what they wanted.\<close>

definition turned_down :: "string \<Rightarrow> reservation_plan list \<Rightarrow> tables \<Rightarrow> rejection \<Rightarrow> bool" where
  "turned_down c plans t rej \<longleftrightarrow> (\<exists>dn p rest. plans = dn @ p # rest \<and> refuses c p (reserve_all c dn t) rej)"

lemma reserve_loop_refusal:
  assumes l: "ledger bd bq t" and p: "plan_ok t plans" and w: "sees pg_view pg_inv ((=) t) k w" "tame w"
    and run: "forEach (reserve_line (pg_service cache idem cfg E) inp) plans w = (Inl e, w')"
    and rej: "as_rejected e = Some rej"
  shows "turned_down (ci_CustomerID inp) plans t rej"
proof -
  from forEach_fails [OF run] obtain dn x rest w1 where split: "plans = dn @ x # rest"
    and dn: "forEach (reserve_line (pg_service cache idem cfg E) inp) dn w = (Inr (), w1)"
    and x: "reserve_line (pg_service cache idem cfg E) inp x w1 = (Inl e, w')" by blast
  let ?t = "reserve_all (ci_CustomerID inp) dn t"
  have "plan_ok t dn" using p split by (auto simp: plan_ok_def)
  from hoare_Inr [OF pg.reserve_loop_rule [where k = k, OF l this] dn w(1)]
  have b: "book (plan_on dn) bd (\<lambda>ck. bq ck + plan_used (ci_CustomerID inp) dn ck) ?t"
    and w1: "sees pg_view pg_inv ((=) ?t) k w1" by simp_all
  have "tame w1" using hoare_Inr [OF tame_forEach [OF tame_reserve_line] dn w(2)] .
  moreover have "kind_of ?t (pl_poolID x) = Some (pl_kind x)" "0 < pl_amount x" "pl_amount x \<le> maxAmount"
    using p split by (simp_all add: plan_ok_def)
  ultimately have "refuses (ci_CustomerID inp) x ?t rej"
    using reserve_line_refusal [OF b _ _ _ w1 _ x rej] by blast
  with split show ?thesis unfolding turned_down_def by blast
qed

text \<open>The rest of the transaction fails with other errors only.\<close>

abbreviation clean :: "((pg_state, 'c) world, 'a) gor \<Rightarrow> bool" where
  "clean m \<equiv> hoare tame m (\<lambda>_. tame) (\<lambda>e w. as_rejected e = None)"

lemma clean_andThen: "clean m \<Longrightarrow> (\<And>a. clean (f a)) \<Longrightarrow> clean (andThen m f)"
  by (rule hoare_andThen)

lemma clean_onRepo: "honest m \<Longrightarrow> clean (onRepo m)"
  by (rule hoare_error [OF honest_onRepo]) auto

lemma clean_uuid: "clean uuid_New"
  by (rule hoareI) (auto simp: uuid_New_def calling_iff)

lemma clean_ret: "clean (ret a)"
  by (rule hoare_ret)

lemma clean_collect: "(\<And>x. clean (f x)) \<Longrightarrow> clean (collect f xs)"
  by (induction xs) (auto intro!: clean_andThen clean_ret)

lemma clean_rows: "clean (buildLines i plans)" "clean (buildHolds i plans now)"
  unfolding buildLines_def buildHolds_def by (intro clean_collect clean_andThen clean_uuid clean_ret)+

lemma reserve_body_refusal:
  assumes l: "ledger bd bq t" and p: "plan_ok t plans" and w: "sees pg_view pg_inv ((=) t) k w" "tame w"
    and run: "reserve_body (pg_service cache idem cfg E) plans product inp i now ex hash w = (Inl e, w')"
    and rej: "as_rejected e = Some rej"
  shows "turned_down (ci_CustomerID inp) plans t rej"
  using run unfolding reserve_body_def Let_def pg_service_sel pg_requests_sel
proof (cases rule: andThen_split)
  case (failed d)
  from reserve_loop_refusal [OF l p w failed(1)] failed(2) rej show ?thesis by simp
next
  case (went_on u w1)
  have "tame w1" using hoare_Inr [OF tame_forEach [OF tame_reserve_line] went_on(1) w(2)] .
  have "clean (andThen (buildLines i plans) (\<lambda>lines. andThen (buildHolds i plans now) (\<lambda>holds. andThen uuid_New (\<lambda>evID.
      andThen (onRepo (RequestRepo_CreateReserved (reserved_request inp product i now ex hash) lines holds
       \<lparr>ev_ID = evID, ev_RequestID = i, ev_EventType = EventReserved, ev_Reason = '''', ev_At = now\<rparr>))
      (\<lambda>_. ret (reserved_request inp product i now ex hash))))))"
    by (intro clean_andThen clean_rows clean_uuid clean_onRepo honest_calls clean_ret)
  from hoare_Inl [OF this went_on(2) \<open>tame w1\<close>] rej show ?thesis by simp
qed

lemma WithinTx_error:
  assumes "WithinTx S body w = (Inl e, w')"
  obtains (no_begin) w1 where "onRepo (tx_Begin (sv_tx S)) w = (Inl e, w1)"
    | (body) h w1 w2 where "onRepo (tx_Begin (sv_tx S)) w = (Inr h, w1)" "body w1 = (Inl e, w2)"
    | (no_commit) h w1 a w2 w3 where "onRepo (tx_Begin (sv_tx S)) w = (Inr h, w1)" "body w1 = (Inr a, w2)"
        "onRepo (tx_Commit (sv_tx S)) w2 = (Inl e, w3)"
  using assms by (auto simp: WithinTx_def split: prod.splits sum.splits)

lemma begin_sees:
  assumes "sees pg_view pg_inv ((=) t) k w" and "onRepo pg_begin w = (r, w1)"
  shows "sees pg_view pg_inv ((=) t) k w1"
proof -
  obtain q s where "pg_begin (w_repo w) = (q, s)" by fastforce
  moreover from this pg_atomic.tx_begin [of "w_repo w" q s] assms(1) have "pg_inv s" "pg_view s = pg_view (w_repo w)"
    by (auto simp: sees_def pg_tx_def)
  ultimately show ?thesis using assms by (auto simp: onRepo_def sees_def)
qed

lemma reserveWithinTx_refusal:
  assumes l: "ledger bd bq t" and p: "plan_ok t plans" and w: "sees pg_view pg_inv ((=) t) k w" "tame w"
    and run: "reserveWithinTx (pg_service cache idem cfg E) plans product inp i now ex hash w = (Inr (Inl rej), w')"
  shows "turned_down (ci_CustomerID inp) plans t rej"
proof -
  let ?S = "pg_service cache idem cfg E"
  obtain q w2 where q: "WithinTx ?S (reserve_body ?S plans product inp i now ex hash) w = (q, w2)" by fastforce
  from run q obtain e where "q = Inl e" and rej: "as_rejected e = Some rej"
    by (cases q) (auto simp: reserveWithinTx_def andThen_def attempt_def ret_def fail_def split: option.splits)
  with q have tx: "WithinTx ?S (reserve_body ?S plans product inp i now ex hash) w = (Inl e, w2)" by simp
  have tx_sel: "tx_Begin (sv_tx ?S) = pg_begin" "tx_Commit (sv_tx ?S) = pg_commit" by (simp_all add: pg_tx_def)
  from tx show ?thesis
  proof (cases rule: WithinTx_error)
    case (no_begin w1)
    from hoare_Inl [OF clean_onRepo [OF honest_tx(1)] no_begin [unfolded tx_sel] w(2)] rej show ?thesis by simp
  next
    case (body h w1 w3)
    have "tame w1" using hoare_Inr [OF clean_onRepo [OF honest_tx(1)] body(1) [unfolded tx_sel] w(2)] .
    from reserve_body_refusal [OF l p begin_sees [OF w(1) body(1) [unfolded tx_sel]] this body(2) rej] show ?thesis .
  next
    case (no_commit h w1 a w3 w4)
    have w1: "tame w1" using hoare_Inr [OF clean_onRepo [OF honest_tx(1)] no_commit(1) [unfolded tx_sel] w(2)] .
    have keeps: "keeps_tame (reserve_body ?S plans product inp i now ex hash)"
      unfolding reserve_body_def Let_def pg_service_sel pg_requests_sel buildLines_def buildHolds_def
      by (intro tame_intro honest_intro)
    from hoare_Inr [OF keeps no_commit(2) w1] have "tame w3" .
    from hoare_Inl [OF clean_onRepo [OF honest_tx(2)] no_commit(3) [unfolded tx_sel] this] rej show ?thesis by simp
  qed
qed

subsection \<open>What the record says\<close>

text \<open>A request that is new and REJECTED was refused by this call, and carries the reason.\<close>

lemma persistRejected_reason:
  assumes p: "planned E t inp product plans" and w: "sees pg_view pg_inv ((=) t) k w"
    and run: "persistRejected (pg_service cache idem cfg E) inp i now plans product rej hash w = (Inr req, w')"
    and new: "find_request (cr_ID req) t = None"
  shows "cr_RejectReason req = Some (rej_reason rej)"
proof -
  let ?S = "pg_service cache idem cfg E" and ?r = "rejected_request inp product i now (rej_reason rej) hash"
  let ?ok = "\<lambda>q w. unstamp_request q \<in> set (t_requests t) \<or> cr_RejectReason q = Some (rej_reason rej)"
  let ?more = "\<lambda>t'. \<exists>reqs lns. t' = t\<lparr>t_requests := t_requests t @ reqs, t_lines := t_lines t @ lns\<rparr> \<and>
       (reqs = [] \<and> lns = [] \<or> reqs = [unstamp_request ?r])"
  have replay: "hoare (sees pg_view pg_inv ?more k) (replayAfterDuplicate ?S inp hash) ?ok (\<lambda>_ _. True)"
  proof (rule hoare_sees, rule hoare_conseq [OF pg.replayAfterDuplicate_rule])
    fix t' q w assume more: "?more t'" and "replays_own t' inp hash q \<and> sees pg_view pg_inv ((=) t') k w"
    then have "unstamp_request q \<in> set (t_requests t')" by (simp add: replays_own_def replays_def)
    then have "unstamp_request q \<in> set (t_requests t) \<or> unstamp_request q = unstamp_request ?r" using more by auto
    moreover have "unstamp_request q = unstamp_request ?r \<Longrightarrow> cr_RejectReason q = Some (rej_reason rej)"
      by (drule arg_cong [where f = cr_RejectReason]) (simp add: rejected_request_def)
    ultimately show "?ok q w" by blast
  qed auto
  have "hoare (sees pg_view pg_inv ((=) t) k) (persistRejected ?S inp i now plans product rej hash) ?ok (\<lambda>_ _. True)"
    unfolding persistRejected_def Let_def
  proof (rule hoare_bind [OF hoare_buildLines], rule hoare_seq [OF hoare_uuid])
    fix ls evID
    let ?ev = "\<lparr>ev_ID = evID, ev_RequestID = i, ev_EventType = EventRejected, ev_Reason = event_reason rej, ev_At = now\<rparr>"
    let ?mid = "\<lambda>q w. case q of Inl (e :: go_error) \<Rightarrow> sees pg_view pg_inv ?more k w | Inr (u :: unit) \<Rightarrow> True"
    have "hoare (sees pg_view pg_inv ((=) t) k) (onRepo (rr_CreateRejected (sv_requests ?S) ?r ls ?ev))
        (\<lambda>a. ?mid (Inr a)) (\<lambda>e. ?mid (Inl e))"
      by (rule hoare_conseq [OF pg.CreateRejected_rule])
        (simp_all add: rejected_request_def, erule sees_mono, blast)
    then show "hoare (sees pg_view pg_inv ((=) t) k)
        (andThen (attempt (onRepo (rr_CreateRejected (sv_requests ?S) ?r ls ?ev))) (\<lambda>q.
          case q of Inl e \<Rightarrow> if is_duplicate e then replayAfterDuplicate ?S inp hash else fail e | Inr _ \<Rightarrow> ret ?r))
        ?ok (\<lambda>_ _. True)"
    proof (rule hoare_andThen [OF hoare_attempt])
      fix q
      show "hoare (?mid q) (case q of Inl e \<Rightarrow> if is_duplicate e then replayAfterDuplicate ?S inp hash else fail e
          | Inr _ \<Rightarrow> ret ?r) ?ok (\<lambda>_ _. True)"
      proof (cases q)
        case (Inl e)
        show ?thesis unfolding Inl sum.case by (intro hoare_if replay hoare_fail TrueI)
      next
        case (Inr u)
        show ?thesis unfolding Inr sum.case by (rule hoare_ret) (simp add: rejected_request_def)
      qed
    qed
  qed simp_all
  from hoare_Inr [OF this run w] new show ?thesis
    by (auto simp: find_request_def find_None_iff)
qed

lemma tame_planning:
  "keeps_tame (enforceActiveHoldsLimit (pg_service cache idem cfg E) c)"
  "keeps_tame (buildReservationPlan (pg_service cache idem cfg E) inp)"
  "keeps_tame (checkIdempotentReplay (pg_service cache idem cfg E) inp hash)"
  unfolding enforceActiveHoldsLimit_def buildReservationPlan_def resolveLines_def plan_for_def Let_def
    checkIdempotentReplay_def replay_fast_def matchIdempotentBody_def
    pg_service_sel pg_requests_sel pg_pools_sel pg_products_def product_repository.simps
  by (intro tame_intro honest_intro)+

lemma replayed_is_stored: "replays t hash req \<Longrightarrow> find_request (cr_ID req) t \<noteq> None"
  by (auto simp: replays_def find_request_def find_None_iff)

text \<open>The clock read and the id drawn before the transaction.\<close>

definition drawn :: "('r, 'c) world \<Rightarrow> ('r, 'c) world" where
  "drawn w = w\<lparr>w_tick := Suc (w_tick w), w_drawn := Suc (w_drawn w)\<rparr>"

lemma drawn_run:
  assumes "andThen Now (\<lambda>now. andThen uuid_New (\<lambda>i. andThen (attempt (m now i)) (f now i))) w = (r, w')"
  obtains now i q w1 where "m now i (drawn w) = (q, w1)" and "f now i q w1 = (r, w')"
  using assms by (auto simp: andThen_def attempt_def Now_def uuid_New_def calling_def drawn_def split: prod.splits)

lemma create_new_refusal:
  assumes s: "sound bd bq w" and perm: "permutes_maps E" and ok: "input_ok inp" and tame: "tame w"
    and run: "create_new (pg_service cache idem cfg E) inp hash w = (Inr req, w')"
    and st: "cr_Status req = StatusRejected" and new: "find_request (cr_ID req) (store w) = None"
  shows "\<exists>plans product rej. planned E (store w) inp product plans \<and>
     turned_down (ci_CustomerID inp) plans (store w) rej \<and> cr_RejectReason req = Some (rej_reason rej)"
proof -
  let ?S = "pg_service cache idem cfg E" and ?t = "store w" and ?k = "(w_clock w, w_tick w)"
  have l: "ledger bd bq ?t" and cat: "catalog_ok ?t" using s by (simp_all add: sound_def)
  have pools: "pools_ok ?t" using l by (simp add: ledger_def book_def)
  have E: "\<And>xs. mset (en_range (sv_env ?S) xs) = mset xs" using perm by (simp add: permutes_maps_def)
  from run [unfolded create_new_def] obtain u w1 where w1: "enforceActiveHoldsLimit ?S (ci_CustomerID inp) w = (Inr u, w1)"
    and run1: "andThen (buildReservationPlan ?S inp) (\<lambda>(plans, product).
     andThen Now (\<lambda>now.
     andThen uuid_New (\<lambda>reqID.
     andThen (attempt (reserveWithinTx ?S plans product inp reqID now (now + cfg_ReserveTTL (sv_cfg ?S)) hash))
       (\<lambda>q. case q of
          Inl e \<Rightarrow> if is_duplicate e then replayAfterDuplicate ?S inp hash else fail e
        | Inr (Inl rej) \<Rightarrow>
            andThen (persistRejected ?S inp reqID now plans product rej hash) (\<lambda>req.
            andThen (recordOutcome ?S inp req ''rejected'') (\<lambda>_. ret req))
        | Inr (Inr reserved) \<Rightarrow>
            andThen (recordOutcome ?S inp reserved ''reserved'') (\<lambda>_. ret reserved))))) w1 = (Inr req, w')"
    unfolding andThen_Inr_iff by blast
  from hoare_Inr [OF pg.enforce_rule w1 sound_sees [OF s]] have s1: "sees pg_view pg_inv ((=) ?t) ?k w1" by simp
  from hoare_Inr [OF tame_planning(1) w1 tame] have t1: "tame w1" .
  from run1 obtain plans product w2 where w2: "buildReservationPlan ?S inp w1 = (Inr (plans, product), w2)"
    and run2: "andThen Now (\<lambda>now.
     andThen uuid_New (\<lambda>reqID.
     andThen (attempt (reserveWithinTx ?S plans product inp reqID now (now + cfg_ReserveTTL cfg) hash))
       (\<lambda>q. case q of
          Inl e \<Rightarrow> if is_duplicate e then replayAfterDuplicate ?S inp hash else fail e
        | Inr (Inl rej) \<Rightarrow>
            andThen (persistRejected ?S inp reqID now plans product rej hash) (\<lambda>req.
            andThen (recordOutcome ?S inp req ''rejected'') (\<lambda>_. ret req))
        | Inr (Inr reserved) \<Rightarrow>
            andThen (recordOutcome ?S inp reserved ''reserved'') (\<lambda>_. ret reserved)))) w2 = (Inr req, w')"
    by (rule andThen_split) (auto split: prod.splits)
  from hoare_Inr [OF pg.buildReservationPlan_rule [OF E cat ok pools] w2 s1]
  have p: "planned E ?t inp product plans" and s2: "sees pg_view pg_inv ((=) ?t) ?k w2" by simp_all
  then have plan: "plan_ok ?t plans" by (simp add: planned_def)
  from hoare_Inr [OF tame_planning(2) w2 t1] have t2: "tame w2" .
  let ?k' = "(w_clock w, Suc (w_tick w))"
  from drawn_run [OF run2] obtain now i q w5 where
    w5: "reserveWithinTx ?S plans product inp i now (now + cfg_ReserveTTL cfg) hash (drawn w2) = (q, w5)" and
    run5: "(case q of
          Inl e \<Rightarrow> if is_duplicate e then replayAfterDuplicate ?S inp hash else fail e
        | Inr (Inl rej) \<Rightarrow>
            andThen (persistRejected ?S inp i now plans product rej hash) (\<lambda>req.
            andThen (recordOutcome ?S inp req ''rejected'') (\<lambda>_. ret req))
        | Inr (Inr reserved) \<Rightarrow>
            andThen (recordOutcome ?S inp reserved ''reserved'') (\<lambda>_. ret reserved)) w5 = (Inr req, w')" .
  have s4: "sees pg_view pg_inv ((=) ?t) ?k' (drawn w2)" and t4: "tame (drawn w2)"
    using s2 t2 by (simp_all add: sees_def drawn_def)
  note tx = hoareD [OF pg.reserveWithinTx_rule [OF l, of cache idem cfg E, unfolded pg_service_sel, OF p] w5 s4]
  show ?thesis
  proof (cases q)
    case (Inl e)
    with tx have s5: "sees pg_view pg_inv ((=) ?t) ?k' w5" by simp
    from run5 Inl have "replayAfterDuplicate ?S inp hash w5 = (Inr req, w')" by (auto split: if_splits)
    from hoare_Inr [OF pg.replayAfterDuplicate_rule this s5] have "replays ?t hash req" by (simp add: replays_own_def)
    from replayed_is_stored [OF this] new show ?thesis by simp
  next
    case (Inr b)
    show ?thesis
    proof (cases b)
      case (Inl rej)
      with Inr tx have s5: "sees pg_view pg_inv ((=) ?t) ?k' w5" by simp
      from run5 Inr Inl obtain w6 where "persistRejected ?S inp i now plans product rej hash w5 = (Inr req, w6)"
        by (auto simp: andThen_Inr_iff)
      from persistRejected_reason [OF p s5 this new] have "cr_RejectReason req = Some (rej_reason rej)" .
      moreover from reserveWithinTx_refusal [OF l plan s4 t4 w5 [unfolded Inr Inl]]
      have "turned_down (ci_CustomerID inp) plans ?t rej" .
      ultimately show ?thesis using p by blast
    next
      case (Inr x)
      with \<open>q = Inr b\<close> tx have "\<exists>t'. reserved_effect E cfg inp hash now ?t x t'" by (auto simp: sees_def)
      moreover have "req = x" using run5 \<open>q = Inr b\<close> Inr by (auto simp: andThen_Inr_iff)
      ultimately show ?thesis using st by (auto simp: reserved_effect_def reserved_request_def)
    qed
  qed
qed

lemma create_request_inv:
  assumes "CreateRequest S inp w = (Inr req, w')"
  obtains cor w1 replayed w2 where "input_ok inp" and "w1 = w \<or> w1 = w\<lparr>w_drawn := Suc (w_drawn w)\<rparr>"
    and "checkIdempotentReplay S (inp\<lparr>ci_CorrelationID := cor\<rparr>) (computeBodyHash (sv_env S) inp) w1 = (Inr replayed, w2)"
    and "(case replayed of Some existing \<Rightarrow> ret existing
       | None \<Rightarrow> create_new S (inp\<lparr>ci_CorrelationID := cor\<rparr>) (computeBodyHash (sv_env S) inp)) w2 = (Inr req, w')"
proof -
  have ok: "input_ok inp" using assms by (auto simp: CreateRequest_def validate_None [symmetric] split: if_splits option.splits)
  then have valid: "validateCreateInput inp = None" by (simp add: validate_None)
  obtain f where f_def: "f = (\<lambda>inp. let bodyHash = computeBodyHash (sv_env S) inp in
          andThen (checkIdempotentReplay S inp bodyHash) (\<lambda>replayed.
          case replayed of Some existing \<Rightarrow> ret existing | None \<Rightarrow> create_new S inp bodyHash))" by simp
  have run: "andThen (if ci_CorrelationID inp = '''' then
                     andThen uuid_New (\<lambda>i. ret (inp\<lparr>ci_CorrelationID := en_uuid_String (sv_env S) i\<rparr>))
                   else ret inp) f w = (Inr req, w')"
    using assms valid by (simp add: CreateRequest_def f_def split: if_splits)
  have "\<exists>cor w1. (w1 = w \<or> w1 = w\<lparr>w_drawn := Suc (w_drawn w)\<rparr>) \<and> f (inp\<lparr>ci_CorrelationID := cor\<rparr>) w1 = (Inr req, w')"
  proof (cases "ci_CorrelationID inp = ''''")
    case True
    with run show ?thesis by (auto simp: andThen_Inr_iff uuid_New_def calling_iff)
  next
    case False
    with run have "f (inp\<lparr>ci_CorrelationID := ci_CorrelationID inp\<rparr>) w = (Inr req, w')" by simp
    then show ?thesis by blast
  qed
  then obtain cor w1 where w1: "w1 = w \<or> w1 = w\<lparr>w_drawn := Suc (w_drawn w)\<rparr>"
    and f: "f (inp\<lparr>ci_CorrelationID := cor\<rparr>) w1 = (Inr req, w')" by blast
  from f obtain replayed w2 where
    "checkIdempotentReplay S (inp\<lparr>ci_CorrelationID := cor\<rparr>) (computeBodyHash (sv_env S) inp) w1 = (Inr replayed, w2)"
    "(case replayed of Some existing \<Rightarrow> ret existing
       | None \<Rightarrow> create_new S (inp\<lparr>ci_CorrelationID := cor\<rparr>) (computeBodyHash (sv_env S) inp)) w2 = (Inr req, w')"
    by (auto simp: f_def Let_def andThen_Inr_iff)
  then show thesis using that ok w1 by blast
qed

text \<open>
  C7: Every rejection is justified. When \<^verbatim>\<open>CreateRequest\<close> answers with a new REJECTED request, the
  reason in it is true of the store it found: for INSUFFICIENT_CAPACITY one of the amounts asked for does not
  fit into the pool of its kind, for QUOTA_EXCEEDED one does not fit into what the customer's quota leaves
  (the default limit for a kind the customer has not used yet); and there is no other reason. The hypothesis
  on faults says that no error of the database passes for a rejection of the service.
\<close>

theorem rejections_are_justified:
  assumes s: "sound bd bq w" and perm: "permutes_maps E" and tame: "foreign (w_repo w)"
    and run: "CreateRequest (pg_service cache idem cfg E) inp w = (Inr req, w')"
    and st: "cr_Status req = StatusRejected" and new: "find_request (cr_ID req) (store w) = None"
  shows "\<exists>kind n reason. cr_RejectReason req = Some reason \<and> lacks (store w) (ci_CustomerID inp) (kind, n) reason \<and>
    (kind, n) \<in> set (wanted inp (if ci_ProductCode inp = '''' then None
                               else find (\<lambda>p. pd_Code p = ci_ProductCode inp) (t_products (store w))))"
proof -
  let ?S = "pg_service cache idem cfg E" and ?hash = "computeBodyHash E inp"
  from create_request_inv [OF run] obtain cor w1 replayed w2 where ok: "input_ok inp"
    and w1: "w1 = w \<or> w1 = w\<lparr>w_drawn := Suc (w_drawn w)\<rparr>"
    and check: "checkIdempotentReplay ?S (inp\<lparr>ci_CorrelationID := cor\<rparr>) ?hash w1 = (Inr replayed, w2)"
    and rest: "(case replayed of Some existing \<Rightarrow> ret existing
       | None \<Rightarrow> create_new ?S (inp\<lparr>ci_CorrelationID := cor\<rparr>) ?hash) w2 = (Inr req, w')"
    by (metis pg_service_sel(10))
  have s1: "sees pg_view pg_inv ((=) (store w)) (w_clock w, w_tick w) w1" "tame w1"
    using sound_sees [OF s] w1 tame by (auto simp: sees_def)
  note c = hoare_Inr [OF pg.checkIdempotentReplay_rule check s1(1)]
  have "replayed = None"
  proof (cases replayed)
    case (Some x)
    with c rest have "replays (store w) ?hash req" by auto
    from replayed_is_stored [OF this] new show ?thesis by simp
  qed
  with rest have cn: "create_new ?S (inp\<lparr>ci_CorrelationID := cor\<rparr>) ?hash w2 = (Inr req, w')" by simp
  have st2: "store w2 = store w" and "pg_inv (w_repo w2)" using c by (auto simp: sees_store)
  then have s2: "sound bd bq w2" using s by (simp add: sound_def)
  have t2: "tame w2" using hoare_Inr [OF tame_planning(3) check s1(2)] .
  have ok': "input_ok (inp\<lparr>ci_CorrelationID := cor\<rparr>)" using ok by simp
  from create_new_refusal [OF s2 perm ok' t2 cn st] new st2 obtain plans product rej where
    p: "planned E (store w) (inp\<lparr>ci_CorrelationID := cor\<rparr>) product plans"
    and t: "turned_down (ci_CustomerID inp) plans (store w) rej" and r: "cr_RejectReason req = Some (rej_reason rej)"
    by auto
  from t obtain dn q rest where q: "plans = dn @ q # rest" "refuses (ci_CustomerID inp) q (reserve_all (ci_CustomerID inp) dn (store w)) rej"
    unfolding turned_down_def by blast
  have "pools_ok (store w)" "quotas_ok (store w)" using s by (simp_all add: sound_def ledger_def book_def)
  moreover have "plan_ok (store w) plans" using p by (simp add: planned_def)
  ultimately have "lacks (store w) (ci_CustomerID inp) (pl_kind q, pl_amount q) (rej_reason rej)"
    using refused_lacks q by blast
  moreover have "(pl_kind q, pl_amount q) \<in> set (wanted inp product)"
  proof -
    have "mset (map (\<lambda>p. (pl_kind p, pl_amount p)) plans) = mset (wanted inp product)" using p by (simp add: planned_def)
    from mset_eq_setD [OF this] q(1) show ?thesis by auto
  qed
  moreover have "product = (if ci_ProductCode inp = '''' then None
      else find (\<lambda>p. pd_Code p = ci_ProductCode inp) (t_products (store w)))" using p by (simp add: planned_def)
  ultimately show ?thesis using r by blast
qed

theorem rejections_are_justified_witness:
  "\<exists>req w'. CreateRequest sample_service (order ''k9'' ''cpu'' 11) idle = (Inr req, w') \<and>
     cr_RejectReason req = Some ReasonInsufficientCapacity \<and>
     lacks idle_tables ''acme'' (''cpu'', 11) ReasonInsufficientCapacity"
proof -
  let ?run = "CreateRequest sample_service (order ''k9'' ''cpu'' 11) idle"
  have "case fst ?run of Inl e \<Rightarrow> False
    | Inr req \<Rightarrow> cr_Status req = StatusRejected \<and> cr_ID req = UUID 100 \<and> cr_RejectReason req = Some ReasonInsufficientCapacity"
    by code_simp
  then obtain req where r: "fst ?run = Inr req" "cr_Status req = StatusRejected" "cr_ID req = UUID 100"
    "cr_RejectReason req = Some ReasonInsufficientCapacity" by (auto split: sum.splits)
  have run: "?run = (Inr req, snd ?run)" using run_result [OF r(1)] .
  have new: "find_request (cr_ID req) (store idle) = None" by (simp add: idle_tables_def find_request_def)
  have tame: "foreign (w_repo idle)" by (simp add: foreign_def idle_def world_of_def)
  from rejections_are_justified [OF sound_idle sample_range tame run [unfolded sample_service_def] r(2) new] r(4)
  have "lacks idle_tables ''acme'' (''cpu'', 11) ReasonInsufficientCapacity"
    by (auto simp: order_def wanted_def)
  with run r(4) show ?thesis by blast
qed

subsection \<open>Input that is refused outright\<close>

text \<open>What the checks at the head of \<^verbatim>\<open>CreateRequest\<close> object to, in their order.\<close>

definition objection :: "create_input \<Rightarrow> reason option" where
  "objection inp =
     (if ci_IdempotencyKey inp = '''' then Some ReasonMissingIdempotency
      else if ci_CustomerID inp = '''' then Some ReasonConflict
      else if input_ok inp then None else Some ReasonInvalidInput)"

text \<open>
  C23: Bad input costs nothing. Without an idempotency key, without a customer, or with lines or a quantity
  out of bounds, \<^verbatim>\<open>CreateRequest\<close> answers with the matching reason and has touched nothing at all: no
  statement was sent to the database or to Redis, no id was drawn and nothing was counted. This holds of the
  service over any stores.
\<close>

theorem bad_input_costs_nothing:
  assumes "objection inp = Some reason"
  shows "\<exists>message details. CreateRequest S inp w = (Inl (NewAppError reason message details), w)"
proof -
  consider (key) "ci_IdempotencyKey inp = ''''" "reason = ReasonMissingIdempotency"
    | (customer) "ci_IdempotencyKey inp \<noteq> ''''" "ci_CustomerID inp = ''''" "reason = ReasonConflict"
    | (input) "ci_IdempotencyKey inp \<noteq> ''''" "ci_CustomerID inp \<noteq> ''''" "\<not> input_ok inp" "reason = ReasonInvalidInput"
    using assms by (auto simp: objection_def split: if_splits)
  then show ?thesis
  proof cases
    case input
    then obtain e where e: "validateCreateInput inp = Some e" using validate_None by fastforce
    from validate_Some [OF e] input e show ?thesis by (auto simp: CreateRequest_def)
  qed (auto simp: CreateRequest_def)
qed

theorem bad_input_costs_nothing_witness:
  "\<exists>message details. CreateRequest sample_service (order ''k2'' ''cpu'' 0) busy =
     (Inl (NewAppError ReasonInvalidInput message details), busy)"
  by (rule bad_input_costs_nothing) (simp add: objection_def order_def input_ok_def maxLinesPerRequest_def)

end
