(* ===== verification/Body_Decoding.thy ===== *)
theory Body_Decoding
  imports Sample_Http
begin

text \<open>
  The body of \<^verbatim>\<open>POST /v1/requests\<close>: what a client has to send for the handler to read a given
  body. The order of the fields and the case of their names do not matter, unknown fields are ignored, and a
  field that is left out is read as zero.
\<close>

text \<open>The value a field must have, by its name in lower case.\<close>

definition json_of_line_input :: "line_input \<Rightarrow> json" where
  "json_of_line_input l = JObj [(''resource_kind'', JStr (li_ResourceKind l)), (''amount'', JInt (li_Amount l))]"

definition carries :: "create_body \<Rightarrow> string \<Rightarrow> json \<Rightarrow> bool" where
  "carries b k v \<longleftrightarrow>
     (k = ''customer_id'' \<longrightarrow> v = JStr (cb_CustomerID b)) \<and> (k = ''product_id'' \<longrightarrow> v = JStr (cb_ProductID b)) \<and>
     (k = ''quantity'' \<longrightarrow> v = JInt (cb_Quantity b)) \<and> (k = ''lines'' \<longrightarrow> v = JArr (map json_of_line_input (cb_Lines b)))"

text \<open>What is left out is zero.\<close>

definition leaves_out :: "create_body \<Rightarrow> string set \<Rightarrow> bool" where
  "leaves_out b K \<longleftrightarrow>
     (''customer_id'' \<in> K \<or> cb_CustomerID b = '''') \<and> (''product_id'' \<in> K \<or> cb_ProductID b = '''') \<and>
     (''quantity'' \<in> K \<or> cb_Quantity b = 0) \<and> (''lines'' \<in> K \<or> cb_Lines b = [])"

definition body_fits :: "create_body \<Rightarrow> bool" where
  "body_fits b \<longleftrightarrow> in_i64 (cb_Quantity b) \<and> list_all (\<lambda>l. in_i64 (li_Amount l)) (cb_Lines b)"

definition overlay :: "create_body \<Rightarrow> string set \<Rightarrow> create_body \<Rightarrow> create_body" where
  "overlay b K a =
     \<lparr>cb_CustomerID = (if ''customer_id'' \<in> K then cb_CustomerID b else cb_CustomerID a),
      cb_ProductID = (if ''product_id'' \<in> K then cb_ProductID b else cb_ProductID a),
      cb_Quantity = (if ''quantity'' \<in> K then cb_Quantity b else cb_Quantity a),
      cb_Lines = (if ''lines'' \<in> K then cb_Lines b else cb_Lines a)\<rparr>"

lemma line_roundtrip:
  "in_i64 (li_Amount l) \<Longrightarrow> dec_struct line_field (json_of_line_input l) old = Some l"
  by (simp add: json_of_line_input_def line_field_def)

lemma lines_roundtrip:
  "list_all (\<lambda>l. in_i64 (li_Amount l)) ls \<Longrightarrow>
   collect_some (\<lambda>j. dec_struct line_field j old) (map json_of_line_input ls) = Some ls"
  by (rule collect_some_map) (auto simp: list_all_iff line_roundtrip)

lemma field_overlay:
  assumes "body_fits b" and "carries b k v"
  shows "body_field k v a = Some (overlay b {k} a)"
  using assms
  by (auto simp: body_field_def carries_def body_fits_def overlay_def lines_roundtrip)

lemma fields_overlay:
  assumes "body_fits b" and "\<And>k v. (k, v) \<in> set kvs \<Longrightarrow> carries b (fold_name k) v"
  shows "set_fields body_field kvs a = Some (overlay b (fold_name ` fst ` set kvs) a)"
  using assms(2)
proof (induction kvs arbitrary: a)
  case Nil
  show ?case by (simp add: overlay_def)
next
  case (Cons kv kvs)
  obtain k v where kv: "kv = (k, v)" by fastforce
  have "carries b (fold_name k) v" using Cons.prems kv by simp
  from field_overlay [OF assms(1) this, of a] Cons.IH Cons.prems kv
  show ?case by (simp add: overlay_def)
qed

lemma decode_print: "json_ok j \<Longrightarrow> decode_json (print_json j) = Some j"
  using unmarshal_print [of j] by (auto simp: unmarshal_json_def decode_json_def split: option.splits prod.splits if_splits)

text \<open>
  C29: A body is read as it was meant. The handler of \<^verbatim>\<open>POST /v1/requests\<close> reads a JSON object whose
  fields carry the values of a body as exactly this body: in whatever order the fields stand, whatever the case
  of their names (the long s and the Kelvin sign count as s and k), with any other fields among them, and with
  fields left out whose value is zero.
\<close>

theorem body_read_as_meant:
  assumes "body_fits b" and "json_ok (JObj kvs)" and "\<And>k v. (k, v) \<in> set kvs \<Longrightarrow> carries b (fold_name k) v"
    and "leaves_out b (fold_name ` fst ` set kvs)"
  shows "decodeBody (print_json (JObj kvs)) = Some b"
proof -
  let ?zero = "\<lparr>cb_CustomerID = '''', cb_ProductID = '''', cb_Quantity = 0, cb_Lines = []\<rparr>"
  have "overlay b (fold_name ` fst ` set kvs) ?zero = b"
    using assms(4) by (auto simp: leaves_out_def overlay_def)
  with fields_overlay [OF assms(1,3), of kvs ?zero] decode_print [OF assms(2)] show ?thesis
    by (simp add: decodeBody_def del: print_json.simps)
qed

lemma long_s_is_s: "fold_name (''Line'' @ [CHR 0xC5, CHR 0xBF]) = ''lines''"
  by code_simp

theorem body_read_as_meant_witness:
  "decodeBody (print_json (JObj [(''LINES'', JArr [JObj [(''resource_kind'', JStr ''cpu''), (''amount'', JInt 4)]]),
       (''note'', JBool True), (''Customer_ID'', JStr ''acme'')])) =
     Some \<lparr>cb_CustomerID = ''acme'', cb_ProductID = '''', cb_Quantity = 0,
       cb_Lines = [\<lparr>li_ResourceKind = ''cpu'', li_Amount = 4\<rparr>]\<rparr>"
proof -
  have names: "fold_name ''LINES'' = ''lines''" "fold_name ''note'' = ''note''" "fold_name ''Customer_ID'' = ''customer_id''"
    by code_simp+
  show ?thesis
    by (rule body_read_as_meant)
      (auto simp: names body_fits_def in_i64_def carries_def leaves_out_def json_of_line_input_def)
qed

end
