(* ===== verification/Create_Progress.thy ===== *)
theory Create_Progress
  imports Rejections Fault_Free
begin

text \<open>
  A creation comes to a decision. While the database has no fault scheduled and the UUIDs still to be drawn are
  new, no statement of \<^verbatim>\<open>CreateRequest\<close> can fail: the constraints of the schema it could run into are
  exactly what the checks of the code and the invariant of the tables exclude. \<open>able\<close> is what every
  statement keeps, \<open>facing\<close> adds the store that is seen.
\<close>

subsection \<open>Statements that answer\<close>

definition faultless :: "pg_state \<Rightarrow> bool" where
  "faultless s \<longleftrightarrow> set (pg_faults s) \<subseteq> {None}"

definition row_ids :: "tables \<Rightarrow> uuid set" where
  "row_ids t = cr_ID ` set (t_requests t) \<union> ln_ID ` set (t_lines t) \<union> hd_ID ` set (t_holds t) \<union> ev_ID ` set (t_events t)"

definition answers :: "(pg_state \<Rightarrow> bool) \<Rightarrow> (pg_state, 'a) gor \<Rightarrow> bool" where
  "answers A m \<longleftrightarrow> (\<forall>s. faultless s \<longrightarrow> A s \<longrightarrow>
     (\<exists>a s'. m s = (Inr a, s') \<and> faultless s' \<and> row_ids (pg_tables s') = row_ids (pg_tables s)))"

lemma faultless_tail: "faultless s \<Longrightarrow> faultless (s\<lparr>pg_faults := tl (pg_faults s)\<rparr>)"
  by (cases "pg_faults s") (simp_all add: faultless_def)

lemma faultless_run:
  assumes "faultless s" and "f (s\<lparr>pg_faults := tl (pg_faults s)\<rparr>) = Inr (a, s')"
  shows "mapErr g (sql f) s = (Inr a, s')"
proof (cases "pg_faults s")
  case (Cons x xs)
  with assms have "x = None" by (simp add: faultless_def)
  with Cons assms(2) show ?thesis by (simp add: mapErr_Inr_iff sql_def Let_def)
qed (use assms(2) in \<open>simp add: mapErr_Inr_iff sql_def Let_def\<close>)

text \<open>A statement that writes, when no constraint is violated.\<close>

lemma exec_run:
  assumes "faultless s" and "f (pg_now s) (pg_tables s) = Inr (a, t')"
  shows "\<exists>s'. mapErr g (sql_exec f) s = (Inr a, s') \<and> faultless s' \<and> pg_tables s' = t' \<and> pg_now s' = pg_now s"
proof -
  let ?s = "s\<lparr>pg_faults := tl (pg_faults s), pg_tables := t'\<rparr>"
  have "mapErr g (sql_exec f) s = (Inr a, ?s)"
    unfolding sql_exec_def by (rule faultless_run [OF assms(1)]) (simp add: assms(2))
  moreover have "faultless ?s" using faultless_tail [OF assms(1)] by (simp add: faultless_def)
  ultimately show ?thesis by fastforce
qed

lemma answers_select: "answers A (mapErr g (sql_select f))"
proof -
  have "mapErr g (sql_select f) s = (Inr (f (pg_tables s)), s\<lparr>pg_faults := tl (pg_faults s)\<rparr>)" if "faultless s" for s
    unfolding sql_select_def by (rule faultless_run [OF that]) simp
  then show ?thesis unfolding answers_def using faultless_tail by fastforce
qed

lemma answers_reads:
  "answers A (RequestRepo_FindByIdempotency c k)" "answers A (RequestRepo_CountActiveHoldsByCustomer c)"
  "answers A (ProductRepo_GetByCode code)" "answers A (PoolRepo_GetByKind kind)"
  unfolding RequestRepo_FindByIdempotency_def RequestRepo_CountActiveHoldsByCustomer_def ProductRepo_GetByCode_def
    PoolRepo_GetByKind_def
  by (rule answers_select)+

lemma answers_andThen_ret: "answers A m \<Longrightarrow> answers A (andThen m (\<lambda>a. ret (f a)))"
  unfolding answers_def by (metis andThen_run(1) ret_iff)

text \<open>The reserving UPDATE cannot leave the range of its column: the guard has seen the new value.\<close>

lemma answers_TryReserve:
  assumes n: "0 < n" "n \<le> maxAmount"
  shows "answers (\<lambda>s. pools_ok (pg_view s)) (PoolRepo_TryReserve i n)"
  unfolding PoolRepo_TryReserve_def
proof (rule answers_andThen_ret, unfold answers_def, intro allI impI)
  fix s assume s: "faultless s" and ok: "pools_ok (pg_view s)"
  let ?w = "reserve_guard i n" and ?ps = "t_pools (pg_tables s)"
  let ?f = "\<lambda>p. p\<lparr>rp_ReservedAmount := rp_ReservedAmount p + n, rp_UpdatedAt := pg_now s\<rparr>"
  have "check_pool (?f p) = None" if "p \<in> set ?ps" "?w p" for p
  proof -
    have p: "pool_ok p" using ok that(1) by (auto simp: pg_view_def pools_unstamp_ok list_all_iff)
    from reserve_guard_iff [OF p n] that(2) p show ?thesis using n
      by (auto simp: check_pool_None pool_ok_def in_i64_def maxAmount_def)
  qed
  then have "find (\<lambda>x. ?w x \<and> check_pool (?f x) \<noteq> None) ?ps = None" by (auto simp: find_None_iff)
  then have "update_rows ?w ?f check_pool ?ps = Inr (length (filter ?w ?ps), mapWhere ?w ?f ?ps)"
    by (simp add: update_rows_def)
  then have run: "(case update_rows ?w ?f check_pool ?ps of Inl e \<Rightarrow> Inl e
      | Inr (n, ps) \<Rightarrow> Inr (n, (pg_tables s)\<lparr>t_pools := ps\<rparr>)) =
      Inr (length (filter ?w ?ps), (pg_tables s)\<lparr>t_pools := mapWhere ?w ?f ?ps\<rparr>)" by simp
  show "\<exists>a s'. mapErr (Errorf ''try reserve pool'') (update_pools ?w (\<lambda>now p. p\<lparr>rp_ReservedAmount := rp_ReservedAmount p + n, rp_UpdatedAt := now\<rparr>)) s = (Inr a, s') \<and>
      faultless s' \<and> row_ids (pg_tables s') = row_ids (pg_tables s)"
    unfolding update_pools_def
    using exec_run [OF s, where f = "\<lambda>now t. case update_rows ?w (\<lambda>p. p\<lparr>rp_ReservedAmount := rp_ReservedAmount p + n, rp_UpdatedAt := now\<rparr>) check_pool (t_pools t) of
        Inl e \<Rightarrow> Inl e | Inr (n, ps) \<Rightarrow> Inr (n, t\<lparr>t_pools := ps\<rparr>)", OF run, of "Errorf ''try reserve pool''"]
    by (auto simp: row_ids_def)
qed

lemma answers_insert_quota:
  assumes s: "faultless s" and inv: "pg_inv s" and ok: "quotas_ok (pg_view s)" and lim: "0 \<le> limit" "limit \<le> maxAmount"
  shows "\<exists>s'. mapErr g (insert_quota c k limit) s = (Inr (), s') \<and> faultless s' \<and>
     row_ids (pg_tables s') = row_ids (pg_tables s) \<and> quotas_ok (pg_view s')"
proof -
  let ?q = "\<lparr>cq_ID = pg_gen s (pg_drawn s), cq_CustomerID = c, cq_ResourceKind = k, cq_Limit = limit,
      cq_UsedAmount = 0, cq_CreatedAt = pg_now s, cq_UpdatedAt = pg_now s\<rparr>"
  let ?s = "s\<lparr>pg_faults := tl (pg_faults s), pg_drawn := Suc (pg_drawn s)\<rparr>"
  let ?s1 = "if list_ex (\<lambda>q. quota_key q = (c, k)) (t_quotas (pg_tables s)) then ?s
     else ?s\<lparr>pg_tables := (pg_tables s)\<lparr>t_quotas := t_quotas (pg_tables s) @ [?q]\<rparr>\<rparr>"
  have "check_quota ?q = None" using lim by (simp add: check_quota_None in_i64_def maxAmount_def)
  then have run: "mapErr g (insert_quota c k limit) s = (Inr (), ?s1)"
    unfolding insert_quota_def by (intro faultless_run [OF s]) (simp add: Let_def)
  moreover have "faultless ?s1" using faultless_tail [OF s] by (simp add: faultless_def)
  moreover have "quotas_ok (pg_view ?s1)"
    using pg_insert_quota [OF inv run lim] quotas_ok_ensure [OF ok lim] by simp
  moreover have "row_ids (pg_tables ?s1) = row_ids (pg_tables s)" by (simp add: row_ids_def)
  ultimately show ?thesis by blast
qed

lemma answers_consume:
  assumes "0 < n"
  shows "answers (\<lambda>s. quotas_ok (pg_view s)) (QuotaRepo_TryConsume c k n)"
  unfolding QuotaRepo_TryConsume_def
proof (rule answers_andThen_ret, unfold answers_def, intro allI impI)
  fix s assume s: "faultless s" and ok: "quotas_ok (pg_view s)"
  let ?w = "\<lambda>q. quota_key q = (c, k) \<and> n \<le> cq_Limit q - cq_UsedAmount q" and ?qs = "t_quotas (pg_tables s)"
  let ?f = "\<lambda>now q. q\<lparr>cq_UsedAmount := cq_UsedAmount q + n, cq_UpdatedAt := now\<rparr>"
  have "check_quota (?f now q) = None" if "q \<in> set ?qs" "?w q" for now q
  proof -
    have "quota_ok q" using ok that(1) by (auto simp: quotas_ok_def pg_view_def list_all_iff quota_ok_def unstamp_quota_def)
    then show ?thesis using that(2) assms by (auto simp: check_quota_None quota_ok_def in_i64_def)
  qed
  then have "find (\<lambda>x. ?w x \<and> check_quota (?f (pg_now s) x) \<noteq> None) ?qs = None" by (auto simp: find_None_iff)
  then have run: "(case update_rows ?w (?f (pg_now s)) check_quota ?qs of Inl e \<Rightarrow> Inl e
      | Inr (n, qs) \<Rightarrow> Inr (n, (pg_tables s)\<lparr>t_quotas := qs\<rparr>)) =
      Inr (length (filter ?w ?qs), (pg_tables s)\<lparr>t_quotas := mapWhere ?w (?f (pg_now s)) ?qs\<rparr>)"
    by (simp add: update_rows_def)
  show "\<exists>a s'. mapErr (Errorf ''try consume quota'') (update_quotas ?w ?f) s = (Inr a, s') \<and>
      faultless s' \<and> row_ids (pg_tables s') = row_ids (pg_tables s)"
    unfolding update_quotas_def
    using exec_run [OF s, where f = "\<lambda>now t. case update_rows ?w (?f now) check_quota (t_quotas t) of
        Inl e \<Rightarrow> Inl e | Inr (n, qs) \<Rightarrow> Inr (n, t\<lparr>t_quotas := qs\<rparr>)", OF run, of "Errorf ''try consume quota''"]
    by (auto simp: row_ids_def)
qed

lemma answers_EnsureAndTryConsume:
  assumes "0 < n" and "0 \<le> limit" and "limit \<le> maxAmount"
  shows "answers (\<lambda>s. pg_inv s \<and> quotas_ok (pg_view s)) (QuotaRepo_EnsureAndTryConsume c k n limit)"
  unfolding answers_def QuotaRepo_EnsureAndTryConsume_def
proof (intro allI impI)
  fix s assume s: "faultless s" and ok: "pg_inv s \<and> quotas_ok (pg_view s)"
  from answers_insert_quota [OF s _ _ assms(2,3), of "Errorf ''ensure quota''" c k] ok obtain s1 where
    s1: "mapErr (Errorf ''ensure quota'') (insert_quota c k limit) s = (Inr (), s1)" "faultless s1"
      "row_ids (pg_tables s1) = row_ids (pg_tables s)" "quotas_ok (pg_view s1)" by blast
  with answers_consume [OF assms(1), of c k] show "\<exists>a s'. andThen (mapErr (Errorf ''ensure quota'') (insert_quota c k limit))
      (\<lambda>_. QuotaRepo_TryConsume c k n) s = (Inr a, s') \<and> faultless s' \<and> row_ids (pg_tables s') = row_ids (pg_tables s)"
    unfolding answers_def by (simp add: s1(1)) (metis s1(3))
qed

subsection \<open>Inserting the rows of a request\<close>

lemma forEach_exec:
  assumes s: "faultless s" "pg_tables s = F []"
    and step: "\<And>dn x rest. xs = dn @ x # rest \<Longrightarrow> f x (F dn) = Inr ((), F (dn @ [x]))"
  shows "\<exists>s'. forEach (\<lambda>x. mapErr g (sql_exec (\<lambda>_. f x))) xs s = (Inr (), s') \<and> faultless s' \<and> pg_tables s' = F xs"
proof -
  have "\<exists>s'. forEach (\<lambda>x. mapErr g (sql_exec (\<lambda>_. f x))) ys s = (Inr (), s') \<and> faultless s' \<and> pg_tables s' = F xs"
    if "xs = dn @ ys" "faultless s" "pg_tables s = F dn" for dn ys s
    using that
  proof (induction ys arbitrary: dn s)
    case Nil
    then show ?case by simp
  next
    case (Cons y ys)
    have "f y (pg_tables s) = Inr ((), F (dn @ [y]))" using step [OF Cons.prems(1)] Cons.prems(3) by simp
    from exec_run [OF Cons.prems(2), where f = "\<lambda>_. f y", OF this, of g] obtain s1 where
      s1: "mapErr g (sql_exec (\<lambda>_. f y)) s = (Inr (), s1)" "faultless s1" "pg_tables s1 = F (dn @ [y])" by blast
    from Cons.IH [OF _ s1(2,3)] Cons.prems(1) s1(1) show ?case by simp
  qed
  from this [of "[]" xs s] s show ?thesis by simp
qed

definition amount_ok :: "int \<Rightarrow> bool" where
  "amount_ok n \<longleftrightarrow> 0 < n \<and> n \<le> maxAmount"

lemma insertLines_run:
  assumes s: "faultless s"
    and ls: "\<And>l. l \<in> set ls \<Longrightarrow> amount_ok (ln_Amount l) \<and> refers (ln_RequestID l) (ln_PoolID l) (pg_tables s)"
    and ids: "distinct (map ln_ID ls)" "ln_ID ` set ls \<inter> ln_ID ` set (t_lines (pg_tables s)) = {}"
  shows "\<exists>s'. insertLines ls s = (Inr (), s') \<and> faultless s' \<and> pg_tables s' = (pg_tables s)\<lparr>t_lines := t_lines (pg_tables s) @ ls\<rparr>"
  unfolding insertLines_def
proof (rule forEach_exec [OF s, where F = "\<lambda>dn. (pg_tables s)\<lparr>t_lines := t_lines (pg_tables s) @ dn\<rparr>"])
  fix dn x rest assume split: "ls = dn @ x # rest"
  have "amount_ok (ln_Amount x)" "refers (ln_RequestID x) (ln_PoolID x) (pg_tables s)" using ls split by simp_all
  moreover have "\<not> list_ex (\<lambda>y. ln_ID y = ln_ID x) (t_lines (pg_tables s) @ dn)"
    using ids split by (fastforce simp: list_ex_iff image_iff)
  ultimately show "insert_line x ((pg_tables s)\<lparr>t_lines := t_lines (pg_tables s) @ dn\<rparr>) =
      Inr ((), (pg_tables s)\<lparr>t_lines := t_lines (pg_tables s) @ dn @ [x]\<rparr>)"
    by (simp add: insert_line_def amount_ok_def small_in_i64 refers_def)
qed simp

lemma insertHolds_run:
  assumes s: "faultless s"
    and hs: "\<And>h. h \<in> set hs \<Longrightarrow> amount_ok (hd_Amount h) \<and> refers (hd_RequestID h) (hd_PoolID h) (pg_tables s)"
    and ids: "distinct (map hd_ID hs)" "hd_ID ` set hs \<inter> hd_ID ` set (t_holds (pg_tables s)) = {}"
  shows "\<exists>s'. forEach (\<lambda>h. mapErr (Errorf ''insert hold'') (sql_exec (\<lambda>_. insert_hold h))) hs s = (Inr (), s') \<and>
     faultless s' \<and> pg_tables s' = (pg_tables s)\<lparr>t_holds := t_holds (pg_tables s) @ hs\<rparr>"
proof (rule forEach_exec [OF s, where F = "\<lambda>dn. (pg_tables s)\<lparr>t_holds := t_holds (pg_tables s) @ dn\<rparr>"])
  fix dn x rest assume split: "hs = dn @ x # rest"
  have "amount_ok (hd_Amount x)" "refers (hd_RequestID x) (hd_PoolID x) (pg_tables s)" using hs split by simp_all
  moreover have "\<not> list_ex (\<lambda>y. hd_ID y = hd_ID x) (t_holds (pg_tables s) @ dn)"
    using ids split by (fastforce simp: list_ex_iff image_iff)
  ultimately show "insert_hold x ((pg_tables s)\<lparr>t_holds := t_holds (pg_tables s) @ dn\<rparr>) =
      Inr ((), (pg_tables s)\<lparr>t_holds := t_holds (pg_tables s) @ dn @ [x]\<rparr>)"
    by (simp add: insert_hold_def amount_ok_def small_in_i64 refers_def)
qed simp

lemma insertEvent_run:
  assumes "faultless s" and "ev_ID ev \<notin> ev_ID ` set (t_events (pg_tables s))"
    and "ev_RequestID ev \<in> cr_ID ` set (t_requests (pg_tables s))"
  shows "\<exists>s'. insertEvent ev s = (Inr (), s') \<and> faultless s'"
proof -
  have "insert_event_row ev (pg_tables s) = Inr ((), (pg_tables s)\<lparr>t_events := t_events (pg_tables s) @ [ev]\<rparr>)"
    using assms(2,3) by (auto simp: insert_event_row_def list_ex_iff image_iff)
  from exec_run [OF assms(1), where f = "\<lambda>_. insert_event_row ev", OF this, of "Errorf ''insert event''"]
  show ?thesis unfolding insertEvent_def by blast
qed

text \<open>A request the schema takes, and rows of it: new ids, amounts in range, pools and product known.\<close>

definition insertable :: "capacity_request \<Rightarrow> tables \<Rightarrow> bool" where
  "insertable req t \<longleftrightarrow> in_int4 (cr_Quantity req) \<and> 0 < cr_Quantity req \<and> cr_ExtensionCount req = 0 \<and>
     cr_ID req \<notin> row_ids t \<and> find_idem (cr_CustomerID req) (cr_IdempotencyKey req) t = None \<and>
     (\<forall>p. cr_ProductID req = Some p \<longrightarrow> p \<in> pd_ID ` set (t_products t))"

lemma insert_request_run:
  assumes s: "faultless s" and r: "insertable r (pg_tables s)"
  shows "\<exists>s'. mapErr g (sql_exec (\<lambda>_. insert_request r)) s = (Inr (), s') \<and> faultless s' \<and>
     pg_tables s' = (pg_tables s)\<lparr>t_requests := t_requests (pg_tables s) @ [r]\<rparr>"
proof -
  have "insert_request r (pg_tables s) = Inr ((), (pg_tables s)\<lparr>t_requests := t_requests (pg_tables s) @ [r]\<rparr>)"
    using r by (auto simp: insertable_def insert_request_def row_ids_def in_int4_def list_ex_iff image_iff split: option.splits)
  from exec_run [OF s, where f = "\<lambda>_. insert_request r", OF this, of g] show ?thesis by blast
qed

definition lines_fit :: "uuid \<Rightarrow> request_line list \<Rightarrow> tables \<Rightarrow> bool" where
  "lines_fit i ls t \<longleftrightarrow> distinct (map ln_ID ls) \<and> ln_ID ` set ls \<inter> row_ids t = {} \<and>
     (\<forall>l \<in> set ls. amount_ok (ln_Amount l) \<and> ln_RequestID l = i \<and> ln_PoolID l \<in> pool_ids t)"

definition holds_fit :: "uuid \<Rightarrow> hold list \<Rightarrow> tables \<Rightarrow> bool" where
  "holds_fit i hs t \<longleftrightarrow> distinct (map hd_ID hs) \<and> hd_ID ` set hs \<inter> row_ids t = {} \<and>
     (\<forall>h \<in> set hs. amount_ok (hd_Amount h) \<and> hd_RequestID h = i \<and> hd_PoolID h \<in> pool_ids t)"

definition event_fits :: "uuid \<Rightarrow> request_event \<Rightarrow> tables \<Rightarrow> bool" where
  "event_fits i ev t \<longleftrightarrow> ev_ID ev \<notin> row_ids t \<and> ev_RequestID ev = i"

lemma fit_apart:
  "lines_fit i ls t \<Longrightarrow> ln_ID ` set ls \<inter> ln_ID ` set (t_lines t) = {}"
  "holds_fit i hs t \<Longrightarrow> hd_ID ` set hs \<inter> hd_ID ` set (t_holds t) = {}"
  unfolding lines_fit_def holds_fit_def row_ids_def by blast+

lemma refers_new: "i \<in> pool_ids t \<Longrightarrow> refers (cr_ID r) i (t\<lparr>t_requests := rs @ [r]\<rparr>)"
  by (auto simp: refers_def pool_ids_def list_ex_iff)

lemma refers_lines [simp]: "refers i j (t\<lparr>t_lines := ls\<rparr>) = refers i j t"
  by (simp add: refers_def)

lemma CreateRejected_run:
  assumes s: "faultless s" and req: "insertable req (pg_tables s)" "cr_ExpiresAt req = None"
    and ls: "lines_fit (cr_ID req) ls (pg_tables s)" and ev: "event_fits (cr_ID req) ev (pg_tables s)"
  shows "\<exists>s'. RequestRepo_CreateRejected req ls ev s = (Inr (), s')"
proof -
  have "req\<lparr>cr_ExpiresAt := None\<rparr> = req" using req(2) by simp
  with insert_request_run [OF s req(1), of "duplicate_or ''insert rejected request''"] obtain s1 where
    1: "mapErr (duplicate_or ''insert rejected request'') (sql_exec (\<lambda>_. insert_request (req\<lparr>cr_ExpiresAt := None\<rparr>))) s = (Inr (), s1)"
    "faultless s1" "pg_tables s1 = (pg_tables s)\<lparr>t_requests := t_requests (pg_tables s) @ [req]\<rparr>" by auto
  obtain s2 where 2: "insertLines ls s1 = (Inr (), s2)" "faultless s2"
    "pg_tables s2 = (pg_tables s1)\<lparr>t_lines := t_lines (pg_tables s1) @ ls\<rparr>"
    using insertLines_run [OF 1(2), of ls] ls fit_apart(1) [OF ls] refers_new [of _ "pg_tables s" req] 1(3)
    by (auto simp: lines_fit_def)
  obtain s3 where "insertEvent ev s2 = (Inr (), s3)"
    using insertEvent_run [OF 2(2), of ev] ev 2(3) 1(3) by (auto simp: event_fits_def row_ids_def)
  with 1(1) 2(1) show ?thesis by (simp add: RequestRepo_CreateRejected_def)
qed

lemma CreateReserved_run:
  assumes s: "faultless s" and req: "insertable req (pg_tables s)" "cr_RejectReason req = None"
    and ls: "lines_fit (cr_ID req) ls (pg_tables s)" and hs: "holds_fit (cr_ID req) hs (pg_tables s)"
    and ev: "event_fits (cr_ID req) ev (pg_tables s)"
  shows "\<exists>s'. RequestRepo_CreateReserved req ls hs ev s = (Inr (), s') \<and> faultless s'"
proof -
  have "req\<lparr>cr_RejectReason := None\<rparr> = req" using req(2) by simp
  with insert_request_run [OF s req(1), of "duplicate_or ''insert reserved request''"] obtain s1 where
    1: "mapErr (duplicate_or ''insert reserved request'') (sql_exec (\<lambda>_. insert_request (req\<lparr>cr_RejectReason := None\<rparr>))) s = (Inr (), s1)"
    "faultless s1" "pg_tables s1 = (pg_tables s)\<lparr>t_requests := t_requests (pg_tables s) @ [req]\<rparr>" by auto
  obtain s2 where 2: "insertLines ls s1 = (Inr (), s2)" "faultless s2"
    "pg_tables s2 = (pg_tables s1)\<lparr>t_lines := t_lines (pg_tables s1) @ ls\<rparr>"
    using insertLines_run [OF 1(2), of ls] ls fit_apart(1) [OF ls] refers_new [of _ "pg_tables s" req] 1(3)
    by (auto simp: lines_fit_def)
  obtain s3 where 3: "forEach (\<lambda>h. mapErr (Errorf ''insert hold'') (sql_exec (\<lambda>_. insert_hold h))) hs s2 = (Inr (), s3)"
    "faultless s3" "pg_tables s3 = (pg_tables s2)\<lparr>t_holds := t_holds (pg_tables s2) @ hs\<rparr>"
    using insertHolds_run [OF 2(2), of hs, unfolded 2(3) refers_lines] hs fit_apart(2) [OF hs] refers_new [of _ "pg_tables s" req] 1(3) 2(3)
    by (auto simp: holds_fit_def)
  obtain s4 where "insertEvent ev s3 = (Inr (), s4)" "faultless s4"
    using insertEvent_run [OF 3(2), of ev] ev 3(3) 2(3) 1(3) by (auto simp: event_fits_def row_ids_def)
  with 1(1) 2(1) 3(1) show ?thesis by (simp add: RequestRepo_CreateReserved_def)
qed

subsection \<open>Worlds in which no statement fails\<close>

text \<open>From position \<open>lo\<close> on the stream of UUIDs holds ids that no row has.\<close>

definition able :: "(nat \<Rightarrow> uuid) \<Rightarrow> nat \<Rightarrow> (pg_state, 'c) world \<Rightarrow> bool" where
  "able us lo w \<longleftrightarrow> inj us \<and> w_uuids w = us \<and> lo \<le> w_drawn w \<and> faultless (w_repo w) \<and>
     us ` {lo..} \<inter> row_ids (pg_tables (w_repo w)) = {}"

abbreviation facing ::
    "tables \<Rightarrow> (nat \<Rightarrow> time) \<times> nat \<Rightarrow> (nat \<Rightarrow> uuid) \<Rightarrow> nat \<Rightarrow> (pg_state, 'c) world \<Rightarrow> bool" where
  "facing t k us lo \<equiv> \<lambda>w. sees pg_view pg_inv ((=) t) k w \<and> able us lo w"

lemma able_world [simp]:
  "able us lo (w\<lparr>w_redis := c\<rparr>) = able us lo w" "able us lo (w\<lparr>w_metrics := x\<rparr>) = able us lo w"
  "able us lo (w\<lparr>w_tick := n\<rparr>) = able us lo w"
  by (simp_all add: able_def)

lemma able_drawn: "able us lo w \<Longrightarrow> w_drawn w \<le> n \<Longrightarrow> able us lo (w\<lparr>w_drawn := n\<rparr>)"
  by (simp add: able_def)

lemma facing_call:
  assumes rule: "hoare (sees pg_view pg_inv ((=) t) k) (onRepo m :: ((pg_state, 'c) world, 'a) gor) (\<lambda>a w. P a \<and> sees pg_view pg_inv ((=) (F a)) k w) R"
    and m: "answers A m" and A: "\<And>s. pg_inv s \<Longrightarrow> pg_view s = t \<Longrightarrow> A s"
  shows "succeeds (facing t k us lo) (onRepo m :: ((pg_state, 'c) world, 'a) gor) (\<lambda>a w. P a \<and> facing (F a) k us lo w)"
proof -
  have run: "\<exists>a w'. onRepo m w = (Inr a, w') \<and> able us lo w'" if w: "facing t k us lo w" for w :: "(pg_state, 'c) world"
  proof -
    have "faultless (w_repo w)" "A (w_repo w)" using w A by (simp_all add: able_def sees_def)
    with m obtain a s where "m (w_repo w) = (Inr a, s)" "faultless s" "row_ids (pg_tables s) = row_ids (pg_tables (w_repo w))"
      unfolding answers_def by blast
    with w show ?thesis by (simp add: onRepo_def able_def)
  qed
  show ?thesis
  proof (rule hoareI)
    fix w w' :: "(pg_state, 'c) world" and a assume w: "facing t k us lo w" and call: "onRepo m w = (Inr a, w')"
    from run [OF w] call have "able us lo w'" by simp
    with hoare_Inr [OF rule call] w show "P a \<and> facing (F a) k us lo w'" by simp
  next
    fix w w' :: "(pg_state, 'c) world" and e assume w: "facing t k us lo w" and call: "onRepo m w = (Inl e, w')"
    from run [OF w] call show False by simp
  qed
qed

lemma facing_read:
  assumes "hoare (sees pg_view pg_inv ((=) t) k) (onRepo m :: ((pg_state, 'c) world, 'a) gor)
      (\<lambda>a w. P a \<and> sees pg_view pg_inv ((=) t) k w) R"
    and "\<And>A. answers A m"
  shows "succeeds (facing t k us lo) (onRepo m :: ((pg_state, 'c) world, 'a) gor) (\<lambda>a w. P a \<and> facing t k us lo w)"
  by (rule facing_call [OF assms(1,2) TrueI])

text \<open>One line of the plan: it is reserved, or refused; no other error is possible.\<close>

lemma facing_reserve_line:
  assumes b: "book br bd bq t" and p: "kind_of t (pl_poolID p) = Some (pl_kind p)" "0 < pl_amount p" "pl_amount p \<le> maxAmount"
    and c: "c = ci_CustomerID inp"
  shows "hoare (facing t k us lo) (reserve_line (pg_service cache idem cfg E) inp p)
     (\<lambda>_ w. (\<forall>rej. \<not> refuses c p t rej) \<and> facing (reserve_step c p t) k us lo w)
     (\<lambda>e w. as_rejected e \<noteq> None \<and> able us lo w)"
proof -
  let ?t1 = "spec_reserve (pl_poolID p) (pl_amount p) t"
  let ?t2 = "spec_ensure c (pl_kind p) defaultQuotaLimit ?t1"
  have pools: "pools_ok t" "pl_poolID p \<in> pool_ids t" and quotas: "quotas_ok ?t1"
    using b kind_of_in_pools [OF p(1)] by (simp_all add: book_def spec_reserve_def quotas_ok_def)
  have limit: "0 \<le> defaultQuotaLimit" "defaultQuotaLimit \<le> maxAmount" by (simp_all add: defaultQuotaLimit_def maxAmount_def)
  note grant = facing_call [OF pg.TryReserve_rule [where k = k, OF pools(1) p(2,3) pools(2), unfolded pg_service_sel pg_pools_sel]
      answers_TryReserve [OF p(2,3)], where us = us and lo = lo]
  note ensure = facing_call [OF pg.EnsureAndTryConsume_rule [where k = k, OF quotas p(2,3) limit, unfolded pg_service_sel pg_quotas_sel]
      answers_EnsureAndTryConsume [OF p(2) limit], where us = us and lo = lo]
  have same: "quota_admits c (pl_kind p) (pl_amount p) ?t2 =
      quota_admits c (pl_kind p) (pl_amount p) (spec_ensure c (pl_kind p) defaultQuotaLimit t)"
    unfolding quota_admits_ensured by (simp add: spec_reserve_def quota_admits_def)
  show ?thesis
    unfolding reserve_line_def pg_service_sel pg_pools_sel pg_quotas_sel
  proof (rule hoare_bind [OF grant])
    fix ok assume ok: "ok = admits (pl_poolID p) (pl_amount p) t"
    show "hoare (facing (if ok then ?t1 else t) k us lo) (if \<not> ok then
       fail (ErrRejected \<lparr>rej_reason = ReasonInsufficientCapacity, rej_message = ''insufficient capacity'',
               rej_details = Some [(''pool'', DStr (pl_kind p)), (''requested'', DInt (pl_amount p))]\<rparr>)
     else andThen (onRepo (QuotaRepo_EnsureAndTryConsume (ci_CustomerID inp) (pl_kind p) (pl_amount p) defaultQuotaLimit)) (\<lambda>ok.
     if \<not> ok then
       fail (ErrRejected \<lparr>rej_reason = ReasonQuotaExceeded, rej_message = ''quota exceeded'',
               rej_details = Some [(''resource_kind'', DStr (pl_kind p)), (''requested'', DInt (pl_amount p))]\<rparr>)
     else ret ())) (\<lambda>_ w. (\<forall>rej. \<not> refuses c p t rej) \<and> facing (reserve_step c p t) k us lo w)
     (\<lambda>e w. as_rejected e \<noteq> None \<and> able us lo w)"
    proof (cases ok)
      case True
      show ?thesis
        unfolding c [symmetric] if_P [OF True] if_not_P [of "\<not> ok", unfolded not_not, OF True]
      proof (rule hoare_bind [OF ensure])
        fix ok2 assume ok2: "ok2 = quota_admits c (pl_kind p) (pl_amount p) ?t2"
        show "hoare (facing (if ok2 then spec_consume c (pl_kind p) (pl_amount p) ?t2 else ?t2) k us lo)
          (if \<not> ok2 then
            fail (ErrRejected \<lparr>rej_reason = ReasonQuotaExceeded, rej_message = ''quota exceeded'',
               rej_details = Some [(''resource_kind'', DStr (pl_kind p)), (''requested'', DInt (pl_amount p))]\<rparr>)
           else ret ()) (\<lambda>_ w. (\<forall>rej. \<not> refuses c p t rej) \<and> facing (reserve_step c p t) k us lo w)
          (\<lambda>e w. as_rejected e \<noteq> None \<and> able us lo w)"
        proof (cases ok2)
          case True
          with ok2 same ok \<open>ok\<close> have "\<forall>rej. \<not> refuses c p t rej" by (simp add: refuses_def)
          with True show ?thesis by (auto intro!: hoare_ret simp: reserve_step_def)
        qed (auto intro!: hoare_fail)
      qed (use quotas in simp_all)
    qed (auto intro!: hoare_fail)
  qed (use pools in simp_all)
qed

lemma facing_reserve_loop:
  assumes l: "ledger bd bq t" and p: "plan_ok t plans"
  shows "hoare (facing t k us lo) (forEach (reserve_line (pg_service cache idem cfg E) inp) plans)
     (\<lambda>_ w. (\<forall>p \<in> set plans. \<forall>rej. \<not> refuses (ci_CustomerID inp) p t rej) \<and>
        facing (reserve_all (ci_CustomerID inp) plans t) k us lo w)
     (\<lambda>e w. as_rejected e \<noteq> None \<and> able us lo w)"
proof -
  let ?c = "ci_CustomerID inp" and ?S = "pg_service cache idem cfg E"
  let ?I = "\<lambda>dn w. (book (plan_on dn) bd (\<lambda>ck. bq ck + plan_used ?c dn ck) (reserve_all ?c dn t) \<and>
      (\<forall>p \<in> set dn. \<forall>rej. \<not> refuses ?c p t rej)) \<and> facing (reserve_all ?c dn t) k us lo w"
  have pools: "pools_ok t" using l by (simp add: ledger_def book_def)
  have "hoare (?I []) (forEach (reserve_line ?S inp) plans) (\<lambda>_. ?I plans) (\<lambda>e w. as_rejected e \<noteq> None \<and> able us lo w)"
  proof (rule hoare_forEach [where I = ?I], rule hoare_assume)
    fix dn p rest
    assume split: "plans = dn @ p # rest"
      and b: "book (plan_on dn) bd (\<lambda>ck. bq ck + plan_used ?c dn ck) (reserve_all ?c dn t) \<and>
        (\<forall>p \<in> set dn. \<forall>rej. \<not> refuses ?c p t rej)"
    have q: "kind_of (reserve_all ?c dn t) (pl_poolID p) = Some (pl_kind p)" "0 < pl_amount p" "pl_amount p \<le> maxAmount"
      using \<open>plan_ok t plans\<close> split by (simp_all add: plan_ok_def)
    have earlier: "refuses ?c p (reserve_all ?c dn t) rej = refuses ?c p t rej" for rej
      using refuses_earlier plan_lines_differ [OF pools \<open>plan_ok t plans\<close> split] by blast
    from hoare_both [OF pg.reserve_line_rule [OF conjunct1 [OF b] q refl, where k = k and cache = cache and idem = idem and cfg = cfg and E = E]
        facing_reserve_line [OF conjunct1 [OF b] q refl, where k = k and us = us and lo = lo and cache = cache and idem = idem and cfg = cfg and E = E]]
    show "hoare (facing (reserve_all ?c dn t) k us lo) (reserve_line ?S inp p) (\<lambda>_. ?I (dn @ [p]))
        (\<lambda>e w. as_rejected e \<noteq> None \<and> able us lo w)"
      by (rule hoare_conseq) (use b earlier in \<open>auto simp: plan_sums_snoc reserve_all_def add.assoc\<close>)
  qed
  then show ?thesis
    by (rule hoare_conseq) (use l in \<open>auto simp: ledger_def reserve_all_def plan_sums_nil\<close>)
qed

end
