(* ===== verification/Create_Decides.thy ===== *)
theory Create_Decides
  imports Create_Progress Run_Facts
begin

text \<open>
  The decision of a creation: \<^verbatim>\<open>CreateRequest\<close> followed from its checks to the stored row, in a world in
  which no statement fails (\<open>able\<close>). What is left to decide is whether every amount fits.
\<close>

subsection \<open>Drawing the rows\<close>

lemma list_all2_member: "list_all2 P xs ys \<Longrightarrow> y \<in> set ys \<Longrightarrow> \<exists>x \<in> set xs. P x y"
  by (induction rule: list_all2_induct) auto

lemma buildLines_run:
  "\<exists>ls. buildLines i plans w = (Inr ls, w\<lparr>w_drawn := w_drawn w + length plans\<rparr>) \<and> lines_for i plans ls \<and>
     map ln_ID ls = map (w_uuids w) [w_drawn w ..< w_drawn w + length plans]"
proof (induction plans arbitrary: w)
  case Nil
  show ?case by (simp add: buildLines_def lines_for_def)
next
  case (Cons p plans)
  let ?l = "\<lparr>ln_ID = w_uuids w (w_drawn w), ln_RequestID = i, ln_PoolID = pl_poolID p, ln_Kind = pl_kind p, ln_Amount = pl_amount p\<rparr>"
  from Cons.IH [of "w\<lparr>w_drawn := Suc (w_drawn w)\<rparr>"] obtain ls where
    "buildLines i plans (w\<lparr>w_drawn := Suc (w_drawn w)\<rparr>) = (Inr ls, w\<lparr>w_drawn := w_drawn w + length (p # plans)\<rparr>)"
    "lines_for i plans ls" "map ln_ID ls = map (w_uuids w) [Suc (w_drawn w) ..< w_drawn w + length (p # plans)]" by auto
  then have "buildLines i (p # plans) w = (Inr (?l # ls), w\<lparr>w_drawn := w_drawn w + length (p # plans)\<rparr>) \<and>
     lines_for i (p # plans) (?l # ls) \<and>
     map ln_ID (?l # ls) = map (w_uuids w) [w_drawn w ..< w_drawn w + length (p # plans)]"
    by (simp add: buildLines_def lines_for_def andThen_def uuid_New_def calling_def ret_def upt_conv_Cons del: upt_Suc)
  then show ?case by blast
qed

lemma buildHolds_run:
  "\<exists>hs. buildHolds i plans now w = (Inr hs, w\<lparr>w_drawn := w_drawn w + length plans\<rparr>) \<and> holds_for i now plans hs \<and>
     map hd_ID hs = map (w_uuids w) [w_drawn w ..< w_drawn w + length plans]"
proof (induction plans arbitrary: w)
  case Nil
  show ?case by (simp add: buildHolds_def holds_for_def)
next
  case (Cons p plans)
  let ?h = "\<lparr>hd_ID = w_uuids w (w_drawn w), hd_RequestID = i, hd_PoolID = pl_poolID p, hd_Amount = pl_amount p,
    hd_Status = HoldActive, hd_CreatedAt = now, hd_UpdatedAt = now\<rparr>"
  from Cons.IH [of "w\<lparr>w_drawn := Suc (w_drawn w)\<rparr>"] obtain hs where
    "buildHolds i plans now (w\<lparr>w_drawn := Suc (w_drawn w)\<rparr>) = (Inr hs, w\<lparr>w_drawn := w_drawn w + length (p # plans)\<rparr>)"
    "holds_for i now plans hs" "map hd_ID hs = map (w_uuids w) [Suc (w_drawn w) ..< w_drawn w + length (p # plans)]" by auto
  then have "buildHolds i (p # plans) now w = (Inr (?h # hs), w\<lparr>w_drawn := w_drawn w + length (p # plans)\<rparr>) \<and>
     holds_for i now (p # plans) (?h # hs) \<and>
     map hd_ID (?h # hs) = map (w_uuids w) [w_drawn w ..< w_drawn w + length (p # plans)]"
    by (simp add: buildHolds_def holds_for_def andThen_def uuid_New_def calling_def ret_def upt_conv_Cons del: upt_Suc)
  then show ?case by blast
qed

text \<open>Ids drawn from an able world suit the tables.\<close>

lemma drawn_ids:
  assumes "able us lo w" and "ids = map us [d ..< d + n]" and "lo \<le> d"
  shows "distinct ids" and "set ids \<inter> row_ids (pg_tables (w_repo w)) = {}"
proof -
  have "inj us" using assms(1) by (simp add: able_def)
  then show "distinct ids" unfolding assms(2) by (simp add: distinct_map inj_on_subset [OF _ subset_UNIV])
  have "set ids \<subseteq> us ` {lo..}" using assms(2,3) by auto
  then show "set ids \<inter> row_ids (pg_tables (w_repo w)) = {}" using assms(1) unfolding able_def by blast
qed

lemma plan_pools:
  assumes "plan_ok (pg_view s) plans" and "p \<in> set plans"
  shows "pl_poolID p \<in> pool_ids (pg_tables s)" and "amount_ok (pl_amount p)"
proof -
  have "pl_poolID p \<in> pool_ids (pg_view s)" using assms kind_of_in_pools by (auto simp: plan_ok_def)
  then show "pl_poolID p \<in> pool_ids (pg_tables s)" by (auto simp: pool_ids_def pg_view_def)
  show "amount_ok (pl_amount p)" using assms by (simp add: plan_ok_def amount_ok_def)
qed

lemma lines_suit:
  assumes w: "able us lo w" and plan: "plan_ok (pg_view (w_repo w)) plans" and rows: "lines_for i plans ls"
    and ids: "map ln_ID ls = map us [d ..< d + n]" "lo \<le> d"
  shows "lines_fit i ls (pg_tables (w_repo w))"
proof -
  have "amount_ok (ln_Amount l) \<and> ln_RequestID l = i \<and> ln_PoolID l \<in> pool_ids (pg_tables (w_repo w))" if "l \<in> set ls" for l
    using list_all2_member [OF rows [unfolded lines_for_def] that] plan_pools [OF plan] by auto
  with drawn_ids [OF w ids] show ?thesis by (simp add: lines_fit_def)
qed

lemma holds_suit:
  assumes w: "able us lo w" and plan: "plan_ok (pg_view (w_repo w)) plans" and rows: "holds_for i now plans hs"
    and ids: "map hd_ID hs = map us [d ..< d + n]" "lo \<le> d"
  shows "holds_fit i hs (pg_tables (w_repo w))"
proof -
  have "amount_ok (hd_Amount h) \<and> hd_RequestID h = i \<and> hd_PoolID h \<in> pool_ids (pg_tables (w_repo w))" if "h \<in> set hs" for h
    using list_all2_member [OF rows [unfolded holds_for_def] that] plan_pools [OF plan] by auto
  with drawn_ids [OF w ids] show ?thesis by (simp add: holds_fit_def)
qed

text \<open>The request row: nobody used the key, the quantity fits its column, the product exists.\<close>

definition row_ok :: "create_input \<Rightarrow> product option \<Rightarrow> tables \<Rightarrow> bool" where
  "row_ok inp product t \<longleftrightarrow> find_idem (ci_CustomerID inp) (ci_IdempotencyKey inp) t = None \<and>
     in_int4 (ci_Quantity inp) \<and> (\<forall>p. product = Some p \<longrightarrow> p \<in> set (t_products t))"

lemma row_insertable:
  assumes "able us lo w" and "i \<in> us ` {lo..}" and "row_ok inp product (pg_view (w_repo w))"
  shows "insertable (reserved_request inp product i now ex hash) (pg_tables (w_repo w))"
    and "insertable (rejected_request inp product i now reason hash) (pg_tables (w_repo w))"
proof -
  have "i \<notin> row_ids (pg_tables (w_repo w))" using assms(1,2) by (auto simp: able_def)
  moreover have "find_idem (ci_CustomerID inp) (ci_IdempotencyKey inp) (pg_tables (w_repo w)) = None"
    using assms(3) by (simp add: row_ok_def pg_view_def find_idem_unstamp)
  moreover have "in_int4 (resolvedQuantity inp)" "0 < resolvedQuantity inp"
    using assms(3) by (auto simp: row_ok_def resolvedQuantity_def in_int4_def)
  moreover have "p \<in> pd_ID ` set (t_products (pg_tables (w_repo w)))" if "map_option pd_ID product = Some p" for p
    using assms(3) that by (auto simp: row_ok_def pg_view_def)
  ultimately show "insertable (reserved_request inp product i now ex hash) (pg_tables (w_repo w))"
    "insertable (rejected_request inp product i now reason hash) (pg_tables (w_repo w))"
    by (simp_all add: insertable_def reserved_request_def rejected_request_def)
qed

subsection \<open>The reserve transaction\<close>

lemma reserve_body_decides:
  assumes l: "ledger bd bq t" and p: "plan_ok t plans" and w: "facing t k us lo w"
    and i: "i \<in> us ` {lo..}" and row: "row_ok inp product t"
    and run: "reserve_body (pg_service cache idem cfg E) plans product inp i now ex hash w = (q, w')"
  shows "case q of Inl e \<Rightarrow> as_rejected e \<noteq> None \<and> able us lo w'
     | Inr req \<Rightarrow> req = reserved_request inp product i now ex hash \<and> faultless (w_repo w') \<and>
         (\<forall>p \<in> set plans. \<forall>rej. \<not> refuses (ci_CustomerID inp) p t rej)"
proof -
  let ?c = "ci_CustomerID inp" and ?r = "reserved_request inp product i now ex hash"
  note loop = facing_reserve_loop [OF l p, where k = k and us = us and lo = lo and cache = cache and idem = idem and cfg = cfg and E = E and inp = inp]
  from run [unfolded reserve_body_def Let_def pg_service_sel pg_requests_sel] show ?thesis
  proof (cases rule: andThen_split)
    case (failed e)
    from hoare_Inl [OF loop failed(1) w] failed(2) show ?thesis by simp
  next
    case (went_on u w1)
    from hoare_Inr [OF loop went_on(1) w] have fits: "\<forall>p \<in> set plans. \<forall>rej. \<not> refuses ?c p t rej"
      and v: "pg_view (w_repo w1) = reserve_all ?c plans t" and w1: "able us lo w1" by (auto simp: sees_def)
    have us: "w_uuids w1 = us" "lo \<le> w_drawn w1" "faultless (w_repo w1)" using w1 by (simp_all add: able_def)
    have plan: "plan_ok (pg_view (w_repo w1)) plans" using p by (simp add: v plan_ok_def)
    have rows: "row_ok inp product (pg_view (w_repo w1))" using row by (simp add: v row_ok_def find_idem_def)
    from buildLines_run [of i plans w1] obtain ls d1 where
      ls: "buildLines i plans w1 = (Inr ls, w1\<lparr>w_drawn := d1\<rparr>)" "lines_fit i ls (pg_tables (w_repo w1))" "lo \<le> d1"
      using lines_suit [OF w1 plan] us by (metis trans_le_add1)
    from buildHolds_run [of i plans now "w1\<lparr>w_drawn := d1\<rparr>"] obtain hs d2 where
      hs: "buildHolds i plans now (w1\<lparr>w_drawn := d1\<rparr>) = (Inr hs, w1\<lparr>w_drawn := d2\<rparr>)"
        "holds_fit i hs (pg_tables (w_repo w1))" "lo \<le> d2"
      using holds_suit [OF w1 plan] us ls(3) by simp (metis trans_le_add1)
    let ?ev = "\<lparr>ev_ID = us d2, ev_RequestID = i, ev_EventType = EventReserved, ev_Reason = '''', ev_At = now\<rparr>"
    have "us d2 \<notin> row_ids (pg_tables (w_repo w1))" using w1 hs(3) by (auto simp: able_def)
    then have "event_fits i ?ev (pg_tables (w_repo w1))" by (simp add: event_fits_def)
    with CreateReserved_run [OF us(3) row_insertable(1) [OF w1 i rows], of now ex hash ls hs ?ev] ls(2) hs(2) obtain s where
      "RequestRepo_CreateReserved ?r ls hs ?ev (w_repo w1) = (Inr (), s)" "faultless s" by (auto simp: reserved_request_def)
    with went_on(2) ls(1) hs(1) us(1) have "q = Inr ?r \<and> faultless (w_repo w')"
      by (auto simp: uuid_New_def calling_def andThen_def onRepo_def ret_def)
    with fits show ?thesis by simp
  qed
qed

text \<open>A rollback brings back the tables of the begin, and with them the new ids.\<close>

lemma reserveWithinTx_decides:
  assumes l: "ledger bd bq t" and p: "planned E t inp product plans" and w: "facing t k us lo w"
    and i: "i \<in> us ` {lo..}" and row: "row_ok inp product t"
  shows "\<exists>b w'. reserveWithinTx (pg_service cache idem cfg E) plans product inp i now (now + cfg_ReserveTTL cfg) hash w = (Inr b, w') \<and>
     (case b of Inl rej \<Rightarrow> facing t k us lo w'
      | Inr req \<Rightarrow> req = reserved_request inp product i now (now + cfg_ReserveTTL cfg) hash \<and>
          (\<forall>p \<in> set plans. \<forall>rej. \<not> refuses (ci_CustomerID inp) p t rej))"
proof -
  let ?S = "pg_service cache idem cfg E" and ?s = "(w_repo w)\<lparr>pg_faults := tl (pg_faults (w_repo w))\<rparr>"
  let ?body = "reserve_body ?S plans product inp i now (now + cfg_ReserveTTL cfg) hash"
  have f: "faultless (w_repo w)" using w by (simp add: able_def)
  have begin': "onRepo pg_begin w = (Inr ?s, w\<lparr>w_repo := ?s\<rparr>)"
    unfolding pg_begin_def onRepo_def by (subst faultless_run [OF f]) simp_all
  have w1: "facing t k us lo (w\<lparr>w_repo := ?s\<rparr>)"
    using w begin_sees [OF conjunct1 [OF w] begin'] faultless_tail [OF f] by (simp add: able_def)
  obtain q w2 where q: "?body (w\<lparr>w_repo := ?s\<rparr>) = (q, w2)" by fastforce
  have plan: "plan_ok t plans" using p by (simp add: planned_def)
  note d = reserve_body_decides [OF l plan w1 i row q]
  note rule = pg.reserveWithinTx_rule [OF l, of cache idem cfg E, unfolded pg_service_sel, OF p]
  show ?thesis
  proof (cases q)
    case (Inl e)
    with d obtain rej where rej: "as_rejected e = Some rej" and w2: "able us lo w2" by auto
    let ?w3 = "w2\<lparr>w_repo := pg_rollback ?s (w_repo w2)\<rparr>"
    have run: "reserveWithinTx ?S plans product inp i now (now + cfg_ReserveTTL cfg) hash w = (Inr (Inl rej), ?w3)"
      using begin' q Inl rej
      by (simp add: reserveWithinTx_def WithinTx_def pg_tx_def andThen_def attempt_def ret_def)
    have "able us lo ?w3" using w2 w by (simp add: able_def pg_rollback_def faultless_def)
    with hoare_Inr [OF rule run conjunct1 [OF w]] run show ?thesis by auto
  next
    case (Inr req)
    with d have fits: "\<forall>p \<in> set plans. \<forall>rej. \<not> refuses (ci_CustomerID inp) p t rej" and w2: "faultless (w_repo w2)"
      and req: "req = reserved_request inp product i now (now + cfg_ReserveTTL cfg) hash" by simp_all
    from faultless_run [OF w2, where f = "\<lambda>s. Inr ((), s)"] obtain s where "pg_commit (w_repo w2) = (Inr (), s)"
      unfolding pg_commit_def by blast
    with begin' q Inr fits req show ?thesis
      by (simp add: reserveWithinTx_def WithinTx_def pg_tx_def andThen_def attempt_def ret_def onRepo_def)
  qed
qed

subsection \<open>Recording the outcome\<close>

lemma persistRejected_run:
  assumes w: "facing t k us lo w" and plan: "plan_ok t plans" and i: "i \<in> us ` {lo..}" and row: "row_ok inp product t"
  shows "\<exists>w'. persistRejected (pg_service cache idem cfg E) inp i now plans product rej hash w =
     (Inr (rejected_request inp product i now (rej_reason rej) hash), w')"
proof -
  let ?r = "rejected_request inp product i now (rej_reason rej) hash"
  have a: "able us lo w" and v: "pg_view (w_repo w) = t" using w by (auto simp: sees_def)
  have us: "w_uuids w = us" "lo \<le> w_drawn w" "faultless (w_repo w)" using a by (simp_all add: able_def)
  from buildLines_run [of i plans w] obtain ls d where
    ls: "buildLines i plans w = (Inr ls, w\<lparr>w_drawn := d\<rparr>)" "lines_fit i ls (pg_tables (w_repo w))" "lo \<le> d"
    using lines_suit [OF a] plan v us by (metis trans_le_add1)
  let ?ev = "\<lparr>ev_ID = us d, ev_RequestID = i, ev_EventType = EventRejected, ev_Reason = event_reason rej, ev_At = now\<rparr>"
  have "us d \<notin> row_ids (pg_tables (w_repo w))" using a ls(3) by (auto simp: able_def)
  then have "event_fits i ?ev (pg_tables (w_repo w))" by (simp add: event_fits_def)
  with CreateRejected_run [OF us(3) row_insertable(2) [OF a i], of inp product now "rej_reason rej" hash ls ?ev] ls(2) row v
  obtain s where "RequestRepo_CreateRejected ?r ls ?ev (w_repo w) = (Inr (), s)" by (auto simp: rejected_request_def)
  with ls(1) us(1) show ?thesis
    by (simp add: persistRejected_def Let_def pg_requests_def uuid_New_def calling_def andThen_def attempt_def onRepo_def ret_def)
qed

lemma recordOutcome_run: "\<exists>w'. recordOutcome S inp req result w = (Inr (), w')"
proof -
  have "succeeds (\<lambda>_. True) (recordOutcome S inp req result) (\<lambda>_ _. True)"
    unfolding recordOutcome_def count_def ignoring_def
    by (intro hoare_intro hoare_updating TrueI hoare_attempt) (auto simp: hoare_def)
  from succeedsD [OF this TrueI] show ?thesis by simp
qed

subsection \<open>Planning\<close>

definition product_of :: "tables \<Rightarrow> create_input \<Rightarrow> product option" where
  "product_of t inp = (if ci_ProductCode inp = '''' then None else find (\<lambda>p. pd_Code p = ci_ProductCode inp) (t_products t))"

definition aligned :: "resource_pool \<Rightarrow> int \<Rightarrow> bool" where
  "aligned p n \<longleftrightarrow> (0 < pp_MinGrain (rp_Policy p) \<longrightarrow> n mod pp_MinGrain (rp_Policy p) = 0)"

text \<open>
  What a client can order: valid input under a key, for a product of the catalog or for lines, whose amounts are
  in range, of kinds there are pools for, and multiples of the pool's smallest grain. The quantity fits the
  column that stores it, which the validation does not check of an order by lines.
\<close>

definition orderable :: "tables \<Rightarrow> create_input \<Rightarrow> bool" where
  "orderable t inp \<longleftrightarrow> input_ok inp \<and> ci_IdempotencyKey inp \<noteq> '''' \<and> ci_CustomerID inp \<noteq> '''' \<and> in_int4 (ci_Quantity inp) \<and>
     (if ci_ProductCode inp = '''' then ci_Lines inp \<noteq> [] else product_of t inp \<noteq> None) \<and>
     (\<forall>(k, n) \<in> set (wanted inp (product_of t inp)). amount_ok n \<and> (\<exists>p \<in> set (t_pools t). rp_Kind p = k \<and> aligned p n))"

lemma product_of_correlation [simp]: "product_of t (inp\<lparr>ci_CorrelationID := c\<rparr>) = product_of t inp"
  by (simp add: product_of_def)

lemma orderable_correlation [simp]: "orderable t (inp\<lparr>ci_CorrelationID := c\<rparr>) = orderable t inp"
  by (simp add: orderable_def)

lemma resolve_template_ok:
  "\<forall>(k, v) \<in> set kvs. amount_ok (i64 (v * q)) \<Longrightarrow> \<exists>out'. resolve_template q kvs out = Inr out'"
  by (induction kvs arbitrary: out) (auto simp: amount_ok_def Let_def)

lemma facing_resolveLines:
  assumes perm: "permutes_maps E" and o: "orderable t inp"
  shows "succeeds (facing t k us lo) (resolveLines (pg_service cache idem cfg E) inp) (\<lambda>_. facing t k us lo)"
proof (cases "ci_ProductCode inp = ''''")
  case True
  with o show ?thesis unfolding resolveLines_def orderable_def by (auto intro: hoare_ret)
next
  case False
  note get = facing_read [OF pg.GetByCode_rule [unfolded pg_service_sel pg_products_def product_repository.simps] answers_reads(3)]
  show ?thesis
    unfolding resolveLines_def pg_service_sel pg_products_def product_repository.simps if_P [OF False]
  proof (rule hoare_bind [OF get])
    fix q assume q: "q = find (\<lambda>p. pd_Code p = ci_ProductCode inp) (t_products t)"
    with o False obtain p where p: "q = Some p" "product_of t inp = Some p" by (auto simp: orderable_def product_of_def)
    have "set (en_range E (pd_ResourceTemplate p)) = set (pd_ResourceTemplate p)"
      using perm by (metis permutes_maps_def mset_eq_setD)
    moreover have "\<forall>(k, v) \<in> set (pd_ResourceTemplate p). amount_ok (i64 (v * effective_quantity inp))"
      using o p(2) by (fastforce simp: orderable_def wanted_def)
    ultimately have "\<forall>(k, v) \<in> set (en_range E (pd_ResourceTemplate p)). amount_ok (i64 (v * effective_quantity inp))" by simp
    from resolve_template_ok [OF this] obtain out where
      "resolve_template (effective_quantity inp) (en_range E (pd_ResourceTemplate p)) [] = Inr out" by blast
    then show "succeeds (facing t k us lo) (case q of None \<Rightarrow> fail (NewAppError ReasonProductNotFound ''product not found''
            (Some [(''product'', DStr (ci_ProductCode inp))]))
        | Some p \<Rightarrow> let qty = if ci_Quantity inp \<le> 0 then 1 else ci_Quantity inp
            in case resolve_template qty (en_range E (pd_ResourceTemplate p)) [] of Inl e \<Rightarrow> fail e | Inr out \<Rightarrow> ret (out, Some p))
        (\<lambda>_. facing t k us lo)"
      by (auto simp: p(1) Let_def effective_quantity_def [symmetric] intro: hoare_ret)
  qed simp
qed

lemma facing_plan_for:
  assumes pools: "pools_ok t" and p: "p \<in> set (t_pools t)" "rp_Kind p = kind" "aligned p n"
  shows "succeeds (facing t k us lo) (plan_for (pg_service cache idem cfg E) (kind, n)) (\<lambda>_. facing t k us lo)"
proof -
  note get = facing_read [OF pg.GetByKind_rule [unfolded pg_service_sel pg_pools_sel] answers_reads(4)]
  have found: "find (\<lambda>p. rp_Kind p = kind) (t_pools t) = Some p"
    using pools p find_Some_iff_distinct [of rp_Kind "t_pools t" kind p] by (simp add: pools_ok_def)
  show ?thesis
    unfolding plan_for_def split_conv pg_service_sel pg_pools_sel
  proof (rule hoare_bind [OF get])
    fix q assume "map_option unstamp_pool q = find (\<lambda>p. rp_Kind p = kind) (t_pools t)"
    with found obtain r where q: "q = Some r" "unstamp_pool r = p" by auto
    then have "rp_Policy r = rp_Policy p" by (auto simp: unstamp_pool_def)
    with p(3) q(1) show "succeeds (facing t k us lo)
       (case q of None \<Rightarrow> fail (NewAppError ReasonInvalidResourceKind ''unknown resource kind'' (Some [(''kind'', DStr kind)]))
     | Some pool \<Rightarrow>
         if pp_MinGrain (rp_Policy pool) > 0 \<and> n mod pp_MinGrain (rp_Policy pool) \<noteq> 0 then
           fail (NewAppError ReasonConflict ''amount not aligned to min grain''
                   (Some [(''kind'', DStr kind), (''amount'', DInt n), (''min_grain'', DInt (pp_MinGrain (rp_Policy pool)))]))
         else ret \<lparr>pl_kind = kind, pl_poolID = rp_ID pool, pl_amount = n\<rparr>) (\<lambda>_. facing t k us lo)"
      by (auto simp: aligned_def intro: hoare_ret)
  qed simp
qed

lemma facing_plan:
  assumes perm: "permutes_maps E" and cat: "catalog_ok t" and pools: "pools_ok t" and o: "orderable t inp"
  shows "succeeds (facing t k us lo) (buildReservationPlan (pg_service cache idem cfg E) inp)
     (\<lambda>q w. planned E t inp (snd q) (fst q) \<and> facing t k us lo w)"
proof -
  let ?S = "pg_service cache idem cfg E"
  have perm': "\<And>xs. mset (en_range (sv_env ?S) xs) = mset xs" using perm by (simp add: permutes_maps_def)
  have ok: "input_ok inp" using o by (simp add: orderable_def)
  note lines = hoare_both [OF pg.resolveLines_rule [where k = k, OF perm' cat ok] facing_resolveLines [where k = k, OF perm o]]
  have "succeeds (facing t k us lo) (buildReservationPlan ?S inp) (\<lambda>_. facing t k us lo)"
    unfolding buildReservationPlan_def
  proof (rule hoare_bind [where R = "\<lambda>q. set (fst q) = set (wanted inp (product_of t inp))"])
    show "succeeds (facing t k us lo) (resolveLines ?S inp)
        (\<lambda>q w. set (fst q) = set (wanted inp (product_of t inp)) \<and> facing t k us lo w)"
      by (rule hoare_conseq [OF lines]) (auto simp: product_of_def dest: mset_eq_setD)
    fix q :: "(string \<times> int) list \<times> product option"
    assume q: "set (fst q) = set (wanted inp (product_of t inp))"
    obtain out product where [simp]: "q = (out, product)" by fastforce
    have "set (en_range E out) = set (wanted inp (product_of t inp))"
      using q perm by simp (metis permutes_maps_def mset_eq_setD)
    with o have each: "\<exists>p \<in> set (t_pools t). rp_Kind p = fst x \<and> aligned p (snd x)" if "x \<in> set (en_range E out)" for x
      using that by (fastforce simp: orderable_def)
    have "succeeds (facing t k us lo) (plan_for ?S x) (\<lambda>y w. True \<and> facing t k us lo w)" if "x \<in> set (en_range E out)" for x
      using each [OF that] facing_plan_for [OF pools, of _ "fst x" "snd x"] by fastforce
    note loop = hoare_collect_inv [where f = "plan_for ?S" and xs = "en_range E out", OF this]
    show "succeeds (facing t k us lo) (case q of (resolved, product) \<Rightarrow>
      andThen (collect (plan_for ?S) (en_range (sv_env ?S) resolved))
        (\<lambda>plans. ret (sort_key (\<lambda>p. en_uuid_String (sv_env ?S) (pl_poolID p)) plans, product))) (\<lambda>_. facing t k us lo)"
      unfolding \<open>q = (out, product)\<close> split_conv pg_service_sel
      by (rule hoare_bind [OF loop]) (auto intro: hoare_ret)
  qed simp
  from hoare_both [OF pg.buildReservationPlan_rule [where k = k, OF perm' cat ok pools] this]
  show ?thesis by (rule hoare_conseq) auto
qed

subsection \<open>Before the transaction\<close>

lemma facing_enforce:
  assumes "under_limit cfg c t"
  shows "succeeds (facing t k us lo) (enforceActiveHoldsLimit (pg_service cache idem cfg E) c) (\<lambda>_. facing t k us lo)"
proof -
  note count = facing_read [OF pg.CountActive_rule [unfolded pg_service_sel pg_requests_sel] answers_reads(2)]
  show ?thesis
    unfolding enforceActiveHoldsLimit_def Let_def pg_service_sel pg_requests_sel
  proof (rule hoare_if)
    assume "\<not> cfg_MaxActiveHoldsPerCustomer cfg \<le> 0"
    with assms show "succeeds (facing t k us lo) (andThen (onRepo (RequestRepo_CountActiveHoldsByCustomer c)) (\<lambda>n.
        if cfg_MaxActiveHoldsPerCustomer cfg \<le> n then
          fail (NewAppError ReasonTooManyActiveHolds ''too many active holds for customer''
                  (Some [(''customer_id'', DStr c), (''active'', DInt n), (''limit'', DInt (cfg_MaxActiveHoldsPerCustomer cfg))]))
        else ret ())) (\<lambda>_. facing t k us lo)"
      by (intro hoare_bind [OF count]) (auto simp: under_limit_def intro: hoare_ret)
  qed (simp add: hoare_ret)
qed

text \<open>Redis does not know the key either.\<close>

definition not_filed :: "'c idempotency_store \<Rightarrow> create_input \<Rightarrow> 'c \<Rightarrow> bool" where
  "not_filed idem inp r \<longleftrightarrow> (\<forall>i. fst (is_Get idem (ci_CustomerID inp) (ci_IdempotencyKey inp) r) \<noteq> Inr (Some i))"

lemma check_finds_nothing:
  assumes w: "facing t k us lo w" and miss: "not_filed idem inp (w_redis w)"
    and new: "find_idem (ci_CustomerID inp) (ci_IdempotencyKey inp) t = None"
  shows "\<exists>w'. checkIdempotentReplay (pg_service cache idem cfg E) inp hash w = (Inr None, w') \<and> facing t k us lo w'"
proof -
  let ?S = "pg_service cache idem cfg E"
  obtain g r where g: "is_Get idem (ci_CustomerID inp) (ci_IdempotencyKey inp) (w_redis w) = (g, r)" by fastforce
  have "replay_fast ?S inp w = (Inr None, w\<lparr>w_redis := r\<rparr>)"
    using g miss by (auto simp: replay_fast_def not_filed_def andThen_def attempt_def onRedis_def ret_def split: sum.splits option.splits)
  moreover have "facing t k us lo (w\<lparr>w_redis := r\<rparr>)" using w by simp
  from succeedsD [OF facing_read [OF pg.FindByIdempotency_rule [unfolded pg_service_sel pg_requests_sel] answers_reads(1)] this,
      of "ci_CustomerID inp" "ci_IdempotencyKey inp"] new
  obtain w' where "onRepo (RequestRepo_FindByIdempotency (ci_CustomerID inp) (ci_IdempotencyKey inp)) (w\<lparr>w_redis := r\<rparr>) = (Inr None, w')"
    "facing t k us lo w'" by auto
  ultimately show ?thesis by (simp add: checkIdempotentReplay_def pg_requests_def)
qed

subsection \<open>The decision\<close>

text \<open>What the store lacks is refused: the converse of \<open>refused_lacks\<close>.\<close>

lemma lacks_refused:
  assumes pools: "pools_ok t" and quotas: "quotas_ok t" and plan: "plan_ok t plans" and p: "p \<in> set plans"
    and lacks: "lacks t c (pl_kind p, pl_amount p) reason"
  shows "\<exists>rej. refuses c p t rej"
proof -
  let ?rej = "\<lparr>rej_reason = reason, rej_message = [], rej_details = None\<rparr>"
  have kind: "kind_of t (pl_poolID p) = Some (pl_kind p)" using plan p by (simp add: plan_ok_def)
  consider (pool) "reason = ReasonInsufficientCapacity" | (quota) "reason = ReasonQuotaExceeded"
    using lacks by (cases reason) auto
  then have "refuses c p t ?rej"
  proof cases
    case pool
    with lacks obtain a where a: "a \<in> set (t_pools t)" "rp_Kind a = pl_kind p"
      "effective a < rp_DedicatedAmount a + rp_ReservedAmount a + pl_amount p" by (auto simp: list_ex_iff)
    have ids: "distinct (map rp_ID (t_pools t))" "distinct (map rp_Kind (t_pools t))" using pools by (simp_all add: pools_ok_def)
    obtain b where b: "b \<in> set (t_pools t)" "rp_ID b = pl_poolID p" "rp_Kind b = pl_kind p"
      using kind by (auto simp: kind_of_def dest!: find_SomeD)
    have "a = b" using distinct_key_inj [OF ids(2) a(1) b(1)] a(2) b(3) by simp
    moreover have "x = b" if "x \<in> set (t_pools t)" "rp_ID x = pl_poolID p" for x
      using distinct_key_inj [OF ids(1) that(1) b(1)] that(2) b(2) by simp
    ultimately have "\<not> admits (pl_poolID p) (pl_amount p) t" using a(3) by (auto simp: admits_def list_ex_iff)
    with pool show ?thesis by (simp add: refuses_def)
  next
    case quota
    let ?key = "(c, pl_kind p)"
    have keys: "distinct (map quota_key (t_quotas t))" using quotas by (simp add: quotas_ok_def)
    have "\<not> quota_admits c (pl_kind p) (pl_amount p) (spec_ensure c (pl_kind p) defaultQuotaLimit t)"
    proof (cases "find (\<lambda>q. quota_key q = ?key) (t_quotas t)")
      case None
      then have "\<not> list_ex (\<lambda>q. quota_key q = ?key) (t_quotas t)" by (simp add: find_None_iff list_ex_iff)
      with lacks quota None show ?thesis by (simp add: quota_admits_ensured)
    next
      case (Some q)
      from find_SomeD [OF Some] have q: "q \<in> set (t_quotas t)" "quota_key q = ?key" by simp_all
      then have "list_ex (\<lambda>q. quota_key q = ?key) (t_quotas t)" by (auto simp: list_ex_iff)
      moreover have "x = q" if "x \<in> set (t_quotas t)" "quota_key x = ?key" for x
        using distinct_key_inj [OF keys that(1) q(1)] that(2) q(2) by simp
      then have "\<not> quota_admits c (pl_kind p) (pl_amount p) t"
        using lacks quota Some by (auto simp: quota_admits_def list_ex_iff)
      ultimately show ?thesis by (simp add: quota_admits_ensured)
    qed
    with quota show ?thesis by (simp add: refuses_def)
  qed
  then show ?thesis by blast
qed

definition refusal :: "tables \<Rightarrow> create_input \<Rightarrow> bool" where
  "refusal t inp \<longleftrightarrow> (\<exists>kn \<in> set (wanted inp (product_of t inp)). \<exists>reason. lacks t (ci_CustomerID inp) kn reason)"

lemma refusal_plan:
  assumes l: "ledger bd bq t" and p: "planned E t inp product plans"
  shows "turned_down (ci_CustomerID inp) plans t rej \<Longrightarrow> refusal t inp"
    and "\<forall>p \<in> set plans. \<forall>rej. \<not> refuses (ci_CustomerID inp) p t rej \<Longrightarrow> \<not> refusal t inp"
proof -
  have ok: "pools_ok t" "quotas_ok t" "plan_ok t plans" using l p by (simp_all add: ledger_def book_def planned_def)
  have "product = product_of t inp" using p by (simp add: planned_def product_of_def)
  with p have "mset (map (\<lambda>p. (pl_kind p, pl_amount p)) plans) = mset (wanted inp (product_of t inp))"
    by (simp add: planned_def)
  from mset_eq_setD [OF this] have w: "set (wanted inp (product_of t inp)) = (\<lambda>p. (pl_kind p, pl_amount p)) ` set plans" by simp
  show "refusal t inp" if "turned_down (ci_CustomerID inp) plans t rej"
  proof -
    from that obtain dn q rest where q: "plans = dn @ q # rest" "refuses (ci_CustomerID inp) q (reserve_all (ci_CustomerID inp) dn t) rej"
      unfolding turned_down_def by blast
    from refused_lacks [OF ok q] q(1) show ?thesis unfolding refusal_def w by auto
  qed
  show "\<not> refusal t inp" if "\<forall>p \<in> set plans. \<forall>rej. \<not> refuses (ci_CustomerID inp) p t rej"
    using lacks_refused [OF ok] that unfolding refusal_def w by blast
qed

lemma drawn_eq:
  "andThen Now (\<lambda>now. andThen uuid_New (f now)) w = f (w_clock w (w_tick w)) (w_uuids w (w_drawn w)) (drawn w)"
  by (simp add: andThen_def Now_def uuid_New_def calling_def drawn_def)

lemma create_new_decides:
  assumes l: "ledger bd bq t" and cat: "catalog_ok t" and perm: "permutes_maps E" and o: "orderable t inp"
    and w: "facing t k us lo w" and new: "find_idem (ci_CustomerID inp) (ci_IdempotencyKey inp) t = None"
    and lim: "under_limit cfg (ci_CustomerID inp) t"
  shows "\<exists>req w'. create_new (pg_service cache idem cfg E) inp hash w = (Inr req, w') \<and> cr_ID req \<in> us ` {lo..} \<and>
     cr_CustomerID req = ci_CustomerID inp \<and> cr_IdempotencyKey req = ci_IdempotencyKey inp \<and>
     cr_Status req = (if refusal t inp then StatusRejected else StatusReserved)"
proof -
  let ?S = "pg_service cache idem cfg E"
  have pools: "pools_ok t" using l by (simp add: ledger_def book_def)
  from succeedsD [OF facing_enforce [OF lim] w] obtain u w1 where
    w1: "enforceActiveHoldsLimit ?S (ci_CustomerID inp) w = (Inr u, w1)" "facing t k us lo w1" by blast
  from succeedsD [OF facing_plan [OF perm cat pools o, where cache = cache and idem = idem and cfg = cfg] w1(2)] obtain plans product w2 where
    w2: "buildReservationPlan ?S inp w1 = (Inr (plans, product), w2)" "planned E t inp product plans" "facing t k us lo w2" by auto
  have plan: "plan_ok t plans" using w2(2) by (simp add: planned_def)
  let ?i = "us (w_drawn w2)" and ?now = "w_clock w2 (w_tick w2)" and ?k = "(fst k, Suc (snd k))"
  let ?ex = "?now + cfg_ReserveTTL cfg"
  have us: "w_uuids w2 = us" and i: "?i \<in> us ` {lo..}" using w2(3) by (auto simp: able_def)
  have w3: "facing t ?k us lo (drawn w2)" using w2(3) by (auto simp: sees_def drawn_def able_def)
  have row: "row_ok inp product t"
    using new o w2(2) by (auto simp: row_ok_def orderable_def planned_def dest: find_SomeD split: if_splits)
  have start: "create_new ?S inp hash w = andThen (attempt (reserveWithinTx ?S plans product inp ?i ?now ?ex hash))
       (\<lambda>q. case q of
          Inl e \<Rightarrow> if is_duplicate e then replayAfterDuplicate ?S inp hash else fail e
        | Inr (Inl rej) \<Rightarrow>
            andThen (persistRejected ?S inp ?i ?now plans product rej hash) (\<lambda>req.
            andThen (recordOutcome ?S inp req ''rejected'') (\<lambda>_. ret req))
        | Inr (Inr reserved) \<Rightarrow>
            andThen (recordOutcome ?S inp reserved ''reserved'') (\<lambda>_. ret reserved)) (drawn w2)"
    using w1(1) w2(1) us by (simp add: create_new_def drawn_eq)
  from reserveWithinTx_decides [OF l w2(2) w3 i row] obtain b w4 where
    tx: "reserveWithinTx ?S plans product inp ?i ?now ?ex hash (drawn w2) = (Inr b, w4)" and
    b: "case b of Inl rej \<Rightarrow> facing t ?k us lo w4
      | Inr req \<Rightarrow> req = reserved_request inp product ?i ?now ?ex hash \<and>
          (\<forall>p \<in> set plans. \<forall>rej. \<not> refuses (ci_CustomerID inp) p t rej)" by blast
  have ran: "attempt (reserveWithinTx ?S plans product inp ?i ?now ?ex hash) (drawn w2) = (Inr (Inr b), w4)"
    using tx by (simp add: attempt_iff)
  show ?thesis
  proof (cases b)
    case (Inl rej)
    have "tame (drawn w2)" using w3 by (auto simp: able_def faultless_def foreign_def)
    from reserveWithinTx_refusal [OF l plan conjunct1 [OF w3] this tx [unfolded Inl]]
    have "refusal t inp" by (rule refusal_plan(1) [OF l w2(2)])
    moreover from b Inl have w4: "facing t ?k us lo w4" by simp
    from persistRejected_run [OF w4 plan i row] obtain w5 where
      w5: "persistRejected ?S inp ?i ?now plans product rej hash w4 = (Inr (rejected_request inp product ?i ?now (rej_reason rej) hash), w5)" by blast
    obtain w6 where "recordOutcome ?S inp (rejected_request inp product ?i ?now (rej_reason rej) hash) ''rejected'' w5 = (Inr (), w6)"
      using recordOutcome_run by blast
    with w5 Inl have "create_new ?S inp hash w = (Inr (rejected_request inp product ?i ?now (rej_reason rej) hash), w6)"
      by (simp add: start ran)
    ultimately show ?thesis using i by (auto simp: rejected_request_def)
  next
    case (Inr req)
    with b have fits: "\<not> refusal t inp" using refusal_plan(2) [OF l w2(2)] by simp
    from b Inr have req: "req = reserved_request inp product ?i ?now ?ex hash" by simp
    obtain w5 where "recordOutcome ?S inp req ''reserved'' w4 = (Inr (), w5)" using recordOutcome_run by blast
    with Inr have "create_new ?S inp hash w = (Inr req, w5)" by (simp add: start ran)
    with fits i req show ?thesis by (auto simp: reserved_request_def)
  qed
qed

text \<open>A correlation id is drawn if the client sent none.\<close>

lemma correlated:
  assumes "sees pg_view pg_inv ((=) t) k w" and "able us lo w"
  shows "\<exists>cor w1. (if ci_CorrelationID inp = '''' then
        andThen uuid_New (\<lambda>i. ret (inp\<lparr>ci_CorrelationID := en_uuid_String (sv_env S) i\<rparr>)) else ret inp) w = (Inr (inp\<lparr>ci_CorrelationID := cor\<rparr>), w1) \<and>
     facing t k us lo w1 \<and> w_redis w1 = w_redis w"
proof (cases "ci_CorrelationID inp = ''''")
  case True
  with assms able_drawn [OF assms(2), of "Suc (w_drawn w)"] show ?thesis
    by (auto simp: andThen_Inr_iff uuid_New_def calling_iff)
next
  case False
  have "inp = inp\<lparr>ci_CorrelationID := ci_CorrelationID inp\<rparr>" by simp
  with False assms show ?thesis by (auto intro!: exI [of _ "ci_CorrelationID inp"])
qed

lemma created_stored:
  "created E cfg inp hash now t req t' \<Longrightarrow> unstamp_request req \<in> set (t_requests t')"
  unfolding created_def reserved_effect_def rejected_effect_def replays_own_def replays_def
  by (auto simp: spec_insert_rejected_def)

text \<open>
  C8: A request is decided. While the database answers, the UUIDs drawn are new and Redis does not know the
  key, \<^verbatim>\<open>CreateRequest\<close> answers a valid order under an unused key, from a customer under the limit, with a
  new stored request and no error: RESERVED if every amount fits into its pool and into the customer's quota,
  REJECTED if one does not. The cache in front does not matter.
\<close>

theorem create_decides:
  assumes s: "sound bd bq w" and perm: "permutes_maps E" and a: "able (w_uuids w) (w_drawn w) w"
    and o: "orderable (store w) inp" and lim: "under_limit cfg (ci_CustomerID inp) (store w)"
    and new: "find_idem (ci_CustomerID inp) (ci_IdempotencyKey inp) (store w) = None"
    and miss: "not_filed idem inp (w_redis w)"
  shows "\<exists>req w'. CreateRequest (pg_service cache idem cfg E) inp w = (Inr req, w') \<and>
     find_request (cr_ID req) (store w) = None \<and> find_request (cr_ID req) (store w') = Some (unstamp_request req) \<and>
     cr_CustomerID req = ci_CustomerID inp \<and> cr_IdempotencyKey req = ci_IdempotencyKey inp \<and>
     cr_Status req = (if refusal (store w) inp then StatusRejected else StatusReserved)"
proof -
  let ?S = "pg_service cache idem cfg E" and ?us = "w_uuids w" and ?lo = "w_drawn w"
  have l: "ledger bd bq (store w)" and cat: "catalog_ok (store w)" using s by (simp_all add: sound_def)
  obtain cor w1 where cor: "(if ci_CorrelationID inp = '''' then
        andThen uuid_New (\<lambda>i. ret (inp\<lparr>ci_CorrelationID := en_uuid_String (sv_env ?S) i\<rparr>)) else ret inp) w = (Inr (inp\<lparr>ci_CorrelationID := cor\<rparr>), w1)"
    and w1: "facing (store w) (w_clock w, w_tick w) ?us ?lo w1" "w_redis w1 = w_redis w"
    using correlated [OF sound_sees [OF s] a] by blast
  let ?inp = "inp\<lparr>ci_CorrelationID := cor\<rparr>" and ?hash = "computeBodyHash E inp"
  have "not_filed idem ?inp (w_redis w1)" using miss w1(2) by (simp add: not_filed_def)
  from check_finds_nothing [where cache = cache and cfg = cfg and E = E and hash = ?hash, OF w1(1) this] new obtain w2 where
    w2: "checkIdempotentReplay ?S ?inp ?hash w1 = (Inr None, w2)" "facing (store w) (w_clock w, w_tick w) ?us ?lo w2" by auto
  from create_new_decides [OF l cat perm _ w2(2), of ?inp cfg cache idem ?hash] o new lim obtain req w' where
    req: "create_new ?S ?inp ?hash w2 = (Inr req, w')" "cr_ID req \<in> ?us ` {?lo..}" "cr_CustomerID req = ci_CustomerID inp"
      "cr_IdempotencyKey req = ci_IdempotencyKey inp"
      "cr_Status req = (if refusal (store w) inp then StatusRejected else StatusReserved)"
    by (auto simp: refusal_def)
  have "validateCreateInput inp = None" "ci_IdempotencyKey inp \<noteq> []" "ci_CustomerID inp \<noteq> []"
    using o by (simp_all add: orderable_def validate_None)
  with cor w2(1) req(1) have run: "CreateRequest ?S inp w = (Inr req, w')"
    by (simp add: CreateRequest_def Let_def split del: if_split)
  have "cr_ID req \<notin> row_ids (pg_tables (w_repo w))" using a req(2) by (auto simp: able_def)
  then have "cr_ID req \<notin> cr_ID ` set (t_requests (store w))" by (auto simp: row_ids_def store_def pg_view_def)
  then have fresh: "find_request (cr_ID req) (store w) = None" unfolding find_request_def find_None_iff_key .
  from pg_create [OF s perm run] obtain c where l': "ledger bd bq (store w')"
    and "created E cfg (inp\<lparr>ci_CorrelationID := c\<rparr>) ?hash (time_of w) (store w) req (store w')" by auto
  from created_stored [OF this(2)] l' have "find_request (cr_ID req) (store w') = Some (unstamp_request req)"
    unfolding find_request_def
    by (simp add: find_Some_iff_distinct ledger_def book_def requests_distinct_def)
  with run fresh req(3-5) show ?thesis by blast
qed

lemma order_decides_sample:
  "orderable idle_tables (order key ''cpu'' n) \<longleftrightarrow> key \<noteq> [] \<and> 0 < n \<and> n \<le> maxAmount"
  by (auto simp: orderable_def order_def input_ok_def maxLinesPerRequest_def in_int4_def product_of_def wanted_def
      amount_ok_def aligned_def idle_tables_def sample_pools_def)

lemma refusal_sample:
  assumes "n \<le> 11"
  shows "refusal idle_tables (order key ''cpu'' n) \<longleftrightarrow> 10 < n"
proof -
  have "lacks idle_tables ''acme'' (''cpu'', n) reason \<longleftrightarrow> reason = ReasonInsufficientCapacity \<and> 10 < n" for reason
    using assms sample_effective [of 0]
    by (cases reason) (simp_all add: idle_tables_def sample_pools_def defaultQuotaLimit_def)
  then show ?thesis by (simp add: refusal_def order_def product_of_def wanted_def)
qed

theorem create_decides_witness:
  "\<exists>r1 w1 r2 w2. CreateRequest sample_service (order ''k2'' ''cpu'' 10) idle = (Inr r1, w1) \<and> cr_Status r1 = StatusReserved \<and>
     CreateRequest sample_service (order ''k2'' ''cpu'' 11) idle = (Inr r2, w2) \<and> cr_Status r2 = StatusRejected"
proof -
  have able: "able (w_uuids idle) (w_drawn idle) idle"
    by (simp add: able_def idle_def world_of_def faultless_def row_ids_def idle_tables_def inj_def)
  have lim: "under_limit sample_cfg (ci_CustomerID (order ''k2'' ''cpu'' n)) (store idle)" for n
  proof -
    have "cfg_MaxActiveHoldsPerCustomer sample_cfg = 10" by code_simp
    then show ?thesis by (simp add: under_limit_def count_reserved_def idle_tables_def)
  qed
  have new: "find_idem (ci_CustomerID (order ''k2'' ''cpu'' n)) (ci_IdempotencyKey (order ''k2'' ''cpu'' n)) (store idle) = None" for n
    by (simp add: find_idem_def idle_tables_def)
  have miss: "not_filed NoopIdempotency (order ''k2'' ''cpu'' n) (w_redis idle)" for n
    by (simp add: not_filed_def NoopIdempotency_def ret_def)
  have "orderable (store idle) (order ''k2'' ''cpu'' n)" if "n = 10 \<or> n = 11" for n
    using that by (auto simp: order_decides_sample maxAmount_def)
  note decided = create_decides [OF sound_idle sample_range able this lim new miss, of _ NoopCache, folded sample_service_def]
  from decided [of 10] decided [of 11] show ?thesis by (auto simp: refusal_sample)
qed

subsection \<open>Two gaps in the validation\<close>

text \<open>
  The quantity of an order by lines is not bounded: a value that does not fit the column is refused by the
  database, and the error is none of the service's own. The amounts of a template are multiplied before they
  are compared with the maximum: a product that wraps around is accepted.
\<close>

lemma large_quantity_fails:
  "case fst (CreateRequest sample_service ((order ''k2'' ''cpu'' 4)\<lparr>ci_Quantity := 2147483648\<rparr>) idle) of
     Inl e \<Rightarrow> AsAppError e = None | Inr req \<Rightarrow> False"
  by code_simp

lemma template_amount_wraps:
  "resolve_template 4 [(''cpu'', 4611686018427387905)] [] = Inr [(''cpu'', 4)]"
  by code_simp

end
