(* ===== verification/Spec2Isabelle.thy ===== *)
theory Spec2Isabelle
  imports Capacity_Properties Create_Properties Lifecycle_Properties Body_Fingerprint Memory_Properties Redis_Properties
    Redis_Degradation Cached_Listing Http_Properties Http_Answers Sweeper_Process
    Interleavings Process_Start Rejections Body_Decoding Create_Decides
begin

text \<open>
  A verification development for the cloud capacity manager: a Go service that sells capacity of
  resource pools by reserving it, confirming or cancelling the reservation, and expiring what nobody
  confirmed in time. Everything below is a shallow embedding of the code under \<^verbatim>\<open>src/\<close>; every
  definition computes, and names follow the source.

  \<^bold>\<open>The program.\<close> \<^verbatim>\<open>cmd/server\<close> answers HTTP requests through
  \<^verbatim>\<open>internal/httpapi\<close> behind the middleware of \<^verbatim>\<open>internal/observability\<close>;
  \<^verbatim>\<open>cmd/sweeper\<close> calls \<^verbatim>\<open>ExpireDue\<close> on a timer. Both work on the capacity service
  (\<^verbatim>\<open>internal/service/capacity.go\<close>), which reads and writes Postgres through the interfaces of
  \<^verbatim>\<open>internal/ports\<close> and keeps listings and idempotency keys in Redis. The authority is Postgres:
  conditional UPDATEs on the counters of pools and quotas decide what is granted.

  \<^bold>\<open>The model's layers.\<close> A Go function with effects is a function from a state to a result and the
  state left (\<open>Go_Prelude\<close>: \<open>ret\<close>, \<open>fail\<close>, \<open>andThen\<close>, \<open>attempt\<close>, \<open>forEach\<close>); an error is a value of
  \<open>go_error\<close>. \<open>Go_Hoare\<close> has the rules of total correctness for such functions. The state of the
  service is the record \<open>world\<close> (\<open>Service_World\<close>): the repositories' state, the Redis state, the clock and
  the UUIDs as streams with a position, and the metrics.

  \<^item> \<open>Domain_Model\<close>, \<open>Float64\<close>, \<open>App_Config\<close>: \<^verbatim>\<open>internal/domain\<close> and
    \<^verbatim>\<open>internal/config\<close>; 64-bit integers as \<open>int\<close> with \<open>i64\<close> where they wrap, doubles as
    mantissa and exponent with rounding to 53 bits.
  \<^item> \<open>Store_Spec\<close>: the tables of the schema and what each repository method does to them, abstractly.
    \<open>Port_Interfaces\<close>: the Go interfaces as records of functions, and as locales with the laws the service
    relies on, stated over an abstraction function and an invariant.
  \<^item> \<open>Pg_Database\<close>: \<^verbatim>\<open>internal/repository/postgres\<close>, one definition per SQL statement with
    the constraints of \<^verbatim>\<open>migrations/\<close> and scheduled faults. \<open>Pg_Laws\<close>, \<open>Pg_Request_Laws\<close>
    interpret the locales on it.
  \<^item> \<open>Memory_Store\<close>: \<^verbatim>\<open>internal/repository/memory\<close>, the fakes of the tests; \<open>Memory_Laws\<close>
    interprets the same locales, \<open>Repository_Calls\<close> and \<open>Memory_Agreement\<close> compare the answers of the two.
  \<^item> \<open>Service_Create\<close>, \<open>Service_Lifecycle\<close>: \<^verbatim>\<open>capacity.go\<close>, operation by operation.
    \<open>Go_Json\<close> and \<open>Json_Text\<close>, \<open>Json_Codec\<close>: the JSON the code writes and reads.
  \<^item> \<open>Redis_Stores\<close>: \<^verbatim>\<open>internal/repository/redisx\<close>. \<open>Http_Api\<close>:
    \<^verbatim>\<open>internal/httpapi\<close>. \<open>Observability\<close>, \<open>Process_Wiring\<close>: the metrics, the middleware and how
    \<^verbatim>\<open>internal/fxmodules\<close> composes all this, with the loop of the sweeper.
    \<open>Sweeper_Process\<close>: starting and stopping the sweeper, its ticker and its stop channel, as a labelled step
    relation that interleaves its rounds with calls of the API. \<open>Process_Start\<close>: connecting, migrating, the
    handle's own advisory lock.

  \<^bold>\<open>How the proofs go.\<close> \<open>Ledger\<close> states the books: a pool's reserved and dedicated counters are the
  sums of its ACTIVE and DEDICATED holds, a quota's used amount the sum of its customer's live holds.
  \<open>Service_Rules\<close> is the locale \<open>capacity_client\<close>, the service over any repositories that keep their
  promises; \<open>Create_Plans\<close>, \<open>Create_Laws\<close> and \<open>Lifecycle_Laws\<close> prove there what each call does to the
  store (\<open>created\<close>, \<open>confirm_effect\<close>, \<open>release_effect\<close>, ...) and that the books stay right, once for all
  repositories. \<open>Pg_Service\<close> interprets it on Postgres. \<open>Abstract_Steps\<close> is the abstract machine whose
  steps the calls refine, \<open>Reachable_States\<close> the reachable worlds and their invariants by rule induction,
  \<open>Effect_Facts\<close> and \<open>Run_Facts\<close> what the effects say of counters, statuses and bounds.
  \<open>Fault_Free\<close> proves success: in a calm world (no scheduled fault, rows that satisfy the schema, fresh
  event ids) the statements of cancelling and sweeping cannot fail; \<open>Create_Progress\<close> does the same for the
  statements of a creation.

  \<^bold>\<open>The properties.\<close> \<open>Capacity_Properties\<close>: no oversubscription, no exceeded quota, refinement of the
  abstract machine, terminal statuses are final, bounds on extensions and on active holds.
  \<open>Create_Properties\<close>, \<open>Body_Fingerprint\<close>: a creation is all or nothing, reserves exactly what was asked,
  replays change nothing, plans do not depend on map order, body hashes identify bodies. \<open>Rejections\<close>: a
  rejection names a reason that is true of the store, bad input touches nothing. \<open>Create_Progress\<close>,
  \<open>Create_Decides\<close>: with a database that answers, a valid order is decided, RESERVED exactly if everything fits.
  \<open>Lifecycle_Properties\<close>: what confirming, cancelling, extending and sweeping change, and what they refuse.
  \<open>Sweeper_Progress\<close>: cancelling succeeds, the sweeper catches up a hundred requests per tick and oldest
  first. \<open>Sweeper_Process\<close>: in every run next to the API, requests expire only by the sweeps and as many as they
  report, and the loop stops when told. \<open>Interleavings\<close>: what happens when other sessions commit between
  the reads and the writes of a transaction; confirming is safe, releasing gives amounts back twice, and the
  limit on active holds can be passed by two creations at once. \<open>Process_Start\<close>: the
  migration is retried, a failed start leaks no connections. \<open>Memory_Properties\<close>: the fakes answer like Postgres
  up to the order of lists.
  \<open>Redis_Properties\<close>, \<open>Redis_Degradation\<close>, \<open>Cached_Listing\<close>: customers stay apart, Redis is dispensable, the
  cached listing is read back unchanged. \<open>Metric_Labels\<close>, \<open>Http_Properties\<close>, \<open>Http_Answers\<close>: the same books
  after any sequence of HTTP requests, safe GETs, bodies read as meant (\<open>Body_Decoding\<close>), truthful status codes, request counting, readiness,
  label arity. \<open>Sample_World\<close> and \<open>Sample_Http\<close> hold the concrete system on which the hypotheses are shown
  to be satisfiable.

  \<^bold>\<open>Bounds and fuel.\<close> Only the JSON parser carries fuel: twice the length of the text, which bounds the number of
  nested calls because every other one consumes a character; \<open>unmarshal_print\<close> shows it to be enough for everything
  the program prints. The sweeper's batch is the 100 of the code.

  \<^bold>\<open>Parameters.\<close> Not under \<^verbatim>\<open>src/\<close> and therefore arguments: the Redis client (with
  \<open>redis_obeys\<close>), SHA-256, UUID generation and text, the texts of times and floats, the iteration order of
  Go maps, the environment variables and number parsers, the chi router and the Prometheus page, pgx and
  golang-migrate where a process starts (\<open>pgx_obeys\<close>).

  \<^bold>\<open>Not modelled.\<close> Logging, the latency histogram, contexts and timeouts (a timeout is a scheduled fault),
  listeners, shutdown and the dependency injection framework (which constructor runs when), row scanning
  (folded into the reads), and the mutexes of the fakes. In the theorems on runs each call of the service
  runs alone; only \<open>Interleavings\<close> lets other calls commit inside a transaction, between its reads and
  its writes.

  \<^bold>\<open>Where the model is coarser than the code.\<close> Text columns take any bytes, where Postgres refuses NUL and
  malformed UTF-8 (answered 503). Strings are byte lists: JSON output copies bytes from 128 on, where Go replaces
  malformed UTF-8 by U+FFFD and escapes U+2028 and U+2029. A failed COMMIT is a rolled back transaction; that
  the server committed and only the answer was lost is left out. Every connection the locker takes has a session
  of its own; that a pooled session comes back after a failed unlock is left out. Counting a metric cannot fail,
  where the Prometheus client panics on label values that are not UTF-8. UUIDs are numbers without an upper
  bound, and drawn ones never repeat where a theorem says so; a theorem on their text asks only for those of 128
  bits or says which it needs. The answers of the fakes and of the database are compared without the order of lists.
\<close>

end
